(* ===== verification/Prelude.thy ===== *)
theory Prelude
  imports Complex_Main "HOL-Library.AList" "HOL-Library.Sublist" "HOL-Library.List_Lexorder"
    "HOL-Library.Char_ord" "HOL-Library.Product_Lexorder"
begin

text \<open>
  Shared vocabulary of the development: the exceptions the Python code raises, the result type
  of fallible code, insertion-ordered dictionaries, the few string functions the sources use, and
  the collections of facts the component proofs share. Instants are microseconds since the epoch
  of a timezone-aware \<^verbatim>\<open>datetime\<close>; \<open>timedelta\<close> values are microseconds too.
\<close>

section \<open>Exceptions and results\<close>

text \<open>
  One constructor per exception class the modelled code raises on its own behalf or lets through.
  The argument is the message, code or list of reasons the class carries.
\<close>

datatype exn =
    ValueError string
  | KeyError string
  | AssertionError
  | AttributeError
  | InvalidOperation
  | DivisionByZero
  | RuntimeError string
  | IllegalOrderTransition
  | PermitRejected string
  | LedgerRejected string
  | OrderRejected string
  | GovernorError string
  | PromotionRefused "string list"
  | ExecutorHalted string
  | VenueError string
  | DatabaseError
  | HTTPException int string
  | TypeError string
  | OverflowError
  | AllocationRefused
  | AgentEliminated string

type_synonym 'a res = "exn + 'a"

definition res_bind :: "'a res \<Rightarrow> ('a \<Rightarrow> 'b res) \<Rightarrow> 'b res" where
  "res_bind m f = (case m of Inl e \<Rightarrow> Inl e | Inr x \<Rightarrow> f x)"

lemma res_bind_simps [simp]:
  "res_bind (Inl e) f = Inl e"
  "res_bind (Inr x) f = f x"
  by (simp_all add: res_bind_def)

lemma res_bind_Inr_conv: "res_bind m f = Inr y \<longleftrightarrow> (\<exists>x. m = Inr x \<and> f x = Inr y)"
  by (cases m) auto

lemma res_bind_Inl_conv:
  "res_bind m f = Inl e \<longleftrightarrow> m = Inl e \<or> (\<exists>x. m = Inr x \<and> f x = Inl e)"
  by (cases m) auto

text \<open>Is the outcome a value (as opposed to an exception)?\<close>

definition returned :: "'a res \<Rightarrow> bool" where
  "returned m = (case m of Inl _ \<Rightarrow> False | Inr _ \<Rightarrow> True)"

lemma returned_simps [simp]: "\<not> returned (Inl e)" "returned (Inr x)"
  by (simp_all add: returned_def)

lemma returned_conv: "returned m \<longleftrightarrow> (\<exists>x. m = Inr x)"
  by (cases m) auto

type_synonym instant = int
type_synonym timedelta = int

abbreviation seconds :: "int \<Rightarrow> timedelta" where
  "seconds n \<equiv> n * 1000000"

abbreviation minutes :: "int \<Rightarrow> timedelta" where
  "minutes n \<equiv> n * 60000000"

abbreviation days :: "int \<Rightarrow> timedelta" where
  "days n \<equiv> n * 86400000000"

section \<open>Dictionaries\<close>

text \<open>
  A Python \<^verbatim>\<open>dict\<close> keeps insertion order and assignment to a present key keeps its place, which
  is what the library's association lists do.
\<close>

type_synonym ('k, 'v) dict = "('k \<times> 'v) list"

abbreviation dget :: "('k, 'v) dict \<Rightarrow> 'k \<Rightarrow> 'v option" where
  "dget \<equiv> map_of"

abbreviation dset :: "'k \<Rightarrow> 'v \<Rightarrow> ('k, 'v) dict \<Rightarrow> ('k, 'v) dict" where
  "dset \<equiv> AList.update"

abbreviation ddel :: "'k \<Rightarrow> ('k, 'v) dict \<Rightarrow> ('k, 'v) dict" where
  "ddel \<equiv> AList.delete"

abbreviation dkeys :: "('k, 'v) dict \<Rightarrow> 'k list" where
  "dkeys d \<equiv> map fst d"

abbreviation dvalues :: "('k, 'v) dict \<Rightarrow> 'v list" where
  "dvalues d \<equiv> map snd d"

abbreviation dict_ok :: "('k, 'v) dict \<Rightarrow> bool" where
  "dict_ok d \<equiv> distinct (dkeys d)"

definition dget_or :: "('k, 'v) dict \<Rightarrow> 'k \<Rightarrow> 'v \<Rightarrow> 'v" where
  "dget_or d k v = (case dget d k of None \<Rightarrow> v | Some x \<Rightarrow> x)"

lemma dget_dset [simp]: "dget (dset k v d) k' = (if k' = k then Some v else dget d k')"
  by (simp add: update_conv)

lemma dget_ddel [simp]: "dget (ddel k d) k' = (if k' = k then None else dget d k')"
  by (simp add: delete_conv)

lemma dict_ok_dset [simp]: "dict_ok d \<Longrightarrow> dict_ok (dset k v d)"
  by (rule distinct_update)

lemma dkeys_dset_set [simp]: "set (dkeys (dset k v d)) = insert k (set (dkeys d))"
  by (induction d) auto

lemma fst_dset_set [simp]: "fst ` set (dset k v d) = insert k (fst ` set d)"
  using dkeys_dset_set[of k v d] by (simp only: set_map)

lemma dget_None_iff: "dget d k = None \<longleftrightarrow> k \<notin> set (dkeys d)"
  by (simp add: map_of_eq_None_iff)

lemma dget_Some_in: "dget d k = Some v \<Longrightarrow> v \<in> set (dvalues d)"
  by (force dest: map_of_SomeD)

lemma dset_fresh: "dget d k = None \<Longrightarrow> dset k v d = d @ [(k, v)]"
  by (induction d) (auto split: if_splits)

lemma dict_ok_filter [simp]: "dict_ok d \<Longrightarrow> dict_ok (filter P d)"
  by (induction d) auto

lemma dget_filter_value:
  "dict_ok d \<Longrightarrow> dget (filter (\<lambda>(k, v). P v) d) k =
     (case dget d k of None \<Rightarrow> None | Some v \<Rightarrow> if P v then Some v else None)"
  by (induction d) (auto simp: map_of_eq_None_iff rev_image_eqI split: option.splits)

section \<open>Strings\<close>

definition startswith :: "string \<Rightarrow> string \<Rightarrow> bool" where
  "startswith s p = prefix p s"

fun join :: "string \<Rightarrow> string list \<Rightarrow> string" where
  "join sep [] = []"
| "join sep [x] = x"
| "join sep (x # y # xs) = x @ sep @ join sep (y # xs)"

fun split_on :: "char \<Rightarrow> string \<Rightarrow> string list" where
  "split_on c [] = [[]]"
| "split_on c (x # xs) =
     (if x = c then [] # split_on c xs
      else (case split_on c xs of [] \<Rightarrow> [[x]] | p # ps \<Rightarrow> (x # p) # ps))"

lemma split_on_nonempty: "split_on c s \<noteq> []"
  by (induction s) (auto split: list.splits)

lemma split_on_no_sep: "c \<notin> set s \<Longrightarrow> split_on c s = [s]"
  by (induction s) auto

lemma split_on_append:
  "c \<notin> set s \<Longrightarrow> split_on c (s @ c # t) = s # split_on c t"
  by (induction s) auto

lemma split_on_join:
  assumes "xs \<noteq> []" and "\<And>x. x \<in> set xs \<Longrightarrow> c \<notin> set x"
  shows "split_on c (join [c] xs) = xs"
  using assms
proof (induction "[c]" xs rule: join.induct)
  case (2 x)
  then show ?case by (simp add: split_on_no_sep)
next
  case (3 x y xs)
  then show ?case by (simp add: split_on_append)
qed simp

lemma join_inj:
  assumes "xs \<noteq> []" "ys \<noteq> []"
    and "\<And>x. x \<in> set xs \<Longrightarrow> c \<notin> set x" and "\<And>y. y \<in> set ys \<Longrightarrow> c \<notin> set y"
    and "join [c] xs = join [c] ys"
  shows "xs = ys"
  using assms split_on_join by metis

lemma join_split_on: "join [c] (split_on c s) = s"
proof (induction s)
  case (Cons x s)
  obtain p ps where ps: "split_on c s = p # ps"
    using split_on_nonempty by (cases "split_on c s") auto
  then show ?case using Cons by (cases ps) auto
qed simp

lemma split_on_parts: "p \<in> set (split_on c s) \<Longrightarrow> c \<notin> set p"
  by (induction s arbitrary: p) (auto split: if_splits list.splits)

text \<open>Decimal digits of a natural number, as \<^verbatim>\<open>str(int)\<close> prints it.\<close>

fun nat_str :: "nat \<Rightarrow> string" where
  "nat_str n = (if n < 10 then [char_of (48 + n)]
     else nat_str (n div 10) @ [char_of (48 + n mod 10)])"

declare nat_str.simps [simp del]

fun digits_val :: "string \<Rightarrow> nat" where
  "digits_val s = foldl (\<lambda>n c. 10 * n + (of_char c - 48)) 0 s"

lemma digits_val_nat_str [simp]: "digits_val (nat_str n) = n"
proof (induction n rule: nat_str.induct)
  case (1 n)
  then show ?case by (subst nat_str.simps) auto
qed

lemma nat_str_inj [simp]: "nat_str m = nat_str n \<longleftrightarrow> m = n"
  by (metis digits_val_nat_str)

section \<open>Folding a fallible step over a list\<close>

fun fold_res :: "('a \<Rightarrow> 's \<Rightarrow> 's res) \<Rightarrow> 'a list \<Rightarrow> 's \<Rightarrow> 's res" where
  "fold_res f [] s = Inr s"
| "fold_res f (x # xs) s = res_bind (f x s) (fold_res f xs)"

lemma fold_res_invariant:
  assumes "\<And>x s s'. x \<in> set xs \<Longrightarrow> P s \<Longrightarrow> f x s = Inr s' \<Longrightarrow> P s'"
    and "P s" and "fold_res f xs s = Inr s'"
  shows "P s'"
  using assms
proof (induction xs arbitrary: s)
  case (Cons x xs)
  from Cons.prems(3) obtain t where t: "f x s = Inr t" "fold_res f xs t = Inr s'"
    by (auto simp: res_bind_Inr_conv)
  have "P t" using Cons.prems(1)[of x s t] Cons.prems(2) t(1) by simp
  show ?case
    by (rule Cons.IH[OF _ \<open>P t\<close> t(2)]) (use Cons.prems(1) in auto)
qed simp

text \<open>A list comprehension whose element expression can raise.\<close>

fun map_res :: "('a \<Rightarrow> 'b res) \<Rightarrow> 'a list \<Rightarrow> 'b list res" where
  "map_res f [] = Inr []"
| "map_res f (x # xs) = res_bind (f x) (\<lambda>y. res_bind (map_res f xs) (\<lambda>ys. Inr (y # ys)))"

lemma map_res_Inr: "map_res f xs = Inr ys \<longleftrightarrow> list_all2 (\<lambda>x y. f x = Inr y) xs ys"
  by (induction xs arbitrary: ys) (auto simp: res_bind_Inr_conv list_all2_Cons1)

section \<open>Transactions\<close>

text \<open>The fate of a commit: it is made, it fails, or it is made and its acknowledgement is lost.\<close>

datatype store_fate = Saved | Not_Saved | Saved_Then_Lost

section \<open>Stateful operations\<close>

text \<open>
  An operation on a state gives its outcome and the state it leaves behind, also when it raises: what
  Python code has mutated before an exception stays mutated.
\<close>

type_synonym ('s, 'a) op = "'s \<Rightarrow> 'a res \<times> 's"

definition op_return :: "'a \<Rightarrow> ('s, 'a) op" where
  "op_return x s = (Inr x, s)"

definition op_raise :: "exn \<Rightarrow> ('s, 'a) op" where
  "op_raise e s = (Inl e, s)"

definition op_lift :: "'a res \<Rightarrow> ('s, 'a) op" where
  "op_lift r s = (r, s)"

definition op_read :: "('s \<Rightarrow> 'a) \<Rightarrow> ('s, 'a) op" where
  "op_read f s = (Inr (f s), s)"

definition op_modify :: "('s \<Rightarrow> 's) \<Rightarrow> ('s, unit) op" where
  "op_modify f s = (Inr (), f s)"

definition op_bind :: "('s, 'a) op \<Rightarrow> ('a \<Rightarrow> ('s, 'b) op) \<Rightarrow> ('s, 'b) op" where
  "op_bind m f s = (case m s of (Inl e, s') \<Rightarrow> (Inl e, s') | (Inr x, s') \<Rightarrow> f x s')"

text \<open>\<^verbatim>\<open>try\<close>: the outcome becomes a value.\<close>

definition op_try :: "('s, 'a) op \<Rightarrow> ('s, 'a res) op" where
  "op_try m s = (case m s of (r, s') \<Rightarrow> (Inr r, s'))"

text \<open>Loop over a list, stopping at the first exception.\<close>

fun op_iter :: "('a \<Rightarrow> ('s, 'b) op) \<Rightarrow> 'a list \<Rightarrow> ('s, 'b list) op" where
  "op_iter f [] = op_return []"
| "op_iter f (x # xs) = op_bind (f x) (\<lambda>y. op_bind (op_iter f xs) (\<lambda>ys. op_return (y # ys)))"

lemmas op_defs = op_return_def op_raise_def op_lift_def op_read_def op_modify_def op_bind_def op_try_def

lemma op_eqs [simp]:
  "op_return x s = (Inr x, s)" "op_raise e s = (Inl e, s)" "op_lift r s = (r, s)"
  "op_read f s = (Inr (f s), s)" "op_modify g s = (Inr (), g s)"
  by (simp_all add: op_defs)

lemma op_bind_simps [simp]:
  "m s = (Inr x, s') \<Longrightarrow> op_bind m f s = f x s'"
  "m s = (Inl e, s') \<Longrightarrow> op_bind m f s = (Inl e, s')"
  by (simp_all add: op_bind_def)

lemma op_bind_lift: "op_bind (op_lift (Inr x)) f = f x" "op_bind (op_return x) f = f x"
  by (rule ext, simp)+

lemma op_bind_cases:
  assumes "op_bind m f s = (r, s')"
  obtains (raised) e where "m s = (Inl e, s')" "r = Inl e"
  | (returned) x s1 where "m s = (Inr x, s1)" "f x s1 = (r, s')"
  using assms by (auto simp: op_bind_def split: prod.splits sum.splits)

subsection \<open>Contracts of operations\<close>

text \<open>From a state in \<open>P\<close> the operation returns a value and state in \<open>Q\<close>, or raises in a state in \<open>E\<close>.\<close>

definition contract :: "('s \<Rightarrow> bool) \<Rightarrow> ('s, 'a) op \<Rightarrow> ('a \<Rightarrow> 's \<Rightarrow> bool) \<Rightarrow> ('s \<Rightarrow> bool) \<Rightarrow> bool" where
  "contract P m Q E \<longleftrightarrow> (\<forall>s. P s \<longrightarrow> (case m s of (Inl e, s') \<Rightarrow> E s' | (Inr x, s') \<Rightarrow> Q x s'))"

lemma contractI:
  assumes "\<And>s e s'. P s \<Longrightarrow> m s = (Inl e, s') \<Longrightarrow> E s'" "\<And>s x s'. P s \<Longrightarrow> m s = (Inr x, s') \<Longrightarrow> Q x s'"
  shows "contract P m Q E"
  using assms by (auto simp: contract_def split: prod.splits sum.splits)

lemma contractD:
  assumes "contract P m Q E" "P s"
  shows "m s = (Inr x, s') \<Longrightarrow> Q x s'" "m s = (Inl e, s') \<Longrightarrow> E s'"
  using assms by (simp_all add: contract_def) fastforce+

lemma contract_bind:
  assumes "contract P m Q E" and "\<And>x. contract (Q x) (f x) R E"
  shows "contract P (op_bind m f) R E"
  using assms by (fastforce simp: contract_def op_bind_def split: prod.splits sum.splits)

lemma contract_return: "(\<And>s. P s \<Longrightarrow> Q x s) \<Longrightarrow> contract P (op_return x) Q E"
  by (simp add: contract_def)

lemma contract_raise: "(\<And>s. P s \<Longrightarrow> E s) \<Longrightarrow> contract P (op_raise e) Q E"
  by (simp add: contract_def)

lemma contract_lift:
  "(\<And>s e. P s \<Longrightarrow> r = Inl e \<Longrightarrow> E s) \<Longrightarrow> (\<And>s x. P s \<Longrightarrow> r = Inr x \<Longrightarrow> Q x s) \<Longrightarrow> contract P (op_lift r) Q E"
  by (auto simp: contract_def split: sum.splits)

lemma contract_read: "(\<And>s. P s \<Longrightarrow> Q (f s) s) \<Longrightarrow> contract P (op_read f) Q E"
  by (simp add: contract_def)

lemma contract_modify: "(\<And>s. P s \<Longrightarrow> Q () (f s)) \<Longrightarrow> contract P (op_modify f) Q E"
  by (simp add: contract_def)

lemma contract_try:
  assumes "contract P m Q E"
  shows "contract P (op_try m) (\<lambda>r s. case r of Inl e \<Rightarrow> E s | Inr x \<Rightarrow> Q x s) F"
  using assms by (fastforce simp: contract_def op_try_def split: prod.splits sum.splits)

lemma contract_weaken:
  assumes "contract P m Q E" "\<And>s. P' s \<Longrightarrow> P s" "\<And>x s. Q x s \<Longrightarrow> Q' x s" "\<And>s. E s \<Longrightarrow> E' s"
  shows "contract P' m Q' E'"
  using assms by (fastforce simp: contract_def split: prod.splits sum.splits)

lemma contract_iter:
  assumes "\<And>x. x \<in> set xs \<Longrightarrow> contract P (f x) (\<lambda>_. P) E"
  shows "contract P (op_iter f xs) (\<lambda>_. P) E"
  using assms
  by (induction xs) (auto intro!: contract_bind contract_return)

lemma contract_prod: "(\<And>a b. contract P (f a b) Q E) \<Longrightarrow> contract P (case p of (a, b) \<Rightarrow> f a b) Q E"
  by (cases p) simp

text \<open>A state that holds after every outcome.\<close>

lemma contract_outcome: "contract P m (\<lambda>_. Q) Q \<Longrightarrow> P s \<Longrightarrow> m s = (r, s') \<Longrightarrow> Q s'"
  by (cases r) (auto dest: contractD)

lemma contract_outcomeI: "(\<And>s r s'. P s \<Longrightarrow> m s = (r, s') \<Longrightarrow> Q s') \<Longrightarrow> contract P m (\<lambda>_. Q) Q"
  by (rule contractI) blast+

section \<open>Collections the components feed\<close>

named_theorems contract_simps \<open>definitions of the validated contracts, unfolded together\<close>
named_theorems oms_simps \<open>one-step equations of the order manager\<close>
named_theorems frame_simps \<open>fields an operation leaves alone\<close>

end
