(* ===== verification/Decimal.thy ===== *)
theory Decimal
  imports Prelude
begin

text \<open>
  Python's \<^verbatim>\<open>decimal\<close> module as the services use it: the default context, 28 significant digits
  and ROUND_HALF_EVEN. A finite Decimal is represented by its value, a rational; comparison,
  \<^verbatim>\<open>min\<close> and \<^verbatim>\<open>max\<close> are exact, every arithmetic operation (unary minus included) is the exact
  result rounded to 28 significant digits. Exponents beyond the context's range (999999) are not
  modelled. The interface the components rely on is the locale \<open>decimal_rounding\<close>, interpreted
  here on the rounding of the default context.
\<close>

section \<open>Rounding to 28 significant digits\<close>

abbreviation prec :: int where
  "prec \<equiv> 28"

fun ndigits :: "int \<Rightarrow> int" where
  "ndigits n = (if n < 1 then 0 else 1 + ndigits (n div 10))"

declare ndigits.simps [simp del]

text \<open>The adjusted exponent of a non-zero value: \<open>10^e \<le> |x| < 10^(e+1)\<close>.\<close>

definition dec_exp :: "rat \<Rightarrow> int" where
  "dec_exp x = (case quotient_of \<bar>x\<bar> of (n, d) \<Rightarrow>
     let e = ndigits n - ndigits d in if 10 powi e \<le> \<bar>x\<bar> then e else e - 1)"

definition round_half_even :: "rat \<Rightarrow> int" where
  "round_half_even x = (let f = \<lfloor>x\<rfloor>; r = x - of_int f in
     if r < 1/2 then f else if r > 1/2 then f + 1 else if even f then f else f + 1)"

definition dec_fix :: "rat \<Rightarrow> rat" where
  "dec_fix x = (if x = 0 then 0 else
     let k = prec - 1 - dec_exp x
     in of_int (round_half_even (x * 10 powi k)) * 10 powi (- k))"

lemma ndigits_pos: "0 < n \<Longrightarrow> 0 < ndigits n \<and> 10 powi (ndigits n - 1) \<le> (of_int n :: rat)
    \<and> (of_int n :: rat) < 10 powi (ndigits n)"
proof (induction n rule: ndigits.induct)
  case (1 n)
  show ?case
  proof (cases "n < 10")
    case True
    then have "n div 10 = 0" using 1 by simp
    then have "ndigits n = 1"
      using 1 by (subst ndigits.simps) (simp add: ndigits.simps[of 0])
    then show ?thesis using 1 True by simp
  next
    case False
    define m where "m = n div 10"
    define k where "k = ndigits m"
    have m: "0 < m" using False by (simp add: m_def)
    have IH: "0 < k" "10 powi (k - 1) \<le> (of_int m :: rat)" "(of_int m :: rat) < 10 powi k"
      using "1.IH" m False by (auto simp: m_def k_def)
    have nd: "ndigits n = 1 + k"
      using False by (subst ndigits.simps) (simp add: m_def k_def)
    have lo: "10 * m \<le> n" and hi: "n < 10 * (m + 1)"
      by (auto simp: m_def)
    have "10 powi (ndigits n - 1) = (10 :: rat) * 10 powi (k - 1)"
      using nd by (simp add: power_int_add_1' [symmetric])
    also have "\<dots> \<le> of_int (10 * m)" using IH by simp
    also have "\<dots> \<le> of_int n" using lo by (simp only: of_int_le_iff)
    finally have A: "10 powi (ndigits n - 1) \<le> (of_int n :: rat)" .
    have "m + 1 \<le> 10 ^ nat k"
    proof -
      have "(of_int m :: rat) < of_int (10 ^ nat k)"
        using IH by (simp add: power_int_def)
      then show ?thesis by (simp only: of_int_less_iff)
    qed
    then have "10 * (m + 1) \<le> 10 * 10 ^ nat k" by (rule mult_left_mono) simp
    then have "n < 10 * 10 ^ nat k" using hi by (rule less_le_trans[rotated])
    then have "(of_int n :: rat) < of_int (10 * 10 ^ nat k)" by (simp only: of_int_less_iff)
    also have "\<dots> = 10 powi (ndigits n)"
      using IH(1) nd by (simp add: power_int_def nat_add_distrib)
    finally show ?thesis using A nd IH(1) by simp
  qed
qed

lemma dec_exp_bounds:
  assumes "x \<noteq> 0"
  shows "10 powi (dec_exp x) \<le> \<bar>x\<bar>" and "\<bar>x\<bar> < 10 powi (dec_exp x + 1)"
proof -
  obtain n d where q: "quotient_of \<bar>x\<bar> = (n, d)" by (cases "quotient_of \<bar>x\<bar>")
  have d: "0 < d" using q by (rule quotient_of_denom_pos)
  have xd: "\<bar>x\<bar> = of_int n / of_int d" using q by (rule quotient_of_div)
  have n: "0 < n"
  proof -
    have "0 < (of_int n :: rat) / of_int d" using assms xd by simp
    then show ?thesis using d by (simp add: zero_less_divide_iff)
  qed
  define a where "a = ndigits n"
  define b where "b = ndigits d"
  have na: "10 powi (a - 1) \<le> (of_int n :: rat)" "(of_int n :: rat) < 10 powi a"
    and db: "10 powi (b - 1) \<le> (of_int d :: rat)" "(of_int d :: rat) < 10 powi b"
    using ndigits_pos[OF n] ndigits_pos[OF d] by (auto simp: a_def b_def)
  have d': "0 < (of_int d :: rat)" using d by simp
  have up: "\<bar>x\<bar> < 10 powi (a - b + 1)"
  proof -
    have "(of_int n :: rat) < 10 powi (a - b + 1) * 10 powi (b - 1)"
      using na(2) by (simp add: power_int_add [symmetric])
    also have "\<dots> \<le> 10 powi (a - b + 1) * of_int d"
      using db(1) by (simp add: mult_left_mono)
    finally show ?thesis using d' xd by (simp add: divide_less_eq)
  qed
  have lo: "10 powi (a - b - 1) \<le> \<bar>x\<bar>"
  proof -
    have "10 powi (a - b - 1) * of_int d \<le> (10 :: rat) powi (a - b - 1) * 10 powi b"
      using db(2) by (simp add: mult_left_mono)
    also have "\<dots> = 10 powi (a - 1)"
      by (simp add: power_int_add [symmetric])
    also have "\<dots> \<le> of_int n" by (rule na(1))
    finally show ?thesis using d' xd by (simp add: le_divide_eq)
  qed
  have e: "dec_exp x = (if 10 powi (a - b) \<le> \<bar>x\<bar> then a - b else a - b - 1)"
    using q by (simp add: dec_exp_def Let_def a_def b_def)
  show "10 powi (dec_exp x) \<le> \<bar>x\<bar>" using e lo by simp
  show "\<bar>x\<bar> < 10 powi (dec_exp x + 1)" using e up by (auto simp: not_le)
qed

lemma powi10_less: "(10 :: rat) powi a < 10 powi b \<Longrightarrow> a < b"
proof (rule ccontr)
  assume lt: "(10 :: rat) powi a < 10 powi b" and "\<not> a < b"
  then have "(10 :: rat) powi b \<le> 10 powi a" by (intro power_int_increasing) auto
  with lt show False by linarith
qed

lemma powi10_nonzero:
  assumes "10 powi e \<le> \<bar>x :: rat\<bar>"
  shows "x \<noteq> 0"
proof
  assume "x = 0"
  moreover have "0 < (10 :: rat) powi e" by simp
  ultimately show False using assms by linarith
qed

lemma dec_exp_unique:
  assumes "10 powi e \<le> \<bar>x\<bar>" and "\<bar>x\<bar> < 10 powi (e + 1)"
  shows "dec_exp x = e"
proof -
  have x: "x \<noteq> 0" using assms(1) by (rule powi10_nonzero)
  have "(10 :: rat) powi (dec_exp x) < 10 powi (e + 1)" and "(10 :: rat) powi e < 10 powi (dec_exp x + 1)"
    using dec_exp_bounds[OF x] assms by linarith+
  then show ?thesis using powi10_less[of "dec_exp x" "e + 1"] powi10_less[of e "dec_exp x + 1"]
    by linarith
qed

lemma dec_exp_minus [simp]: "dec_exp (- x) = dec_exp x"
  by (simp add: dec_exp_def)

subsection \<open>Round half to even\<close>

lemma round_half_even_of_int [simp]: "round_half_even (of_int n) = n"
  by (simp add: round_half_even_def Let_def)

lemma round_half_even_numeral [simp]: "round_half_even (numeral n) = numeral n"
  by (metis of_int_numeral round_half_even_of_int)

lemma round_half_even_bounds:
  "\<bar>of_int (round_half_even x) - x\<bar> \<le> 1 / 2"
proof -
  have "of_int \<lfloor>x\<rfloor> \<le> x" and "x < of_int \<lfloor>x\<rfloor> + 1" by linarith+
  then show ?thesis by (auto simp: round_half_even_def Let_def abs_le_iff)
qed

lemma round_half_even_mono:
  assumes "x \<le> y"
  shows "round_half_even x \<le> round_half_even y"
proof (cases "\<lfloor>x\<rfloor> = \<lfloor>y\<rfloor>")
  case True
  then show ?thesis using assms by (auto simp: round_half_even_def Let_def)
next
  case False
  then have "\<lfloor>x\<rfloor> + 1 \<le> \<lfloor>y\<rfloor>" using floor_mono[OF assms] by linarith
  moreover have "round_half_even x \<le> \<lfloor>x\<rfloor> + 1" and "\<lfloor>y\<rfloor> \<le> round_half_even y"
    by (auto simp: round_half_even_def Let_def)
  ultimately show ?thesis by linarith
qed

lemma round_half_even_minus: "round_half_even (- x) = - round_half_even x"
proof (cases "x = of_int \<lfloor>x\<rfloor>")
  case True
  then show ?thesis by (metis of_int_minus round_half_even_of_int)
next
  case False
  define f where "f = \<lfloor>x\<rfloor>"
  have lt: "of_int f < x" using False unfolding f_def by (metis of_int_floor_le order_le_less)
  have ub: "x < of_int f + 1" unfolding f_def by linarith
  have fm: "\<lfloor>- x\<rfloor> = - f - 1" by (rule floor_unique) (use lt ub in simp_all)
  show ?thesis
    unfolding round_half_even_def Let_def fm f_def[symmetric]
    by (auto simp: field_simps)
qed

subsection \<open>The context's rounding\<close>

lemma dec_fix_0 [simp]: "dec_fix 0 = 0"
  by (simp add: dec_fix_def)

lemma dec_fix_minus: "dec_fix (- x) = - dec_fix x"
  by (simp add: dec_fix_def Let_def round_half_even_minus)

text \<open>A value with at most 28 significant digits is left alone.\<close>

definition representable :: "rat \<Rightarrow> bool" where
  "representable x \<longleftrightarrow> (\<exists>m e. x = of_int m * 10 powi e \<and> \<bar>m\<bar> \<le> 10 ^ 28)"

text \<open>The same rounding read at any exponent whose decade holds the value, endpoints included.\<close>

lemma dec_fix_at:
  assumes "10 powi e \<le> \<bar>x\<bar>" and "\<bar>x\<bar> \<le> 10 powi (e + 1)"
  shows "dec_fix x = of_int (round_half_even (x * 10 powi (27 - e))) * 10 powi (e - 27)"
proof (cases "\<bar>x\<bar> = 10 powi (e + 1)")
  case False
  have "x \<noteq> 0" using assms(1) by (rule powi10_nonzero)
  moreover have "dec_exp x = e" using assms False by (intro dec_exp_unique) auto
  ultimately show ?thesis by (simp add: dec_fix_def Let_def)
next
  case True
  have x: "x \<noteq> 0" using assms(1) by (rule powi10_nonzero)
  have e: "dec_exp x = e + 1"
    by (rule dec_exp_unique) (simp_all add: True power_int_strict_increasing)
  have pw: "(10 :: rat) powi (e + 1) * 10 powi (27 - e) = of_int (10 ^ 28)"
    "(10 :: rat) powi (e + 1) * 10 powi (26 - e) = of_int (10 ^ 27)"
    by (simp_all add: power_int_add [symmetric])
  have u: "(10 :: rat) powi (e - 26) = 10 * 10 powi (e - 27)"
    by (simp add: power_int_add_1' [symmetric])
  have "x = 10 powi (e + 1) \<or> x = - (10 powi (e + 1))" using True by linarith
  then show ?thesis
    unfolding dec_fix_def Let_def e
    using x by (auto simp: pw round_half_even_minus u simp del: of_int_power)
qed

lemma dec_fix_representable:
  assumes "representable x"
  shows "dec_fix x = x"
proof (cases "x = 0")
  case False
  from assms obtain m e where x: "x = of_int m * 10 powi e" and m: "\<bar>m\<bar> \<le> 10 ^ 28"
    by (auto simp: representable_def)
  define a where "a = dec_exp x"
  have lo: "10 powi a \<le> \<bar>x\<bar>" and hi: "\<bar>x\<bar> < 10 powi (a + 1)"
    using dec_exp_bounds[OF False] by (auto simp: a_def)
  have absx: "\<bar>x\<bar> = of_int \<bar>m\<bar> * 10 powi e" using x by (simp add: abs_mult)
  have "\<bar>x\<bar> \<le> 10 powi (e + 28)"
  proof -
    have "(of_int \<bar>m\<bar> :: rat) \<le> of_int (10 ^ 28)" using m by (simp only: of_int_le_iff)
    then have "\<bar>x\<bar> \<le> of_int (10 ^ 28) * 10 powi e"
      unfolding absx by (intro mult_right_mono) simp_all
    also have "\<dots> = 10 powi (e + 28)" by (simp add: power_int_add)
    finally show ?thesis .
  qed
  show ?thesis
  proof (cases "a \<le> e + 27")
    case True
    have "x * 10 powi (27 - a) = of_int (m * 10 ^ nat (e + 27 - a))"
    proof -
      have "(10 :: rat) powi e * 10 powi (27 - a) = 10 powi (e + 27 - a)"
        by (simp add: power_int_add [symmetric] algebra_simps)
      also have "\<dots> = 10 ^ nat (e + 27 - a)"
        using True by (simp add: power_int_def)
      finally show ?thesis by (simp add: x mult.assoc)
    qed
    moreover have "dec_fix x = of_int (round_half_even (x * 10 powi (27 - a))) * 10 powi (a - 27)"
      using lo hi by (intro dec_fix_at) auto
    ultimately have "dec_fix x = x * 10 powi (27 - a) * 10 powi (a - 27)"
      by (simp only: round_half_even_of_int)
    then show ?thesis by (simp add: mult.assoc power_int_add [symmetric])
  next
    case False
    then have "(10 :: rat) powi (e + 28) \<le> 10 powi a"
      by (intro power_int_increasing) auto
    then have eq: "\<bar>x\<bar> = 10 powi a" using lo \<open>\<bar>x\<bar> \<le> 10 powi (e + 28)\<close> by linarith
    have pw: "(10 :: rat) powi a * 10 powi (27 - a) = of_int (10 ^ 27)"
      by (simp add: power_int_add [symmetric])
    have fx: "dec_fix (10 powi a) = 10 powi a"
    proof -
      have "dec_fix (10 powi a)
          = of_int (round_half_even (10 powi a * 10 powi (27 - a))) * 10 powi (a - 27)"
        by (rule dec_fix_at) (simp_all add: power_int_increasing)
      also have "\<dots> = of_int (10 ^ 27) * 10 powi (a - 27)"
        unfolding pw by (simp only: round_half_even_of_int)
      also have "\<dots> = 10 powi a" by (simp add: power_int_diff)
      finally show ?thesis .
    qed
    from eq have "x = 10 powi a \<or> x = - (10 powi a)" by linarith
    then show ?thesis using fx by (auto simp: dec_fix_minus)
  qed
qed simp

lemma representable_dec_fix: "representable (dec_fix x)"
proof (cases "x = 0")
  case True
  then show ?thesis by (auto simp: representable_def intro: exI[of _ 0])
next
  case False
  define a where "a = dec_exp x"
  define z where "z = x * 10 powi (27 - a)"
  have fx: "dec_fix x = of_int (round_half_even z) * 10 powi (a - 27)"
    using False by (simp add: dec_fix_def Let_def a_def z_def)
  have "\<bar>x\<bar> \<le> 10 powi (a + 1)" using dec_exp_bounds[OF False] by (simp add: a_def)
  then have "\<bar>z\<bar> \<le> 10 powi (a + 1) * 10 powi (27 - a)"
    unfolding z_def abs_mult by (intro mult_mono) simp_all
  also have "\<dots> = of_int (10 ^ 28)" by (simp add: power_int_add [symmetric])
  finally have z: "z \<le> of_int (10 ^ 28)" "- of_int (10 ^ 28) \<le> z" by linarith+
  have "round_half_even z \<le> 10 ^ 28"
    using round_half_even_mono[OF z(1)] by (simp only: round_half_even_of_int)
  moreover have "- (10 ^ 28) \<le> round_half_even z"
    using round_half_even_mono[OF z(2)]
    by (simp only: round_half_even_minus round_half_even_of_int)
  ultimately show ?thesis
    unfolding representable_def fx by (intro exI[of _ "round_half_even z"] exI[of _ "a - 27"]) auto
qed

lemma dec_fix_mono_pos:
  assumes "0 < x" and "x \<le> y"
  shows "dec_fix x \<le> dec_fix y"
proof -
  define a where "a = dec_exp x"
  define b where "b = dec_exp y"
  have x: "10 powi a \<le> x" "x < 10 powi (a + 1)" and y: "10 powi b \<le> y" "y < 10 powi (b + 1)"
    using dec_exp_bounds[of x] dec_exp_bounds[of y] assms by (auto simp: a_def b_def)
  have fx: "dec_fix x = of_int (round_half_even (x * 10 powi (27 - a))) * 10 powi (a - 27)"
    and fy: "dec_fix y = of_int (round_half_even (y * 10 powi (27 - b))) * 10 powi (b - 27)"
    using x y assms by (auto intro!: dec_fix_at)
  have "(10 :: rat) powi a < 10 powi (b + 1)" using x y assms by linarith
  then have "a \<le> b" using powi10_less[of a "b + 1"] by linarith
  show ?thesis
  proof (cases "a = b")
    case True
    show ?thesis unfolding fx fy True
      using assms by (intro mult_right_mono) (auto intro!: round_half_even_mono mult_right_mono)
  next
    case False
    have pow: "(10 :: rat) powi (a + 1) * 10 powi (27 - a) = of_int (10 ^ 28)"
      "(10 :: rat) powi b * 10 powi (27 - b) = of_int (10 ^ 27)"
      by (simp_all add: power_int_add [symmetric])
    have "x * 10 powi (27 - a) \<le> of_int (10 ^ 28)"
      unfolding pow(1) [symmetric] using x by (intro mult_right_mono) auto
    then have "round_half_even (x * 10 powi (27 - a)) \<le> 10 ^ 28"
      using round_half_even_mono by (metis round_half_even_of_int)
    then have "(of_int (round_half_even (x * 10 powi (27 - a))) :: rat) \<le> of_int (10 ^ 28)"
      by (simp only: of_int_le_iff)
    then have "dec_fix x \<le> of_int (10 ^ 28) * 10 powi (a - 27)"
      unfolding fx by (rule mult_right_mono) simp
    also have "\<dots> = 10 powi (a + 1)" by (simp add: power_int_add power_int_diff)
    also have "\<dots> \<le> 10 powi b" using False \<open>a \<le> b\<close> by (intro power_int_increasing) auto
    also have "\<dots> = of_int (10 ^ 27) * 10 powi (b - 27)" by (simp add: power_int_diff)
    also have "\<dots> \<le> dec_fix y"
    proof -
      have "of_int (10 ^ 27) \<le> y * 10 powi (27 - b)"
        unfolding pow(2) [symmetric] using y by (intro mult_right_mono) auto
      then have "10 ^ 27 \<le> round_half_even (y * 10 powi (27 - b))"
        using round_half_even_mono by (metis round_half_even_of_int)
      then have "(of_int (10 ^ 27) :: rat) \<le> of_int (round_half_even (y * 10 powi (27 - b)))"
        by (simp only: of_int_le_iff)
      then show ?thesis unfolding fy by (rule mult_right_mono) simp
    qed
    finally show ?thesis .
  qed
qed

lemma dec_fix_pos:
  assumes "0 < x"
  shows "0 < dec_fix x"
proof -
  have p: "0 < (10 :: rat) powi (dec_exp x)" by simp
  have "representable (10 powi dec_exp x)"
    unfolding representable_def by (intro exI[of _ 1] exI[of _ "dec_exp x"]) simp
  then have "10 powi (dec_exp x) = dec_fix (10 powi dec_exp x)"
    by (simp add: dec_fix_representable)
  also have "\<dots> \<le> dec_fix x"
    using dec_exp_bounds(1)[of x] assms by (intro dec_fix_mono_pos) (simp_all add: p)
  finally show ?thesis using p by linarith
qed

lemma dec_fix_mono: "x \<le> y \<Longrightarrow> dec_fix x \<le> dec_fix y"
proof (cases "0 < x")
  case False
  assume le: "x \<le> y"
  show ?thesis
  proof (cases "0 < y")
    case True
    have "dec_fix x \<le> 0" using False dec_fix_pos[of "- x"] by (cases "x = 0") (auto simp: dec_fix_minus)
    then show ?thesis using dec_fix_pos[OF True] by linarith
  next
    case nonpos: False
    show ?thesis
    proof (cases "y = 0")
      case True
      then show ?thesis using le dec_fix_pos[of "- x"] by (cases "x = 0") (auto simp: dec_fix_minus)
    next
      case False
      then have "dec_fix (- y) \<le> dec_fix (- x)"
        using le nonpos by (intro dec_fix_mono_pos) auto
      then show ?thesis by (simp add: dec_fix_minus)
    qed
  qed
qed (rule dec_fix_mono_pos)

text \<open>The error of one operation: half a unit in the 28th digit.\<close>

lemma dec_fix_error: "\<bar>dec_fix x - x\<bar> \<le> \<bar>x\<bar> / (2 * 10 ^ 27)"
proof (cases "x = 0")
  case False
  define a where "a = dec_exp x"
  define z where "z = x * 10 powi (27 - a)"
  have a: "10 powi a \<le> \<bar>x\<bar>" using dec_exp_bounds[OF False] by (simp add: a_def)
  have fx: "dec_fix x = of_int (round_half_even z) * 10 powi (a - 27)"
    using False by (simp add: dec_fix_def Let_def a_def z_def)
  have xz: "x = z * 10 powi (a - 27)"
    by (simp add: z_def mult.assoc power_int_add [symmetric])
  have "dec_fix x - x = (of_int (round_half_even z) - z) * 10 powi (a - 27)"
    by (metis fx left_diff_distrib xz)
  then have "\<bar>dec_fix x - x\<bar> = \<bar>of_int (round_half_even z) - z\<bar> * 10 powi (a - 27)"
    by (simp add: abs_mult)
  also have "\<dots> \<le> 1 / 2 * 10 powi (a - 27)"
    using round_half_even_bounds by (intro mult_right_mono) simp_all
  also have "\<dots> = 10 powi a / (2 * 10 ^ 27)" by (simp add: power_int_diff)
  also have "\<dots> \<le> \<bar>x\<bar> / (2 * 10 ^ 27)" using a by (intro divide_right_mono) auto
  finally show ?thesis .
qed simp

section \<open>The interface: a rounding of exact results\<close>

text \<open>
  What the services rely on of the decimal context: exact results are rounded by one function that
  keeps signs, order and values it has already rounded.
\<close>

locale decimal_rounding =
  fixes rnd :: "rat \<Rightarrow> rat"
  assumes rnd_zero: "rnd 0 = 0"
    and rnd_odd: "rnd (- x) = - rnd x"
    and rnd_mono: "x \<le> y \<Longrightarrow> rnd x \<le> rnd y"
    and rnd_pos: "0 < x \<Longrightarrow> 0 < rnd x"
    and rnd_idem: "rnd (rnd x) = rnd x"
begin

lemma rnd_nonneg: "0 \<le> x \<Longrightarrow> 0 \<le> rnd x"
  using rnd_mono[of 0 x] by (simp add: rnd_zero)

lemma rnd_sign_iff: "0 < rnd x \<longleftrightarrow> 0 < x"
  using rnd_pos[of x] rnd_mono[of x 0] by (auto simp: rnd_zero not_le [symmetric])

lemma rnd_nonneg_iff: "0 \<le> rnd x \<longleftrightarrow> 0 \<le> x"
  using rnd_sign_iff[of "- x"] by (auto simp: rnd_odd not_less [symmetric])

lemma rnd_zero_iff: "rnd x = 0 \<longleftrightarrow> x = 0"
  using rnd_sign_iff[of x] rnd_nonneg_iff[of x] by (auto simp: rnd_zero)

lemma rnd_neg_iff: "rnd x < 0 \<longleftrightarrow> x < 0"
  using rnd_nonneg_iff[of x] by (simp add: not_le [symmetric])

text \<open>A difference of Decimals has the sign of the exact difference: guards on it are exact.\<close>

lemma rnd_diff_nonneg: "0 \<le> rnd (a - b) \<longleftrightarrow> b \<le> a"
  by (simp add: rnd_nonneg_iff)

lemma rnd_le_fixed: "x \<le> y \<Longrightarrow> rnd y = y \<Longrightarrow> rnd x \<le> y"
  using rnd_mono[of x y] by simp

end

interpretation dec: decimal_rounding dec_fix
proof unfold_locales
  show "dec_fix (dec_fix x) = dec_fix x" for x
    by (rule dec_fix_representable[OF representable_dec_fix])
qed (simp_all add: dec_fix_minus dec_fix_mono dec_fix_pos)

lemmas dec_signs = dec.rnd_sign_iff dec.rnd_nonneg_iff dec.rnd_zero_iff dec.rnd_neg_iff

section \<open>The operators\<close>

definition dadd :: "rat \<Rightarrow> rat \<Rightarrow> rat" where "dadd x y = dec_fix (x + y)"
definition dsub :: "rat \<Rightarrow> rat \<Rightarrow> rat" where "dsub x y = dec_fix (x - y)"
definition dmul :: "rat \<Rightarrow> rat \<Rightarrow> rat" where "dmul x y = dec_fix (x * y)"
definition dneg :: "rat \<Rightarrow> rat" where "dneg x = dec_fix (- x)"
definition dabs :: "rat \<Rightarrow> rat" where "dabs x = dec_fix \<bar>x\<bar>"

text \<open>Division; the sources guard every divisor, a zero divisor raises.\<close>

definition ddiv :: "rat \<Rightarrow> rat \<Rightarrow> rat res" where
  "ddiv x y = (if y = 0 then Inl DivisionByZero else Inr (dec_fix (x / y)))"

text \<open>
  The remainder \<^verbatim>\<open>x % y\<close> takes the sign of the dividend; a quotient of more than 28 digits raises
  InvalidOperation (DivisionImpossible).
\<close>

definition dtrunc :: "rat \<Rightarrow> int" where
  "dtrunc x = (if 0 \<le> x then \<lfloor>x\<rfloor> else \<lceil>x\<rceil>)"

definition dmod :: "rat \<Rightarrow> rat \<Rightarrow> rat res" where
  "dmod x y = (if y = 0 \<or> 10 ^ 28 \<le> \<bar>dtrunc (x / y)\<bar> then Inl InvalidOperation
     else Inr (dec_fix (x - of_int (dtrunc (x / y)) * y)))"

text \<open>
  \<^verbatim>\<open>quantize(Decimal("0.00000001"), ROUND_UP)\<close>: away from zero on the grid of 8 decimals, an
  InvalidOperation when the coefficient would need more than 28 digits.
\<close>

definition quantize_up8 :: "rat \<Rightarrow> rat res" where
  "quantize_up8 x =
     (let c = (if 0 \<le> x then \<lceil>x * 10 ^ 8\<rceil> else \<lfloor>x * 10 ^ 8\<rfloor>)
      in if 10 ^ 28 \<le> \<bar>c\<bar> then Inl InvalidOperation else Inr (of_int c / 10 ^ 8))"

lemmas dec_ops = dadd_def dsub_def dmul_def dneg_def dabs_def

lemma dsub_nonneg [simp]: "0 \<le> dsub x y \<longleftrightarrow> y \<le> x"
  by (simp add: dsub_def dec_signs)

lemma dsub_pos [simp]: "0 < dsub x y \<longleftrightarrow> y < x"
  by (simp add: dsub_def dec_signs)

lemma dsub_neg [simp]: "dsub x y < 0 \<longleftrightarrow> x < y"
  by (simp add: dsub_def dec_signs)

lemma dsub_zero [simp]: "dsub x y = 0 \<longleftrightarrow> x = y"
  by (simp add: dsub_def dec_signs)

lemma dneg_sign [simp]: "dneg x < 0 \<longleftrightarrow> 0 < x" "dneg x = 0 \<longleftrightarrow> x = 0" "0 < dneg x \<longleftrightarrow> x < 0"
  by (simp_all add: dneg_def dec_signs)

lemma dadd_mono: "x \<le> x' \<Longrightarrow> y \<le> y' \<Longrightarrow> dadd x y \<le> dadd x' y'"
  by (simp add: dadd_def dec_fix_mono)

lemma dadd_ge_left: "0 \<le> y \<Longrightarrow> dec_fix x = x \<Longrightarrow> x \<le> dadd x y"
  unfolding dadd_def by (metis add.right_neutral add_left_mono dec_fix_mono)

lemma dadd_nonneg: "0 \<le> x \<Longrightarrow> 0 \<le> y \<Longrightarrow> 0 \<le> dadd x y"
  by (simp add: dadd_def dec_signs)

lemma dmul_nonneg: "0 \<le> x \<Longrightarrow> 0 \<le> y \<Longrightarrow> 0 \<le> dmul x y"
  by (simp add: dmul_def dec_signs)

lemma dmul_pos: "0 < x \<Longrightarrow> 0 < y \<Longrightarrow> 0 < dmul x y"
  by (simp add: dmul_def dec_signs)

lemma dec_fix_ops [simp]: "dec_fix (dadd x y) = dadd x y" "dec_fix (dsub x y) = dsub x y"
    "dec_fix (dmul x y) = dmul x y" "dec_fix (dneg x) = dneg x"
  by (simp_all add: dec_ops dec.rnd_idem)

text \<open>On a grid of \<open>k\<close> decimals and below \<open>10^(28-k)\<close> the context is exact.\<close>

definition on_grid :: "nat \<Rightarrow> rat \<Rightarrow> bool" where
  "on_grid k x \<longleftrightarrow> x * 10 ^ k \<in> \<int>"

lemma on_grid_add: "on_grid k x \<Longrightarrow> on_grid k y \<Longrightarrow> on_grid k (x + y)"
  by (simp add: on_grid_def distrib_right)

lemma on_grid_minus: "on_grid k x \<Longrightarrow> on_grid k (- x)"
  by (simp add: on_grid_def)

lemma on_grid_0 [simp]: "on_grid k 0"
  by (simp add: on_grid_def)

lemma dec_fix_grid:
  assumes "on_grid k x" and "\<bar>x\<bar> * 10 ^ k \<le> 10 ^ 28"
  shows "dec_fix x = x"
proof -
  from assms(1) obtain m :: int where m: "x * 10 ^ k = of_int m"
    by (auto simp: on_grid_def elim: Ints_cases)
  have "\<bar>of_int m :: rat\<bar> \<le> 10 ^ 28" using assms(2) by (simp add: m [symmetric] abs_mult)
  then have "(of_int \<bar>m\<bar> :: rat) \<le> of_int (10 ^ 28)" by simp
  then have "\<bar>m\<bar> \<le> 10 ^ 28" by (simp only: of_int_le_iff)
  moreover have "x = of_int m * 10 powi (- int k)"
    by (simp add: m [symmetric] power_int_minus)
  ultimately show ?thesis
    by (intro dec_fix_representable) (auto simp: representable_def)
qed

text \<open>Evaluating a rounding: scale by a power of ten to 28 digits and name the nearest integer.\<close>

lemma dec_fix_value:
  assumes "10 ^ 27 \<le> \<bar>x * 10 ^ j\<bar>" "\<bar>x * 10 ^ j\<bar> \<le> 10 ^ 28" "\<bar>x * 10 ^ j - of_int m\<bar> < 1 / 2"
  shows "dec_fix x = of_int m / 10 ^ j"
proof -
  let ?e = "27 - int j"
  have scale: "10 powi (27 - ?e) = (10 :: rat) ^ j" "10 powi (?e - 27) = (1 :: rat) / 10 ^ j"
    by (simp_all add: power_int_minus field_simps)
  have pj: "(10 :: rat) powi ?e = 10 ^ 27 / 10 ^ j" "(10 :: rat) powi (?e + 1) = 10 ^ 28 / 10 ^ j"
    by (simp_all add: power_int_diff power_int_add)
  have lo: "10 powi ?e \<le> \<bar>x\<bar>" unfolding pj(1) using assms(1) by (simp add: abs_mult pos_divide_le_eq)
  have hi: "\<bar>x\<bar> \<le> 10 powi (?e + 1)" unfolding pj(2) using assms(2) by (simp add: abs_mult pos_le_divide_eq)
  have "dec_fix x = of_int (round_half_even (x * 10 powi (27 - ?e))) * 10 powi (?e - 27)"
    by (rule dec_fix_at[OF lo hi])
  moreover have "round_half_even (x * 10 ^ j) = m"
    using round_half_even_bounds[of "x * 10 ^ j"] assms(3) by (auto simp: abs_if split: if_splits)
  ultimately show ?thesis by (simp add: scale power_int_minus divide_inverse)
qed

end
