(* ===== verification/Contracts.thy ===== *)
theory Contracts
  imports Decimal
begin

text \<open>
  The execution contracts of \<^verbatim>\<open>services/execution\<close>: the typed records of the authority chain
  (instrument, signal, intent, permit, report, ledger entry) with the validators their pydantic
  classes run, the order state machine, the constitutional limits and the order-grid catalog.

  A record stands for the validated object; the function with the class's name is its constructor:
  it runs the field constraints, then the model validators, and raises \<open>ValueError\<close>. Texts are
  strings, UUIDs are their canonical text. \<^verbatim>\<open>hashlib.sha256\<close> and the canonical JSON dump enter as
  the parameters \<open>sha256\<close> and \<open>fp\<close>; \<^verbatim>\<open>ZoneInfo\<close> enters as the predicate \<open>zone_ok\<close> of known zones.
\<close>

section \<open>Enumerations\<close>

datatype venue_id = V_PAPER | V_BINANCE_SPOT | V_XP_B3 | V_ALPACA_US

fun venue_value :: "venue_id \<Rightarrow> string" where
  "venue_value V_PAPER = ''PAPER''"
| "venue_value V_BINANCE_SPOT = ''BINANCE_SPOT''"
| "venue_value V_XP_B3 = ''XP_B3''"
| "venue_value V_ALPACA_US = ''ALPACA_US''"

datatype release_stage = RESEARCH | REPLAY | SHADOW | STAGE_PAPER | CANARY | LIVE

fun stage_value :: "release_stage \<Rightarrow> string" where
  "stage_value RESEARCH = ''RESEARCH''"
| "stage_value REPLAY = ''REPLAY''"
| "stage_value SHADOW = ''SHADOW''"
| "stage_value STAGE_PAPER = ''PAPER''"
| "stage_value CANARY = ''CANARY''"
| "stage_value LIVE = ''LIVE''"

datatype asset_class = CRYPTO | EQUITY | ETF | INDEX | PREDICTION_MARKET

datatype session_type = CONTINUOUS_24_7 | EXCHANGE_SESSION | CONTRACT_DEFINED

datatype side = BUY | SELL

datatype order_type = MARKET | LIMIT

datatype time_in_force = GTC | IOC | DAY

datatype signal_source = TRADINGVIEW | PROTO_STRATEGY | PROTO_AGENT

datatype signal_direction = LONG | SHORT | FLAT

datatype ledger_entry_kind = OPENING_BALANCE | TRADE | FEE | RESERVATION | RELEASE

fun kind_value :: "ledger_entry_kind \<Rightarrow> string" where
  "kind_value OPENING_BALANCE = ''OPENING_BALANCE''"
| "kind_value TRADE = ''TRADE''"
| "kind_value FEE = ''FEE''"
| "kind_value RESERVATION = ''RESERVATION''"
| "kind_value RELEASE = ''RELEASE''"

lemma venue_value_inj [simp]: "venue_value u = venue_value v \<longleftrightarrow> u = v"
  by (cases u; cases v) simp_all

lemma kind_value_inj [simp]: "kind_value j = kind_value k \<longleftrightarrow> j = k"
  by (cases j; cases k) simp_all

text \<open>Stages compare by their place in the enumeration (\<^verbatim>\<open>STAGE_ORDER = tuple(ReleaseStage)\<close>).\<close>

fun stage_index :: "release_stage \<Rightarrow> nat" where
  "stage_index RESEARCH = 0"
| "stage_index REPLAY = 1"
| "stage_index SHADOW = 2"
| "stage_index STAGE_PAPER = 3"
| "stage_index CANARY = 4"
| "stage_index LIVE = 5"

lemma stage_index_inj [simp]: "stage_index s = stage_index t \<longleftrightarrow> s = t"
  by (cases s; cases t) simp_all

instantiation release_stage :: linorder
begin

definition less_eq_release_stage :: "release_stage \<Rightarrow> release_stage \<Rightarrow> bool" where
  "less_eq_release_stage s t \<longleftrightarrow> stage_index s \<le> stage_index t"

definition less_release_stage :: "release_stage \<Rightarrow> release_stage \<Rightarrow> bool" where
  "less_release_stage s t \<longleftrightarrow> stage_index s < stage_index t"

instance
  by standard (auto simp: less_eq_release_stage_def less_release_stage_def)

end

lemmas stage_order_defs = less_eq_release_stage_def less_release_stage_def

section \<open>Timestamps\<close>

datatype py_datetime = Naive int | Aware instant

definition aware :: "py_datetime \<Rightarrow> instant res" where
  "aware value = (case value of Naive _ \<Rightarrow> Inl (ValueError ''timestamps must carry a timezone'')
     | Aware t \<Rightarrow> Inr t)"

abbreviation len_in :: "nat \<Rightarrow> nat \<Rightarrow> string \<Rightarrow> bool" where
  "len_in lo hi s \<equiv> lo \<le> length s \<and> length s \<le> hi"

abbreviation field_error :: exn where
  "field_error \<equiv> ValueError ''field constraint''"

definition require_namespace :: "string \<Rightarrow> venue_id \<Rightarrow> unit res" where
  "require_namespace instrument_id venue =
     (if \<not> startswith instrument_id (venue_value venue @ '':'')
      then Inl (ValueError ''instrument_id must be namespaced by its venue, e.g. VENUE:SYMBOL'')
      else Inr ())"

section \<open>Instruments\<close>

record tradable_instrument =
  ti_instrument_id :: string
  ti_venue :: venue_id
  ti_asset_class :: asset_class
  ti_base_asset :: string
  ti_quote_asset :: string
  ti_tick_size :: rat
  ti_lot_size :: rat
  ti_min_quantity :: rat
  ti_min_notional :: rat
  ti_session_type :: session_type
  ti_timezone :: string

definition instrument_fields :: "tradable_instrument \<Rightarrow> bool" where
  "instrument_fields i \<longleftrightarrow>
     len_in 3 160 (ti_instrument_id i) \<and> len_in 1 20 (ti_base_asset i) \<and>
     len_in 3 10 (ti_quote_asset i) \<and> 0 < ti_tick_size i \<and> 0 < ti_lot_size i \<and>
     0 < ti_min_quantity i \<and> 0 < ti_min_notional i \<and> len_in 1 80 (ti_timezone i)"

definition validate_identity :: "(string \<Rightarrow> bool) \<Rightarrow> tradable_instrument \<Rightarrow> tradable_instrument res"
where
  "validate_identity zone_ok i =
     res_bind (require_namespace (ti_instrument_id i) (ti_venue i)) (\<lambda>_.
     if \<not> zone_ok (ti_timezone i) then Inl (ValueError ''timezone must be a valid IANA timezone'')
     else if ti_asset_class i = PREDICTION_MARKET
     then Inl (ValueError ''prediction markets require separate legal and venue gates'')
     else Inr i)"

definition tradable_instrument_new ::
    "(string \<Rightarrow> bool) \<Rightarrow> tradable_instrument \<Rightarrow> tradable_instrument res" where
  "tradable_instrument_new zone_ok i =
     (if \<not> instrument_fields i then Inl field_error else validate_identity zone_ok i)"

definition order_violation :: "tradable_instrument \<Rightarrow> rat \<Rightarrow> rat \<Rightarrow> string option res" where
  "order_violation i quantity price =
     (if quantity < ti_min_quantity i then Inr (Some ''quantity below venue minimum'')
      else res_bind (dmod quantity (ti_lot_size i)) (\<lambda>r.
        if r \<noteq> 0 then Inr (Some ''quantity not on lot grid'')
        else if price \<le> 0 then Inr (Some ''price not on tick grid'')
        else res_bind (dmod price (ti_tick_size i)) (\<lambda>r'.
          if r' \<noteq> 0 then Inr (Some ''price not on tick grid'')
          else if dmul quantity price < ti_min_notional i
          then Inr (Some ''notional below venue minimum'')
          else Inr None)))"

section \<open>Signals\<close>

text \<open>\<open>sg_strength\<close> is a float of the source that is only compared, which is exact on its value.\<close>

record signal =
  sg_signal_id :: string
  sg_source :: signal_source
  sg_strategy_id :: string
  sg_instrument_id :: string
  sg_direction :: signal_direction
  sg_strength :: rat
  sg_timeframe :: string
  sg_observed_at :: instant
  sg_received_at :: instant

definition signal_new :: "signal \<Rightarrow> signal res" where
  "signal_new s =
     (if \<not> (len_in 1 120 (sg_strategy_id s) \<and> len_in 3 160 (sg_instrument_id s) \<and>
            0 \<le> sg_strength s \<and> sg_strength s \<le> 1 \<and> len_in 1 20 (sg_timeframe s))
      then Inl field_error
      else if sg_received_at s < sg_observed_at s
      then Inl (ValueError ''received_at cannot precede observed_at'')
      else Inr s)"

section \<open>Intents\<close>

record trade_intent =
  in_intent_id :: string
  in_instrument_id :: string
  in_venue :: venue_id
  in_side :: side
  in_quantity :: rat
  in_order_type :: order_type
  in_limit_price :: "rat option"
  in_time_in_force :: time_in_force
  in_reduce_only :: bool
  in_strategy_id :: string
  in_model_version :: string
  in_signal_ids :: "string list"
  in_stage :: release_stage
  in_created_at :: instant

definition intent_fields :: "trade_intent \<Rightarrow> bool" where
  "intent_fields i \<longleftrightarrow>
     len_in 3 160 (in_instrument_id i) \<and> 0 < in_quantity i \<and>
     (case in_limit_price i of None \<Rightarrow> True | Some p \<Rightarrow> 0 < p) \<and>
     len_in 1 120 (in_strategy_id i) \<and> len_in 1 80 (in_model_version i) \<and>
     1 \<le> length (in_signal_ids i) \<and> length (in_signal_ids i) \<le> 64"

definition validate_shape :: "trade_intent \<Rightarrow> trade_intent res" where
  "validate_shape i =
     res_bind (require_namespace (in_instrument_id i) (in_venue i)) (\<lambda>_.
     if in_order_type i = LIMIT \<and> in_limit_price i = None
     then Inl (ValueError ''limit_price is required for LIMIT intents'')
     else if in_order_type i = MARKET \<and> in_limit_price i \<noteq> None
     then Inl (ValueError ''limit_price is not allowed for MARKET intents'')
     else Inr i)"

definition trade_intent_new :: "trade_intent \<Rightarrow> trade_intent res" where
  "trade_intent_new i = (if \<not> intent_fields i then Inl field_error else validate_shape i)"

definition int_str :: "int \<Rightarrow> string" where
  "int_str n = (if n < 0 then ''-'' @ nat_str (nat (- n)) else nat_str (nat n))"

definition client_order_id :: "(string \<Rightarrow> string) \<Rightarrow> trade_intent \<Rightarrow> int \<Rightarrow> string res" where
  "client_order_id sha256 i attempt =
     (if attempt < 0 then Inl (ValueError ''attempt must be non-negative'')
      else Inr (''PX'' @ take 30 (sha256 (in_intent_id i @ '':'' @ int_str attempt))))"

section \<open>Risk permits\<close>

abbreviation MAX_PERMIT_LIFETIME :: timedelta where
  "MAX_PERMIT_LIFETIME \<equiv> seconds 60"

record risk_permit =
  rp_permit_id :: string
  rp_intent_id :: string
  rp_intent_fingerprint :: string
  rp_max_quantity :: rat
  rp_issued_at :: instant
  rp_expires_at :: instant
  rp_signature :: string

definition is_hex :: "char \<Rightarrow> bool" where
  "is_hex c \<longleftrightarrow> c \<in> set ''0123456789abcdef''"

definition hex_text :: "nat \<Rightarrow> string \<Rightarrow> bool" where
  "hex_text n s \<longleftrightarrow> length s = n \<and> list_all is_hex s"

definition signature_pattern :: "string \<Rightarrow> bool" where
  "signature_pattern s \<longleftrightarrow> hex_text 64 s \<or>
     (startswith s ''ed25519:'' \<and> hex_text 128 (drop 8 s))"

definition validate_lifetime :: "risk_permit \<Rightarrow> risk_permit res" where
  "validate_lifetime p =
     (let lifetime = rp_expires_at p - rp_issued_at p
      in if lifetime \<le> 0 \<or> lifetime > MAX_PERMIT_LIFETIME
         then Inl (ValueError ''permit lifetime must be positive and at most 60 seconds'')
         else Inr p)"

definition risk_permit_new :: "risk_permit \<Rightarrow> risk_permit res" where
  "risk_permit_new p =
     (if \<not> (hex_text 64 (rp_intent_fingerprint p) \<and> 0 < rp_max_quantity p \<and>
            signature_pattern (rp_signature p))
      then Inl field_error else validate_lifetime p)"

definition covers :: "(trade_intent \<Rightarrow> string) \<Rightarrow> risk_permit \<Rightarrow> trade_intent \<Rightarrow> instant \<Rightarrow> bool" where
  "covers fp p i now \<longleftrightarrow>
     rp_intent_id p = in_intent_id i \<and> rp_intent_fingerprint p = fp i \<and>
     in_quantity i \<le> rp_max_quantity p \<and> rp_issued_at p \<le> now \<and> now < rp_expires_at p"

section \<open>The order state machine\<close>

datatype order_status = NEW | SUBMITTED | ACKNOWLEDGED | PARTIALLY_FILLED | FILLED | CANCELED
  | REJECTED | UNKNOWN

fun status_value :: "order_status \<Rightarrow> string" where
  "status_value NEW = ''NEW''"
| "status_value SUBMITTED = ''SUBMITTED''"
| "status_value ACKNOWLEDGED = ''ACKNOWLEDGED''"
| "status_value PARTIALLY_FILLED = ''PARTIALLY_FILLED''"
| "status_value FILLED = ''FILLED''"
| "status_value CANCELED = ''CANCELED''"
| "status_value REJECTED = ''REJECTED''"
| "status_value UNKNOWN = ''UNKNOWN''"

definition TERMINAL_ORDER_STATUSES :: "order_status list" where
  "TERMINAL_ORDER_STATUSES = [FILLED, CANCELED, REJECTED]"

definition VENUE_CONFIRMED :: "order_status list" where
  "VENUE_CONFIRMED = [ACKNOWLEDGED, PARTIALLY_FILLED, FILLED, CANCELED, REJECTED]"

fun ALLOWED_TRANSITIONS :: "order_status \<Rightarrow> order_status list" where
  "ALLOWED_TRANSITIONS NEW = [SUBMITTED, REJECTED]"
| "ALLOWED_TRANSITIONS SUBMITTED = VENUE_CONFIRMED @ [UNKNOWN]"
| "ALLOWED_TRANSITIONS ACKNOWLEDGED = [PARTIALLY_FILLED, FILLED, CANCELED, UNKNOWN]"
| "ALLOWED_TRANSITIONS PARTIALLY_FILLED = [PARTIALLY_FILLED, FILLED, CANCELED, UNKNOWN]"
| "ALLOWED_TRANSITIONS UNKNOWN = VENUE_CONFIRMED"
| "ALLOWED_TRANSITIONS _ = []"

definition transition :: "order_status \<Rightarrow> order_status \<Rightarrow> order_status res" where
  "transition current new =
     (if new \<notin> set (ALLOWED_TRANSITIONS current) then Inl IllegalOrderTransition else Inr new)"

abbreviation terminal :: "order_status \<Rightarrow> bool" where
  "terminal s \<equiv> s \<in> set TERMINAL_ORDER_STATUSES"

section \<open>Execution reports and ledger entries\<close>

record execution_report =
  er_venue :: venue_id
  er_client_order_id :: string
  er_venue_order_id :: "string option"
  er_instrument_id :: string
  er_side :: side
  er_status :: order_status
  er_quantity :: rat
  er_filled_quantity :: rat
  er_average_price :: "rat option"
  er_fee :: rat
  er_fee_asset :: "string option"
  er_reason :: "string option"
  er_reported_at :: instant

abbreviation opt_len :: "nat \<Rightarrow> string option \<Rightarrow> bool" where
  "opt_len n s \<equiv> (case s of None \<Rightarrow> True | Some x \<Rightarrow> length x \<le> n)"

definition report_fields :: "execution_report \<Rightarrow> bool" where
  "report_fields r \<longleftrightarrow>
     len_in 1 36 (er_client_order_id r) \<and> opt_len 80 (er_venue_order_id r) \<and>
     len_in 3 160 (er_instrument_id r) \<and> 0 < er_quantity r \<and> 0 \<le> er_filled_quantity r \<and>
     (case er_average_price r of None \<Rightarrow> True | Some p \<Rightarrow> 0 < p) \<and> 0 \<le> er_fee r \<and>
     opt_len 10 (er_fee_asset r) \<and> opt_len 200 (er_reason r)"

definition validate_fills :: "execution_report \<Rightarrow> execution_report res" where
  "validate_fills r =
     (if er_filled_quantity r > er_quantity r
      then Inl (ValueError ''filled_quantity cannot exceed quantity'')
      else if (er_filled_quantity r > 0) \<noteq> (er_average_price r \<noteq> None)
      then Inl (ValueError ''average_price is required exactly when something filled'')
      else if er_status r = FILLED \<and> er_filled_quantity r \<noteq> er_quantity r
      then Inl (ValueError ''FILLED requires the full quantity'')
      else if er_status r = PARTIALLY_FILLED \<and>
              \<not> (0 < er_filled_quantity r \<and> er_filled_quantity r < er_quantity r)
      then Inl (ValueError ''PARTIALLY_FILLED requires a partial quantity'')
      else Inr r)"

definition execution_report_new :: "execution_report \<Rightarrow> execution_report res" where
  "execution_report_new r = (if \<not> report_fields r then Inl field_error else validate_fills r)"

definition report_ok :: "execution_report \<Rightarrow> bool" where
  "report_ok r \<longleftrightarrow> returned (execution_report_new r)"

record ledger_entry =
  le_entry_id :: string
  le_account_id :: string
  le_venue :: venue_id
  le_asset :: string
  le_amount :: rat
  le_kind :: ledger_entry_kind
  le_reference_id :: string
  le_recorded_at :: instant

definition validate_sign :: "ledger_entry \<Rightarrow> ledger_entry res" where
  "validate_sign e =
     (if le_kind e = OPENING_BALANCE \<and> le_amount e < 0
      then Inl (ValueError ''an opening balance must be positive'')
      else if le_kind e = FEE \<and> le_amount e > 0
      then Inl (ValueError ''a fee entry must debit the account'')
      else if le_kind e = RESERVATION \<and> le_amount e > 0
      then Inl (ValueError ''a reservation entry must debit available balance'')
      else if le_kind e = RELEASE \<and> le_amount e < 0
      then Inl (ValueError ''a release entry must credit available balance'')
      else Inr e)"

definition ledger_entry_new :: "ledger_entry \<Rightarrow> ledger_entry res" where
  "ledger_entry_new e =
     (if \<not> (len_in 1 80 (le_account_id e) \<and> len_in 1 20 (le_asset e) \<and>
            len_in 1 80 (le_reference_id e)) then Inl field_error
      else if le_amount e = 0 then Inl (ValueError ''ledger entries must move a non-zero amount'')
      else validate_sign e)"

lemmas [contract_simps] = require_namespace_def validate_identity_def tradable_instrument_new_def
  instrument_fields_def signal_new_def intent_fields_def validate_shape_def trade_intent_new_def
  validate_lifetime_def risk_permit_new_def report_fields_def validate_fills_def
  execution_report_new_def report_ok_def validate_sign_def ledger_entry_new_def

section \<open>Constitutional limits\<close>

definition REFERENCE_CAPITAL :: rat where "REFERENCE_CAPITAL = 10000"
definition MAX_RISK_PER_POSITION :: rat where "MAX_RISK_PER_POSITION = 25 / 10000"
definition MAX_DAILY_LOSS :: rat where "MAX_DAILY_LOSS = 1 / 100"
definition MAX_DRAWDOWN :: rat where "MAX_DRAWDOWN = 5 / 100"
definition MAX_GROSS_LEVERAGE :: rat where "MAX_GROSS_LEVERAGE = 1"
definition CANARY_CAPITAL :: rat where "CANARY_CAPITAL = 500"

lemmas constitution = REFERENCE_CAPITAL_def MAX_RISK_PER_POSITION_def MAX_DAILY_LOSS_def
  MAX_DRAWDOWN_def MAX_GROSS_LEVERAGE_def CANARY_CAPITAL_def

definition canary_capital_in :: "rat \<Rightarrow> rat res" where
  "canary_capital_in brl_per_quote =
     (if \<not> brl_per_quote > 0 then Inl (ValueError ''brl_per_quote must be positive'')
      else ddiv CANARY_CAPITAL brl_per_quote)"

definition reference_capital_in :: "rat \<Rightarrow> rat res" where
  "reference_capital_in brl_per_quote =
     (if \<not> brl_per_quote > 0 then Inl (ValueError ''brl_per_quote must be positive'')
      else ddiv REFERENCE_CAPITAL brl_per_quote)"

definition conservative_equity :: "rat \<Rightarrow> rat \<Rightarrow> rat" where
  "conservative_equity current_equity reference_capital =
     (if current_equity \<le> 0 \<or> reference_capital \<le> 0 then 0
      else min (min current_equity reference_capital) REFERENCE_CAPITAL)"

section \<open>Facts the components share\<close>

lemma transition_Inr: "transition s t = Inr u \<longleftrightarrow> u = t \<and> t \<in> set (ALLOWED_TRANSITIONS s)"
  by (auto simp: transition_def)

lemma terminal_no_transition: "terminal s \<Longrightarrow> transition s t = Inl IllegalOrderTransition"
  by (auto simp: transition_def TERMINAL_ORDER_STATUSES_def)

lemma transition_target: "t \<in> set (ALLOWED_TRANSITIONS s) \<Longrightarrow> t \<noteq> NEW"
  by (cases s) (auto simp: VENUE_CONFIRMED_def)

lemma transition_to_submitted: "SUBMITTED \<in> set (ALLOWED_TRANSITIONS s) \<longleftrightarrow> s = NEW"
  by (cases s) (auto simp: VENUE_CONFIRMED_def)

lemma terminal_iff: "terminal s \<longleftrightarrow> s = FILLED \<or> s = CANCELED \<or> s = REJECTED"
  by (auto simp: TERMINAL_ORDER_STATUSES_def)

lemma report_ok_fills:
  "report_ok r \<Longrightarrow> 0 \<le> er_filled_quantity r \<and> er_filled_quantity r \<le> er_quantity r"
  "report_ok r \<Longrightarrow> 0 < er_filled_quantity r \<longleftrightarrow> er_average_price r \<noteq> None"
  "report_ok r \<Longrightarrow> er_status r = FILLED \<Longrightarrow> er_filled_quantity r = er_quantity r"
  by (auto simp: contract_simps split: if_splits)

lemma ledger_entry_new_Inr: "ledger_entry_new e = Inr e' \<Longrightarrow> e' = e"
  by (auto simp: ledger_entry_new_def validate_sign_def split: if_splits)

lemma conservative_equity_bounds:
  "0 \<le> conservative_equity e r" "conservative_equity e r \<le> REFERENCE_CAPITAL"
  "conservative_equity e r \<le> max e 0" "conservative_equity e r \<le> max r 0"
  by (auto simp: conservative_equity_def REFERENCE_CAPITAL_def)

text \<open>A zero remainder means an exact multiple, in spite of the context's rounding.\<close>

lemma dmod_zero:
  assumes "dmod x y = Inr 0" and "0 < y"
  shows "x = of_int (dtrunc (x / y)) * y"
  using assms by (auto simp: dmod_def dec_signs split: if_splits)

section \<open>Properties\<close>

text \<open>
  The histories an order can go through: it starts in NEW and each entry that is appended is another
  status the transition table admits (\<^verbatim>\<open>OrderManager._set_status\<close> appends exactly then).
\<close>

inductive lifecycle :: "order_status list \<Rightarrow> bool" where
  born: "lifecycle [NEW]"
| moved: "lifecycle h \<Longrightarrow> last h \<noteq> t \<Longrightarrow> transition (last h) t = Inr t \<Longrightarrow> lifecycle (h @ [t])"

lemma lifecycle_nonempty: "lifecycle h \<Longrightarrow> h \<noteq> []"
  by (induction rule: lifecycle.induct) auto

lemma lifecycle_shape:
  "lifecycle h \<Longrightarrow> hd h = NEW \<and> NEW \<notin> set (tl h) \<and> (\<forall>x \<in> set (butlast h). \<not> terminal x) \<and>
     (h = [NEW] \<or> h = [NEW, REJECTED] \<or> (\<exists>t. h = NEW # SUBMITTED # t \<and> SUBMITTED \<notin> set t))"
proof (induction rule: lifecycle.induct)
  case born
  show ?case by simp
next
  case (moved h t)
  have step: "t \<in> set (ALLOWED_TRANSITIONS (last h))" using moved.hyps(3) by (simp add: transition_Inr)
  have live: "\<not> terminal (last h)" using terminal_no_transition moved.hyps(3) by force
  have ne: "h \<noteq> []" using moved.hyps(1) by (rule lifecycle_nonempty)
  have "set h = insert (last h) (set (butlast h))"
    using ne by (metis append_butlast_last_id list.simps(15) rotate1.simps(2) set_rotate1)
  then have "\<forall>x \<in> set (butlast (h @ [t])). \<not> terminal x" using moved.IH live by simp
  moreover have "NEW \<notin> set (tl (h @ [t]))"
    using moved.IH ne transition_target[OF step] by (cases h) auto
  moreover have "h @ [t] = [NEW, REJECTED] \<or> (\<exists>u. h @ [t] = NEW # SUBMITTED # u \<and> SUBMITTED \<notin> set u)"
  proof -
    consider "h = [NEW]" | u where "h = NEW # SUBMITTED # u" "SUBMITTED \<notin> set u"
      using moved.IH live by (auto simp: terminal_iff)
    then show ?thesis
    proof cases
      case 1
      then show ?thesis using step by auto
    next
      case (2 u)
      have "last h \<noteq> NEW" using moved.IH 2 by (auto split: if_splits) (metis last_in_set)
      then have "t \<noteq> SUBMITTED" using step transition_to_submitted by auto
      then show ?thesis using 2 by simp
    qed
  qed
  ultimately show ?case using moved.IH ne by simp
qed

text \<open>
  Order life cycle. In every history an order can go through, NEW occurs only at the start, a
  terminal status (FILLED, CANCELED, REJECTED) only at the end, and SUBMITTED at most once: either
  the order was refused before it was sent (\<open>[NEW]\<close> or \<open>[NEW, REJECTED]\<close>) or it was submitted right
  after NEW and never again, so an order in UNKNOWN is never resent.
\<close>

theorem order_submitted_at_most_once:
  assumes "lifecycle h"
  shows "hd h = NEW \<and> count_list h NEW = 1 \<and> count_list h SUBMITTED \<le> 1
    \<and> (\<forall>i. i + 1 < length h \<longrightarrow> \<not> terminal (h ! i))
    \<and> (h = [NEW] \<or> h = [NEW, REJECTED] \<or> h ! 1 = SUBMITTED)"
proof -
  note sh = lifecycle_shape[OF assms] and ne = lifecycle_nonempty[OF assms]
  obtain t where h: "h = NEW # t" using sh ne by (cases h) auto
  have c1: "count_list h NEW = 1" using sh h by (simp add: count_list_0_iff)
  have c2: "count_list h SUBMITTED \<le> 1"
    using sh h by (auto simp: count_list_0_iff)
  have ter: "\<not> terminal (h ! i)" if "i + 1 < length h" for i
  proof -
    have "h ! i = butlast h ! i" and "i < length (butlast h)" using that by (auto simp: nth_butlast)
    then show ?thesis using sh by (metis nth_mem)
  qed
  have "h = [NEW] \<or> h = [NEW, REJECTED] \<or> h ! 1 = SUBMITTED"
    using sh by auto
  with c1 c2 ter sh show ?thesis by blast
qed

theorem order_submitted_at_most_once_witness:
  "count_list [NEW, SUBMITTED, UNKNOWN, PARTIALLY_FILLED, FILLED] SUBMITTED \<le> 1"
proof -
  have 1: "lifecycle [NEW, SUBMITTED]"
    using lifecycle.moved[of "[NEW]" SUBMITTED] lifecycle.born by (simp add: transition_def)
  have 2: "lifecycle [NEW, SUBMITTED, UNKNOWN]"
    using lifecycle.moved[of "[NEW, SUBMITTED]" UNKNOWN] 1 by (simp add: transition_def)
  have 3: "lifecycle [NEW, SUBMITTED, UNKNOWN, PARTIALLY_FILLED]"
    using lifecycle.moved[of "[NEW, SUBMITTED, UNKNOWN]" PARTIALLY_FILLED] 2
    by (simp add: transition_def VENUE_CONFIRMED_def)
  have 4: "lifecycle [NEW, SUBMITTED, UNKNOWN, PARTIALLY_FILLED, FILLED]"
    using lifecycle.moved[of "[NEW, SUBMITTED, UNKNOWN, PARTIALLY_FILLED]" FILLED] 3
    by (simp add: transition_def)
  show ?thesis using order_submitted_at_most_once[OF 4] by blast
qed

lemma order_violation_grid:
  assumes "instrument_fields i" and "order_violation i q p = Inr None"
  shows "(\<exists>n :: nat. n > 0 \<and> q = of_nat n * ti_lot_size i) \<and> (\<exists>m :: nat. m > 0 \<and> p = of_nat m * ti_tick_size i)
     \<and> ti_min_quantity i \<le> q \<and> ti_min_notional i \<le> dmul q p"
proof -
  have pos: "0 < ti_lot_size i" "0 < ti_tick_size i" "0 < ti_min_quantity i"
    using assms(1) by (auto simp: instrument_fields_def)
  have v: "ti_min_quantity i \<le> q" "dmod q (ti_lot_size i) = Inr 0" "0 < p"
    "dmod p (ti_tick_size i) = Inr 0" "ti_min_notional i \<le> dmul q p"
    using assms(2) by (auto simp: order_violation_def res_bind_Inr_conv split: if_splits)
  have grid: "\<exists>n :: nat. n > 0 \<and> x = of_nat n * y" if "dmod x y = Inr 0" "0 < y" "0 < x" for x y
  proof -
    let ?z = "dtrunc (x / y)"
    have x: "x = of_int ?z * y" using dmod_zero that by blast
    then have "0 < (of_int ?z :: rat) * y" using that(3) by simp
    then have "0 < ?z" using that(2) by (simp add: zero_less_mult_iff)
    then have "(of_nat (nat ?z) :: rat) = of_int ?z" by simp
    then show ?thesis using x \<open>0 < ?z\<close> by (intro exI[of _ "nat ?z"]) simp
  qed
  show ?thesis using grid[OF v(2) pos(1)] grid[OF v(4) pos(2) v(3)] v pos by auto
qed

text \<open>
  The order grid is exact. When \<^verbatim>\<open>order_violation\<close> reports nothing for a valid instrument, the
  quantity is a positive whole number of lots at or above the minimum, the price is a positive whole
  number of ticks, and the notional the code computes is at least the venue's minimum, in spite of
  the 28-digit context the remainders are computed in.
\<close>

theorem order_violation_none:
  assumes "instrument_fields i" and "order_violation i q p = Inr None"
  shows "(\<exists>n :: nat. n > 0 \<and> q = of_nat n * ti_lot_size i) \<and> (\<exists>m :: nat. m > 0 \<and> p = of_nat m * ti_tick_size i)
     \<and> ti_min_quantity i \<le> q \<and> ti_min_notional i \<le> dmul q p"
  using order_violation_grid[OF assms] .

text \<open>The witness's instrument: tick 1/100, lot 1/100000.\<close>

definition ex_instrument :: tradable_instrument where
  "ex_instrument = \<lparr>ti_instrument_id = ''BINANCE_SPOT:BTCUSDT'', ti_venue = V_BINANCE_SPOT,
     ti_asset_class = CRYPTO, ti_base_asset = ''BTC'', ti_quote_asset = ''USDT'',
     ti_tick_size = 1 / 100, ti_lot_size = 1 / 100000, ti_min_quantity = 1 / 100000,
     ti_min_notional = 5, ti_session_type = CONTINUOUS_24_7, ti_timezone = ''UTC''\<rparr>"

theorem order_violation_none_witness:
  "order_violation ex_instrument (1 / 1000) 64313 = Inr None \<and>
   (\<exists>n :: nat. n > 0 \<and> (1 / 1000 :: rat) = of_nat n * ti_lot_size ex_instrument)"
proof -
  have f: "instrument_fields ex_instrument" by (simp add: instrument_fields_def ex_instrument_def)
  have v: "order_violation ex_instrument (1 / 1000) 64313 = Inr None" by code_simp
  show ?thesis using order_violation_none[OF f v] v by blast
qed

text \<open>
  The canary and reference capital only shrink as the exchange rate rises: quoting a higher BRL
  rate never yields more capital, and the capital is positive and defined for every positive rate.
\<close>

theorem capital_antitone_in_rate:
  assumes "0 < r" and "r \<le> r'"
  shows "\<exists>c c'. canary_capital_in r = Inr c \<and> canary_capital_in r' = Inr c' \<and> 0 < c' \<and> c' \<le> c
     \<and> (\<exists>d d'. reference_capital_in r = Inr d \<and> reference_capital_in r' = Inr d' \<and> 0 < d' \<and> d' \<le> d)"
proof -
  have "500 / r' \<le> 500 / r" and "10000 / r' \<le> 10000 / r"
    using assms by (simp_all add: frac_le)
  then show ?thesis
    using assms by (simp add: canary_capital_in_def reference_capital_in_def ddiv_def constitution
        dec_fix_mono dec_signs)
qed

theorem capital_antitone_in_rate_witness:
  "\<exists>c c'. canary_capital_in 5 = Inr c \<and> canary_capital_in 6 = Inr c' \<and> 0 < c' \<and> c' \<le> c"
  using capital_antitone_in_rate[of 5 6] by auto

end
