(* ===== verification/Catalog.thy ===== *)
theory Catalog
  imports Contracts
begin

text \<open>
  The order-grid catalog (\<^verbatim>\<open>services/execution/catalog.py\<close>): the constructors of the three venue
  families and the four instrument tables, keyed by instrument id.
\<close>

definition binance_spot :: "string \<Rightarrow> string \<Rightarrow> rat \<Rightarrow> rat \<Rightarrow> rat \<Rightarrow> tradable_instrument" where
  "binance_spot base quote tick lot min_notional =
     \<lparr>ti_instrument_id = ''BINANCE_SPOT:'' @ base @ quote, ti_venue = V_BINANCE_SPOT,
      ti_asset_class = CRYPTO, ti_base_asset = base, ti_quote_asset = quote, ti_tick_size = tick,
      ti_lot_size = lot, ti_min_quantity = lot, ti_min_notional = min_notional,
      ti_session_type = CONTINUOUS_24_7, ti_timezone = ''UTC''\<rparr>"

definition b3_fractional :: "string \<Rightarrow> asset_class \<Rightarrow> tradable_instrument" where
  "b3_fractional symbol asset_class =
     \<lparr>ti_instrument_id = ''XP_B3:'' @ symbol, ti_venue = V_XP_B3, ti_asset_class = asset_class,
      ti_base_asset = symbol, ti_quote_asset = ''BRL'', ti_tick_size = 1 / 100, ti_lot_size = 1,
      ti_min_quantity = 1, ti_min_notional = 1 / 100, ti_session_type = EXCHANGE_SESSION,
      ti_timezone = ''America/Sao_Paulo''\<rparr>"

definition US_ETFS :: "string list" where
  "US_ETFS = [''SPY'', ''QQQ'', ''IWM'', ''DIA'', ''VTI'', ''VOO'']"

definition alpaca_us :: "string \<Rightarrow> tradable_instrument" where
  "alpaca_us symbol =
     \<lparr>ti_instrument_id = ''ALPACA_US:'' @ symbol, ti_venue = V_ALPACA_US,
      ti_asset_class = (if symbol \<in> set US_ETFS then ETF else EQUITY), ti_base_asset = symbol,
      ti_quote_asset = ''USD'', ti_tick_size = 1 / 100, ti_lot_size = 1, ti_min_quantity = 1,
      ti_min_notional = 1, ti_session_type = EXCHANGE_SESSION, ti_timezone = ''America/New_York''\<rparr>"

text \<open>\<^verbatim>\<open>{item.instrument_id: item for item in ...}\<close>\<close>

definition by_instrument_id :: "tradable_instrument list \<Rightarrow> (string, tradable_instrument) dict" where
  "by_instrument_id items = foldl (\<lambda>d i. dset (ti_instrument_id i) i d) [] items"

definition PAPER_INSTRUMENTS :: "(string, tradable_instrument) dict" where
  "PAPER_INSTRUMENTS = by_instrument_id [
     binance_spot ''BTC'' ''BRL'' 1 (1 / 100000) 10,
     binance_spot ''ETH'' ''BRL'' (1 / 10) (1 / 10000) 10,
     binance_spot ''SOL'' ''BRL'' (1 / 100) (1 / 1000) 10,
     binance_spot ''BTC'' ''USDT'' (1 / 100) (1 / 100000) 5,
     binance_spot ''ETH'' ''USDT'' (1 / 100) (1 / 10000) 5,
     binance_spot ''SOL'' ''USDT'' (1 / 100) (1 / 1000) 5]"

definition BINANCE_MORE_INSTRUMENTS :: "(string, tradable_instrument) dict" where
  "BINANCE_MORE_INSTRUMENTS = by_instrument_id [
     binance_spot ''BNB'' ''USDT'' (1 / 100) (1 / 1000) 5,
     binance_spot ''XRP'' ''USDT'' (1 / 10000) (1 / 10) 5,
     binance_spot ''DOGE'' ''USDT'' (1 / 100000) 1 1,
     binance_spot ''ADA'' ''USDT'' (1 / 10000) (1 / 10) 5,
     binance_spot ''AVAX'' ''USDT'' (1 / 1000) (1 / 100) 5,
     binance_spot ''LINK'' ''USDT'' (1 / 1000) (1 / 100) 5,
     binance_spot ''LTC'' ''USDT'' (1 / 100) (1 / 1000) 5,
     binance_spot ''DOT'' ''USDT'' (1 / 1000) (1 / 100) 5,
     binance_spot ''TRX'' ''USDT'' (1 / 10000) (1 / 10) 5,
     binance_spot ''BCH'' ''USDT'' (1 / 10) (1 / 1000) 5]"

definition B3_INSTRUMENTS :: "(string, tradable_instrument) dict" where
  "B3_INSTRUMENTS = by_instrument_id [
     b3_fractional ''PETR4F'' EQUITY, b3_fractional ''VALE3F'' EQUITY, b3_fractional ''BOVA11F'' ETF]"

definition US_INSTRUMENTS :: "(string, tradable_instrument) dict" where
  "US_INSTRUMENTS = by_instrument_id [alpaca_us ''SPY'', alpaca_us ''QQQ'', alpaca_us ''AAPL'']"

definition catalog_zone :: "string \<Rightarrow> bool" where
  "catalog_zone z \<longleftrightarrow> z \<in> set [''UTC'', ''America/Sao_Paulo'', ''America/New_York'']"

definition catalog_entry_ok :: "string \<times> tradable_instrument \<Rightarrow> bool" where
  "catalog_entry_ok e \<longleftrightarrow> fst e = ti_instrument_id (snd e) \<and>
     tradable_instrument_new catalog_zone (snd e) = Inr (snd e)"

text \<open>
  The catalog is well formed. The four tables together hold 22 instruments under distinct ids;
  each is filed under its own id and passes the contract's validators (positive grids, namespaced
  id, known time zone, no prediction market).
\<close>

theorem catalog_well_formed:
  "list_all catalog_entry_ok
     (PAPER_INSTRUMENTS @ BINANCE_MORE_INSTRUMENTS @ B3_INSTRUMENTS @ US_INSTRUMENTS)
   \<and> dict_ok (PAPER_INSTRUMENTS @ BINANCE_MORE_INSTRUMENTS @ B3_INSTRUMENTS @ US_INSTRUMENTS)
   \<and> length (PAPER_INSTRUMENTS @ BINANCE_MORE_INSTRUMENTS @ B3_INSTRUMENTS @ US_INSTRUMENTS) = 22"
  by code_simp

end
