(* ===== verification/Paper_Venue.thy ===== *)
theory Paper_Venue
  imports Contracts
begin

text \<open>
  The venue adapter contract and the in-memory paper venue (\<^verbatim>\<open>services/execution/venue.py\<close>). The
  adapter protocol is the record \<open>venue_adapter\<close> over a state of the venue's own; the quote source
  and the clock are arguments of the paper venue's operations.
\<close>

section \<open>Orders, quotes and the adapter protocol\<close>

record venue_order =
  vo_client_order_id :: string
  vo_instrument_id :: string
  vo_side :: side
  vo_quantity :: rat
  vo_order_type :: order_type
  vo_limit_price :: "rat option"
  vo_time_in_force :: time_in_force

definition venue_order_new :: "venue_order \<Rightarrow> venue_order res" where
  "venue_order_new o' =
     (if \<not> (len_in 1 36 (vo_client_order_id o') \<and> len_in 3 160 (vo_instrument_id o') \<and>
            0 < vo_quantity o' \<and> (case vo_limit_price o' of None \<Rightarrow> True | Some p \<Rightarrow> 0 < p))
      then Inl field_error
      else if (vo_order_type o' = LIMIT) \<noteq> (vo_limit_price o' \<noteq> None)
      then Inl (ValueError ''limit_price is required exactly for LIMIT orders'')
      else Inr o')"

record quote =
  qt_bid :: rat
  qt_ask :: rat
  qt_observed_at :: instant

record 'v venue_adapter =
  va_real_money :: bool
  va_submit :: "venue_order \<Rightarrow> 'v \<Rightarrow> execution_report res \<times> 'v"
  va_cancel :: "string \<Rightarrow> string option \<Rightarrow> 'v \<Rightarrow> execution_report res \<times> 'v"
  va_query :: "string \<Rightarrow> string option \<Rightarrow> 'v \<Rightarrow> execution_report option res \<times> 'v"
  va_balances :: "'v \<Rightarrow> (string, rat) dict res"

section \<open>The paper venue\<close>

record paper_venue =
  pv_instruments :: "(string, tradable_instrument) dict"
  pv_balances :: "(string, rat) dict"
  pv_fee_bps :: rat
  pv_slippage_bps :: rat
  pv_orders :: "(string, venue_order \<times> execution_report) dict"

definition paper_venue_new ::
    "tradable_instrument list \<Rightarrow> (string, rat) dict \<Rightarrow> rat \<Rightarrow> rat \<Rightarrow> venue_id option \<Rightarrow> paper_venue res" where
  "paper_venue_new instruments balances fee_bps slippage_bps simulated_venue =
     (let allowed = V_PAPER # (case simulated_venue of None \<Rightarrow> [] | Some v \<Rightarrow> [v])
      in if list_ex (\<lambda>i. ti_venue i \<notin> set allowed) instruments
         then Inl (ValueError ''PaperVenueAdapter only trades PAPER (or its simulated venue)'')
         else if fee_bps < 0 \<or> slippage_bps < 0
         then Inl (ValueError ''fee_bps and slippage_bps must be non-negative'')
         else Inr \<lparr>pv_instruments = foldl (\<lambda>d i. dset (ti_instrument_id i) i d) [] instruments,
                   pv_balances = balances, pv_fee_bps = fee_bps, pv_slippage_bps = slippage_bps,
                   pv_orders = []\<rparr>)"

definition paper_report ::
    "instant \<Rightarrow> venue_order \<Rightarrow> order_status \<Rightarrow> rat option \<Rightarrow> rat \<Rightarrow> string option \<Rightarrow> string option \<Rightarrow>
     execution_report res" where
  "paper_report now o' status price fee fee_asset reason =
     execution_report_new
       \<lparr>er_venue = V_PAPER, er_client_order_id = vo_client_order_id o',
        er_venue_order_id = Some (''paper-'' @ vo_client_order_id o'),
        er_instrument_id = vo_instrument_id o', er_side = vo_side o', er_status = status,
        er_quantity = vo_quantity o',
        er_filled_quantity = (if status = FILLED then vo_quantity o' else 0),
        er_average_price = price, er_fee = fee, er_fee_asset = fee_asset, er_reason = reason,
        er_reported_at = now\<rparr>"

definition paper_reject :: "instant \<Rightarrow> venue_order \<Rightarrow> string \<Rightarrow> execution_report res" where
  "paper_reject now o' reason = paper_report now o' REJECTED None 0 None (Some reason)"

abbreviation BPS :: rat where "BPS \<equiv> 10000"

abbreviation dquot :: "rat \<Rightarrow> rat \<Rightarrow> rat" where
  "dquot x y \<equiv> dec_fix (x / y)"

text \<open>\<^verbatim>\<open>Decimal("1") if buying else Decimal("-1")\<close>\<close>

definition direction :: "side \<Rightarrow> rat" where
  "direction sd = (if sd = BUY then 1 else - 1)"

text \<open>The touch plus slippage, rounded to the tick grid against the trader.\<close>

definition slipped_price :: "tradable_instrument \<Rightarrow> rat \<Rightarrow> side \<Rightarrow> rat \<Rightarrow> rat res" where
  "slipped_price inst slippage_bps sd touch =
     (let raw = dmul touch (dadd 1 (dquot (dmul (direction sd) slippage_bps) BPS))
      in res_bind (ddiv raw (ti_tick_size inst)) (\<lambda>ticks.
         Inr (dmul (of_int (if sd = BUY then \<lceil>ticks\<rceil> else \<lfloor>ticks\<rfloor>)) (ti_tick_size inst))))"

text \<open>The tail of \<^verbatim>\<open>_execute\<close>: grid check, balances, fill.\<close>

definition paper_fill ::
    "instant \<Rightarrow> paper_venue \<Rightarrow> tradable_instrument \<Rightarrow> venue_order \<Rightarrow> rat \<Rightarrow>
     execution_report res \<times> paper_venue" where
  "paper_fill now v inst o' price =
     (case order_violation inst (vo_quantity o') price of
        Inl e \<Rightarrow> (Inl e, v)
      | Inr (Some violation) \<Rightarrow> (paper_reject now o' violation, v)
      | Inr None \<Rightarrow>
          let buying = (vo_side o' = BUY);
              notional = dmul (vo_quantity o') price;
              fee = dquot (dmul notional (pv_fee_bps v)) BPS;
              base = ti_base_asset inst; quote_asset = ti_quote_asset inst;
              quote_balance = dget_or (pv_balances v) quote_asset 0;
              base_balance = dget_or (pv_balances v) base 0
          in if buying \<and> quote_balance < dadd notional fee
             then (paper_reject now o' (''insufficient '' @ quote_asset @ '' balance''), v)
             else if \<not> buying \<and> base_balance < vo_quantity o'
             then (paper_reject now o' (''insufficient '' @ base @ '' balance''), v)
             else
               let signed_quantity = (if buying then vo_quantity o' else dneg (vo_quantity o'));
                   b1 = dset base (dadd base_balance signed_quantity) (pv_balances v);
                   b2 = dset quote_asset
                          (dsub (dsub quote_balance (dmul (direction (vo_side o')) notional)) fee) b1
               in (paper_report now o' FILLED (Some price) fee (Some quote_asset) None,
                   v\<lparr>pv_balances := b2\<rparr>))"

definition paper_execute ::
    "instant \<Rightarrow> (string \<Rightarrow> quote option) \<Rightarrow> venue_order \<Rightarrow> paper_venue \<Rightarrow>
     execution_report res \<times> paper_venue" where
  "paper_execute now quotes o' v =
     (case dget (pv_instruments v) (vo_instrument_id o') of
        None \<Rightarrow> (paper_reject now o' ''unknown instrument'', v)
      | Some inst \<Rightarrow>
     (case quotes (vo_instrument_id o') of
        None \<Rightarrow> (paper_reject now o' ''no quote available'', v)
      | Some q \<Rightarrow>
          if \<not> (0 < qt_bid q \<and> qt_bid q < qt_ask q)
          then (paper_reject now o' ''crossed or invalid quote'', v)
          else
            let buying = (vo_side o' = BUY);
                touch = (if buying then qt_ask q else qt_bid q)
            in (case slipped_price inst (pv_slippage_bps v) (vo_side o') touch of
                  Inl e \<Rightarrow> (Inl e, v)
                | Inr price \<Rightarrow>
                    if vo_order_type o' = LIMIT then
                      (case vo_limit_price o' of
                         None \<Rightarrow> (Inl AssertionError, v)
                       | Some limit \<Rightarrow>
                           if \<not> (if buying then touch \<le> limit else touch \<ge> limit) then
                             (case order_violation inst (vo_quantity o') limit of
                                Inl e \<Rightarrow> (Inl e, v)
                              | Inr (Some violation) \<Rightarrow> (paper_reject now o' violation, v)
                              | Inr None \<Rightarrow>
                                  if vo_time_in_force o' = IOC
                                  then (paper_report now o' CANCELED None 0 None
                                          (Some ''IOC not marketable''), v)
                                  else (paper_report now o' ACKNOWLEDGED None 0 None None, v))
                           else paper_fill now v inst o'
                                  (if buying then min price limit else max price limit))
                    else paper_fill now v inst o' price)))"

definition paper_submit ::
    "instant \<Rightarrow> (string \<Rightarrow> quote option) \<Rightarrow> venue_order \<Rightarrow> paper_venue \<Rightarrow>
     execution_report res \<times> paper_venue" where
  "paper_submit now quotes o' v =
     (case dget (pv_orders v) (vo_client_order_id o') of
        Some (existing, report) \<Rightarrow>
          if existing \<noteq> o'
          then (Inl (ValueError ''client_order_id already belongs to a different order''), v)
          else (Inr report, v)
      | None \<Rightarrow>
          (case paper_execute now quotes o' v of
             (Inl e, v') \<Rightarrow> (Inl e, v')
           | (Inr report, v') \<Rightarrow>
               (Inr report,
                v'\<lparr>pv_orders := dset (vo_client_order_id o') (o', report) (pv_orders v')\<rparr>)))"

definition paper_cancel ::
    "instant \<Rightarrow> string \<Rightarrow> paper_venue \<Rightarrow> execution_report res \<times> paper_venue" where
  "paper_cancel now cid v =
     (case dget (pv_orders v) cid of
        None \<Rightarrow> (Inl (KeyError cid), v)
      | Some (o', report) \<Rightarrow>
          if er_status report \<noteq> ACKNOWLEDGED then (Inr report, v)
          else
            let canceled = report\<lparr>er_status := CANCELED, er_reported_at := now\<rparr>
            in (Inr canceled, v\<lparr>pv_orders := dset cid (o', canceled) (pv_orders v)\<rparr>))"

definition paper_query :: "string \<Rightarrow> paper_venue \<Rightarrow> execution_report option" where
  "paper_query cid v = map_option snd (dget (pv_orders v) cid)"

definition paper_adapter ::
    "instant \<Rightarrow> (string \<Rightarrow> quote option) \<Rightarrow> paper_venue venue_adapter" where
  "paper_adapter now quotes =
     \<lparr>va_real_money = False, va_submit = paper_submit now quotes,
      va_cancel = (\<lambda>cid _ v. paper_cancel now cid v),
      va_query = (\<lambda>cid _ v. (Inr (paper_query cid v), v)), va_balances = (\<lambda>v. Inr (pv_balances v))\<rparr>"

section \<open>What an execution can report\<close>

lemma execution_report_new_Inr: "execution_report_new r = Inr r' \<longleftrightarrow> r' = r \<and> report_ok r"
  by (auto simp: contract_simps returned_def split: if_splits sum.splits)

lemma paper_report_Inr:
  assumes "paper_report now o' st price fee fa reason = Inr r"
  shows "report_ok r \<and> er_client_order_id r = vo_client_order_id o' \<and> er_quantity r = vo_quantity o'
    \<and> er_instrument_id r = vo_instrument_id o' \<and> er_side r = vo_side o' \<and> er_status r = st
    \<and> er_filled_quantity r = (if st = FILLED then vo_quantity o' else 0)
    \<and> er_average_price r = price \<and> er_fee r = fee \<and> er_fee_asset r = fa \<and> er_reason r = reason"
  using assms by (auto simp: paper_report_def execution_report_new_Inr)

lemmas paper_reject_Inr =
  paper_report_Inr[of now o' REJECTED None 0 None "Some reason" r for now o' reason r,
    folded paper_reject_def]

text \<open>The balances after a fill of the whole order at a price.\<close>

definition filled_balances :: "paper_venue \<Rightarrow> tradable_instrument \<Rightarrow> venue_order \<Rightarrow> rat \<Rightarrow> rat \<Rightarrow> (string, rat) dict"
where
  "filled_balances v inst o' price fee =
     dset (ti_quote_asset inst)
       (dsub (dsub (dget_or (pv_balances v) (ti_quote_asset inst) 0)
          (dmul (direction (vo_side o')) (dmul (vo_quantity o') price))) fee)
       (dset (ti_base_asset inst)
          (dadd (dget_or (pv_balances v) (ti_base_asset inst) 0)
             (if vo_side o' = BUY then vo_quantity o' else dneg (vo_quantity o')))
          (pv_balances v))"

definition paper_fee :: "paper_venue \<Rightarrow> venue_order \<Rightarrow> rat \<Rightarrow> rat" where
  "paper_fee v o' price = dquot (dmul (dmul (vo_quantity o') price) (pv_fee_bps v)) BPS"

lemma paper_fill_cases:
  assumes "paper_fill now v inst o' price = (Inr r, v')"
  obtains (rejected) reason where "paper_reject now o' reason = Inr r" "v' = v"
  | (filled) "order_violation inst (vo_quantity o') price = Inr None"
      "paper_report now o' FILLED (Some price) (paper_fee v o' price) (Some (ti_quote_asset inst)) None = Inr r"
      "v' = v\<lparr>pv_balances := filled_balances v inst o' price (paper_fee v o' price)\<rparr>"
      "vo_side o' = BUY \<Longrightarrow> dadd (dmul (vo_quantity o') price) (paper_fee v o' price)
         \<le> dget_or (pv_balances v) (ti_quote_asset inst) 0"
      "vo_side o' \<noteq> BUY \<Longrightarrow> vo_quantity o' \<le> dget_or (pv_balances v) (ti_base_asset inst) 0"
proof -
  consider (e) e where "order_violation inst (vo_quantity o') price = Inl e"
    | (bad) b where "order_violation inst (vo_quantity o') price = Inr (Some b)"
    | (ok) "order_violation inst (vo_quantity o') price = Inr None"
    by (metis obj_sumE option.exhaust)
  then show thesis
  proof cases
    case e
    then show ?thesis using assms by (simp add: paper_fill_def)
  next
    case (bad b)
    then show ?thesis using assms rejected[of b] by (simp add: paper_fill_def)
  next
    case ok
    let ?n = "dmul (vo_quantity o') price" and ?f = "paper_fee v o' price"
    let ?qb = "dget_or (pv_balances v) (ti_quote_asset inst) 0"
      and ?bb = "dget_or (pv_balances v) (ti_base_asset inst) 0"
    have eq: "paper_fill now v inst o' price =
      (if vo_side o' = BUY \<and> ?qb < dadd ?n ?f
       then (paper_reject now o' (''insufficient '' @ ti_quote_asset inst @ '' balance''), v)
       else if vo_side o' \<noteq> BUY \<and> ?bb < vo_quantity o'
       then (paper_reject now o' (''insufficient '' @ ti_base_asset inst @ '' balance''), v)
       else (paper_report now o' FILLED (Some price) ?f (Some (ti_quote_asset inst)) None,
             v\<lparr>pv_balances := filled_balances v inst o' price ?f\<rparr>))"
      using ok by (simp add: paper_fill_def paper_fee_def filled_balances_def Let_def)
    show ?thesis
      using assms rejected filled ok unfolding eq by (auto split: if_splits)
  qed
qed

text \<open>How a report comes about: a refusal or a resting order changes nothing, a fill goes through
  \<open>paper_fill\<close> at a price that a limit order's limit bounds.\<close>

lemma paper_execute_cases:
  assumes "paper_execute now quotes o' v = (Inr r, v')"
  obtains (unfilled) st reason where "st \<noteq> FILLED" "paper_report now o' st None 0 None reason = Inr r" "v' = v"
  | (trade) inst price where "dget (pv_instruments v) (vo_instrument_id o') = Some inst"
      "paper_fill now v inst o' price = (Inr r, v')"
      "\<And>limit. vo_order_type o' = LIMIT \<Longrightarrow> vo_limit_price o' = Some limit \<Longrightarrow>
         (if vo_side o' = BUY then price \<le> limit else limit \<le> price)"
proof -
  have rej: thesis if "paper_reject now o' reason = Inr r" "v' = v" for reason
    using that by (intro unfilled[of REJECTED "Some reason"]) (simp_all add: paper_reject_def)
  show thesis
  proof (cases "dget (pv_instruments v) (vo_instrument_id o')")
    case None
    then show ?thesis using assms rej[of "''unknown instrument''"] by (simp add: paper_execute_def)
  next
    case inst: (Some inst)
    show ?thesis
    proof (cases "quotes (vo_instrument_id o')")
      case None
      then show ?thesis using assms inst rej[of "''no quote available''"] by (simp add: paper_execute_def)
    next
      case q: (Some q)
      show ?thesis
      proof (cases "0 < qt_bid q \<and> qt_bid q < qt_ask q")
        case False
        then show ?thesis using assms inst q rej[of "''crossed or invalid quote''"]
          by (simp add: paper_execute_def)
      next
        case True
        define touch where "touch = (if vo_side o' = BUY then qt_ask q else qt_bid q)"
        show ?thesis
        proof (cases "slipped_price inst (pv_slippage_bps v) (vo_side o') touch")
          case (Inl e)
          then show ?thesis using assms inst q True by (simp add: paper_execute_def touch_def)
        next
          case (Inr price)
          note known = assms[unfolded paper_execute_def] inst q True Inr[unfolded touch_def]
          show ?thesis
          proof (cases "vo_order_type o' = LIMIT")
            case False
            then show ?thesis using known trade[OF inst, of price] by simp
          next
            case lim: True
            show ?thesis
            proof (cases "vo_limit_price o'")
              case None
              then show ?thesis using known lim by simp
            next
              case (Some limit)
              show ?thesis
              proof (cases "if vo_side o' = BUY then qt_ask q \<le> limit else limit \<le> qt_bid q")
                case True
                then show ?thesis
                  using known lim Some trade[OF inst, of "if vo_side o' = BUY then min price limit else max price limit"]
                  by (auto split: if_splits)
              next
                case False
                then show ?thesis
                  using known lim Some rej unfilled[of CANCELED "Some ''IOC not marketable''"]
                    unfilled[of ACKNOWLEDGED None]
                  by (auto split: sum.splits option.splits if_splits)
              qed
            qed
          qed
        qed
      qed
    qed
  qed
qed

lemma paper_execute_report:
  assumes "paper_execute now quotes o' v = (Inr r, v')"
  shows "report_ok r \<and> er_client_order_id r = vo_client_order_id o' \<and> er_quantity r = vo_quantity o'
    \<and> er_side r = vo_side o' \<and> pv_orders v' = pv_orders v \<and> pv_instruments v' = pv_instruments v"
  using assms
proof (cases rule: paper_execute_cases)
  case (unfilled st reason)
  then show ?thesis using paper_report_Inr by blast
next
  case (trade inst price)
  from trade(2) show ?thesis
  proof (cases rule: paper_fill_cases)
    case (rejected reason)
    then show ?thesis using paper_reject_Inr by blast
  next
    case filled
    then show ?thesis using paper_report_Inr[OF filled(2)] by simp
  qed
qed

section \<open>Properties\<close>

text \<open>
  Resubmission is idempotent. Once the paper venue has answered a submit, submitting the same
  order again, at any later time and under any other quotes, returns the same report and changes
  nothing; a different order under the same client id is refused and changes nothing either.
\<close>

theorem paper_submit_idempotent:
  assumes "paper_submit now quotes o' v = (Inr r, v')"
  shows "paper_submit now2 quotes2 o' v' = (Inr r, v') \<and>
    (\<forall>other. vo_client_order_id other = vo_client_order_id o' \<and> other \<noteq> o' \<longrightarrow>
      paper_submit now2 quotes2 other v' =
        (Inl (ValueError ''client_order_id already belongs to a different order''), v'))"
proof -
  have "dget (pv_orders v') (vo_client_order_id o') = Some (o', r)"
    using assms by (auto simp: paper_submit_def split: option.splits prod.splits if_splits sum.splits)
  then show ?thesis by (auto simp: paper_submit_def)
qed

definition ex_venue :: paper_venue where
  "ex_venue = \<lparr>pv_instruments = [(''BINANCE_SPOT:BTCUSDT'', ex_instrument)],
     pv_balances = [(''USDT'', 10000)], pv_fee_bps = 10, pv_slippage_bps = 5, pv_orders = []\<rparr>"

definition ex_quotes :: "string \<Rightarrow> quote option" where
  "ex_quotes _ = Some \<lparr>qt_bid = 64300, qt_ask = 64310, qt_observed_at = 0\<rparr>"

definition ex_venue_order :: venue_order where
  "ex_venue_order = \<lparr>vo_client_order_id = ''PX1'', vo_instrument_id = ''BINANCE_SPOT:BTCUSDT'',
     vo_side = BUY, vo_quantity = 1 / 1000, vo_order_type = LIMIT, vo_limit_price = Some 64320,
     vo_time_in_force = GTC\<rparr>"

lemma ex_paper_execute:
  "\<exists>r v'. paper_execute 0 ex_quotes ex_venue_order ex_venue = (Inr r, v') \<and> er_status r = FILLED"
proof -
  have price: "slipped_price ex_instrument 5 BUY 64310 = Inr (1608554 / 25)" by code_simp
  have grid: "order_violation ex_instrument (1 / 1000) 64320 = Inr None" by code_simp
  have fee: "dquot (dmul (dmul (1 / 1000) 64320) 10) BPS = 201 / 3125" by code_simp
  have cost: "dadd (dmul (1 / 1000) 64320) (201 / 3125) = 201201 / 3125" by code_simp
  have i: "ti_quote_asset ex_instrument = ''USDT''" "ti_base_asset ex_instrument = ''BTC''"
    by (simp_all add: ex_instrument_def)
  show ?thesis
    by (simp add: paper_execute_def paper_fill_def ex_venue_def ex_quotes_def ex_venue_order_def
        price grid fee cost i dget_or_def paper_report_def contract_simps Let_def)
qed

lemma ex_paper_submit:
  "\<exists>r v'. paper_submit 0 ex_quotes ex_venue_order ex_venue = (Inr r, v') \<and> er_status r = FILLED"
  using ex_paper_execute by (auto simp: paper_submit_def ex_venue_def)

theorem paper_submit_idempotent_witness:
  "\<exists>r v'. paper_submit 0 ex_quotes ex_venue_order ex_venue = (Inr r, v')
     \<and> paper_submit 99 (\<lambda>_. None) ex_venue_order v' = (Inr r, v')"
  using ex_paper_submit paper_submit_idempotent[of 0 ex_quotes ex_venue_order ex_venue] by blast

text \<open>
  A fill never betrays the order. When the paper venue reports FILLED for an order on a valid
  instrument, the whole quantity filled at one positive price that is a whole number of ticks, never
  above a buy's limit nor below a sell's, the fee is the venue's rate of that notional, and only the
  base and quote balances moved; any other report leaves every balance alone.
\<close>

theorem paper_execute_fill_sound:
  assumes "paper_execute now quotes o' v = (Inr r, v')"
    and "\<forall>i \<in> set (dvalues (pv_instruments v)). instrument_fields i"
  shows "(er_status r \<noteq> FILLED \<longrightarrow> v' = v \<and> er_filled_quantity r = 0) \<and>
    (er_status r = FILLED \<longrightarrow>
      (\<exists>inst price. dget (pv_instruments v) (vo_instrument_id o') = Some inst
        \<and> er_average_price r = Some price \<and> er_filled_quantity r = vo_quantity o'
        \<and> (\<exists>m :: nat. m > 0 \<and> price = of_nat m * ti_tick_size inst)
        \<and> (\<forall>limit. vo_order_type o' = LIMIT \<and> vo_limit_price o' = Some limit \<longrightarrow>
             (if vo_side o' = BUY then price \<le> limit else limit \<le> price))
        \<and> er_fee r = paper_fee v o' price
        \<and> (\<forall>a. a \<noteq> ti_base_asset inst \<and> a \<noteq> ti_quote_asset inst \<longrightarrow>
             dget (pv_balances v') a = dget (pv_balances v) a)))"
  using assms(1)
proof (cases rule: paper_execute_cases)
  case (unfilled st reason)
  then show ?thesis using paper_report_Inr[OF unfilled(2)] by auto
next
  case (trade inst price)
  have iok: "instrument_fields inst" using trade(1) assms(2) dget_Some_in by metis
  from trade(2) show ?thesis
  proof (cases rule: paper_fill_cases)
    case (rejected reason)
    then show ?thesis using paper_reject_Inr[OF rejected(1)] by auto
  next
    case filled
    have grid: "\<exists>m :: nat. m > 0 \<and> price = of_nat m * ti_tick_size inst"
      using order_violation_grid[OF iok filled(1)] by blast
    show ?thesis
      using paper_report_Inr[OF filled(2)] filled(3) trade grid
      by (auto simp: filled_balances_def)
  qed
qed

theorem paper_execute_fill_sound_witness:
  "\<exists>r v' price. paper_execute 0 ex_quotes ex_venue_order ex_venue = (Inr r, v')
     \<and> er_status r = FILLED \<and> er_average_price r = Some price \<and> price \<le> 64320"
proof -
  obtain r v' where x: "paper_execute 0 ex_quotes ex_venue_order ex_venue = (Inr r, v')" "er_status r = FILLED"
    using ex_paper_execute by blast
  have f: "\<forall>i \<in> set (dvalues (pv_instruments ex_venue)). instrument_fields i"
    by (simp add: ex_venue_def ex_instrument_def instrument_fields_def)
  show ?thesis using paper_execute_fill_sound[OF x(1) f] x by (auto simp: ex_venue_order_def)
qed

end
