(* ===== verification/Permits.thy ===== *)
theory Permits
  imports Contracts
begin

text \<open>
  Signed, short-lived, single-use risk permits (\<^verbatim>\<open>services/risk/permits.py\<close>) and the durable spend
  table of \<^verbatim>\<open>services/oms/store.py\<close>. The keyed hash (\<^verbatim>\<open>hmac\<close>), Ed25519 signing and verification,
  the printers of datetimes and Decimals and the fresh UUID are parameters. What the OMS needs of a
  verifier is the locale \<open>permit_verifier\<close>; both signature schemes of the code interpret it.
\<close>

section \<open>The signed material\<close>

definition json_field :: "string \<Rightarrow> string \<Rightarrow> string" where
  "json_field k v = CHR 0x22 # k @ [CHR 0x22, CHR '':'', CHR 0x22] @ v @ [CHR 0x22]"

text \<open>\<^verbatim>\<open>json.dumps(..., sort_keys=True, separators=(",", ":"))\<close> of six plain text fields.\<close>

definition material ::
    "(instant \<Rightarrow> string) \<Rightarrow> string \<Rightarrow> string \<Rightarrow> string \<Rightarrow> string \<Rightarrow> instant \<Rightarrow> instant \<Rightarrow> string" where
  "material isoformat permit_id intent_id intent_fingerprint max_quantity issued_at expires_at =
     ''{'' @ join '','' [
       json_field ''expires_at'' (isoformat expires_at),
       json_field ''intent_fingerprint'' intent_fingerprint,
       json_field ''intent_id'' intent_id,
       json_field ''issued_at'' (isoformat issued_at),
       json_field ''max_quantity'' max_quantity,
       json_field ''permit_id'' permit_id] @ ''}''"

definition permit_material :: "(instant \<Rightarrow> string) \<Rightarrow> (rat \<Rightarrow> string) \<Rightarrow> risk_permit \<Rightarrow> string" where
  "permit_material isoformat dec_str p =
     material isoformat (rp_permit_id p) (rp_intent_id p) (rp_intent_fingerprint p)
       (dec_str (rp_max_quantity p)) (rp_issued_at p) (rp_expires_at p)"

section \<open>Issuing and verifying\<close>

definition check_ttl :: "timedelta \<Rightarrow> unit res" where
  "check_ttl ttl = (if \<not> (0 < ttl \<and> ttl \<le> MAX_PERMIT_LIFETIME)
     then Inl (ValueError ''permit ttl must be positive and at most 60 seconds'') else Inr ())"

definition permit_fields ::
    "(trade_intent \<Rightarrow> string) \<Rightarrow> string \<Rightarrow> trade_intent \<Rightarrow> instant \<Rightarrow> timedelta \<Rightarrow> string \<Rightarrow> risk_permit" where
  "permit_fields fp new_id i now ttl signature =
     \<lparr>rp_permit_id = new_id, rp_intent_id = in_intent_id i, rp_intent_fingerprint = fp i,
      rp_max_quantity = in_quantity i, rp_issued_at = now, rp_expires_at = now + ttl,
      rp_signature = signature\<rparr>"

definition check_scope ::
    "(trade_intent \<Rightarrow> string) \<Rightarrow> risk_permit \<Rightarrow> trade_intent \<Rightarrow> instant \<Rightarrow> unit res" where
  "check_scope fp p i now =
     (if now < rp_issued_at p \<or> now \<ge> rp_expires_at p then Inl (PermitRejected ''expired'')
      else if \<not> covers fp p i now then Inl (PermitRejected ''intent_mismatch'')
      else Inr ())"

text \<open>The shared-key scheme: \<open>sign\<close> is the keyed hash with the signer's key.\<close>

record permit_signer =
  ps_sign :: "string \<Rightarrow> string"
  ps_ttl :: timedelta

definition permit_signer_new :: "(string \<Rightarrow> string \<Rightarrow> string) \<Rightarrow> string \<Rightarrow> timedelta \<Rightarrow> permit_signer res" where
  "permit_signer_new hmac key ttl =
     (if length key < 32 then Inl (ValueError ''permit signing key must be at least 32 bytes'')
      else res_bind (check_ttl ttl) (\<lambda>_. Inr \<lparr>ps_sign = hmac key, ps_ttl = ttl\<rparr>))"

definition hmac_issue ::
    "(instant \<Rightarrow> string) \<Rightarrow> (rat \<Rightarrow> string) \<Rightarrow> (trade_intent \<Rightarrow> string) \<Rightarrow> permit_signer \<Rightarrow> string \<Rightarrow>
     trade_intent \<Rightarrow> instant \<Rightarrow> risk_permit res" where
  "hmac_issue isoformat dec_str fp sg new_id i now =
     (let p = permit_fields fp new_id i now (ps_ttl sg) []
      in risk_permit_new (p\<lparr>rp_signature := ps_sign sg (permit_material isoformat dec_str p)\<rparr>))"

definition hmac_verify ::
    "(instant \<Rightarrow> string) \<Rightarrow> (rat \<Rightarrow> string) \<Rightarrow> (trade_intent \<Rightarrow> string) \<Rightarrow> permit_signer \<Rightarrow>
     risk_permit \<Rightarrow> trade_intent \<Rightarrow> instant \<Rightarrow> unit res" where
  "hmac_verify isoformat dec_str fp sg p i now =
     (if ps_sign sg (permit_material isoformat dec_str p) \<noteq> rp_signature p
      then Inl (PermitRejected ''bad_signature'')
      else check_scope fp p i now)"

text \<open>
  The asymmetric scheme. \<open>ed_verify sig material\<close> is the public key's verification of a hex
  signature; both an invalid signature and unreadable hex make it \<open>False\<close>.
\<close>

definition ed25519_verify ::
    "(instant \<Rightarrow> string) \<Rightarrow> (rat \<Rightarrow> string) \<Rightarrow> (trade_intent \<Rightarrow> string) \<Rightarrow> (string \<Rightarrow> string \<Rightarrow> bool) \<Rightarrow>
     risk_permit \<Rightarrow> trade_intent \<Rightarrow> instant \<Rightarrow> unit res" where
  "ed25519_verify isoformat dec_str fp ed_verify p i now =
     (if \<not> startswith (rp_signature p) ''ed25519:'' then Inl (PermitRejected ''bad_signature'')
      else if \<not> ed_verify (drop 8 (rp_signature p)) (permit_material isoformat dec_str p)
      then Inl (PermitRejected ''bad_signature'')
      else check_scope fp p i now)"

definition ed25519_signer_new :: "(string \<Rightarrow> string \<Rightarrow> string) \<Rightarrow> string \<Rightarrow> timedelta \<Rightarrow> permit_signer res" where
  "ed25519_signer_new ed_sign private_key ttl =
     (if length private_key \<noteq> 32
      then Inl (ValueError ''Ed25519 private key must be the 32-byte seed'')
      else res_bind (check_ttl ttl) (\<lambda>_. Inr \<lparr>ps_sign = ed_sign private_key, ps_ttl = ttl\<rparr>))"

definition ed25519_issue ::
    "(instant \<Rightarrow> string) \<Rightarrow> (rat \<Rightarrow> string) \<Rightarrow> (trade_intent \<Rightarrow> string) \<Rightarrow> permit_signer \<Rightarrow> string \<Rightarrow>
     trade_intent \<Rightarrow> instant \<Rightarrow> risk_permit res" where
  "ed25519_issue isoformat dec_str fp sg new_id i now =
     (let p = permit_fields fp new_id i now (ps_ttl sg) []
      in risk_permit_new (p\<lparr>rp_signature :=
           ''ed25519:'' @ ps_sign sg (permit_material isoformat dec_str p)\<rparr>))"

section \<open>Single use\<close>

type_synonym verifier = "risk_permit \<Rightarrow> trade_intent \<Rightarrow> instant \<Rightarrow> unit res"
type_synonym spent = "(string, instant) dict"

definition prune_spent :: "instant \<Rightarrow> spent \<Rightarrow> spent" where
  "prune_spent now spent = filter (\<lambda>(permit_id, expires_at). \<not> expires_at \<le> now) spent"

definition permit_consume ::
    "verifier \<Rightarrow> risk_permit \<Rightarrow> trade_intent \<Rightarrow> instant \<Rightarrow> spent \<Rightarrow> unit res \<times> spent" where
  "permit_consume verify p i now spent =
     (case verify p i now of
        Inl e \<Rightarrow> (Inl e, spent)
      | Inr _ \<Rightarrow>
          let live = prune_spent now spent
          in if dget live (rp_permit_id p) \<noteq> None
             then (Inl (PermitRejected ''already_used''), live)
             else (Inr (), dset (rp_permit_id p) (rp_expires_at p) live))"

text \<open>The durable table: permit id to (intent id, expiry, time of use); rows are never deleted.\<close>

type_synonym consumed_permits = "(string, string \<times> instant \<times> instant) dict"

definition sql_permit_consume ::
    "verifier \<Rightarrow> risk_permit \<Rightarrow> trade_intent \<Rightarrow> instant \<Rightarrow> consumed_permits \<Rightarrow>
     unit res \<times> consumed_permits" where
  "sql_permit_consume verify p i now rows =
     (case verify p i now of
        Inl e \<Rightarrow> (Inl e, rows)
      | Inr _ \<Rightarrow>
          if dget rows (rp_permit_id p) \<noteq> None
          then (Inl (PermitRejected ''already_used''), rows)
          else (Inr (), dset (rp_permit_id p) (rp_intent_id p, rp_expires_at p, now) rows))"

text \<open>A sequence of consume calls against one ledger, with every outcome.\<close>

fun consume_run ::
    "(risk_permit \<Rightarrow> trade_intent \<Rightarrow> instant \<Rightarrow> 's \<Rightarrow> unit res \<times> 's) \<Rightarrow>
     (risk_permit \<times> trade_intent \<times> instant) list \<Rightarrow> 's \<Rightarrow> unit res list" where
  "consume_run consume [] s = []"
| "consume_run consume ((p, i, now) # calls) s =
     (case consume p i now s of (r, s') \<Rightarrow> r # consume_run consume calls s')"

abbreviation call_times :: "(risk_permit \<times> trade_intent \<times> instant) list \<Rightarrow> instant list" where
  "call_times calls \<equiv> map (\<lambda>(p, i, now). now) calls"

text \<open>How many of the calls that presented permit \<open>p\<close> were accepted.\<close>

definition uses_of :: "risk_permit \<Rightarrow> (risk_permit \<times> trade_intent \<times> instant) list \<Rightarrow> unit res list \<Rightarrow> nat" where
  "uses_of p calls rs = length (filter (\<lambda>((q, i, now), r). q = p \<and> returned r) (zip calls rs))"

section \<open>The verifier interface\<close>

locale permit_verifier =
  fixes verify :: verifier and fp :: "trade_intent \<Rightarrow> string"
  assumes verify_covers: "verify p i now = Inr () \<Longrightarrow> covers fp p i now"
begin

lemma verify_window: "verify p i now = Inr () \<Longrightarrow> rp_issued_at p \<le> now \<and> now < rp_expires_at p"
  by (auto dest: verify_covers simp: covers_def)

lemma consume_accepts:
  "permit_consume verify p i now s = (Inr u, s') \<Longrightarrow> covers fp p i now \<and>
     dget s' (rp_permit_id p) = Some (rp_expires_at p)"
  using verify_covers
  by (auto simp: permit_consume_def Let_def split: sum.splits if_splits)

text \<open>A permit that is on the books until its own expiry is refused from then on.\<close>

lemma spent_blocks:
  assumes "dict_ok s" and "dget s (rp_permit_id p) = Some (rp_expires_at p)"
  shows "\<not> returned (fst (permit_consume verify p i now s))"
proof (cases "verify p i now")
  case (Inr u)
  then have "now < rp_expires_at p" using verify_window by simp
  then have "dget (prune_spent now s) (rp_permit_id p) = Some (rp_expires_at p)"
    using assms unfolding prune_spent_def by (simp add: dget_filter_value)
  then show ?thesis using Inr by (simp add: permit_consume_def Let_def)
qed (simp add: permit_consume_def)

lemma consume_dict_ok: "dict_ok s \<Longrightarrow> dict_ok (snd (permit_consume verify p i now s))"
  by (auto simp: permit_consume_def prune_spent_def Let_def split: sum.splits)

text \<open>What stays on the books across one call: entries not yet expired.\<close>

lemma consume_keeps:
  assumes "dict_ok s" and "dget s k = Some e" and "now < e"
  shows "dget (snd (permit_consume verify p i now s)) k = Some e"
proof -
  have "dget (prune_spent now s) k = Some e"
    using assms unfolding prune_spent_def by (simp add: dget_filter_value)
  then show ?thesis using assms(2)
    by (auto simp: permit_consume_def Let_def split: sum.splits)
qed

text \<open>Once booked, or once expired, a permit is never accepted again by later calls.\<close>

lemma no_further_use:
  assumes "dict_ok s" and "dget s (rp_permit_id p) = Some (rp_expires_at p) \<or> rp_expires_at p \<le> t"
    and "sorted (t # call_times calls)"
  shows "uses_of p calls (consume_run (permit_consume verify) calls s) = 0"
  using assms
proof (induction calls arbitrary: s t)
  case Nil
  then show ?case by (simp add: uses_of_def)
next
  case (Cons c calls)
  obtain q i now where c: "c = (q, i, now)" by (cases c)
  obtain r s' where step: "permit_consume verify q i now s = (r, s')"
    by (cases "permit_consume verify q i now s")
  have now: "t \<le> now" "sorted (now # call_times calls)" using Cons.prems(3) c by auto
  have here: "\<not> (q = p \<and> returned r)"
  proof
    assume qr: "q = p \<and> returned r"
    then obtain u where "permit_consume verify p i now s = (Inr u, s')"
      using step by (auto simp: returned_conv)
    then have "covers fp p i now" using consume_accepts by blast
    then have "now < rp_expires_at p" by (simp add: covers_def)
    then show False using Cons.prems(1,2) now(1) spent_blocks[of s p i now] qr step by auto
  qed
  have ok: "dict_ok s'" using consume_dict_ok[OF Cons.prems(1), of q i now] step by simp
  have inv: "dget s' (rp_permit_id p) = Some (rp_expires_at p) \<or> rp_expires_at p \<le> now"
    using consume_keeps[OF Cons.prems(1), of "rp_permit_id p" "rp_expires_at p" now q i]
      Cons.prems(2) now(1) step by fastforce
  show ?case using Cons.IH[OF ok inv now(2)] here step c by (auto simp: uses_of_def)
qed

lemma single_use:
  assumes "dict_ok s" and "sorted (call_times calls)"
  shows "uses_of p calls (consume_run (permit_consume verify) calls s) \<le> 1"
  using assms
proof (induction calls arbitrary: s)
  case Nil
  then show ?case by (simp add: uses_of_def)
next
  case (Cons c calls)
  obtain q i now where c: "c = (q, i, now)" by (cases c)
  obtain r s' where step: "permit_consume verify q i now s = (r, s')"
    by (cases "permit_consume verify q i now s")
  have ok: "dict_ok s'" using consume_dict_ok[OF Cons.prems(1), of q i now] step by simp
  have st: "sorted (now # call_times calls)" using Cons.prems(2) c by auto
  show ?case
  proof (cases "q = p \<and> returned r")
    case True
    then obtain u where "permit_consume verify p i now s = (Inr u, s')"
      using step by (auto simp: returned_conv)
    then have "dget s' (rp_permit_id p) = Some (rp_expires_at p)" using consume_accepts by blast
    then have "uses_of p calls (consume_run (permit_consume verify) calls s') = 0"
      using no_further_use[OF ok _ st] by blast
    then show ?thesis using c step by (simp add: uses_of_def)
  next
    case False
    then show ?thesis using Cons.IH[OF ok] st c step by (auto simp: uses_of_def)
  qed
qed

text \<open>
  The two ledgers side by side: the table keeps everything, the in-memory dictionary at least what
  has not expired.
\<close>

definition spent_sim :: "instant \<Rightarrow> (string \<Rightarrow> instant) \<Rightarrow> spent \<Rightarrow> consumed_permits \<Rightarrow> bool" where
  "spent_sim t expiry s rows \<longleftrightarrow> dict_ok s \<and>
     (\<forall>k e. dget s k = Some e \<longrightarrow> dget rows k \<noteq> None \<and> e = expiry k) \<and>
     (\<forall>k row. dget rows k = Some row \<and> t < expiry k \<longrightarrow> dget s k = Some (expiry k))"

lemma spent_sim_step:
  assumes sim: "spent_sim t expiry s rows" and "t \<le> now" and "expiry (rp_permit_id p) = rp_expires_at p"
  shows "fst (permit_consume verify p i now s) = fst (sql_permit_consume verify p i now rows) \<and>
    spent_sim now expiry (snd (permit_consume verify p i now s)) (snd (sql_permit_consume verify p i now rows))"
proof (cases "verify p i now")
  case (Inl e)
  have "spent_sim now expiry s rows"
    using sim \<open>t \<le> now\<close> unfolding spent_sim_def by (meson order_le_less_trans)
  then show ?thesis using Inl by (simp add: permit_consume_def sql_permit_consume_def)
next
  case (Inr u)
  have win: "now < rp_expires_at p" using verify_window Inr by simp
  have oks: "dict_ok s" using sim unfolding spent_sim_def by blast
  have pr: "dget (prune_spent now s) k =
      (case dget s k of None \<Rightarrow> None | Some e \<Rightarrow> if now < e then Some e else None)" for k
    unfolding prune_spent_def not_le using dget_filter_value[OF oks, of "\<lambda>e. now < e" k] .
  have ok: "dict_ok (prune_spent now s)" using oks by (simp add: prune_spent_def)
  have simD: "dget s k = Some e \<Longrightarrow> dget rows k \<noteq> None \<and> e = expiry k"
    "dget rows k = Some row \<Longrightarrow> t < expiry k \<Longrightarrow> dget s k = Some (expiry k)" for k e row
    using sim unfolding spent_sim_def by blast+
  have same: "dget (prune_spent now s) (rp_permit_id p) = None \<longleftrightarrow> dget rows (rp_permit_id p) = None"
  proof (cases "dget rows (rp_permit_id p)")
    case None
    then have "dget s (rp_permit_id p) = None" using simD(1) by (metis not_None_eq)
    then show ?thesis using None by (simp add: pr)
  next
    case (Some row)
    then have "dget s (rp_permit_id p) = Some (rp_expires_at p)"
      using simD(2)[of "rp_permit_id p" row] win \<open>t \<le> now\<close> assms(3) by simp
    then show ?thesis using Some win by (simp add: pr)
  qed
  have kept: "dget (prune_spent now s) k = Some e \<Longrightarrow> dget rows k \<noteq> None \<and> e = expiry k" for k e
    using simD(1)[of k] unfolding pr by (auto split: option.splits if_splits)
  have live: "dget rows k = Some row \<Longrightarrow> now < expiry k \<Longrightarrow> dget (prune_spent now s) k = Some (expiry k)"
    for k row
    using simD(2)[of k row] \<open>t \<le> now\<close> by (simp add: pr)
  show ?thesis
  proof (cases "dget rows (rp_permit_id p)")
    case None
    let ?s = "dset (rp_permit_id p) (rp_expires_at p) (prune_spent now s)"
    let ?r = "dset (rp_permit_id p) (rp_intent_id p, rp_expires_at p, now) rows"
    have "spent_sim now expiry ?s ?r"
      unfolding spent_sim_def
    proof (intro conjI allI impI)
      show "dict_ok ?s" using ok by simp
      show "dget ?r k \<noteq> None" if "dget ?s k = Some e" for k e
        using that kept[of k e] by (auto split: if_splits)
      show "e = expiry k" if "dget ?s k = Some e" for k e
        using that kept[of k e] assms(3) by (auto split: if_splits)
      show "dget ?s k = Some (expiry k)" if "dget ?r k = Some row \<and> now < expiry k" for k row
        using that live[of k row] assms(3) by (auto split: if_splits)
    qed
    moreover have "permit_consume verify p i now s = (Inr (), ?s)"
      "sql_permit_consume verify p i now rows = (Inr (), ?r)"
      using Inr same None by (simp_all add: permit_consume_def sql_permit_consume_def)
    ultimately show ?thesis by simp
  next
    case (Some row)
    have "spent_sim now expiry (prune_spent now s) rows"
      unfolding spent_sim_def using ok kept live by blast
    moreover have "permit_consume verify p i now s =
        (Inl (PermitRejected ''already_used''), prune_spent now s)"
      "sql_permit_consume verify p i now rows = (Inl (PermitRejected ''already_used''), rows)"
      using Inr same Some by (simp_all add: permit_consume_def sql_permit_consume_def)
    ultimately show ?thesis by simp
  qed
qed

lemma ledgers_agree:
  assumes "spent_sim t expiry s rows" and "sorted (t # call_times calls)"
    and "\<And>q i now. (q, i, now) \<in> set calls \<Longrightarrow> expiry (rp_permit_id q) = rp_expires_at q"
  shows "consume_run (permit_consume verify) calls s = consume_run (sql_permit_consume verify) calls rows"
  using assms
proof (induction calls arbitrary: t s rows)
  case (Cons c calls)
  obtain q i now where c: "c = (q, i, now)" by (cases c)
  have now: "t \<le> now" "sorted (now # call_times calls)" using Cons.prems(2) c by auto
  have e: "expiry (rp_permit_id q) = rp_expires_at q" using Cons.prems(3)[of q i now] c by simp
  have step: "fst (permit_consume verify q i now s) = fst (sql_permit_consume verify q i now rows)"
    and sim: "spent_sim now expiry (snd (permit_consume verify q i now s))
       (snd (sql_permit_consume verify q i now rows))"
    using spent_sim_step[OF Cons.prems(1) now(1) e, of i] by auto
  have "consume_run (permit_consume verify) calls (snd (permit_consume verify q i now s))
     = consume_run (sql_permit_consume verify) calls (snd (sql_permit_consume verify q i now rows))"
    by (rule Cons.IH[OF sim now(2)]) (use Cons.prems(3) in auto)
  then show ?case using step c by (simp add: case_prod_beta)
qed simp

end

lemma check_scope_Inr: "check_scope fp p i now = Inr () \<longleftrightarrow> covers fp p i now"
  by (auto simp: check_scope_def covers_def)

interpretation hmac_v: permit_verifier "hmac_verify isoformat dec_str fp sg" fp
  for isoformat dec_str fp sg
  by unfold_locales (auto simp: hmac_verify_def check_scope_Inr split: if_splits)

interpretation ed_v: permit_verifier "ed25519_verify isoformat dec_str fp ed_verify" fp
  for isoformat dec_str fp ed_verify
  by unfold_locales (auto simp: ed25519_verify_def check_scope_Inr split: if_splits)

section \<open>Properties\<close>

text \<open>
  C36: A permit is accepted at most once. Whatever the sequence of consume calls (any permits, any
  intents, forged or not) against one in-memory permit ledger, as long as the clock does not run
  backwards, the calls that present one given permit succeed at most once, under the HMAC and under
  the Ed25519 scheme.
\<close>

theorem permit_single_use:
  assumes "sorted (call_times calls)"
  shows "uses_of p calls (consume_run (permit_consume (hmac_verify isof ds fp sg)) calls []) \<le> 1
    \<and> uses_of p calls (consume_run (permit_consume (ed25519_verify isof ds fp ev)) calls []) \<le> 1"
  using hmac_v.single_use[of "[]" calls] ed_v.single_use[of "[]" calls] assms by auto

definition ex_permit :: risk_permit where
  "ex_permit = \<lparr>rp_permit_id = ''p1'', rp_intent_id = ''i1'', rp_intent_fingerprint = ''f1'',
     rp_max_quantity = 1, rp_issued_at = 0, rp_expires_at = seconds 10, rp_signature = ''sig''\<rparr>"

definition ex_intent :: trade_intent where
  "ex_intent = \<lparr>in_intent_id = ''i1'', in_instrument_id = ''BINANCE_SPOT:BTCUSDT'',
     in_venue = V_BINANCE_SPOT, in_side = BUY, in_quantity = 1, in_order_type = LIMIT,
     in_limit_price = Some 100, in_time_in_force = GTC, in_reduce_only = False,
     in_strategy_id = ''s1'', in_model_version = ''m1'', in_signal_ids = [''g1''],
     in_stage = STAGE_PAPER, in_created_at = 0\<rparr>"

abbreviation ex_signer :: permit_signer where
  "ex_signer \<equiv> \<lparr>ps_sign = (\<lambda>_. ''sig''), ps_ttl = seconds 10\<rparr>"

theorem permit_single_use_witness:
  "uses_of ex_permit [(ex_permit, ex_intent, 1), (ex_permit, ex_intent, 2)]
     (consume_run (permit_consume (hmac_verify (\<lambda>_. []) (\<lambda>_. []) (\<lambda>_. ''f1'') ex_signer))
        [(ex_permit, ex_intent, 1), (ex_permit, ex_intent, 2)] []) \<le> 1
   \<and> consume_run (permit_consume (hmac_verify (\<lambda>_. []) (\<lambda>_. []) (\<lambda>_. ''f1'') ex_signer))
        [(ex_permit, ex_intent, 1), (ex_permit, ex_intent, 2)] []
      = [Inr (), Inl (PermitRejected ''already_used'')]"
proof
  show "uses_of ex_permit [(ex_permit, ex_intent, 1), (ex_permit, ex_intent, 2)]
     (consume_run (permit_consume (hmac_verify (\<lambda>_. []) (\<lambda>_. []) (\<lambda>_. ''f1'') ex_signer))
        [(ex_permit, ex_intent, 1), (ex_permit, ex_intent, 2)] []) \<le> 1"
    by (rule permit_single_use[THEN conjunct1]) simp
  show "consume_run (permit_consume (hmac_verify (\<lambda>_. []) (\<lambda>_. []) (\<lambda>_. ''f1'') ex_signer))
        [(ex_permit, ex_intent, 1), (ex_permit, ex_intent, 2)] []
      = [Inr (), Inl (PermitRejected ''already_used'')]"
    by code_simp
qed

text \<open>
  The durable permit table refines the in-memory ledger: for calls whose clock does not run
  backwards and in which a permit id names one permit, both give the same outcome call by call, so
  moving single use into the database changes no decision.
\<close>

theorem permit_ledgers_equivalent:
  assumes "sorted (call_times calls)"
    and "\<And>q i t q' i' t'. (q, i, t) \<in> set calls \<Longrightarrow> (q', i', t') \<in> set calls \<Longrightarrow>
           rp_permit_id q = rp_permit_id q' \<Longrightarrow> q = q'"
  shows "consume_run (permit_consume (ed25519_verify isof ds fp ev)) calls []
       = consume_run (sql_permit_consume (ed25519_verify isof ds fp ev)) calls []"
proof -
  define expiry where "expiry k =
    (case find (\<lambda>c. rp_permit_id (fst c) = k) calls of None \<Rightarrow> 0 | Some c \<Rightarrow> rp_expires_at (fst c))" for k
  define t where "t = (case calls of [] \<Rightarrow> 0 | (q, i, t) # _ \<Rightarrow> t)"
  have srt: "sorted (t # call_times calls)"
    using assms(1) by (auto simp: t_def split: list.splits)
  have sim: "ed_v.spent_sim t expiry [] []"
    by (simp add: ed_v.spent_sim_def)
  have ex: "expiry (rp_permit_id q) = rp_expires_at q" if mem: "(q, i, now) \<in> set calls" for q i now
  proof -
    obtain c where c: "find (\<lambda>c. rp_permit_id (fst c) = rp_permit_id q) calls = Some c"
    proof (cases "find (\<lambda>c. rp_permit_id (fst c) = rp_permit_id q) calls")
      case None
      then show ?thesis using mem by (auto simp: find_None_iff)
    qed
    then have "c \<in> set calls" and "rp_permit_id (fst c) = rp_permit_id q"
      by (auto simp: find_Some_iff)
    then have "fst c = q" using assms(2)[of "fst c" "fst (snd c)" "snd (snd c)" q i now] mem by simp
    then show ?thesis by (simp add: expiry_def c)
  qed
  show ?thesis by (rule ed_v.ledgers_agree[OF sim srt ex])
qed

theorem permit_ledgers_equivalent_witness:
  "consume_run (permit_consume (ed25519_verify (\<lambda>_. []) (\<lambda>_. []) (\<lambda>_. ''f1'') (\<lambda>_ _. True)))
     [(ex_permit, ex_intent, 1)] []
   = consume_run (sql_permit_consume (ed25519_verify (\<lambda>_. []) (\<lambda>_. []) (\<lambda>_. ''f1'') (\<lambda>_ _. True)))
     [(ex_permit, ex_intent, 1)] []"
  by (rule permit_ledgers_equivalent) auto

text \<open>
  Issue then verify. The permit the Ed25519 signer issues for an intent (signing ttl as the
  constructor requires) is accepted by the verifier for that very intent at every instant from its
  issue until its expiry, at most 60 seconds later, and is refused from the expiry on and before the
  issue. The hypotheses are what the hash and the signature scheme document: SHA-256 prints 64 hex
  digits, an Ed25519 signature prints 128, and the public key accepts what its private key signed.
\<close>

theorem ed25519_issue_verify:
  assumes "ed25519_signer_new ed_sign seed ttl = Inr sg" and "intent_fields i"
    and fp_hex: "hex_text 64 (fp i)"
    and sig_hex: "\<And>m. hex_text 128 (ed_sign seed m)"
    and sig_ok: "\<And>m. ev (ed_sign seed m) m"
  shows "\<exists>p. ed25519_issue isof ds fp sg new_id i now = Inr p
     \<and> rp_expires_at p \<le> now + MAX_PERMIT_LIFETIME
     \<and> (\<forall>t. (ed25519_verify isof ds fp ev p i t = Inr ()) = (now \<le> t \<and> t < rp_expires_at p))"
proof -
  have ttl: "0 < ttl" "ttl \<le> MAX_PERMIT_LIFETIME" and sg: "sg = \<lparr>ps_sign = ed_sign seed, ps_ttl = ttl\<rparr>"
    using assms(1) by (auto simp: ed25519_signer_new_def check_ttl_def split: if_splits)
  define f where "f = permit_fields fp new_id i now ttl []"
  define p where "p = f\<lparr>rp_signature := ''ed25519:'' @ ed_sign seed (permit_material isof ds f)\<rparr>"
  have same: "permit_material isof ds p = permit_material isof ds f"
    by (simp add: p_def permit_material_def)
  have "risk_permit_new p = Inr p"
    using fp_hex sig_hex ttl assms(2)
    by (simp add: p_def f_def permit_fields_def risk_permit_new_def validate_lifetime_def
        signature_pattern_def startswith_def intent_fields_def)
  then have "ed25519_issue isof ds fp sg new_id i now = Inr p"
    by (simp add: ed25519_issue_def sg f_def p_def Let_def)
  moreover have "(ed25519_verify isof ds fp ev p i t = Inr ()) = (now \<le> t \<and> t < rp_expires_at p)" for t
  proof -
    have "startswith (rp_signature p) ''ed25519:''" "ev (drop 8 (rp_signature p)) (permit_material isof ds p)"
      using sig_ok unfolding same by (simp_all add: p_def startswith_def)
    then show ?thesis
      by (auto simp: ed25519_verify_def check_scope_Inr covers_def p_def f_def permit_fields_def)
  qed
  moreover have "rp_expires_at p \<le> now + MAX_PERMIT_LIFETIME"
    using ttl by (simp add: p_def f_def permit_fields_def)
  ultimately show ?thesis by blast
qed

theorem ed25519_issue_verify_witness:
  "\<exists>p. ed25519_issue (\<lambda>_. []) (\<lambda>_. []) (\<lambda>_. replicate 64 CHR ''a'')
        \<lparr>ps_sign = (\<lambda>_. replicate 128 CHR ''0''), ps_ttl = seconds 10\<rparr> ''p1'' ex_intent 0 = Inr p
     \<and> rp_expires_at p \<le> 0 + MAX_PERMIT_LIFETIME
     \<and> (\<forall>t. (ed25519_verify (\<lambda>_. []) (\<lambda>_. []) (\<lambda>_. replicate 64 CHR ''a'')
              (\<lambda>s _. s = replicate 128 CHR ''0'') p ex_intent t = Inr ())
          = (0 \<le> t \<and> t < rp_expires_at p))"
proof (rule ed25519_issue_verify)
  show "ed25519_signer_new (\<lambda>_ _. replicate 128 CHR ''0'') (replicate 32 CHR ''k'') (seconds 10)
      = Inr \<lparr>ps_sign = (\<lambda>_. replicate 128 CHR ''0''), ps_ttl = seconds 10\<rparr>"
    by (simp add: ed25519_signer_new_def check_ttl_def)
  show "intent_fields ex_intent" by (simp add: intent_fields_def ex_intent_def)
qed (simp_all add: hex_text_def is_hex_def list_all_iff)

end
