(* ===== verification/Risk_Engine.thy ===== *)
theory Risk_Engine
  imports Paper_Venue Permits "HOL-Library.FSet"
begin

text \<open>
  The deterministic risk engine (\<^verbatim>\<open>services/risk/engine.py\<close>): policy, account view, controls, the
  lockdown breaches, session hours and the whole of \<^verbatim>\<open>RiskEngine.evaluate\<close>. The engine's state is
  its instrument table, its signer and its policy, which are arguments of \<open>evaluate\<close>. The local
  wall clock of a time zone (\<^verbatim>\<open>astimezone(ZoneInfo(..))\<close>) is the parameter \<open>local_clock\<close>, which
  gives weekday and time of day; the texts of the check details are left out of \<open>checks\<close>.
\<close>

section \<open>State\<close>

definition CERTIFIED_STAGES :: "release_stage list" where
  "CERTIFIED_STAGES = [STAGE_PAPER, SHADOW]"

datatype lockdown_reason = DAILY_LOSS | DRAWDOWN

record risk_policy =
  po_stop_distance :: rat
  po_max_quote_age :: timedelta
  po_price_collar_bps :: rat
  po_max_spread_bps :: rat
  po_max_order_notional :: "(string, rat) dict"

definition default_policy :: risk_policy where
  "default_policy = \<lparr>po_stop_distance = 2 / 100, po_max_quote_age = seconds 10,
     po_price_collar_bps = 50, po_max_spread_bps = 200, po_max_order_notional = []\<rparr>"

definition risk_policy_new :: "risk_policy \<Rightarrow> risk_policy res" where
  "risk_policy_new p =
     (if \<not> (0 < po_stop_distance p \<and> po_stop_distance p < 1)
      then Inl (ValueError ''stop_distance must be in (0, 1)'')
      else if \<not> (0 < po_price_collar_bps p \<and> po_price_collar_bps p \<le> 500)
      then Inl (ValueError ''price_collar_bps must be in (0, 500]'')
      else if \<not> (0 < po_max_spread_bps p \<and> po_max_spread_bps p \<le> 500)
      then Inl (ValueError ''max_spread_bps must be in (0, 500]'')
      else if po_max_quote_age p \<le> 0 then Inl (ValueError ''max_quote_age must be positive'')
      else Inr p)"

text \<open>The exposure is \<open>None\<close> when it is \<^verbatim>\<open>Decimal("Infinity")\<close>, for an account that cannot be marked.\<close>

record account_state =
  ac_equity :: rat
  ac_start_of_day_equity :: rat
  ac_peak_equity :: rat
  ac_gross_exposure :: "rat option"
  ac_positions :: "(string, rat) dict"
  ac_reference_capital :: rat
  ac_open_buys :: "(string, rat) dict"

record controls =
  ct_global_kill :: bool
  ct_killed_venues :: "string fset"
  ct_killed_strategies :: "string fset"
  ct_lockdown :: "lockdown_reason option"

text \<open>An entry of \<^verbatim>\<open>checks\<close>: \<^verbatim>\<open>"ok"\<close>, \<^verbatim>\<open>"fail: ..."\<close> or a printed number.\<close>

datatype check_result = CheckOk | CheckFail | CheckValue rat

record risk_decision =
  rd_approved :: bool
  rd_permit :: "risk_permit option"
  rd_rejections :: "string list"
  rd_checks :: "(string, check_result) dict"
  rd_breach :: "lockdown_reason option"

section \<open>Sessions\<close>

text \<open>Time of day in microseconds.\<close>

definition time_of_day :: "int \<Rightarrow> int \<Rightarrow> int" where
  "time_of_day h m = h * 3600000000 + minutes m"

definition SESSIONS :: "(string, int \<times> int) dict" where
  "SESSIONS = [(''America/Sao_Paulo'', time_of_day 10 0, time_of_day 17 55),
     (''America/New_York'', time_of_day 9 30, time_of_day 16 0)]"

type_synonym local_clock = "string \<Rightarrow> instant \<Rightarrow> int \<times> int"

definition session_open :: "local_clock \<Rightarrow> tradable_instrument \<Rightarrow> instant \<Rightarrow> bool" where
  "session_open local_clock inst now =
     (if ti_session_type inst = CONTINUOUS_24_7 then True
      else (case dget SESSIONS (ti_timezone inst) of
              None \<Rightarrow> False
            | Some (opens, closes) \<Rightarrow>
                (case local_clock (ti_timezone inst) now of
                   (weekday, t) \<Rightarrow> weekday < 5 \<and> opens \<le> t \<and> t < closes)))"

section \<open>Breaches\<close>

text \<open>Loss against the smaller of a baseline and the cap; an unknown baseline counts as a total loss.\<close>

definition loss_fraction :: "rat \<Rightarrow> rat \<Rightarrow> rat \<Rightarrow> rat" where
  "loss_fraction cap baseline equity =
     (if baseline > 0 then dquot (dsub baseline equity) (min baseline cap) else 1)"

definition breach_cap :: "account_state \<Rightarrow> rat" where
  "breach_cap account =
     min (if ac_reference_capital account > 0 then ac_reference_capital account else REFERENCE_CAPITAL)
         REFERENCE_CAPITAL"

definition account_breach :: "account_state \<Rightarrow> lockdown_reason option \<times> rat \<times> rat" where
  "account_breach account =
     (let cap = breach_cap account;
          daily_loss = loss_fraction cap (ac_start_of_day_equity account) (ac_equity account);
          drawdown = loss_fraction cap (ac_peak_equity account) (ac_equity account)
      in if daily_loss \<ge> MAX_DAILY_LOSS then (Some DAILY_LOSS, daily_loss, drawdown)
         else if drawdown \<ge> MAX_DRAWDOWN then (Some DRAWDOWN, daily_loss, drawdown)
         else (None, daily_loss, drawdown))"

definition evaluate_breach :: "account_state \<Rightarrow> lockdown_reason option" where
  "evaluate_breach account = fst (account_breach account)"

section \<open>The evaluation\<close>

text \<open>\<open>check\<close> records an outcome and, when it fails, the rejection.\<close>

definition check ::
    "string \<times> bool \<Rightarrow> (string, check_result) dict \<times> string list \<Rightarrow>
     (string, check_result) dict \<times> string list" where
  "check c acc = (case (c, acc) of ((name, ok), (checks, rejections)) \<Rightarrow>
     (dset name (if ok then CheckOk else CheckFail) checks,
      if ok then rejections else rejections @ [name]))"

definition position_of :: "account_state \<Rightarrow> trade_intent \<Rightarrow> rat" where
  "position_of account i = max (dget_or (ac_positions account) (in_instrument_id i) 0) 0"

definition reducing :: "account_state \<Rightarrow> trade_intent \<Rightarrow> bool" where
  "reducing account i \<longleftrightarrow>
     in_side i = SELL \<and> in_reduce_only i \<and> in_quantity i \<le> position_of account i"

definition certified :: "release_stage option \<Rightarrow> trade_intent \<Rightarrow> bool" where
  "certified scope_stage i \<longleftrightarrow> in_stage i \<in> set CERTIFIED_STAGES \<or>
     (in_stage i = CANARY \<and> scope_stage = Some CANARY)"

text \<open>Halts and scope.\<close>

definition halt_checks ::
    "tradable_instrument option \<Rightarrow> account_state \<Rightarrow> controls \<Rightarrow> release_stage option \<Rightarrow> trade_intent \<Rightarrow>
     (string \<times> bool) list" where
  "halt_checks inst account controls scope_stage i =
     [(''stage_certified'', certified scope_stage i),
      (''global_kill_switch'', \<not> ct_global_kill controls),
      (''venue_kill_switch'', venue_value (in_venue i) |\<notin>| ct_killed_venues controls),
      (''strategy_kill_switch'', in_strategy_id i |\<notin>| ct_killed_strategies controls),
      (''instrument_known'', (case inst of None \<Rightarrow> False | Some ti \<Rightarrow> ti_venue ti = in_venue i)),
      (''spot_no_short'', in_side i = BUY \<or> in_quantity i \<le> position_of account i)]
     @ (if in_side i = SELL then [(''sell_is_reduce_only'', in_reduce_only i)] else [])"

text \<open>Market data and price sanity.\<close>

definition quote_ok :: "risk_policy \<Rightarrow> quote option \<Rightarrow> instant \<Rightarrow> bool" where
  "quote_ok policy quote now = (case quote of None \<Rightarrow> False
     | Some q \<Rightarrow> 0 < qt_bid q \<and> qt_bid q < qt_ask q \<and> 0 \<le> now - qt_observed_at q \<and>
         now - qt_observed_at q \<le> po_max_quote_age policy)"

definition touch_of :: "trade_intent \<Rightarrow> quote \<Rightarrow> rat" where
  "touch_of i q = (if in_side i = BUY then qt_ask q else qt_bid q)"

text \<open>The price the checks use: the limit, else the touch of a usable quote.\<close>

definition check_price :: "risk_policy \<Rightarrow> quote option \<Rightarrow> instant \<Rightarrow> trade_intent \<Rightarrow> rat option" where
  "check_price policy quote now i =
     (case in_limit_price i of Some p \<Rightarrow> Some p
      | None \<Rightarrow> (case quote of Some q \<Rightarrow> if quote_ok policy quote now then Some (touch_of i q) else None
                 | None \<Rightarrow> None))"

definition within_collar :: "risk_policy \<Rightarrow> trade_intent \<Rightarrow> quote \<Rightarrow> rat \<Rightarrow> bool" where
  "within_collar policy i q price =
     (let touch = touch_of i q; collar = dquot (dmul touch (po_price_collar_bps policy)) BPS
      in if in_side i = BUY then price \<le> dadd touch collar else price \<ge> dsub touch collar)"

definition market_checks ::
    "local_clock \<Rightarrow> risk_policy \<Rightarrow> tradable_instrument option \<Rightarrow> quote option \<Rightarrow> instant \<Rightarrow> trade_intent \<Rightarrow>
     (string \<times> bool) list res" where
  "market_checks local_clock policy inst quote now i =
     (let fresh = quote_ok policy quote now;
          price = check_price policy quote now i;
          head = [(''fresh_quote'', fresh)]
            @ (case (quote, price) of
                 (Some q, Some p) \<Rightarrow> if fresh then [(''price_collar'', within_collar policy i q p)] else []
               | _ \<Rightarrow> [])
      in (case inst of
            None \<Rightarrow> Inr head
          | Some ti \<Rightarrow>
              let session = [(''session_open'', session_open local_clock ti now)]
              in (case price of
                    None \<Rightarrow> Inr (head @ session)
                  | Some p \<Rightarrow>
                      res_bind (order_violation ti (in_quantity i) p) (\<lambda>violation.
                        Inr (head @ session @ [(''venue_grid'', violation = None)])))))"

text \<open>Account-level constitutional limits; they run for orders that do not reduce risk.\<close>

definition spread_bps :: "quote \<Rightarrow> rat" where
  "spread_bps q = dmul (dquot (dsub (qt_ask q) (qt_bid q)) (dquot (dadd (qt_ask q) (qt_bid q)) 2)) BPS"

definition sizing_equity :: "account_state \<Rightarrow> rat option \<Rightarrow> trade_intent \<Rightarrow> rat" where
  "sizing_equity account canary_capital i =
     (let equity = conservative_equity (ac_equity account) (ac_reference_capital account)
      in if in_stage i = CANARY
         then min equity (case canary_capital of Some c \<Rightarrow> if c > 0 then c else 0 | None \<Rightarrow> 0)
         else equity)"

definition position_notional :: "account_state \<Rightarrow> trade_intent \<Rightarrow> rat \<Rightarrow> rat" where
  "position_notional account i price =
     (let working = max (dget_or (ac_open_buys account) (in_instrument_id i) 0) 0
      in dmul (dadd (dadd (position_of account i) working) (in_quantity i)) price)"

text \<open>An exposure that is not finite exceeds every limit.\<close>

definition within_leverage :: "rat option \<Rightarrow> rat \<Rightarrow> rat \<Rightarrow> bool" where
  "within_leverage exposure notional maximum =
     (case exposure of None \<Rightarrow> False | Some x \<Rightarrow> dadd x notional \<le> maximum)"

definition limit_checks ::
    "risk_policy \<Rightarrow> account_state \<Rightarrow> controls \<Rightarrow> quote option \<Rightarrow> instant \<Rightarrow> rat option \<Rightarrow> trade_intent \<Rightarrow>
     (string \<times> bool) list" where
  "limit_checks policy account controls quote now canary_capital i =
     (let breach = evaluate_breach account;
          lockdown = (if ct_lockdown controls \<noteq> None then ct_lockdown controls else breach);
          price = (case check_price policy quote now i of None \<Rightarrow> 0 | Some p \<Rightarrow> p);
          equity = sizing_equity account canary_capital i;
          notional = dmul (in_quantity i) price;
          budget = dmul equity MAX_RISK_PER_POSITION
      in if reducing account i then []
         else
           (case quote of
              Some q \<Rightarrow> if quote_ok policy quote now
                         then [(''quote_spread'', spread_bps q \<le> po_max_spread_bps policy)] else []
            | None \<Rightarrow> [])
           @ [(''no_lockdown'', lockdown = None)]
           @ (if in_stage i = CANARY
              then [(''canary_capital_known'', (case canary_capital of None \<Rightarrow> False | Some c \<Rightarrow> c > 0))]
              else [])
           @ [(''risk_per_position'',
                dmul (position_notional account i price) (po_stop_distance policy) \<le> budget),
              (''gross_leverage'',
                within_leverage (ac_gross_exposure account) notional (dmul equity MAX_GROSS_LEVERAGE))]
           @ (case dget (po_max_order_notional policy) (venue_value (in_venue i)) of
                None \<Rightarrow> []
              | Some venue_cap \<Rightarrow> [(''venue_order_notional'', notional \<le> venue_cap)]))"

definition evaluate ::
    "local_clock \<Rightarrow> (string, tradable_instrument) dict \<Rightarrow> (trade_intent \<Rightarrow> instant \<Rightarrow> risk_permit res) \<Rightarrow>
     risk_policy \<Rightarrow> trade_intent \<Rightarrow> account_state \<Rightarrow> controls \<Rightarrow> quote option \<Rightarrow> instant \<Rightarrow>
     release_stage option \<Rightarrow> rat option \<Rightarrow> risk_decision res" where
  "evaluate local_clock instruments issue policy i account controls quote now scope_stage canary_capital =
     (let inst = dget instruments (in_instrument_id i)
      in res_bind (market_checks local_clock policy inst quote now i) (\<lambda>market.
         case account_breach account of
           (breach, daily_loss, drawdown) \<Rightarrow>
             (case fold check (halt_checks inst account controls scope_stage i @ market) ([], []) of
                (checks, rejections) \<Rightarrow>
                  (case fold check (limit_checks policy account controls quote now canary_capital i)
                          (dset ''drawdown'' (CheckValue drawdown)
                             (dset ''daily_loss'' (CheckValue daily_loss) checks), rejections) of
                     (checks', rejections') \<Rightarrow>
                       if rejections' = []
                       then res_bind (issue i now) (\<lambda>permit.
                              Inr \<lparr>rd_approved = True, rd_permit = Some permit, rd_rejections = [],
                                   rd_checks = checks', rd_breach = breach\<rparr>)
                       else Inr \<lparr>rd_approved = False, rd_permit = None, rd_rejections = rejections',
                                 rd_checks = checks', rd_breach = breach\<rparr>))))"

section \<open>What an evaluation amounts to\<close>

definition failed :: "(string \<times> bool) list \<Rightarrow> string list" where
  "failed cs = map fst (filter (\<lambda>c. \<not> snd c) cs)"

lemma failed_append [simp]: "failed (xs @ ys) = failed xs @ failed ys"
  by (simp add: failed_def)

lemma failed_Nil_iff: "failed cs = [] \<longleftrightarrow> (\<forall>c \<in> set cs. snd c)"
  by (auto simp: failed_def filter_empty_conv)

lemma snd_fold_check: "snd (fold check cs acc) = snd acc @ failed cs"
  by (induction cs arbitrary: acc) (auto simp: check_def failed_def split: prod.splits)

definition all_checks where
  "all_checks inst account controls scope_stage i market policy quote now canary_capital =
     halt_checks inst account controls scope_stage i @ market
       @ limit_checks policy account controls quote now canary_capital i"

text \<open>The rejections are the names of the failed checks, in order, and the permit is issued exactly
  when there are none.\<close>

lemma evaluate_conv:
  "evaluate local_clock instruments issue policy i account controls quote now scope_stage canary_capital = Inr d \<Longrightarrow>
   \<exists>market. market_checks local_clock policy (dget instruments (in_instrument_id i)) quote now i = Inr market
     \<and> rd_rejections d = failed (all_checks (dget instruments (in_instrument_id i)) account controls
           scope_stage i market policy quote now canary_capital)
     \<and> rd_approved d = (rd_rejections d = []) \<and> rd_breach d = evaluate_breach account
     \<and> (if rd_approved d then \<exists>p. issue i now = Inr p \<and> rd_permit d = Some p else rd_permit d = None)"
proof -
  assume ev: "evaluate local_clock instruments issue policy i account controls quote now scope_stage canary_capital = Inr d"
  let ?inst = "dget instruments (in_instrument_id i)"
  obtain market where m: "market_checks local_clock policy ?inst quote now i = Inr market"
    using ev by (auto simp: evaluate_def res_bind_Inr_conv Let_def)
  obtain breach daily drawdown where b: "account_breach account = (breach, daily, drawdown)"
    by (cases "account_breach account") auto
  obtain c1 r1 where f1: "fold check (halt_checks ?inst account controls scope_stage i @ market) ([], []) = (c1, r1)"
    by (cases "fold check (halt_checks ?inst account controls scope_stage i @ market) ([], [])")
  obtain c2 r2 where f2: "fold check (limit_checks policy account controls quote now canary_capital i)
      (dset ''drawdown'' (CheckValue drawdown) (dset ''daily_loss'' (CheckValue daily) c1), r1) = (c2, r2)"
    by (meson surj_pair)
  have r1: "r1 = failed (halt_checks ?inst account controls scope_stage i @ market)"
    using snd_fold_check[of _ "([], [])"] f1 by (metis append_Nil snd_conv)
  have r2: "r2 = failed (all_checks ?inst account controls scope_stage i market policy quote now canary_capital)"
    using snd_fold_check[of "limit_checks policy account controls quote now canary_capital i"] f2 r1
    unfolding all_checks_def failed_append append.assoc by (metis append.assoc failed_append snd_conv)
  show ?thesis
    using ev m unfolding evaluate_def Let_def m res_bind_simps b prod.case f1 f2 r2
    by (auto simp: res_bind_Inr_conv evaluate_breach_def b split: if_splits)
qed

lemma evaluate_returns:
  assumes "market_checks local_clock policy (dget instruments (in_instrument_id i)) quote now i = Inr market"
    and "issue i now = Inr p"
  shows "\<exists>d. evaluate local_clock instruments issue policy i account controls quote now scope_stage canary_capital = Inr d"
  using assms by (auto simp: evaluate_def Let_def split: prod.splits)

lemma approved_checks:
  assumes "evaluate local_clock instruments issue policy i account controls quote now scope_stage canary_capital = Inr d"
    and "rd_approved d"
  obtains market where "market_checks local_clock policy (dget instruments (in_instrument_id i)) quote now i = Inr market"
    "\<forall>c \<in> set (halt_checks (dget instruments (in_instrument_id i)) account controls scope_stage i). snd c"
    "\<forall>c \<in> set market. snd c"
    "\<forall>c \<in> set (limit_checks policy account controls quote now canary_capital i). snd c"
  using evaluate_conv[OF assms(1)] assms(2) unfolding all_checks_def
  by (auto simp: failed_Nil_iff)

lemma halt_checks_ok:
  "(\<forall>c \<in> set (halt_checks inst account controls scope_stage i). snd c) \<longleftrightarrow>
     certified scope_stage i \<and> \<not> ct_global_kill controls
     \<and> venue_value (in_venue i) |\<notin>| ct_killed_venues controls
     \<and> in_strategy_id i |\<notin>| ct_killed_strategies controls
     \<and> (\<exists>ti. inst = Some ti \<and> ti_venue ti = in_venue i)
     \<and> (in_side i = SELL \<longrightarrow> reducing account i)"
  by (cases "in_side i") (auto simp: halt_checks_def reducing_def split: option.splits)

lemma quote_ok_Some: "quote_ok policy quote now \<Longrightarrow> \<exists>q. quote = Some q"
  by (auto simp: quote_ok_def split: option.splits)

lemma check_price_fresh: "quote_ok policy quote now \<Longrightarrow> \<exists>p. check_price policy quote now i = Some p"
  by (auto simp: check_price_def quote_ok_def split: option.splits)

lemma market_checks_ok:
  assumes "market_checks local_clock policy (Some ti) quote now i = Inr market" and "\<forall>c \<in> set market. snd c"
  obtains q p where "quote = Some q" "quote_ok policy quote now" "check_price policy quote now i = Some p"
    "within_collar policy i q p" "session_open local_clock ti now" "order_violation ti (in_quantity i) p = Inr None"
proof -
  have fresh: "quote_ok policy quote now"
    using assms by (auto simp: market_checks_def Let_def res_bind_Inr_conv split: option.splits)
  obtain q where q: "quote = Some q" using quote_ok_Some[OF fresh] by blast
  obtain p where p: "check_price policy quote now i = Some p" using check_price_fresh[OF fresh] by blast
  show thesis
    using assms fresh q p that by (auto simp: market_checks_def Let_def res_bind_Inr_conv)
qed

text \<open>The sizes the limits are taken of never exceed the constitutional capital.\<close>

lemma sizing_equity_bounds:
  "0 \<le> sizing_equity account c i" "sizing_equity account c i \<le> REFERENCE_CAPITAL"
  "in_stage i = CANARY \<Longrightarrow> c = Some k \<Longrightarrow> 0 < k \<Longrightarrow> sizing_equity account c i \<le> k"
  using conservative_equity_bounds[of "ac_equity account" "ac_reference_capital account"]
  by (auto simp: sizing_equity_def Let_def split: option.splits)

lemma dec_fix_25 [simp]: "dec_fix 25 = 25" "dec_fix 10000 = 10000" "dec_fix 100 = 100" "dec_fix 500 = 500"
  "dec_fix (1 / 100) = 1 / 100" "dec_fix (1 / 20) = 1 / 20"
  by code_simp+

lemma budget_bounds:
  assumes "0 \<le> e" "e \<le> REFERENCE_CAPITAL"
  shows "dmul e MAX_RISK_PER_POSITION \<le> 25" "dmul e MAX_GROSS_LEVERAGE \<le> 10000"
  using dec_fix_mono[of "e * (25 / 10000)" 25] dec_fix_mono[of e 10000] assms
  by (simp_all add: dmul_def constitution)

lemma limit_checks_ok:
  assumes "\<forall>c \<in> set (limit_checks policy account controls quote now canary_capital i). snd c"
    and "\<not> reducing account i" and "check_price policy quote now i = Some p"
  shows "ct_lockdown controls = None \<and> evaluate_breach account = None
     \<and> dmul (position_notional account i p) (po_stop_distance policy)
         \<le> dmul (sizing_equity account canary_capital i) MAX_RISK_PER_POSITION
     \<and> within_leverage (ac_gross_exposure account) (dmul (in_quantity i) p)
         (dmul (sizing_equity account canary_capital i) MAX_GROSS_LEVERAGE)
     \<and> (\<forall>cap. dget (po_max_order_notional policy) (venue_value (in_venue i)) = Some cap \<longrightarrow>
          dmul (in_quantity i) p \<le> cap)
     \<and> (in_stage i = CANARY \<longrightarrow> (\<exists>k. canary_capital = Some k \<and> 0 < k))
     \<and> (\<forall>q. quote = Some q \<and> quote_ok policy quote now \<longrightarrow> spread_bps q \<le> po_max_spread_bps policy)"
  using assms by (auto simp: limit_checks_def Let_def split: option.splits if_splits)

lemma approved_buy_within_limits:
  assumes "evaluate local_clock instruments issue policy i account controls quote now scope_stage canary_capital = Inr d"
    and "rd_approved d" and "in_side i = BUY"
  shows "ct_lockdown controls = None \<and> rd_breach d = None \<and>
    (\<exists>price e q x. check_price policy quote now i = Some price \<and> e = sizing_equity account canary_capital i
      \<and> dmul (position_notional account i price) (po_stop_distance policy) \<le> dmul e MAX_RISK_PER_POSITION
      \<and> dmul e MAX_RISK_PER_POSITION \<le> 25
      \<and> ac_gross_exposure account = Some x \<and> dadd x (dmul (in_quantity i) price) \<le> dmul e MAX_GROSS_LEVERAGE
      \<and> dmul e MAX_GROSS_LEVERAGE \<le> 10000
      \<and> (in_stage i = CANARY \<longrightarrow> (\<exists>k. canary_capital = Some k \<and> 0 < k \<and> e \<le> k))
      \<and> quote = Some q \<and> spread_bps q \<le> po_max_spread_bps policy
      \<and> (\<forall>cap. dget (po_max_order_notional policy) (venue_value (in_venue i)) = Some cap \<longrightarrow>
          dmul (in_quantity i) price \<le> cap))"
proof -
  from assms(1,2) obtain market where m:
      "market_checks local_clock policy (dget instruments (in_instrument_id i)) quote now i = Inr market"
    and h: "\<forall>c \<in> set (halt_checks (dget instruments (in_instrument_id i)) account controls scope_stage i). snd c"
    and mk: "\<forall>c \<in> set market. snd c"
    and l: "\<forall>c \<in> set (limit_checks policy account controls quote now canary_capital i). snd c"
    by (rule approved_checks)
  obtain inst where inst: "dget instruments (in_instrument_id i) = Some inst"
    using h[unfolded halt_checks_ok] by blast
  have nr: "\<not> reducing account i" using assms(3) by (simp add: reducing_def)
  have breach: "rd_breach d = evaluate_breach account" using evaluate_conv[OF assms(1)] by blast
  from m[unfolded inst] mk show ?thesis
  proof (rule market_checks_ok)
    fix q p
    assume q: "quote = Some q" "quote_ok policy quote now" "check_price policy quote now i = Some p"
    note lim = limit_checks_ok[OF l nr q(3)]
    then obtain x where "ac_gross_exposure account = Some x"
      "dadd x (dmul (in_quantity i) p) \<le> dmul (sizing_equity account canary_capital i) MAX_GROSS_LEVERAGE"
      by (auto simp: within_leverage_def split: option.splits)
    then show ?thesis
      using lim q breach budget_bounds[OF sizing_equity_bounds(1,2)] sizing_equity_bounds(3)
      by auto
  qed
qed

section \<open>Properties\<close>

text \<open>
  C18: An approval is sound. When the risk engine approves an intent, the stage is certified (PAPER,
  SHADOW, or CANARY with the scope at CANARY; never LIVE), no kill switch applies, the instrument is
  known on the intent's venue and its session is open, a fresh two-sided quote exists, the price is
  inside the collar and on the venue's grid, a sell is a reduce-only sell of no more than the
  position, and the permit handed out is the signer's permit for exactly this intent.
\<close>

theorem risk_approval_sound:
  assumes "evaluate local_clock instruments issue policy i account controls quote now scope_stage canary_capital = Inr d"
    and "rd_approved d"
  shows "in_stage i \<noteq> LIVE \<and> certified scope_stage i
    \<and> \<not> ct_global_kill controls \<and> venue_value (in_venue i) |\<notin>| ct_killed_venues controls
    \<and> in_strategy_id i |\<notin>| ct_killed_strategies controls
    \<and> (in_side i = SELL \<longrightarrow> in_reduce_only i \<and> in_quantity i \<le> position_of account i)
    \<and> (\<exists>p. issue i now = Inr p \<and> rd_permit d = Some p)
    \<and> (\<exists>inst q price. dget instruments (in_instrument_id i) = Some inst \<and> ti_venue inst = in_venue i
        \<and> session_open local_clock inst now \<and> quote = Some q \<and> 0 < qt_bid q \<and> qt_bid q < qt_ask q
        \<and> qt_observed_at q \<le> now \<and> now - qt_observed_at q \<le> po_max_quote_age policy
        \<and> check_price policy quote now i = Some price \<and> within_collar policy i q price
        \<and> order_violation inst (in_quantity i) price = Inr None)"
proof -
  from assms obtain market where m:
      "market_checks local_clock policy (dget instruments (in_instrument_id i)) quote now i = Inr market"
    and h: "\<forall>c \<in> set (halt_checks (dget instruments (in_instrument_id i)) account controls scope_stage i). snd c"
    and mk: "\<forall>c \<in> set market. snd c"
    by (rule approved_checks)
  note h' = h[unfolded halt_checks_ok]
  then obtain inst where inst: "dget instruments (in_instrument_id i) = Some inst" "ti_venue inst = in_venue i"
    by blast
  have stage: "in_stage i \<noteq> LIVE" using h' by (auto simp: certified_def CERTIFIED_STAGES_def)
  have permit: "\<exists>p. issue i now = Inr p \<and> rd_permit d = Some p"
    using evaluate_conv[OF assms(1)] assms(2) by auto
  from m[unfolded inst(1)] mk show ?thesis
  proof (rule market_checks_ok)
    fix q p
    assume "quote = Some q" "quote_ok policy quote now" "check_price policy quote now i = Some p"
      "within_collar policy i q p" "session_open local_clock inst now"
      "order_violation inst (in_quantity i) p = Inr None"
    then show ?thesis using h' stage permit inst by (auto simp: reducing_def quote_ok_def)
  qed
qed

text \<open>
  The constitutional limits hold for every approved buy. There is no latched lockdown and no
  breach; the whole position after the fill (held, working and ordered quantity, at the checked
  price) loses at most 0.25% of the sizing equity at the stop distance, so never more than 25; the
  gross exposure stays within the sizing equity, so never above 10,000; a CANARY order is sized on
  the positive canary capital; the spread and the venue's order cap are respected.
\<close>

theorem risk_limits_on_approved_buys:
  assumes "evaluate local_clock instruments issue policy i account controls quote now scope_stage canary_capital = Inr d"
    and "rd_approved d" and "in_side i = BUY"
  shows "ct_lockdown controls = None \<and> rd_breach d = None \<and>
    (\<exists>price e q x. check_price policy quote now i = Some price \<and> e = sizing_equity account canary_capital i
      \<and> dmul (position_notional account i price) (po_stop_distance policy) \<le> dmul e MAX_RISK_PER_POSITION
      \<and> dmul e MAX_RISK_PER_POSITION \<le> 25
      \<and> ac_gross_exposure account = Some x \<and> dadd x (dmul (in_quantity i) price) \<le> dmul e MAX_GROSS_LEVERAGE
      \<and> dmul e MAX_GROSS_LEVERAGE \<le> 10000
      \<and> (in_stage i = CANARY \<longrightarrow> (\<exists>k. canary_capital = Some k \<and> 0 < k \<and> e \<le> k))
      \<and> quote = Some q \<and> spread_bps q \<le> po_max_spread_bps policy
      \<and> (\<forall>cap. dget (po_max_order_notional policy) (venue_value (in_venue i)) = Some cap \<longrightarrow>
          dmul (in_quantity i) price \<le> cap))"
  by (rule approved_buy_within_limits[OF assms])

text \<open>
  The book can always be de-risked, except under a kill switch. For a reduce-only sell within the
  position the rejections, and so the approval and the permit, depend neither on the account's equity,
  baselines, exposure or working buys nor on a latched lockdown; but any kill switch that applies to
  the intent rejects it.
\<close>

theorem exits_ignore_lockdown_not_kill:
  assumes "reducing account i" and "ac_positions account' = ac_positions account"
  shows "map_sum id (\<lambda>d. (rd_approved d, rd_permit d, rd_rejections d))
      (evaluate local_clock instruments issue policy i account' (controls\<lparr>ct_lockdown := l\<rparr>) quote now scope_stage canary_capital)
    = map_sum id (\<lambda>d. (rd_approved d, rd_permit d, rd_rejections d))
      (evaluate local_clock instruments issue policy i account controls quote now scope_stage canary_capital)
    \<and> (ct_global_kill controls \<or> venue_value (in_venue i) |\<in>| ct_killed_venues controls
        \<or> in_strategy_id i |\<in>| ct_killed_strategies controls \<longrightarrow>
       (\<forall>d. evaluate local_clock instruments issue policy i account controls quote now scope_stage canary_capital = Inr d
          \<longrightarrow> \<not> rd_approved d \<and> rd_permit d = None))"
proof -
  let ?inst = "dget instruments (in_instrument_id i)"
  have red: "reducing account' i" using assms by (simp add: reducing_def position_of_def)
  have lim: "limit_checks policy account' c quote now canary_capital i = []"
    "limit_checks policy account c quote now canary_capital i = []" for c
    using red assms(1) by (simp_all add: limit_checks_def Let_def)
  have halt: "halt_checks ?inst account' (controls\<lparr>ct_lockdown := l\<rparr>) scope_stage i
      = halt_checks ?inst account controls scope_stage i"
    using assms(2) by (simp add: halt_checks_def position_of_def)
  have same: "map_sum id (\<lambda>d. (rd_approved d, rd_permit d, rd_rejections d))
      (evaluate local_clock instruments issue policy i account' (controls\<lparr>ct_lockdown := l\<rparr>) quote now scope_stage canary_capital)
    = map_sum id (\<lambda>d. (rd_approved d, rd_permit d, rd_rejections d))
      (evaluate local_clock instruments issue policy i account controls quote now scope_stage canary_capital)"
  proof (cases "market_checks local_clock policy ?inst quote now i")
    case (Inr market)
    have r: "snd (fold check (halt_checks ?inst account controls scope_stage i @ market) ([], []))
        = failed (halt_checks ?inst account controls scope_stage i @ market)"
      by (simp only: snd_fold_check snd_conv append_Nil)
    show ?thesis
      by (cases "issue i now")
        (simp_all add: evaluate_def Let_def Inr lim halt case_prod_unfold r)
  qed (simp add: evaluate_def)
  show ?thesis
    using same evaluate_conv approved_checks[unfolded halt_checks_ok] by (metis (no_types, lifting))
qed

text \<open>
  Losses are caught in absolute terms. While no breach is reported, the account has a positive
  start-of-day and peak equity and has lost less than 100 today and less than 500 from its peak,
  whatever its size; and more equity never creates a breach.
\<close>

theorem breach_bounds_loss:
  assumes "evaluate_breach account = None"
  shows "0 < ac_start_of_day_equity account \<and> 0 < ac_peak_equity account
    \<and> ac_start_of_day_equity account - ac_equity account < 100
    \<and> ac_peak_equity account - ac_equity account < 500
    \<and> (\<forall>e \<ge> ac_equity account. evaluate_breach (account\<lparr>ac_equity := e\<rparr>) = None)"
proof -
  let ?cap = "breach_cap account"
  have cap: "0 < ?cap" "?cap \<le> 10000" by (auto simp: breach_cap_def constitution)
  have none: "loss_fraction ?cap (ac_start_of_day_equity account) (ac_equity account) < 1 / 100"
    "loss_fraction ?cap (ac_peak_equity account) (ac_equity account) < 1 / 20"
    using assms by (auto simp: evaluate_breach_def account_breach_def Let_def constitution split: if_splits)
  have mono: "loss_fraction ?cap b e' \<le> loss_fraction ?cap b e" if "e \<le> e'" for b e e'
    using that cap by (auto simp: loss_fraction_def dsub_def intro!: dec_fix_mono divide_right_mono)
  have loss: "0 < b \<and> b - e < of_int l" if small: "loss_fraction ?cap b e < of_int l / 10000"
      and fx: "dec_fix (of_int l) = (of_int l :: rat)" "dec_fix (of_int l / 10000) = (of_int l / 10000 :: rat)"
      and l: "0 < l" "l \<le> 10000" for b e l
  proof -
    have "(of_int l :: rat) \<le> of_int 10000" using l(2) by (simp only: of_int_le_iff)
    then have l': "(of_int l :: rat) \<le> 10000" by simp
    have b: "0 < b" using small l' by (auto simp: loss_fraction_def split: if_splits)
    have "b - e < of_int l"
    proof (rule ccontr)
      assume "\<not> b - e < of_int l"
      then have "of_int l \<le> dsub b e" using dec_fix_mono[of "of_int l" "b - e"] fx by (simp add: dsub_def)
      moreover have "0 \<le> dsub b e" using calculation l(1) by (meson less_imp_le of_int_0_less_iff order_trans)
      ultimately have "of_int l / 10000 \<le> dsub b e / min b ?cap"
        using b cap by (intro frac_le) auto
      then have "of_int l / 10000 \<le> loss_fraction ?cap b e"
        using dec_fix_mono fx(2) b by (fastforce simp: loss_fraction_def)
      with small show False by simp
    qed
    with b show ?thesis by simp
  qed
  have more: "evaluate_breach (account\<lparr>ac_equity := e\<rparr>) = None" if "ac_equity account \<le> e" for e
  proof -
    have "breach_cap (account\<lparr>ac_equity := e\<rparr>) = ?cap" by (simp add: breach_cap_def)
    moreover have "loss_fraction ?cap (ac_start_of_day_equity account) e < 1 / 100"
      "loss_fraction ?cap (ac_peak_equity account) e < 1 / 20"
      using none order.strict_trans1[OF mono[OF that]] by blast+
    ultimately show ?thesis
      by (simp add: evaluate_breach_def account_breach_def Let_def MAX_DAILY_LOSS_def MAX_DRAWDOWN_def)
  qed
  show ?thesis using loss[of _ _ 100] loss[of _ _ 500] none more by auto
qed

section \<open>Witnesses\<close>

definition ex_account :: account_state where
  "ex_account = \<lparr>ac_equity = 9950, ac_start_of_day_equity = 10000, ac_peak_equity = 10200,
     ac_gross_exposure = Some 100, ac_positions = [], ac_reference_capital = 10000, ac_open_buys = []\<rparr>"

definition ex_controls :: controls where
  "ex_controls = \<lparr>ct_global_kill = False, ct_killed_venues = {||}, ct_killed_strategies = {||}, ct_lockdown = None\<rparr>"

definition ex_buy :: trade_intent where
  "ex_buy = ex_intent\<lparr>in_quantity := 1 / 1000, in_limit_price := Some 64320\<rparr>"

abbreviation ex_evaluate where
  "ex_evaluate i account c \<equiv> evaluate (\<lambda>_ _. (0, 0)) [(''BINANCE_SPOT:BTCUSDT'', ex_instrument)]
     (\<lambda>_ _. Inr ex_permit) default_policy i account c (ex_quotes ''BINANCE_SPOT:BTCUSDT'') 0 None None"

lemma ex_evaluate_account:
  assumes "account_breach a = (None, daily, drawdown)"
    and "dmul (position_notional a ex_buy 64320) (2 / 100) \<le> dmul (sizing_equity a None ex_buy) MAX_RISK_PER_POSITION"
    and "within_leverage (ac_gross_exposure a) (dmul (in_quantity ex_buy) 64320) (dmul (sizing_equity a None ex_buy) MAX_GROSS_LEVERAGE)"
  shows "\<exists>d. ex_evaluate ex_buy a ex_controls = Inr d \<and> rd_approved d"
proof -
  let ?q = "\<lparr>qt_bid = 64300, qt_ask = 64310, qt_observed_at = 0\<rparr>"
  have grid: "order_violation ex_instrument (in_quantity ex_buy) 64320 = Inr None" by code_simp
  have collar: "within_collar default_policy ex_buy ?q 64320" by code_simp
  have spread: "spread_bps ?q \<le> 200" by code_simp
  have fields: "in_side ex_buy = BUY" "in_limit_price ex_buy = Some 64320"
    "in_stage ex_buy = STAGE_PAPER" "in_venue ex_buy = V_BINANCE_SPOT"
    "in_instrument_id ex_buy = ''BINANCE_SPOT:BTCUSDT''" "ti_venue ex_instrument = V_BINANCE_SPOT"
    "ti_session_type ex_instrument = CONTINUOUS_24_7"
    by (simp_all add: ex_buy_def ex_intent_def ex_instrument_def)
  have market: "market_checks (\<lambda>_ _. (0, 0)) default_policy (Some ex_instrument) (Some ?q) 0 ex_buy
      = Inr [(''fresh_quote'', True), (''price_collar'', True), (''session_open'', True), (''venue_grid'', True)]"
    using collar grid fields
    by (simp add: market_checks_def quote_ok_def check_price_def default_policy_def session_open_def)
  have lim: "\<forall>c \<in> set (limit_checks default_policy a ex_controls (Some ?q) 0 None ex_buy). snd c"
    using spread assms fields
    by (auto simp: limit_checks_def Let_def default_policy_def check_price_def quote_ok_def ex_controls_def
        evaluate_breach_def reducing_def)
  have halt: "\<forall>c \<in> set (halt_checks (Some ex_instrument) a ex_controls None ex_buy). snd c"
    using fields by (auto simp: halt_checks_ok certified_def CERTIFIED_STAGES_def ex_controls_def)
  have "\<exists>d. ex_evaluate ex_buy a ex_controls = Inr d"
    unfolding ex_quotes_def by (rule evaluate_returns) (use market fields in \<open>simp_all\<close>)
  then obtain d where d: "ex_evaluate ex_buy a ex_controls = Inr d" by blast
  have "rd_rejections d = []"
    using evaluate_conv[OF d] market lim halt fields
    by (auto simp: all_checks_def failed_Nil_iff ex_quotes_def)
  then show ?thesis using evaluate_conv[OF d] d by auto
qed

lemma ex_evaluate_buy: "\<exists>d. ex_evaluate ex_buy ex_account ex_controls = Inr d \<and> rd_approved d"
proof (rule ex_evaluate_account)
  show "account_breach ex_account = (None, 1 / 200, 1 / 40)" by code_simp
  show "dmul (position_notional ex_account ex_buy 64320) (2 / 100)
      \<le> dmul (sizing_equity ex_account None ex_buy) MAX_RISK_PER_POSITION" by code_simp
  show "within_leverage (ac_gross_exposure ex_account) (dmul (in_quantity ex_buy) 64320)
      (dmul (sizing_equity ex_account None ex_buy) MAX_GROSS_LEVERAGE)" by code_simp
qed

theorem risk_approval_sound_witness:
  "\<exists>d. ex_evaluate ex_buy ex_account ex_controls = Inr d \<and> rd_permit d = Some ex_permit"
proof -
  obtain d where d: "ex_evaluate ex_buy ex_account ex_controls = Inr d" "rd_approved d"
    using ex_evaluate_buy by blast
  show ?thesis using risk_approval_sound[OF d] d(1) by auto
qed

theorem risk_limits_on_approved_buys_witness:
  "\<exists>d. ex_evaluate ex_buy ex_account ex_controls = Inr d \<and> rd_breach d = None"
proof -
  obtain d where d: "ex_evaluate ex_buy ex_account ex_controls = Inr d" "rd_approved d"
    using ex_evaluate_buy by blast
  have "in_side ex_buy = BUY" by (simp add: ex_buy_def ex_intent_def)
  then show ?thesis using risk_limits_on_approved_buys[OF d] d(1) by auto
qed

definition ex_exit :: trade_intent where
  "ex_exit = ex_intent\<lparr>in_side := SELL, in_reduce_only := True, in_quantity := 1 / 1000\<rparr>"

definition ex_holding :: account_state where
  "ex_holding = ex_account\<lparr>ac_positions := [(''BINANCE_SPOT:BTCUSDT'', 1 / 500)]\<rparr>"

theorem exits_ignore_lockdown_not_kill_witness:
  "map_sum id (\<lambda>d. (rd_approved d, rd_permit d, rd_rejections d))
     (ex_evaluate ex_exit (ex_holding\<lparr>ac_equity := 1\<rparr>) (ex_controls\<lparr>ct_lockdown := Some DRAWDOWN\<rparr>))
   = map_sum id (\<lambda>d. (rd_approved d, rd_permit d, rd_rejections d)) (ex_evaluate ex_exit ex_holding ex_controls)"
proof -
  have "reducing ex_holding ex_exit" by code_simp
  then show ?thesis
    using exits_ignore_lockdown_not_kill[of ex_holding ex_exit "ex_holding\<lparr>ac_equity := 1\<rparr>"] by simp
qed

theorem breach_bounds_loss_witness:
  "evaluate_breach ex_account = None \<and> evaluate_breach (ex_account\<lparr>ac_equity := 20000\<rparr>) = None"
proof -
  have "account_breach ex_account = (None, 1 / 200, 1 / 40)" by code_simp
  then have none: "evaluate_breach ex_account = None" by (simp add: evaluate_breach_def)
  have "ac_equity ex_account \<le> 20000" by (simp add: ex_account_def)
  then show ?thesis using breach_bounds_loss[OF none] none by blast
qed

end
