(* ===== verification/Governor.thy ===== *)
theory Governor
  imports Risk_Engine
begin

text \<open>
  The stateful wrapper around the risk engine (\<^verbatim>\<open>services/risk/governor.py\<close>) and the durable control
  documents it is saved to (\<^verbatim>\<open>services/risk/control_store.py\<close>). Python sets are finite sets; an
  operation that can raise returns its outcome next to the state it leaves behind. \<^verbatim>\<open>json.dumps\<close>
  and \<^verbatim>\<open>json.loads\<close> are parameters.
\<close>

section \<open>State and operations\<close>

datatype kill_scope = SCOPE_GLOBAL | SCOPE_VENUE | SCOPE_STRATEGY

fun kill_scope_value :: "kill_scope \<Rightarrow> string" where
  "kill_scope_value SCOPE_GLOBAL = ''GLOBAL''"
| "kill_scope_value SCOPE_VENUE = ''VENUE''"
| "kill_scope_value SCOPE_STRATEGY = ''STRATEGY''"

fun lockdown_value :: "lockdown_reason \<Rightarrow> string" where
  "lockdown_value DAILY_LOSS = ''DAILY_LOSS''"
| "lockdown_value DRAWDOWN = ''DRAWDOWN''"

text \<open>\<^verbatim>\<open>LockdownReason(text)\<close>\<close>

definition lockdown_of :: "string \<Rightarrow> lockdown_reason res" where
  "lockdown_of text =
     (if text = ''DAILY_LOSS'' then Inr DAILY_LOSS
      else if text = ''DRAWDOWN'' then Inr DRAWDOWN
      else Inl (ValueError text))"

record governor =
  gv_global :: bool
  gv_venues :: "string fset"
  gv_strategies :: "string fset"
  gv_lockdown :: "lockdown_reason option"

definition governor_new :: governor where
  "governor_new = \<lparr>gv_global = False, gv_venues = {||}, gv_strategies = {||}, gv_lockdown = None\<rparr>"

definition governor_controls :: "bool \<Rightarrow> governor \<Rightarrow> controls" where
  "governor_controls external_global_kill g =
     \<lparr>ct_global_kill = gv_global g \<or> external_global_kill, ct_killed_venues = gv_venues g,
      ct_killed_strategies = gv_strategies g, ct_lockdown = gv_lockdown g\<rparr>"

text \<open>The second half of \<^verbatim>\<open>assess\<close>, under the lock of its own.\<close>

definition latch_breach :: "lockdown_reason option \<Rightarrow> governor \<Rightarrow> governor" where
  "latch_breach breach g =
     (if breach \<noteq> None \<and> gv_lockdown g = None then g\<lparr>gv_lockdown := breach\<rparr> else g)"

text \<open>What the governor is asked: intent, account, quote, clock, external kill, scope stage, canary capital.\<close>

record request =
  rq_intent :: trade_intent
  rq_account :: account_state
  rq_quote :: "quote option"
  rq_now :: instant
  rq_external_global_kill :: bool
  rq_scope_stage :: "release_stage option"
  rq_canary_capital :: "rat option"

type_synonym risk_engine = "request \<Rightarrow> controls \<Rightarrow> risk_decision res"

text \<open>The governor's \<^verbatim>\<open>self.engine\<close>: an engine with its instruments, signer and policy.\<close>

definition engine_of ::
    "local_clock \<Rightarrow> (string, tradable_instrument) dict \<Rightarrow> (trade_intent \<Rightarrow> instant \<Rightarrow> risk_permit res) \<Rightarrow>
     risk_policy \<Rightarrow> risk_engine" where
  "engine_of local_clock instruments issue policy rq controls =
     evaluate local_clock instruments issue policy (rq_intent rq) (rq_account rq) controls (rq_quote rq)
       (rq_now rq) (rq_scope_stage rq) (rq_canary_capital rq)"

definition assess :: "risk_engine \<Rightarrow> request \<Rightarrow> governor \<Rightarrow> risk_decision res \<times> governor" where
  "assess engine rq g =
     (case engine rq (governor_controls (rq_external_global_kill rq) g) of
        Inl e \<Rightarrow> (Inl e, g)
      | Inr d \<Rightarrow> (Inr d, latch_breach (rd_breach d) g))"

definition target :: "kill_scope \<Rightarrow> string option \<Rightarrow> bool \<Rightarrow> governor \<Rightarrow> unit res \<times> governor" where
  "target scope key add g =
     (if scope = SCOPE_GLOBAL then (Inr (), g\<lparr>gv_global := add\<rparr>)
      else (case key of
          None \<Rightarrow> (Inl (GovernorError (kill_scope_value scope @ '' kill switch needs a key'')), g)
        | Some k \<Rightarrow>
            if k = '''' then (Inl (GovernorError (kill_scope_value scope @ '' kill switch needs a key'')), g)
            else
              let change = (\<lambda>bucket. if add then finsert k bucket else bucket |-| {|k|})
              in (Inr (), if scope = SCOPE_VENUE then g\<lparr>gv_venues := change (gv_venues g)\<rparr>
                          else g\<lparr>gv_strategies := change (gv_strategies g)\<rparr>)))"

definition trigger_kill :: "kill_scope \<Rightarrow> string option \<Rightarrow> governor \<Rightarrow> unit res \<times> governor" where
  "trigger_kill scope key g = target scope key True g"

definition release_kill :: "kill_scope \<Rightarrow> string option \<Rightarrow> governor \<Rightarrow> unit res \<times> governor" where
  "release_kill scope key g = target scope key False g"

definition release_lockdown :: "account_state \<Rightarrow> governor \<Rightarrow> unit res \<times> governor" where
  "release_lockdown account g =
     (case evaluate_breach account of
        Some probe \<Rightarrow> (Inl (GovernorError (lockdown_value probe @ '' limit is still breached'')), g)
      | None \<Rightarrow> (Inr (), g\<lparr>gv_lockdown := None\<rparr>))"

text \<open>A persisted control document.\<close>

record control_doc =
  cd_global_kill :: bool
  cd_killed_venues :: "string list"
  cd_killed_strategies :: "string list"
  cd_lockdown :: "string option"

definition snapshot :: "governor \<Rightarrow> control_doc" where
  "snapshot g =
     \<lparr>cd_global_kill = gv_global g, cd_killed_venues = sorted_list_of_fset (gv_venues g),
      cd_killed_strategies = sorted_list_of_fset (gv_strategies g),
      cd_lockdown = map_option lockdown_value (gv_lockdown g)\<rparr>"

text \<open>\<^verbatim>\<open>if lockdown\<close>: an absent or empty text counts as none.\<close>

definition truthy :: "string option \<Rightarrow> string option" where
  "truthy s = (if s = Some '''' then None else s)"

definition restore :: "control_doc \<Rightarrow> governor \<Rightarrow> unit res \<times> governor" where
  "restore state g =
     (let g' = g\<lparr>gv_global := gv_global g \<or> cd_global_kill state,
                gv_venues := gv_venues g |\<union>| fset_of_list (cd_killed_venues state),
                gv_strategies := gv_strategies g |\<union>| fset_of_list (cd_killed_strategies state)\<rparr>
      in (case (gv_lockdown g', truthy (cd_lockdown state)) of
            (None, Some text) \<Rightarrow>
              (case lockdown_of text of
                 Inl e \<Rightarrow> (Inl e, g')
               | Inr reason \<Rightarrow> (Inr (), g'\<lparr>gv_lockdown := Some reason\<rparr>))
          | _ \<Rightarrow> (Inr (), g')))"

definition replace :: "control_doc \<Rightarrow> governor \<Rightarrow> unit res \<times> governor" where
  "replace state g =
     (let g' = g\<lparr>gv_global := cd_global_kill state,
                gv_venues := fset_of_list (cd_killed_venues state),
                gv_strategies := fset_of_list (cd_killed_strategies state)\<rparr>
      in (case truthy (cd_lockdown state) of
            None \<Rightarrow> (Inr (), g'\<lparr>gv_lockdown := None\<rparr>)
          | Some text \<Rightarrow>
              (case lockdown_of text of
                 Inl e \<Rightarrow> (Inl e, g')
               | Inr reason \<Rightarrow> (Inr (), g'\<lparr>gv_lockdown := Some reason\<rparr>))))"

section \<open>The durable control documents\<close>

type_synonym control_table = "(string, string \<times> instant) dict"

definition control_get :: "(string \<Rightarrow> 'd) \<Rightarrow> string \<Rightarrow> control_table \<Rightarrow> 'd option" where
  "control_get loads key rows = map_option (\<lambda>row. loads (fst row)) (dget rows key)"

definition control_put :: "('d \<Rightarrow> string) \<Rightarrow> instant \<Rightarrow> string \<Rightarrow> 'd \<Rightarrow> control_table \<Rightarrow> control_table" where
  "control_put dumps now key document rows =
     (let updated = map (\<lambda>(k, row). (k, if k = key then (dumps document, now) else row)) rows;
          rowcount = length (filter (\<lambda>(k, row). k = key) rows)
      in if rowcount = 0 then updated @ [(key, dumps document, now)] else updated)"

section \<open>Strictness\<close>

text \<open>\<open>g'\<close> forbids everything \<open>g\<close> forbids, and a latched reason stays.\<close>

definition stricter :: "governor \<Rightarrow> governor \<Rightarrow> bool" where
  "stricter g g' \<longleftrightarrow> (gv_global g \<longrightarrow> gv_global g') \<and> gv_venues g |\<subseteq>| gv_venues g'
     \<and> gv_strategies g |\<subseteq>| gv_strategies g' \<and> (gv_lockdown g \<noteq> None \<longrightarrow> gv_lockdown g' = gv_lockdown g)"

lemma stricter_refl [simp]: "stricter g g"
  by (simp add: stricter_def)

lemma stricter_trans: "stricter g g' \<Longrightarrow> stricter g' g'' \<Longrightarrow> stricter g g''"
  by (fastforce simp: stricter_def)

lemma stricter_latch: "stricter g (latch_breach b g)"
  by (simp add: stricter_def latch_breach_def)

lemma stricter_assess: "assess engine rq g = (r, g') \<Longrightarrow> stricter g g'"
  using stricter_latch by (auto simp: assess_def split: sum.splits)

lemma stricter_trigger: "trigger_kill scope key g = (r, g') \<Longrightarrow> stricter g g'"
  by (auto simp: trigger_kill_def target_def stricter_def Let_def split: if_splits option.splits)

lemma stricter_restore: "restore doc g = (r, g') \<Longrightarrow> stricter g g'"
  by (cases "gv_lockdown g"; cases "truthy (cd_lockdown doc)")
    (auto simp: restore_def stricter_def Let_def split: sum.splits)

text \<open>
  The changes that happen without an operator, in any order. A breach may be latched later than the
  evaluation that observed it, when other threads run between the two halves of \<^verbatim>\<open>assess\<close>.
\<close>

inductive automated :: "risk_engine \<Rightarrow> governor \<Rightarrow> governor \<Rightarrow> bool" for engine where
  assessed: "assess engine rq g = (r, g') \<Longrightarrow> automated engine g g'"
| latched: "automated engine g (latch_breach b g)"
| triggered: "trigger_kill scope key g = (r, g') \<Longrightarrow> automated engine g g'"
| restored: "restore doc g = (r, g') \<Longrightarrow> automated engine g g'"

lemma automated_stricter: "automated engine g g' \<Longrightarrow> stricter g g'"
  by (induction rule: automated.induct)
    (auto intro: stricter_assess stricter_latch stricter_trigger stricter_restore)

lemma automated_star_stricter: "(automated engine)\<^sup>*\<^sup>* g g' \<Longrightarrow> stricter g g'"
  by (induction rule: rtranclp_induct) (auto intro: stricter_trans automated_stricter)

section \<open>The interface of the engine\<close>

text \<open>What the governor relies on of the engine it wraps.\<close>

locale risk_gate =
  fixes engine :: risk_engine
  assumes no_kill: "engine rq c = Inr d \<Longrightarrow> rd_approved d \<Longrightarrow> \<not> ct_global_kill c
      \<and> venue_value (in_venue (rq_intent rq)) |\<notin>| ct_killed_venues c
      \<and> in_strategy_id (rq_intent rq) |\<notin>| ct_killed_strategies c"
    and no_lockdown: "engine rq c = Inr d \<Longrightarrow> rd_approved d \<Longrightarrow> in_side (rq_intent rq) = BUY \<Longrightarrow>
      ct_lockdown c = None"
    and reports_breach: "engine rq c = Inr d \<Longrightarrow> rd_breach d = evaluate_breach (rq_account rq)"
begin

lemma assess_Inr:
  assumes "assess engine rq g = (Inr d, g')"
  shows "engine rq (governor_controls (rq_external_global_kill rq) g) = Inr d"
    "g' = latch_breach (evaluate_breach (rq_account rq)) g"
  using assms reports_breach by (auto simp: assess_def split: sum.splits)

lemma locked_refuses:
  assumes "assess engine rq g = (Inr d, g')" "gv_lockdown g \<noteq> None" "in_side (rq_intent rq) = BUY"
  shows "\<not> rd_approved d"
  using no_lockdown[OF assess_Inr(1)[OF assms(1)]] assms(2,3) by (auto simp: governor_controls_def)

lemma killed_refuses:
  assumes "assess engine rq g = (Inr d, g')"
    and "gv_global g \<or> venue_value (in_venue (rq_intent rq)) |\<in>| gv_venues g
      \<or> in_strategy_id (rq_intent rq) |\<in>| gv_strategies g"
  shows "\<not> rd_approved d"
  using no_kill[OF assess_Inr(1)[OF assms(1)]] assms(2) by (auto simp: governor_controls_def)

lemma breach_latches:
  assumes "assess engine rq g = (Inr d, g')" "evaluate_breach (rq_account rq) \<noteq> None"
  shows "gv_lockdown g' \<noteq> None"
  using assess_Inr(2)[OF assms(1)] assms(2) by (auto simp: latch_breach_def)

lemma latched_for_good:
  assumes "assess engine rq0 g0 = (Inr d0, g1)" "evaluate_breach (rq_account rq0) \<noteq> None"
    "(automated engine)\<^sup>*\<^sup>* g1 g2" "assess engine rq g2 = (Inr d, g3)"
  shows "gv_lockdown g1 \<noteq> None \<and> gv_lockdown g3 = gv_lockdown g1
    \<and> (in_side (rq_intent rq) = BUY \<longrightarrow> \<not> rd_approved d)"
proof -
  have l1: "gv_lockdown g1 \<noteq> None" using breach_latches[OF assms(1,2)] .
  have l2: "gv_lockdown g2 = gv_lockdown g1"
    using automated_star_stricter[OF assms(3)] l1 by (auto simp: stricter_def)
  have l3: "gv_lockdown g3 = gv_lockdown g2"
    using stricter_assess[OF assms(4)] l1 l2 by (auto simp: stricter_def)
  show ?thesis using l1 l2 l3 locked_refuses[OF assms(4)] by auto
qed

lemma killed_for_good:
  assumes "(automated engine)\<^sup>*\<^sup>* g1 g2" "assess engine rq g2 = (Inr d, g3)"
    and "gv_global g1 \<or> venue_value (in_venue (rq_intent rq)) |\<in>| gv_venues g1
      \<or> in_strategy_id (rq_intent rq) |\<in>| gv_strategies g1"
  shows "\<not> rd_approved d"
  using killed_refuses[OF assms(2)] automated_star_stricter[OF assms(1)] assms(3)
  by (auto simp: stricter_def)

end

interpretation engine: risk_gate "engine_of local_clock instruments issue policy"
  for local_clock instruments issue policy
proof unfold_locales
  fix rq c d
  assume e: "engine_of local_clock instruments issue policy rq c = Inr d"
  note ev = e[unfolded engine_of_def]
  show "rd_breach d = evaluate_breach (rq_account rq)" using evaluate_conv[OF ev] by blast
  assume a: "rd_approved d"
  from ev a show "\<not> ct_global_kill c \<and> venue_value (in_venue (rq_intent rq)) |\<notin>| ct_killed_venues c
      \<and> in_strategy_id (rq_intent rq) |\<notin>| ct_killed_strategies c"
    by (rule approved_checks) (auto simp: halt_checks_ok)
  assume b: "in_side (rq_intent rq) = BUY"
  have "(''no_lockdown'', (if ct_lockdown c \<noteq> None then ct_lockdown c else evaluate_breach (rq_account rq)) = None)
      \<in> set (limit_checks policy (rq_account rq) c (rq_quote rq) (rq_now rq) (rq_canary_capital rq) (rq_intent rq))"
    using b by (simp add: limit_checks_def reducing_def Let_def)
  note locked = this
  from ev a show "ct_lockdown c = None"
  proof (rule approved_checks)
    assume "\<forall>x \<in> set (limit_checks policy (rq_account rq) c (rq_quote rq) (rq_now rq) (rq_canary_capital rq) (rq_intent rq)). snd x"
    from bspec[OF this locked] show ?thesis by (simp split: if_splits)
  qed
qed

section \<open>Properties\<close>

text \<open>
  C19: A breach locks buying until an operator releases it. Once an assessment of an account in breach
  has returned, then after any interleaving of automated changes (assessments, late latches, kill
  triggers, restores) the first reason is still latched and no buy is approved, whatever the account
  looks like by then.
\<close>

theorem lockdown_holds_until_released:
  assumes "assess (engine_of lc ins issue policy) rq0 g0 = (Inr d0, g1)"
    and "evaluate_breach (rq_account rq0) \<noteq> None"
    and "(automated (engine_of lc ins issue policy))\<^sup>*\<^sup>* g1 g2"
    and "assess (engine_of lc ins issue policy) rq g2 = (Inr d, g3)"
  shows "gv_lockdown g1 \<noteq> None \<and> gv_lockdown g3 = gv_lockdown g1
    \<and> (in_side (rq_intent rq) = BUY \<longrightarrow> \<not> rd_approved d)"
  using engine.latched_for_good[OF assms] .

text \<open>
  C20: A kill switch holds until it is released. After \<^verbatim>\<open>trigger_kill\<close> succeeds, no automated change,
  in any order, brings back an approval for an intent the switch covers: every intent for the global
  switch, those of the venue or of the strategy for the other two. Not even a reduce-only exit passes.
\<close>

theorem kill_switch_holds_until_released:
  assumes "trigger_kill scope key g0 = (Inr (), g1)"
    and "(automated (engine_of lc ins issue policy))\<^sup>*\<^sup>* g1 g2"
    and "assess (engine_of lc ins issue policy) rq g2 = (Inr d, g3)"
    and "case scope of SCOPE_GLOBAL \<Rightarrow> True
      | SCOPE_VENUE \<Rightarrow> key = Some (venue_value (in_venue (rq_intent rq)))
      | SCOPE_STRATEGY \<Rightarrow> key = Some (in_strategy_id (rq_intent rq))"
  shows "\<not> rd_approved d"
proof (rule engine.killed_for_good[OF assms(2,3)])
  show "gv_global g1 \<or> venue_value (in_venue (rq_intent rq)) |\<in>| gv_venues g1
      \<or> in_strategy_id (rq_intent rq) |\<in>| gv_strategies g1"
    using assms(1,4)
    by (cases scope) (auto simp: trigger_kill_def target_def Let_def split: if_splits option.splits)
qed

lemma lockdown_of_value [simp]: "lockdown_of (lockdown_value r) = Inr r"
  by (cases r) (simp_all add: lockdown_of_def)

lemma truthy_value [simp]: "truthy None = None" "truthy (Some (lockdown_value r)) = Some (lockdown_value r)"
  by (simp_all add: truthy_def) (cases r; simp)

lemma dget_put_row:
  "dget (map (\<lambda>(k, row). (k, if k = key then v else row)) rows) key = (if key \<in> set (dkeys rows) then Some v else None)"
  by (induction rows) auto

lemma control_get_put: "control_get loads key (control_put dumps now key doc rows) = Some (loads (dumps doc))"
proof (cases "key \<in> set (dkeys rows)")
  case True
  then have "filter (\<lambda>(k, row). k = key) rows \<noteq> []" by (auto simp: filter_empty_conv)
  then show ?thesis using True by (simp add: control_get_def control_put_def Let_def dget_put_row)
next
  case False
  then have "filter (\<lambda>(k, row). k = key) rows = []" by (auto simp: filter_empty_conv rev_image_eqI)
  then show ?thesis using False
    by (simp add: control_get_def control_put_def Let_def dget_put_row map_add_def)
qed

lemma fset_of_sorted: "fset_of_list (sorted_list_of_fset A) = A" for A :: "string fset"
  by (metis fset_inverse fset_of_list.rep_eq sorted_list_of_fset_simps(1))

lemma restore_snapshot: "restore (snapshot g) governor_new = (Inr (), g)"
  by (cases "gv_lockdown g") (simp_all add: restore_def governor_new_def snapshot_def fset_of_sorted)

lemma replace_snapshot: "replace (snapshot g) other = (Inr (), g)"
  by (cases "gv_lockdown g") (simp_all add: replace_def snapshot_def fset_of_sorted)

lemma snapshot_inj:
  assumes "snapshot g = snapshot g'"
  shows "g = g'"
proof -
  have "replace (snapshot g) g = replace (snapshot g') g" using assms by (rule arg_cong)
  then show ?thesis by (simp only: replace_snapshot prod.inject simp_thms)
qed

lemma restore_snapshot_merge:
  "\<exists>g'. restore (snapshot g) other = (Inr (), g') \<and> stricter other g'
     \<and> stricter (g\<lparr>gv_lockdown := None\<rparr>) g' \<and> (gv_lockdown g \<noteq> None \<longrightarrow> gv_lockdown g' \<noteq> None)"
  by (cases "gv_lockdown other"; cases "gv_lockdown g")
    (auto simp: restore_def snapshot_def stricter_def fset_of_sorted)

text \<open>
  A restart keeps every control. When the governor's snapshot is stored and read back (and JSON
  reads what it wrote), restoring it into a fresh governor gives exactly the stored state, replacing
  any governor's state with it does too, and restoring it into any other governor gives a state at
  least as strict as both.
\<close>

theorem control_state_survives_restart:
  assumes "loads (dumps (snapshot g)) = snapshot g"
  shows "\<exists>doc. control_get loads key (control_put dumps now key (snapshot g) rows) = Some doc
    \<and> restore doc governor_new = (Inr (), g) \<and> replace doc other = (Inr (), g)
    \<and> (\<exists>g'. restore doc other = (Inr (), g') \<and> stricter other g'
         \<and> stricter (g\<lparr>gv_lockdown := None\<rparr>) g' \<and> (gv_lockdown g \<noteq> None \<longrightarrow> gv_lockdown g' \<noteq> None))"
proof (intro exI[of _ "snapshot g"] conjI)
  show "control_get loads key (control_put dumps now key (snapshot g) rows) = Some (snapshot g)"
    by (simp add: control_get_put assms)
qed (rule restore_snapshot replace_snapshot restore_snapshot_merge)+

text \<open>
  Releases are exact. A lockdown is released only for an account that breaches nothing, and then
  nothing else changes and assessing that same account does not latch it again; a refused release
  changes nothing. Releasing a kill switch right after triggering it gives back the state before,
  less the released switch.
\<close>

theorem releases_are_exact:
  "(case release_lockdown account g of
      (Inr _, g') \<Rightarrow> evaluate_breach account = None \<and> g' = g\<lparr>gv_lockdown := None\<rparr> \<and>
         (\<forall>rq d g''. rq_account rq = account \<and> assess (engine_of lc ins issue policy) rq g' = (Inr d, g'') \<longrightarrow> g'' = g')
    | (Inl _, g') \<Rightarrow> evaluate_breach account \<noteq> None \<and> g' = g)
   \<and> (\<forall>scope key g1. trigger_kill scope key g = (Inr (), g1) \<longrightarrow>
        release_kill scope key g1 = release_kill scope key g)"
proof -
  have 1: "case release_lockdown account g of
      (Inr _, g') \<Rightarrow> evaluate_breach account = None \<and> g' = g\<lparr>gv_lockdown := None\<rparr> \<and>
         (\<forall>rq d g''. rq_account rq = account \<and> assess (engine_of lc ins issue policy) rq g' = (Inr d, g'') \<longrightarrow> g'' = g')
    | (Inl _, g') \<Rightarrow> evaluate_breach account \<noteq> None \<and> g' = g"
    using engine.assess_Inr(2)
    by (fastforce simp: release_lockdown_def latch_breach_def split: option.splits)
  have 2: "release_kill scope key g1 = release_kill scope key g" if "trigger_kill scope key g = (Inr (), g1)"
    for scope key g1
    using that
    by (auto simp: trigger_kill_def release_kill_def target_def Let_def split: if_splits option.splits)
  show ?thesis using 1 2 by blast
qed

section \<open>Witnesses\<close>

abbreviation ex_engine :: risk_engine where
  "ex_engine \<equiv> engine_of (\<lambda>_ _. (0, 0)) [] (\<lambda>_ _. Inr ex_permit) default_policy"

definition ex_request :: "rat \<Rightarrow> request" where
  "ex_request equity = \<lparr>rq_intent = ex_buy, rq_account = ex_account\<lparr>ac_equity := equity\<rparr>, rq_quote = None,
     rq_now = 0, rq_external_global_kill = False, rq_scope_stage = None, rq_canary_capital = None\<rparr>"

lemma ex_assess: "\<exists>d g'. assess ex_engine (ex_request e) g = (Inr d, g')"
proof -
  have "\<exists>d. ex_engine (ex_request e) c = Inr d" for c
    unfolding engine_of_def by (rule evaluate_returns) (auto simp: market_checks_def ex_request_def)
  then obtain d where "ex_engine (ex_request e) (governor_controls (rq_external_global_kill (ex_request e)) g) = Inr d"
    by blast
  then show ?thesis by (simp add: assess_def)
qed

theorem lockdown_holds_until_released_witness:
  "\<exists>d0 g1 d g3. assess ex_engine (ex_request 9000) governor_new = (Inr d0, g1)
     \<and> assess ex_engine (ex_request 10000) g1 = (Inr d, g3) \<and> \<not> rd_approved d \<and> gv_lockdown g3 \<noteq> None"
proof -
  obtain d0 g1 where a: "assess ex_engine (ex_request 9000) governor_new = (Inr d0, g1)"
    using ex_assess by blast
  obtain d g3 where b: "assess ex_engine (ex_request 10000) g1 = (Inr d, g3)" using ex_assess by blast
  have "evaluate_breach (rq_account (ex_request 9000)) \<noteq> None" by code_simp
  moreover have "in_side (rq_intent (ex_request 10000)) = BUY"
    by (simp add: ex_request_def ex_buy_def ex_intent_def)
  ultimately show ?thesis using lockdown_holds_until_released[OF a _ rtranclp.rtrancl_refl b] a b by auto
qed

theorem kill_switch_holds_until_released_witness:
  "\<exists>g1 d g3. trigger_kill SCOPE_VENUE (Some ''BINANCE_SPOT'') governor_new = (Inr (), g1)
     \<and> assess ex_engine (ex_request 10000) g1 = (Inr d, g3) \<and> \<not> rd_approved d"
proof -
  obtain g1 where k: "trigger_kill SCOPE_VENUE (Some ''BINANCE_SPOT'') governor_new = (Inr (), g1)"
    by (simp add: trigger_kill_def target_def)
  obtain d g3 where a: "assess ex_engine (ex_request 10000) g1 = (Inr d, g3)" using ex_assess by blast
  have "Some ''BINANCE_SPOT'' = Some (venue_value (in_venue (rq_intent (ex_request 10000))))"
    by (simp add: ex_request_def ex_buy_def ex_intent_def)
  then show ?thesis using kill_switch_holds_until_released[OF k rtranclp.rtrancl_refl a] k a by auto
qed

definition ex_governor :: governor where
  "ex_governor = \<lparr>gv_global = False, gv_venues = {|''XP_B3''|}, gv_strategies = {||}, gv_lockdown = Some DRAWDOWN\<rparr>"

theorem control_state_survives_restart_witness:
  "\<exists>doc. control_get (\<lambda>_. snapshot ex_governor) ''risk''
      (control_put (\<lambda>_. ''json'') 7 ''risk'' (snapshot ex_governor) []) = Some doc
    \<and> restore doc governor_new = (Inr (), ex_governor)"
  using control_state_survives_restart[of "\<lambda>_. snapshot ex_governor" "\<lambda>_. ''json''" ex_governor "''risk''" 7 "[]"]
  by blast

theorem releases_are_exact_witness:
  "evaluate_breach ex_account = None
   \<and> snd (release_lockdown ex_account ex_governor) = ex_governor\<lparr>gv_lockdown := None\<rparr>
   \<and> (\<exists>g1. trigger_kill SCOPE_GLOBAL None ex_governor = (Inr (), g1)
        \<and> release_kill SCOPE_GLOBAL None g1 = release_kill SCOPE_GLOBAL None ex_governor)"
proof -
  have k: "\<exists>g1. trigger_kill SCOPE_GLOBAL None ex_governor = (Inr (), g1)"
    by (simp add: trigger_kill_def target_def)
  have n: "evaluate_breach ex_account = None" by code_simp
  have r: "release_lockdown ex_account ex_governor = (Inr (), ex_governor\<lparr>gv_lockdown := None\<rparr>)"
    by (simp add: release_lockdown_def n)
  show ?thesis
    using releases_are_exact[of ex_account ex_governor] n k unfolding r prod.case sum.case snd_conv by blast
qed

end
