(* ===== verification/Ledger.thy ===== *)
theory Ledger
  imports Contracts
begin

text \<open>
  The transactional ledger (\<^verbatim>\<open>services/oms/ledger.py\<close>) and its reconciliation against the venue's
  balances (\<^verbatim>\<open>services/oms/reconciliation.py\<close>). Both ledgers are modelled: the in-memory dictionary
  and the database table, whose rows keep insertion order. \<^verbatim>\<open>uuid5\<close> under the module's namespace is
  the parameter \<open>uuid5\<close>; what the amount column gives back of an amount (the exact text on SQLite,
  18 decimals on PostgreSQL) is the parameter \<open>column\<close>.
\<close>

section \<open>Balances\<close>

definition TOTAL_KINDS :: "ledger_entry_kind list" where
  "TOTAL_KINDS = [OPENING_BALANCE, TRADE, FEE]"

definition entry_id :: "(string \<Rightarrow> string) \<Rightarrow> string list \<Rightarrow> string" where
  "entry_id uuid5 parts = uuid5 (join [CHR 0x00] parts)"

record asset_balance =
  ab_asset :: string
  ab_total :: rat
  ab_reserved :: rat
  ab_opening :: rat

definition available :: "asset_balance \<Rightarrow> rat" where
  "available b = dsub (ab_total b) (ab_reserved b)"

text \<open>The three \<^verbatim>\<open>defaultdict(Decimal)\<close> the loop fills.\<close>

record tallies =
  ta_total :: "(string, rat) dict"
  ta_reserved :: "(string, rat) dict"
  ta_opening :: "(string, rat) dict"

definition tally :: "ledger_entry \<Rightarrow> tallies \<Rightarrow> tallies" where
  "tally e t =
     (let a = le_asset e
      in if le_kind e \<in> set TOTAL_KINDS then
           (let t' = t\<lparr>ta_total := dset a (dadd (dget_or (ta_total t) a 0) (le_amount e)) (ta_total t)\<rparr>
            in if le_kind e = OPENING_BALANCE
               then t'\<lparr>ta_opening := dset a (dadd (dget_or (ta_opening t) a 0) (le_amount e)) (ta_opening t)\<rparr>
               else t')
         else t\<lparr>ta_reserved := dset a (dsub (dget_or (ta_reserved t) a 0) (le_amount e)) (ta_reserved t)\<rparr>)"

definition summarize :: "ledger_entry list \<Rightarrow> (string, asset_balance) dict" where
  "summarize entries =
     (let t = fold tally entries \<lparr>ta_total = [], ta_reserved = [], ta_opening = []\<rparr>
      in map (\<lambda>a. (a, \<lparr>ab_asset = a, ab_total = dget_or (ta_total t) a 0,
                     ab_reserved = dget_or (ta_reserved t) a 0, ab_opening = dget_or (ta_opening t) a 0\<rparr>))
           (sort (remdups (dkeys (ta_total t) @ dkeys (ta_reserved t)))))"

text \<open>The assets a batch touches with reservations or releases; the order in which Python visits the
  set is not specified, the model takes the order of the batch.\<close>

definition touched :: "ledger_entry list \<Rightarrow> string list" where
  "touched batch = remdups (map le_asset (filter (\<lambda>e. le_kind e \<notin> set TOTAL_KINDS) batch))"

definition guard_asset :: "(string, asset_balance) dict \<Rightarrow> string \<Rightarrow> unit res" where
  "guard_asset balances asset =
     (case dget balances asset of
        None \<Rightarrow> Inr ()
      | Some balance \<Rightarrow>
          if ab_reserved balance < 0 then Inl (LedgerRejected (''release exceeds reservations for '' @ asset))
          else if available balance < 0 then Inl (LedgerRejected (''insufficient available '' @ asset))
          else Inr ())"

definition guard :: "(string, asset_balance) dict \<Rightarrow> ledger_entry list \<Rightarrow> unit res" where
  "guard balances batch = fold_res (\<lambda>asset _. guard_asset balances asset) (touched batch) ()"

section \<open>The in-memory ledger\<close>

type_synonym memory_ledger = "(string, ledger_entry) dict"

definition memory_post :: "ledger_entry list \<Rightarrow> memory_ledger \<Rightarrow> bool res \<times> memory_ledger" where
  "memory_post batch s =
     (let known = map (\<lambda>e. dget s (le_entry_id e) \<noteq> None) batch
      in if list_all id known then (Inr False, s)
         else if list_ex id known then (Inl (LedgerRejected ''batch partially overlaps posted entries''), s)
         else (case guard (summarize (dvalues s @ batch)) batch of
                 Inl e \<Rightarrow> (Inl e, s)
               | Inr _ \<Rightarrow> (Inr True, fold (\<lambda>e. dset (le_entry_id e) e) batch s)))"

definition memory_balances :: "memory_ledger \<Rightarrow> (string, asset_balance) dict" where
  "memory_balances s = summarize (dvalues s)"

definition memory_has_entry :: "string \<Rightarrow> memory_ledger \<Rightarrow> bool" where
  "memory_has_entry entry s \<longleftrightarrow> dget s entry \<noteq> None"

definition memory_entries :: "memory_ledger \<Rightarrow> ledger_entry list" where
  "memory_entries s = sort_key (\<lambda>e. (le_recorded_at e, le_entry_id e)) (dvalues s)"

definition fee_dict :: "ledger_entry list \<Rightarrow> (string, string) dict" where
  "fee_dict entries =
     fold (\<lambda>e. dset (le_reference_id e) (le_asset e)) (filter (\<lambda>e. le_kind e = FEE) entries) []"

definition memory_fee_assets :: "memory_ledger \<Rightarrow> (string, string) dict" where
  "memory_fee_assets s = fee_dict (memory_entries s)"

section \<open>The durable ledger\<close>

type_synonym ledger_rows = "ledger_entry list"

definition in_scope :: "string \<Rightarrow> venue_id \<Rightarrow> ledger_entry \<Rightarrow> bool" where
  "in_scope account_id venue e \<longleftrightarrow> le_account_id e = account_id \<and> le_venue e = venue"

definition sql_post ::
    "(rat \<Rightarrow> rat) \<Rightarrow> string \<Rightarrow> venue_id \<Rightarrow> ledger_entry list \<Rightarrow> ledger_rows \<Rightarrow> bool res \<times> ledger_rows" where
  "sql_post column account_id venue batch rows =
     (let ids = map le_entry_id batch;
          existing = length (filter (\<lambda>r. le_entry_id r \<in> set ids) rows)
      in if existing = length ids then (Inr False, rows)
         else if existing \<noteq> 0 then (Inl (LedgerRejected ''batch partially overlaps posted entries''), rows)
         else
           let current = filter (\<lambda>r. in_scope account_id venue r \<and> le_asset r \<in> set (map le_asset batch)) rows
           in (case guard (summarize (current @ batch)) batch of
                 Inl e \<Rightarrow> (Inl e, rows)
               | Inr _ \<Rightarrow>
                   if \<not> distinct ids then (Inl (LedgerRejected ''concurrent ledger write detected''), rows)
                   else (Inr True, rows @ map (\<lambda>e. e\<lparr>le_amount := column (le_amount e)\<rparr>) batch)))"

text \<open>The select has no order; the rows are taken as they were inserted, which fixes the order of the assets.\<close>

definition sql_balances :: "string \<Rightarrow> venue_id \<Rightarrow> ledger_rows \<Rightarrow> (string, asset_balance) dict" where
  "sql_balances account_id venue rows = summarize (filter (in_scope account_id venue) rows)"

definition sql_has_entry :: "string \<Rightarrow> ledger_rows \<Rightarrow> bool" where
  "sql_has_entry entry rows \<longleftrightarrow> list_ex (\<lambda>r. le_entry_id r = entry) rows"

definition sql_fee_assets :: "string \<Rightarrow> venue_id \<Rightarrow> ledger_rows \<Rightarrow> (string, string) dict" where
  "sql_fee_assets account_id venue rows =
     fee_dict (sort_key le_recorded_at (filter (in_scope account_id venue) rows))"

definition opening_balances ::
    "(string \<Rightarrow> string) \<Rightarrow> string \<Rightarrow> venue_id \<Rightarrow> instant \<Rightarrow> (string, rat) dict \<Rightarrow> ledger_entry list res" where
  "opening_balances uuid5 account_id venue now balances =
     map_res (\<lambda>(asset, amount). ledger_entry_new
         \<lparr>le_entry_id = entry_id uuid5 [account_id, venue_value venue, ''opening'', asset],
          le_account_id = account_id, le_venue = venue, le_asset = asset, le_amount = amount,
          le_kind = OPENING_BALANCE, le_reference_id = ''opening-balance'', le_recorded_at = now\<rparr>)
       (filter (\<lambda>(asset, amount). amount > 0) (sort balances))"

section \<open>Reconciliation\<close>

definition DEFAULT_TOLERANCE :: rat where "DEFAULT_TOLERANCE = 1 / 10 ^ 8"

record divergence =
  dv_asset :: string
  dv_ledger :: rat
  dv_venue :: rat

definition difference :: "divergence \<Rightarrow> rat" where
  "difference d = dsub (dv_venue d) (dv_ledger d)"

definition ours :: "(string, asset_balance) dict \<Rightarrow> string \<Rightarrow> rat" where
  "ours ledger asset = (case dget ledger asset of None \<Rightarrow> 0 | Some b \<Rightarrow> ab_total b)"

definition reconcile_balances ::
    "(string, asset_balance) dict \<Rightarrow> (string, rat) dict \<Rightarrow> (string, rat) dict \<Rightarrow> divergence list" where
  "reconcile_balances ledger venue tolerances =
     List.map_filter (\<lambda>asset.
         let theirs = dget_or venue asset 0
         in if dabs (dsub theirs (ours ledger asset)) > dget_or tolerances asset DEFAULT_TOLERANCE
            then Some \<lparr>dv_asset = asset, dv_ledger = ours ledger asset, dv_venue = theirs\<rparr>
            else None)
       (sort (remdups (dkeys ledger @ dkeys venue)))"

section \<open>What the balances are\<close>

text \<open>
  The specification in the module's header: per asset, the total sums openings, trades and fees, the
  reserved amount is minus the sum of reservations and releases. The sums are the Decimal sums in
  posting order.
\<close>

abbreviation counts_total :: "string \<Rightarrow> ledger_entry \<Rightarrow> bool" where
  "counts_total a e \<equiv> le_asset e = a \<and> le_kind e \<in> set TOTAL_KINDS"

abbreviation counts_reserved :: "string \<Rightarrow> ledger_entry \<Rightarrow> bool" where
  "counts_reserved a e \<equiv> le_asset e = a \<and> le_kind e \<notin> set TOTAL_KINDS"

definition total_of :: "ledger_entry list \<Rightarrow> string \<Rightarrow> rat" where
  "total_of es a = fold (\<lambda>e s. dadd s (le_amount e)) (filter (counts_total a) es) 0"

definition reserved_of :: "ledger_entry list \<Rightarrow> string \<Rightarrow> rat" where
  "reserved_of es a = fold (\<lambda>e s. dsub s (le_amount e)) (filter (counts_reserved a) es) 0"

definition opening_of :: "ledger_entry list \<Rightarrow> string \<Rightarrow> rat" where
  "opening_of es a =
     fold (\<lambda>e s. dadd s (le_amount e)) (filter (\<lambda>e. le_asset e = a \<and> le_kind e = OPENING_BALANCE) es) 0"

definition balance_of :: "ledger_entry list \<Rightarrow> string \<Rightarrow> asset_balance" where
  "balance_of es a = \<lparr>ab_asset = a, ab_total = total_of es a, ab_reserved = reserved_of es a,
     ab_opening = opening_of es a\<rparr>"

lemmas balance_specs = total_of_def reserved_of_def opening_of_def

lemma balance_of_snoc:
  "total_of (es @ [e]) a = (if counts_total a e then dadd (total_of es a) (le_amount e) else total_of es a)"
  "reserved_of (es @ [e]) a = (if counts_reserved a e then dsub (reserved_of es a) (le_amount e) else reserved_of es a)"
  by (simp_all add: balance_specs)

lemma dget_or_dset [simp]: "dget_or (dset k v d) k' x = (if k' = k then v else dget_or d k' x)"
  by (simp add: dget_or_def)

lemma tally_sums:
  "dget_or (ta_total (fold tally es t)) a 0 =
     fold (\<lambda>e s. dadd s (le_amount e)) (filter (counts_total a) es) (dget_or (ta_total t) a 0)"
  "dget_or (ta_reserved (fold tally es t)) a 0 =
     fold (\<lambda>e s. dsub s (le_amount e)) (filter (counts_reserved a) es) (dget_or (ta_reserved t) a 0)"
  "dget_or (ta_opening (fold tally es t)) a 0 =
     fold (\<lambda>e s. dadd s (le_amount e)) (filter (\<lambda>e. le_asset e = a \<and> le_kind e = OPENING_BALANCE) es)
       (dget_or (ta_opening t) a 0)"
  by (induction es arbitrary: t) (auto simp: tally_def Let_def TOTAL_KINDS_def)

lemma tally_keys:
  "set (dkeys (ta_total (fold tally es t)) @ dkeys (ta_reserved (fold tally es t))) =
     set (dkeys (ta_total t) @ dkeys (ta_reserved t)) \<union> le_asset ` set es"
proof (induction es arbitrary: t)
  case (Cons e es)
  have "set (dkeys (ta_total (tally e t)) @ dkeys (ta_reserved (tally e t))) =
      insert (le_asset e) (set (dkeys (ta_total t) @ dkeys (ta_reserved t)))"
    by (simp add: tally_def Let_def)
  then show ?case using Cons.IH[of "tally e t"] by (simp only: fold_Cons comp_apply) auto
qed simp

lemma dget_map_keys: "dget (map (\<lambda>k. (k, f k)) ks) k = (if k \<in> set ks then Some (f k) else None)"
  by (induction ks) auto

lemma summarize_lookup:
  "dget (summarize es) a = (if a \<in> le_asset ` set es then Some (balance_of es a) else None)"
proof -
  let ?t = "fold tally es \<lparr>ta_total = [], ta_reserved = [], ta_opening = []\<rparr>"
  have "dget_or [] a 0 = (0 :: rat)" by (simp add: dget_or_def)
  then have "\<lparr>ab_asset = a, ab_total = dget_or (ta_total ?t) a 0, ab_reserved = dget_or (ta_reserved ?t) a 0,
      ab_opening = dget_or (ta_opening ?t) a 0\<rparr> = balance_of es a"
    by (simp add: tally_sums balance_of_def balance_specs)
  moreover have "a \<in> set (sort (remdups (dkeys (ta_total ?t) @ dkeys (ta_reserved ?t)))) \<longleftrightarrow> a \<in> le_asset ` set es"
    using tally_keys[of es "\<lparr>ta_total = [], ta_reserved = [], ta_opening = []\<rparr>"] by simp
  ultimately show ?thesis by (simp only: summarize_def Let_def dget_map_keys if_True if_False)
qed

lemma summarize_keys: "dkeys (summarize es) = sorted_list_of_set (le_asset ` set es)"
proof -
  let ?t = "fold tally es \<lparr>ta_total = [], ta_reserved = [], ta_opening = []\<rparr>"
  have "dkeys (summarize es) = sort (remdups (dkeys (ta_total ?t) @ dkeys (ta_reserved ?t)))"
    by (simp add: summarize_def Let_def comp_def)
  also have "\<dots> = sorted_list_of_set (set (dkeys (ta_total ?t) @ dkeys (ta_reserved ?t)))"
    by (simp only: sorted_list_of_set_sort_remdups)
  finally show ?thesis by (simp only: tally_keys) simp
qed

text \<open>Balances of an asset only depend on that asset's entries.\<close>

lemma balance_of_filter:
  assumes "\<And>e. e \<in> set es \<Longrightarrow> le_asset e = a \<Longrightarrow> P e"
  shows "balance_of (filter P es @ fs) a = balance_of (es @ fs) a"
proof -
  have "filter (\<lambda>e. P e \<and> le_asset e = a \<and> Q e) es = filter (\<lambda>e. le_asset e = a \<and> Q e) es" for Q
    using assms by (intro filter_cong) auto
  then show ?thesis
    by (simp add: balance_of_def balance_specs)
qed

lemma guard_Inr: "guard b batch = Inr () \<longleftrightarrow> (\<forall>a \<in> set (touched batch). guard_asset b a = Inr ())"
proof -
  have "fold_res (\<lambda>a _. guard_asset b a) as u = Inr () \<longleftrightarrow> (\<forall>a \<in> set as. guard_asset b a = Inr ())" for as u
    by (induction as arbitrary: u) (auto simp: res_bind_Inr_conv)
  then show ?thesis by (simp add: guard_def)
qed

lemma guard_cong:
  assumes "\<And>a. a \<in> set (touched batch) \<Longrightarrow> dget b a = dget b' a"
  shows "guard b batch = guard b' batch"
proof -
  have "fold_res (\<lambda>a _. guard_asset b a) as u = fold_res (\<lambda>a _. guard_asset b' a) as u"
    if "\<And>a. a \<in> set as \<Longrightarrow> dget b a = dget b' a" for as u
    using that by (induction as arbitrary: u) (auto simp: guard_asset_def intro!: arg_cong2[where f = res_bind])
  then show ?thesis using assms by (simp add: guard_def)
qed

lemma touched_assets: "set (touched batch) = {le_asset e | e. e \<in> set batch \<and> le_kind e \<notin> set TOTAL_KINDS}"
  by (auto simp: touched_def)

text \<open>What a passed guard guarantees.\<close>

lemma guard_nonneg:
  assumes "guard (summarize (es @ batch)) batch = Inr ()" and "e \<in> set batch" and "le_kind e \<notin> set TOTAL_KINDS"
  shows "0 \<le> reserved_of (es @ batch) (le_asset e) \<and>
    reserved_of (es @ batch) (le_asset e) \<le> total_of (es @ batch) (le_asset e)"
proof -
  have "guard_asset (summarize (es @ batch)) (le_asset e) = Inr ()"
    using assms by (auto simp: guard_Inr touched_assets)
  then show ?thesis
    using assms(2) by (auto simp: guard_asset_def summarize_lookup balance_of_def available_def split: if_splits)
qed

lemma guard_restrict:
  assumes "\<And>e. e \<in> set es \<Longrightarrow> le_asset e \<in> le_asset ` set batch \<Longrightarrow> P e"
  shows "guard (summarize (filter P es @ batch)) batch = guard (summarize (es @ batch)) batch"
proof (rule guard_cong)
  fix a assume "a \<in> set (touched batch)"
  then have a: "a \<in> le_asset ` set batch" by (auto simp: touched_assets)
  show "dget (summarize (filter P es @ batch)) a = dget (summarize (es @ batch)) a"
    using a assms by (auto simp: summarize_lookup intro: balance_of_filter)
qed

section \<open>The ledger interface\<close>

text \<open>
  What the order manager relies on: a batch is applied as a whole or not at all, against the entries
  posted before it. \<open>grow\<close> is the store's own insertion, \<open>mine\<close> the entries of the ledger's account.
\<close>

abbreviation ids_of :: "ledger_entry list \<Rightarrow> string list" where
  "ids_of b \<equiv> map le_entry_id b"

locale ledger_store =
  fixes post :: "ledger_entry list \<Rightarrow> 's \<Rightarrow> bool res \<times> 's"
    and has_entry :: "string \<Rightarrow> 's \<Rightarrow> bool"
    and entries :: "'s \<Rightarrow> ledger_entry list"
    and inv :: "'s \<Rightarrow> bool"
    and grow :: "ledger_entry list \<Rightarrow> 's \<Rightarrow> 's"
    and mine :: "ledger_entry \<Rightarrow> bool"
  assumes post_spec: "inv s \<Longrightarrow> distinct (ids_of b) \<Longrightarrow> list_all mine b \<Longrightarrow> post b s =
      (if \<forall>x \<in> set (ids_of b). has_entry x s then (Inr False, s)
       else if \<exists>x \<in> set (ids_of b). has_entry x s
       then (Inl (LedgerRejected ''batch partially overlaps posted entries''), s)
       else (case guard (summarize (entries s @ b)) b of
               Inl e \<Rightarrow> (Inl e, s) | Inr _ \<Rightarrow> (Inr True, grow b s)))"
    and entries_grow: "inv s \<Longrightarrow> distinct (ids_of b) \<Longrightarrow> list_all mine b \<Longrightarrow>
      \<forall>x \<in> set (ids_of b). \<not> has_entry x s \<Longrightarrow> entries (grow b s) = entries s @ b"
    and has_grow: "inv s \<Longrightarrow> has_entry x (grow b s) \<longleftrightarrow> has_entry x s \<or> x \<in> set (ids_of b)"
    and inv_grow: "inv s \<Longrightarrow> distinct (ids_of b) \<Longrightarrow> \<forall>x \<in> set (ids_of b). \<not> has_entry x s \<Longrightarrow> inv (grow b s)"
    and entries_known: "inv s \<Longrightarrow> e \<in> set (entries s) \<Longrightarrow> has_entry (le_entry_id e) s"
    and entries_distinct: "inv s \<Longrightarrow> distinct (ids_of (entries s))"
begin

abbreviation proper :: "ledger_entry list \<Rightarrow> bool" where
  "proper b \<equiv> distinct (ids_of b) \<and> list_all mine b"

lemma post_cases:
  assumes "inv s" "proper b" "post b s = (r, s')"
  obtains (refused) e where "r = Inl e" "s' = s"
  | (known) "r = Inr False" "s' = s" "\<forall>x \<in> set (ids_of b). has_entry x s"
  | (applied) "r = Inr True" "s' = grow b s" "b \<noteq> []" "\<forall>x \<in> set (ids_of b). \<not> has_entry x s"
      "guard (summarize (entries s @ b)) b = Inr ()" "entries s' = entries s @ b" "inv s'"
proof -
  have ps: "post b s =
      (if \<forall>x \<in> set (ids_of b). has_entry x s then (Inr False, s)
       else if \<exists>x \<in> set (ids_of b). has_entry x s
       then (Inl (LedgerRejected ''batch partially overlaps posted entries''), s)
       else (case guard (summarize (entries s @ b)) b of
               Inl e \<Rightarrow> (Inl e, s) | Inr _ \<Rightarrow> (Inr True, grow b s)))"
    using post_spec assms(1,2) by blast
  consider "\<forall>x \<in> set (ids_of b). has_entry x s"
    | "\<not> (\<forall>x \<in> set (ids_of b). has_entry x s)" "\<exists>x \<in> set (ids_of b). has_entry x s"
    | "\<not> (\<forall>x \<in> set (ids_of b). has_entry x s)" "\<forall>x \<in> set (ids_of b). \<not> has_entry x s"
    by blast
  then show thesis
  proof cases
    case 1
    then show ?thesis using ps assms(3) known by simp
  next
    case 2
    then have "post b s = (Inl (LedgerRejected ''batch partially overlaps posted entries''), s)"
      unfolding ps by (simp only: if_False if_True)
    then show ?thesis using assms(3) refused by simp
  next
    case 3
    have ps': "post b s = (case guard (summarize (entries s @ b)) b of
        Inl e \<Rightarrow> (Inl e, s) | Inr _ \<Rightarrow> (Inr True, grow b s))"
      unfolding ps using 3 by (simp only: if_False if_True simp_thms bex_simps) auto
    show ?thesis
    proof (cases "guard (summarize (entries s @ b)) b")
      case (Inl e)
      then show ?thesis using ps' assms(3) refused by simp
    next
      case (Inr u)
      have "b \<noteq> []" using 3(1) by auto
      then show ?thesis
        using ps' Inr assms 3 applied[OF _ _ \<open>b \<noteq> []\<close> 3(2)] entries_grow inv_grow by simp
    qed
  qed
qed

lemma post_inv: "inv s \<Longrightarrow> proper b \<Longrightarrow> post b s = (r, s') \<Longrightarrow> inv s'"
  by (rule post_cases[of s b r s']) auto

text \<open>Reposting an applied batch is a no-op.\<close>

lemma repost:
  assumes "inv s" "proper b" "post b s = (Inr x, s')"
  shows "post b s' = (Inr False, s')"
  using assms
proof (cases rule: post_cases)
  case applied
  have "\<forall>x \<in> set (ids_of b). has_entry x s'" using applied(2) has_grow[OF assms(1)] by blast
  then show ?thesis using post_spec[OF applied(7)] assms(2) by simp
next
  case known
  then show ?thesis using assms by auto
qed simp

text \<open>A posted batch never takes a reservation below zero.\<close>

lemma reserved_nonneg_post:
  assumes "inv s" "proper b" "post b s = (r, s')" "\<forall>a. 0 \<le> reserved_of (entries s) a"
  shows "0 \<le> reserved_of (entries s') a"
  using assms(1-3)
proof (cases rule: post_cases)
  case applied
  show ?thesis
  proof (cases "\<exists>e \<in> set b. counts_reserved a e")
    case True
    then show ?thesis using guard_nonneg[OF applied(5)] applied(6) by auto
  next
    case False
    then have "filter (counts_reserved a) b = []" by (auto simp: filter_empty_conv)
    then show ?thesis using assms(4) applied(6) by (simp add: reserved_of_def)
  qed
qed (use assms(4) in auto)

end

text \<open>A sequence of posts.\<close>

fun post_run :: "(ledger_entry list \<Rightarrow> 's \<Rightarrow> bool res \<times> 's) \<Rightarrow> ledger_entry list list \<Rightarrow> 's \<Rightarrow> bool res list \<times> 's" where
  "post_run post [] s = ([], s)"
| "post_run post (b # bs) s =
     (case post b s of (r, s') \<Rightarrow> (case post_run post bs s' of (rs, s'') \<Rightarrow> (r # rs, s'')))"

definition applied_entries :: "ledger_entry list list \<Rightarrow> bool res list \<Rightarrow> ledger_entry list" where
  "applied_entries bs rs = concat (map fst (filter (\<lambda>(b, r). r = Inr True) (zip bs rs)))"

context ledger_store
begin

text \<open>After any sequence of posts the ledger holds exactly the accepted batches, in order.\<close>

lemma post_run_exact:
  assumes "inv s" "list_all proper bs" "post_run post bs s = (rs, s')" "\<forall>a. 0 \<le> reserved_of (entries s) a"
  shows "inv s' \<and> entries s' = entries s @ applied_entries bs rs \<and> (\<forall>a. 0 \<le> reserved_of (entries s') a)"
  using assms
proof (induction bs arbitrary: s rs)
  case (Cons b bs)
  obtain r s1 where p: "post b s = (r, s1)" by fastforce
  obtain rs' where run: "post_run post bs s1 = (rs', s')" and rs: "rs = r # rs'"
    using Cons.prems(3) p by (auto split: prod.splits)
  have b: "proper b" using Cons.prems(2) by simp
  have nn: "\<forall>a. 0 \<le> reserved_of (entries s1) a"
    using reserved_nonneg_post[OF Cons.prems(1) b p Cons.prems(4)] by blast
  note ih = Cons.IH[OF post_inv[OF Cons.prems(1) b p] _ run nn]
  have "entries s1 = entries s @ (if r = Inr True then b else [])"
    using Cons.prems(1) b p by (cases rule: post_cases) auto
  then show ?case using ih Cons.prems(2) by (auto simp: applied_entries_def rs)
qed (auto simp: applied_entries_def)

end

section \<open>Both ledgers provide it\<close>

definition memory_inv :: "memory_ledger \<Rightarrow> bool" where
  "memory_inv s \<longleftrightarrow> dict_ok s \<and> (\<forall>(k, e) \<in> set s. k = le_entry_id e)"

abbreviation memory_grow :: "ledger_entry list \<Rightarrow> memory_ledger \<Rightarrow> memory_ledger" where
  "memory_grow \<equiv> fold (\<lambda>e. dset (le_entry_id e) e)"

lemma memory_grow_append:
  assumes "distinct (ids_of b)" "\<forall>x \<in> set (ids_of b). dget s x = None"
  shows "memory_grow b s = s @ map (\<lambda>e. (le_entry_id e, e)) b"
  using assms
proof (induction b arbitrary: s)
  case (Cons e b)
  have "dset (le_entry_id e) e s = s @ [(le_entry_id e, e)]" using Cons.prems(2) by (simp add: dset_fresh)
  moreover have "\<forall>x \<in> set (ids_of b). dget (s @ [(le_entry_id e, e)]) x = None"
    using Cons.prems by (auto simp: map_add_def) (metis image_eqI)
  ultimately show ?case using Cons.IH Cons.prems(1) by simp
qed simp

lemma memory_grow_has: "dget (memory_grow b s) x \<noteq> None \<longleftrightarrow> dget s x \<noteq> None \<or> x \<in> set (ids_of b)"
proof (induction b arbitrary: s)
  case (Cons e b)
  then show ?case by (simp only: fold_Cons comp_apply) (auto split: if_splits)
qed simp

lemma memory_ids: "memory_inv s \<Longrightarrow> ids_of (dvalues s) = dkeys s"
  by (auto simp: memory_inv_def)

interpretation mem: ledger_store memory_post memory_has_entry dvalues memory_inv memory_grow "\<lambda>_. True"
proof unfold_locales
  fix s b x e
  assume i: "memory_inv s"
  show "memory_has_entry x (memory_grow b s) \<longleftrightarrow> memory_has_entry x s \<or> x \<in> set (ids_of b)"
    by (simp only: memory_has_entry_def memory_grow_has)
  show "distinct (ids_of (dvalues s))" unfolding memory_ids[OF i] using i by (simp add: memory_inv_def)
  show "memory_has_entry (le_entry_id e) s" if "e \<in> set (dvalues s)"
    using that memory_ids[OF i] by (metis dget_None_iff image_eqI memory_has_entry_def set_map)
  assume d: "distinct (ids_of b)"
  show "memory_inv (memory_grow b s)" "dvalues (memory_grow b s) = dvalues s @ b"
    if fresh: "\<forall>x \<in> set (ids_of b). \<not> memory_has_entry x s"
  proof -
    have g: "memory_grow b s = s @ map (\<lambda>e. (le_entry_id e, e)) b"
      using memory_grow_append[OF d] fresh by (simp add: memory_has_entry_def)
    have "set (dkeys s) \<inter> set (ids_of b) = {}"
      using fresh by (auto simp: memory_has_entry_def dget_None_iff rev_image_eqI)
    then have "distinct (dkeys s @ ids_of b)" using i d by (simp only: distinct_append memory_inv_def)
    then have "dict_ok (memory_grow b s)" unfolding g by (simp add: comp_def)
    then show "memory_inv (memory_grow b s)" using i unfolding g by (auto simp: memory_inv_def)
    show "dvalues (memory_grow b s) = dvalues s @ b" unfolding g by (simp add: comp_def)
  qed
  show "memory_post b s =
      (if \<forall>x \<in> set (ids_of b). memory_has_entry x s then (Inr False, s)
       else if \<exists>x \<in> set (ids_of b). memory_has_entry x s
       then (Inl (LedgerRejected ''batch partially overlaps posted entries''), s)
       else (case guard (summarize (dvalues s @ b)) b of
               Inl e \<Rightarrow> (Inl e, s) | Inr _ \<Rightarrow> (Inr True, memory_grow b s)))"
    by (simp add: memory_post_def Let_def list_all_iff list_ex_iff memory_has_entry_def)
qed

text \<open>The durable ledger over an exact amount column.\<close>

abbreviation sql_inv :: "ledger_rows \<Rightarrow> bool" where
  "sql_inv rows \<equiv> distinct (ids_of rows)"

lemma existing_count:
  assumes "distinct (ids_of rows)" "distinct ids"
  shows "length (filter (\<lambda>r. le_entry_id r \<in> set ids) rows) = card (set ids \<inter> set (ids_of rows))"
proof -
  have "length (filter (\<lambda>r. le_entry_id r \<in> set ids) rows) = length (filter (\<lambda>x. x \<in> set ids) (ids_of rows))"
    by (simp add: filter_map comp_def)
  also have "\<dots> = card (set (filter (\<lambda>x. x \<in> set ids) (ids_of rows)))"
    using assms(1) by (simp only: distinct_card distinct_filter)
  finally show ?thesis by (simp only: set_filter) (rule arg_cong[where f = card], auto)
qed

lemma existing_all:
  assumes "distinct (ids_of rows)" "distinct ids"
  shows "length (filter (\<lambda>r. le_entry_id r \<in> set ids) rows) = length ids \<longleftrightarrow> set ids \<subseteq> set (ids_of rows)"
  unfolding existing_count[OF assms] distinct_card[OF assms(2), symmetric]
  by (metis List.finite_set card_subset_eq inf.absorb_iff1 inf_le1)

lemma sql_has_entry_ids: "sql_has_entry x rows \<longleftrightarrow> x \<in> set (ids_of rows)"
  by (auto simp: sql_has_entry_def list_ex_iff)

lemma sql_current:
  assumes "list_all (in_scope account_id venue) b"
  shows "guard (summarize (filter (\<lambda>r. in_scope account_id venue r \<and> le_asset r \<in> set (map le_asset b)) rows @ b)) b
    = guard (summarize (filter (in_scope account_id venue) rows @ b)) b"
proof -
  have "filter (\<lambda>r. in_scope account_id venue r \<and> le_asset r \<in> set (map le_asset b)) rows
      = filter (\<lambda>r. le_asset r \<in> set (map le_asset b)) (filter (in_scope account_id venue) rows)"
    by (simp add: conj_commute)
  then show ?thesis by (simp only:) (rule guard_restrict, simp)
qed

interpretation sql: ledger_store "sql_post (\<lambda>x. x) account_id venue" sql_has_entry
    "filter (in_scope account_id venue)" sql_inv "\<lambda>b rows. rows @ b" "in_scope account_id venue"
  for account_id venue
proof unfold_locales
  fix s b x e
  assume i: "sql_inv s"
  show "sql_has_entry x (s @ b) \<longleftrightarrow> sql_has_entry x s \<or> x \<in> set (ids_of b)"
    by (auto simp: sql_has_entry_ids)
  show "sql_has_entry (le_entry_id e) s" if "e \<in> set (filter (in_scope account_id venue) s)"
    using that by (auto simp: sql_has_entry_ids)
  show "distinct (ids_of (filter (in_scope account_id venue) s))" using i by (rule distinct_map_filter)
  assume d: "distinct (ids_of b)"
  show "sql_inv (s @ b)" if "\<forall>x \<in> set (ids_of b). \<not> sql_has_entry x s"
    using that d i by (auto simp: sql_has_entry_ids) (metis image_eqI)
  assume m: "list_all (in_scope account_id venue) b"
  show "filter (in_scope account_id venue) (s @ b) = filter (in_scope account_id venue) s @ b"
    using m by (simp add: list_all_iff filter_id_conv)
  have none: "length (filter (\<lambda>r. le_entry_id r \<in> set (ids_of b)) s) \<noteq> 0 \<longleftrightarrow>
      (\<exists>x \<in> set (ids_of b). sql_has_entry x s)"
    by (simp add: filter_empty_conv sql_has_entry_ids) (metis image_iff)
  show "sql_post (\<lambda>x. x) account_id venue b s =
      (if \<forall>x \<in> set (ids_of b). sql_has_entry x s then (Inr False, s)
       else if \<exists>x \<in> set (ids_of b). sql_has_entry x s
       then (Inl (LedgerRejected ''batch partially overlaps posted entries''), s)
       else (case guard (summarize (filter (in_scope account_id venue) s @ b)) b of
               Inl e \<Rightarrow> (Inl e, s) | Inr _ \<Rightarrow> (Inr True, s @ b)))"
    unfolding sql_post_def Let_def existing_all[OF i d] none sql_current[OF m] subset_eq sql_has_entry_ids
    using d by (simp cong: sum.case_cong)
qed

section \<open>Properties\<close>

lemma run_known:
  assumes "post_run memory_post bs s = (rs, s')" "(b, Inr True) \<in> set (zip bs rs)" "memory_inv s"
    "\<forall>b \<in> set bs. distinct (ids_of b)" "\<forall>a. 0 \<le> reserved_of (dvalues s) a"
  shows "memory_post b s' = (Inr False, s')"
proof -
  have run: "memory_inv s'" "dvalues s' = dvalues s @ applied_entries bs rs"
    using mem.post_run_exact[OF assms(3) _ assms(1) assms(5)] assms(4) by (auto simp: list_all_iff)
  have "set b \<subseteq> set (applied_entries bs rs)" using assms(2) by (fastforce simp: applied_entries_def)
  then have "set b \<subseteq> set (dvalues s')" using run(2) by auto
  then have known: "\<forall>x \<in> set (ids_of b). memory_has_entry x s'" using mem.entries_known[OF run(1)] by auto
  have "distinct (ids_of b)" using assms(2,4) by (meson in_set_zipE)
  then show ?thesis using mem.post_spec[OF run(1)] known by (simp add: list_all_iff)
qed

text \<open>
  C37: The ledger is transactional. After any sequence of posts from an empty ledger (batches with
  distinct entry ids), it holds exactly the accepted batches, whole and in order, every entry id
  once; no asset's reserved amount is ever negative; and posting an accepted batch again, at any
  later point, reports that it was already applied and changes nothing.
\<close>

theorem ledger_holds_accepted_batches:
  assumes "\<forall>b \<in> set bs. distinct (ids_of b)" and "post_run memory_post bs [] = (rs, s)"
  shows "dvalues s = applied_entries bs rs \<and> distinct (ids_of (dvalues s))
    \<and> (\<forall>a. 0 \<le> reserved_of (dvalues s) a)
    \<and> (\<forall>b. (b, Inr True) \<in> set (zip bs rs) \<longrightarrow> memory_post b s = (Inr False, s))"
proof -
  have i: "memory_inv []" "\<forall>a. 0 \<le> reserved_of (dvalues []) a" by (simp_all add: memory_inv_def reserved_of_def)
  have run: "memory_inv s" "dvalues s = applied_entries bs rs" "\<forall>a. 0 \<le> reserved_of (dvalues s) a"
    using mem.post_run_exact[OF i(1) _ assms(2) i(2)] assms(1) by (auto simp: list_all_iff)
  show ?thesis
    using run mem.entries_distinct[OF run(1)] run_known[OF assms(2) _ i(1) assms(1) i(2)] by blast
qed

definition ex_entry :: "string \<Rightarrow> ledger_entry_kind \<Rightarrow> rat \<Rightarrow> ledger_entry" where
  "ex_entry i k x = \<lparr>le_entry_id = i, le_account_id = ''acc'', le_venue = V_PAPER, le_asset = ''BRL'',
     le_amount = x, le_kind = k, le_reference_id = ''r'', le_recorded_at = 0\<rparr>"

abbreviation ex_batches :: "ledger_entry list list" where
  "ex_batches \<equiv> [[ex_entry ''a'' OPENING_BALANCE 100], [ex_entry ''b'' RESERVATION (- 60)],
     [ex_entry ''c'' RESERVATION (- 60)], [ex_entry ''b'' RESERVATION (- 60)]]"

lemma ex_batches_run:
  "fst (post_run memory_post ex_batches []) =
     [Inr True, Inr True, Inl (LedgerRejected ''insufficient available BRL''), Inr False]"
  by code_simp

theorem ledger_holds_accepted_batches_witness:
  "dvalues (snd (post_run memory_post ex_batches []))
     = [ex_entry ''a'' OPENING_BALANCE 100, ex_entry ''b'' RESERVATION (- 60)]"
proof -
  obtain rs s where run: "post_run memory_post ex_batches [] = (rs, s)" by fastforce
  have "\<forall>b \<in> set ex_batches. distinct (ids_of b)" by simp
  from ledger_holds_accepted_batches[OF this run] show ?thesis
    using run ex_batches_run by (simp add: applied_entries_def)
qed

text \<open>The two ledgers simulate each other.\<close>

definition ledgers_agree :: "string \<Rightarrow> venue_id \<Rightarrow> ledger_rows \<Rightarrow> memory_ledger \<Rightarrow> bool" where
  "ledgers_agree account_id venue rows s \<longleftrightarrow> sql_inv rows \<and> memory_inv s
     \<and> filter (in_scope account_id venue) rows = dvalues s \<and> (\<forall>x. sql_has_entry x rows = memory_has_entry x s)"

lemma ledgers_agree_step:
  assumes "ledgers_agree account_id venue rows s" "distinct (ids_of b)" "list_all (in_scope account_id venue) b"
    and "sql_post (\<lambda>x. x) account_id venue b rows = (r, rows')" "memory_post b s = (r', s')"
  shows "r = r' \<and> ledgers_agree account_id venue rows' s'"
proof -
  have i: "sql_inv rows" "memory_inv s" and e: "filter (in_scope account_id venue) rows = dvalues s"
    and h: "sql_has_entry x rows = memory_has_entry x s" for x
    using assms(1) by (auto simp: ledgers_agree_def)
  have m: "list_all (\<lambda>_. True) b" by (simp add: list_all_iff)
  note s1 = sql.post_spec[OF i(1) assms(2,3), unfolded e h] and s2 = mem.post_spec[OF i(2) assms(2) m]
  consider "r = r'" "rows' = rows" "s' = s"
    | "r = r'" "rows' = rows @ b" "s' = memory_grow b s" "\<forall>x \<in> set (ids_of b). \<not> memory_has_entry x s"
    using s1 s2 assms(4,5) by (auto split: sum.splits if_splits)
  then show ?thesis
  proof cases
    case 1
    then show ?thesis using assms(1) by simp
  next
    case 2
    have nr: "\<forall>x \<in> set (ids_of b). \<not> sql_has_entry x rows" using 2(4) h by simp
    show ?thesis
      using 2 sql.inv_grow[OF i(1) assms(2) nr] sql.entries_grow[OF i(1) assms(2,3) nr] sql.has_grow[OF i(1)]
        mem.inv_grow[OF i(2) assms(2) 2(4)] mem.entries_grow[OF i(2) assms(2) m 2(4)] mem.has_grow[OF i(2)]
      by (simp only: ledgers_agree_def e h) simp
  qed
qed

lemma ledgers_agree_run:
  assumes "ledgers_agree account_id venue rows s"
    and "\<forall>b \<in> set bs. distinct (ids_of b) \<and> list_all (in_scope account_id venue) b"
  shows "fst (post_run (sql_post (\<lambda>x. x) account_id venue) bs rows) = fst (post_run memory_post bs s)
    \<and> ledgers_agree account_id venue (snd (post_run (sql_post (\<lambda>x. x) account_id venue) bs rows))
         (snd (post_run memory_post bs s))"
  using assms
proof (induction bs arbitrary: rows s)
  case (Cons b bs)
  obtain r rows' r' s' where st: "sql_post (\<lambda>x. x) account_id venue b rows = (r, rows')" "memory_post b s = (r', s')"
    by fastforce
  have step: "r = r' \<and> ledgers_agree account_id venue rows' s'"
    using ledgers_agree_step[OF Cons.prems(1) _ _ st] Cons.prems(2) by simp
  show ?case using Cons.IH[of rows' s'] step Cons.prems(2) by (simp add: st case_prod_beta)
qed simp

text \<open>
  C38: The durable ledger refines the in-memory one. Over an exact amount column, any sequence of
  batches of one account gets the same outcome from both, batch by batch (accepted, already applied,
  rejected with the same reason), and leaves the same entries and the same balances.
\<close>

theorem sql_ledger_refines_memory:
  assumes "\<forall>b \<in> set bs. distinct (ids_of b) \<and> list_all (in_scope account_id venue) b"
    and "post_run (sql_post (\<lambda>x. x) account_id venue) bs [] = (rs, rows)"
    and "post_run memory_post bs [] = (rs', s)"
  shows "rs = rs' \<and> filter (in_scope account_id venue) rows = dvalues s
    \<and> sql_balances account_id venue rows = memory_balances s"
proof -
  have "ledgers_agree account_id venue [] []"
    by (simp add: ledgers_agree_def memory_inv_def sql_has_entry_def memory_has_entry_def)
  from ledgers_agree_run[OF this assms(1)] show ?thesis
    using assms(2,3) by (auto simp: ledgers_agree_def sql_balances_def memory_balances_def)
qed

theorem sql_ledger_refines_memory_witness:
  "fst (post_run (sql_post (\<lambda>x. x) ''acc'' V_PAPER) ex_batches []) =
     [Inr True, Inr True, Inl (LedgerRejected ''insufficient available BRL''), Inr False]"
proof -
  obtain rs rows rs' s where run: "post_run (sql_post (\<lambda>x. x) ''acc'' V_PAPER) ex_batches [] = (rs, rows)"
    "post_run memory_post ex_batches [] = (rs', s)" by fastforce
  have "\<forall>b \<in> set ex_batches. distinct (ids_of b) \<and> list_all (in_scope ''acc'' V_PAPER) b"
    by (simp add: in_scope_def ex_entry_def)
  from sql_ledger_refines_memory[OF this run] show ?thesis using run ex_batches_run by simp
qed

text \<open>Where the Decimal sums are exact.\<close>

abbreviation amounts :: "(ledger_entry \<Rightarrow> bool) \<Rightarrow> ledger_entry list \<Rightarrow> rat" where
  "amounts P es \<equiv> sum_list (map le_amount (filter P es))"

definition fits_grid :: "nat \<Rightarrow> ledger_entry list \<Rightarrow> bool" where
  "fits_grid k es \<longleftrightarrow> (\<forall>e \<in> set es. on_grid k (le_amount e)) \<and>
     sum_list (map (\<lambda>e. \<bar>le_amount e\<bar>) es) * 10 ^ k \<le> 10 ^ 28"

lemma fold_dadd_exact:
  assumes "on_grid k s" "\<forall>x \<in> set xs. on_grid k x" "(\<bar>s\<bar> + sum_list (map abs xs)) * 10 ^ k \<le> 10 ^ 28"
  shows "fold (\<lambda>x s. dadd s x) xs s = s + sum_list xs"
  using assms
proof (induction xs arbitrary: s)
  case (Cons x xs)
  have bound: "(\<bar>s + x\<bar> + sum_list (map abs xs)) * 10 ^ k \<le> 10 ^ 28"
  proof -
    have "(\<bar>s + x\<bar> + sum_list (map abs xs)) * 10 ^ k \<le> (\<bar>s\<bar> + sum_list (map abs (x # xs))) * 10 ^ k"
      using abs_triangle_ineq[of s x] by (intro mult_right_mono) auto
    then show ?thesis using Cons.prems(3) by (rule order_trans)
  qed
  have g: "on_grid k (s + x)" using Cons.prems by (auto intro: on_grid_add)
  have "0 \<le> sum_list (map abs xs)" by (rule sum_list_nonneg) auto
  then have "\<bar>s + x\<bar> * 10 ^ k \<le> (\<bar>s + x\<bar> + sum_list (map abs xs)) * 10 ^ k" by (intro mult_right_mono) auto
  then have "\<bar>s + x\<bar> * 10 ^ k \<le> 10 ^ 28" using bound by (rule order_trans)
  then have "dadd s x = s + x" using dec_fix_grid[OF g] by (simp add: dadd_def)
  then show ?case using Cons.IH[OF g _ bound] Cons.prems(2) by (simp add: add.assoc)
qed simp

lemma fold_dsub_dadd: "fold (\<lambda>e s. dsub s (f e)) es s = fold (\<lambda>x s. dadd s x) (map (\<lambda>e. - f e) es) s"
  by (induction es arbitrary: s) (simp_all add: dsub_def dadd_def)

lemma fold_dadd_map: "fold (\<lambda>e s. dadd s (f e)) es s = fold (\<lambda>x s. dadd s x) (map f es) s"
  by (induction es arbitrary: s) simp_all

lemma sum_filter_bound: "sum_list (map (\<lambda>e. \<bar>f e :: rat\<bar>) (filter P es)) \<le> sum_list (map (\<lambda>e. \<bar>f e\<bar>) es)"
  by (induction es) auto

lemma fits_grid_filter: "fits_grid k es \<Longrightarrow> fits_grid k (filter P es)"
proof -
  assume f: "fits_grid k es"
  have "sum_list (map (\<lambda>e. \<bar>le_amount e\<bar>) (filter P es)) * 10 ^ k \<le> sum_list (map (\<lambda>e. \<bar>le_amount e\<bar>) es) * 10 ^ k"
    using sum_filter_bound by (intro mult_right_mono) auto
  then have "sum_list (map (\<lambda>e. \<bar>le_amount e\<bar>) (filter P es)) * 10 ^ k \<le> 10 ^ 28"
    using f unfolding fits_grid_def by (blast intro: order_trans)
  then show ?thesis using f by (simp only: fits_grid_def) auto
qed

lemma fits_grid_sums:
  assumes "fits_grid k es"
  shows "fold (\<lambda>e s. dadd s (le_amount e)) es 0 = sum_list (map le_amount es)"
    "fold (\<lambda>e s. dsub s (le_amount e)) es 0 = - sum_list (map le_amount es)"
proof -
  have neg: "sum_list (map (\<lambda>e. - le_amount e) es) = - sum_list (map le_amount es)"
    by (induction es) auto
  show "fold (\<lambda>e s. dadd s (le_amount e)) es 0 = sum_list (map le_amount es)"
    unfolding fold_dadd_map[of le_amount]
    using fold_dadd_exact[of k 0 "map le_amount es"] assms by (simp add: fits_grid_def comp_def)
  show "fold (\<lambda>e s. dsub s (le_amount e)) es 0 = - sum_list (map le_amount es)"
    unfolding fold_dsub_dadd
    using fold_dadd_exact[of k 0 "map (\<lambda>e. - le_amount e) es"] assms neg
    by (simp add: fits_grid_def comp_def on_grid_minus)
qed

text \<open>
  The balances are what the ledger's header says. \<^verbatim>\<open>summarize\<close> lists each asset that has entries
  once, in alphabetical order. When every amount lies on a grid of \<open>k\<close> decimals and the amounts add up
  to at most \<open>10^(28-k)\<close>, the Decimal sums are exact: the total is the sum of openings, trades and
  fees, the reserved amount minus the sum of reservations and releases, and the available amount the
  sum of every entry of the asset.
\<close>

theorem summarize_exact:
  assumes "fits_grid k es"
  shows "dkeys (summarize es) = sorted_list_of_set (le_asset ` set es)
    \<and> (\<forall>a \<in> le_asset ` set es. \<exists>b. dget (summarize es) a = Some b \<and> ab_asset b = a
        \<and> ab_total b = amounts (\<lambda>e. le_asset e = a \<and> le_kind e \<in> {OPENING_BALANCE, TRADE, FEE}) es
        \<and> ab_reserved b = - amounts (\<lambda>e. le_asset e = a \<and> le_kind e \<in> {RESERVATION, RELEASE}) es
        \<and> ab_opening b = amounts (\<lambda>e. le_asset e = a \<and> le_kind e = OPENING_BALANCE) es
        \<and> available b = amounts (\<lambda>e. le_asset e = a) es)"
proof -
  have kinds: "k' \<in> set TOTAL_KINDS \<longleftrightarrow> k' \<in> {OPENING_BALANCE, TRADE, FEE}"
    "k' \<notin> set TOTAL_KINDS \<longleftrightarrow> k' \<in> {RESERVATION, RELEASE}" for k'
    by (cases k'; simp add: TOTAL_KINDS_def)+
  have t: "total_of es a = amounts (\<lambda>e. le_asset e = a \<and> le_kind e \<in> {OPENING_BALANCE, TRADE, FEE}) es" for a
    unfolding total_of_def kinds(1)[symmetric] by (rule fits_grid_sums(1)[OF fits_grid_filter[OF assms]])
  have r: "reserved_of es a = - amounts (\<lambda>e. le_asset e = a \<and> le_kind e \<in> {RESERVATION, RELEASE}) es" for a
    unfolding reserved_of_def kinds(2)[symmetric] by (rule fits_grid_sums(2)[OF fits_grid_filter[OF assms]])
  have o: "opening_of es a = amounts (\<lambda>e. le_asset e = a \<and> le_kind e = OPENING_BALANCE) es" for a
    unfolding opening_of_def by (rule fits_grid_sums(1)[OF fits_grid_filter[OF assms]])
  have split: "amounts (\<lambda>e. le_asset e = a \<and> le_kind e \<in> {OPENING_BALANCE, TRADE, FEE}) xs
      + amounts (\<lambda>e. le_asset e = a \<and> le_kind e \<in> {RESERVATION, RELEASE}) xs = amounts (\<lambda>e. le_asset e = a) xs" for a xs
    by (induction xs) (auto, (metis ledger_entry_kind.exhaust)+)
  have grid: "fits_grid k (filter (\<lambda>e. le_asset e = a) es)" for a by (rule fits_grid_filter[OF assms])
  have "dec_fix (fold (\<lambda>e s. dadd s (le_amount e)) xs 0) = fold (\<lambda>e s. dadd s (le_amount e)) xs 0" for xs
    by (cases xs rule: rev_cases) simp_all
  then have fixed: "dec_fix (amounts (\<lambda>e. le_asset e = a) es) = amounts (\<lambda>e. le_asset e = a) es" for a
    using fits_grid_sums(1)[OF grid, of a] by metis
  have av: "available (balance_of es a) = amounts (\<lambda>e. le_asset e = a) es" for a
    using fixed[of a] split[of a es] by (simp add: available_def balance_of_def t r dsub_def)
  show ?thesis
    using av by (auto simp: summarize_keys summarize_lookup balance_of_def t r o)
qed

theorem summarize_exact_witness:
  "\<exists>b. dget (summarize [ex_entry ''a'' OPENING_BALANCE 100, ex_entry ''b'' RESERVATION (- 60)]) ''BRL'' = Some b
     \<and> available b = 40"
proof -
  let ?es = "[ex_entry ''a'' OPENING_BALANCE 100, ex_entry ''b'' RESERVATION (- 60)]"
  have "fits_grid 8 ?es" by (simp add: fits_grid_def ex_entry_def on_grid_def)
  moreover have "''BRL'' \<in> le_asset ` set ?es" by (simp add: ex_entry_def)
  ultimately obtain b where "dget (summarize ?es) ''BRL'' = Some b"
    "available b = amounts (\<lambda>e. le_asset e = ''BRL'') ?es" using summarize_exact by blast
  then show ?thesis by (simp add: ex_entry_def)
qed

lemma reconcile_conv:
  "reconcile_balances ledger venue tolerances =
     map (\<lambda>a. \<lparr>dv_asset = a, dv_ledger = ours ledger a, dv_venue = dget_or venue a 0\<rparr>)
       (filter (\<lambda>a. dget_or tolerances a DEFAULT_TOLERANCE < dabs (dsub (dget_or venue a 0) (ours ledger a)))
         (sort (remdups (dkeys ledger @ dkeys venue))))"
proof -
  have "List.map_filter (\<lambda>a. if P a then Some (f a) else None) xs = map f (filter P xs)"
    for P and f :: "string \<Rightarrow> divergence" and xs
    by (induction xs) (auto simp: List.map_filter_simps)
  then show ?thesis by (simp only: reconcile_balances_def Let_def)
qed

text \<open>
  Reconciliation reports exactly the divergent assets. The list is sorted by asset without
  repetition; an asset is in it just when the venue's balance and the ledger's total differ by more
  than the asset's tolerance (10^-8 unless configured); and with no negative tolerance an empty list
  means that every asset agrees within its tolerance, known to either side or not.
\<close>

theorem reconcile_reports_divergences:
  assumes "\<forall>t \<in> set (dvalues tolerances). 0 \<le> t"
  shows "sorted (map dv_asset (reconcile_balances ledger venue tolerances))
    \<and> distinct (map dv_asset (reconcile_balances ledger venue tolerances))
    \<and> (\<forall>d. d \<in> set (reconcile_balances ledger venue tolerances) \<longleftrightarrow>
          dv_ledger d = ours ledger (dv_asset d) \<and> dv_venue d = dget_or venue (dv_asset d) 0
          \<and> dget_or tolerances (dv_asset d) DEFAULT_TOLERANCE < dabs (difference d))"
proof -
  let ?keys = "sort (remdups (dkeys ledger @ dkeys venue))"
  let ?out = "\<lambda>a. dget_or tolerances a DEFAULT_TOLERANCE < dabs (dsub (dget_or venue a 0) (ours ledger a))"
  note rb = reconcile_conv[of ledger venue tolerances]
  have assets: "map dv_asset (reconcile_balances ledger venue tolerances) = filter ?out ?keys"
    unfolding rb by (simp add: comp_def)
  have tol: "0 \<le> dget_or tolerances a DEFAULT_TOLERANCE" for a
    using assms dget_Some_in[of tolerances a]
    by (cases "dget tolerances a") (auto simp: dget_or_def DEFAULT_TOLERANCE_def)
  have known: "a \<in> set ?keys" if "?out a" for a
  proof (rule ccontr)
    assume "a \<notin> set ?keys"
    then have "a \<notin> set (dkeys ledger)" "a \<notin> set (dkeys venue)" by simp_all
    then have "dget ledger a = None" "dget venue a = None" by (simp_all only: dget_None_iff) simp_all
    then show False using that tol[of a] by (simp add: ours_def dget_or_def dabs_def dsub_def)
  qed
  have mem: "d \<in> set (reconcile_balances ledger venue tolerances) \<longleftrightarrow>
          dv_ledger d = ours ledger (dv_asset d) \<and> dv_venue d = dget_or venue (dv_asset d) 0 \<and>
          dget_or tolerances (dv_asset d) DEFAULT_TOLERANCE < dabs (difference d)" for d
    unfolding rb difference_def using known[of "dv_asset d"] by (cases d) (auto simp: image_iff)
  show ?thesis using mem unfolding assets by (simp add: sorted_filter[of id, simplified] distinct_filter)
qed

theorem reconcile_reports_divergences_witness:
  "\<exists>d. d \<in> set (reconcile_balances [] [(''BRL'', 5)] []) \<and> dv_asset d = ''BRL''"
proof -
  let ?d = "\<lparr>dv_asset = ''BRL'', dv_ledger = 0, dv_venue = 5\<rparr>"
  have "dget_or [] ''BRL'' DEFAULT_TOLERANCE < dabs (difference ?d)" by code_simp
  then have "?d \<in> set (reconcile_balances [] [(''BRL'', 5)] [])"
    using reconcile_reports_divergences[of "[]" "[]" "[(''BRL'', 5)]"] by (simp add: ours_def dget_or_def)
  then show ?thesis by force
qed

text \<open>The batch of an opening snapshot.\<close>

lemma opening_batch:
  assumes "opening_balances uuid5 account_id venue now balances = Inr batch"
  shows "batch = map (\<lambda>(asset, amount).
     \<lparr>le_entry_id = entry_id uuid5 [account_id, venue_value venue, ''opening'', asset],
      le_account_id = account_id, le_venue = venue, le_asset = asset, le_amount = amount,
      le_kind = OPENING_BALANCE, le_reference_id = ''opening-balance'', le_recorded_at = now\<rparr>)
     (filter (\<lambda>(asset, amount). amount > 0) (sort balances))"
proof -
  have "list_all2 (\<lambda>x y. f x = Inr y) xs ys \<Longrightarrow> (\<And>x y. f x = Inr y \<Longrightarrow> y = g x) \<Longrightarrow> ys = map g xs"
    for f :: "string \<times> rat \<Rightarrow> ledger_entry res" and g xs ys
    by (induction rule: list_all2_induct) auto
  from this[OF assms[unfolded opening_balances_def map_res_Inr]] show ?thesis
    using ledger_entry_new_Inr by (metis (no_types, lifting) case_prod_beta')
qed

lemma total_of_single:
  assumes "dict_ok d" "dget d a = Some x" "dec_fix x = x"
  shows "fold (\<lambda>(k, v) s. dadd s v) (filter (\<lambda>(k, v). k = a) d) 0 = x"
proof -
  have "filter (\<lambda>(k, v). k = a) d = [(a, x)]" using assms(1,2)
  proof (induction d)
    case (Cons kv d)
    show ?case
    proof (cases "fst kv = a")
      case True
      then have "a \<notin> set (dkeys d)" using Cons.prems(1) by auto
      then have "filter (\<lambda>(k, v). k = a) d = []" by (auto simp: filter_empty_conv rev_image_eqI)
      then show ?thesis using True Cons.prems(2) by (cases kv) auto
    next
      case False
      then show ?thesis using Cons by (cases kv) auto
    qed
  qed simp
  then show ?thesis using assms(3) by (simp add: dadd_def)
qed

text \<open>
  An opening snapshot reconciles. Posting the opening entries of a venue's balances to an empty
  ledger is accepted, and the ledger's totals then agree with the venue's balances asset by asset,
  so reconciliation reports nothing. The balances are non-negative Decimals of at most 28 digits and
  the entry ids do not collide.
\<close>

theorem opening_snapshot_reconciles:
  assumes "opening_balances uuid5 account_id venue now balances = Inr batch" and "batch \<noteq> []"
    and "dict_ok balances" and "\<forall>(a, x) \<in> set balances. 0 \<le> x \<and> dec_fix x = x"
    and "inj_on uuid5 ((\<lambda>a. join [CHR 0x00] [account_id, venue_value venue, ''opening'', a]) ` set (dkeys balances))"
  shows "\<exists>s. memory_post batch [] = (Inr True, s) \<and> reconcile_balances (memory_balances s) balances [] = []"
proof -
  note b = opening_batch[OF assms(1)]
  let ?pos = "filter (\<lambda>(asset, amount). amount > 0) (sort balances)"
  let ?name = "\<lambda>a. join [CHR 0x00] [account_id, venue_value venue, ''opening'', a]"
  have keys: "distinct (dkeys ?pos)" "set (dkeys ?pos) \<subseteq> set (dkeys balances)"
  proof -
    have "dict_ok (sort balances)" using assms(3) by (simp add: distinct_map inj_on_def)
    then show "distinct (dkeys ?pos)" by (rule dict_ok_filter)
  qed auto
  have ids: "ids_of batch = map (\<lambda>a. uuid5 (?name a)) (dkeys ?pos)"
    unfolding b by (auto simp: entry_id_def)
  have "inj_on (\<lambda>a. uuid5 (?name a)) (set (dkeys ?pos))"
  proof -
    have "inj_on ?name (set (dkeys ?pos))" by (simp add: inj_on_def)
    then have "inj_on (uuid5 \<circ> ?name) (set (dkeys ?pos))"
      using assms(5) keys(2) by (meson comp_inj_on image_mono inj_on_subset)
    then show ?thesis by (simp only: comp_def)
  qed
  then have d: "distinct (ids_of batch)" unfolding ids using keys(1) by (simp only: distinct_map)
  have g: "guard (summarize ([] @ batch)) batch = Inr ()"
    unfolding guard_Inr b by (auto simp: touched_def TOTAL_KINDS_def)
  have i: "memory_inv []" by (simp add: memory_inv_def)
  have fresh: "\<forall>x \<in> set (ids_of batch). \<not> memory_has_entry x []" by (simp add: memory_has_entry_def)
  have post: "memory_post batch [] = (Inr True, memory_grow batch [])"
    using mem.post_spec[OF i d] g fresh assms(2) by (auto simp: list_all_iff)
  have bal: "memory_balances (memory_grow batch []) = summarize batch"
    using mem.entries_grow[OF i d _ fresh] by (simp add: memory_balances_def list_all_iff)
  have total: "ours (summarize batch) a = dget_or balances a 0" for a
  proof -
    have sums: "total_of batch a = fold (\<lambda>(k, v) s. dadd s v) (filter (\<lambda>(k, v). k = a) ?pos) 0"
      unfolding total_of_def b filter_map fold_map by (simp add: comp_def case_prod_beta' TOTAL_KINDS_def)
    have assets: "le_asset ` set batch = set (dkeys ?pos)" unfolding b by force
    have "dget (sort balances) = dget balances"
      using assms(3) by (intro map_of_inject_set[THEN iffD2]) (simp_all add: distinct_map inj_on_def)
    then have pos: "dget ?pos a = (case dget balances a of None \<Rightarrow> None | Some x \<Rightarrow> if x > 0 then Some x else None)"
      using dget_filter_value[of "sort balances" "\<lambda>x. x > 0" a] assms(3) by (simp add: distinct_map inj_on_def)
    show ?thesis
    proof (cases "dget ?pos a")
      case None
      then have "a \<notin> le_asset ` set batch" unfolding assets by (simp only: dget_None_iff) simp
      moreover have "dget_or balances a 0 = 0"
        using None pos assms(4) by (auto simp: dget_or_def split: option.splits if_splits dest!: map_of_SomeD)
      ultimately show ?thesis by (simp add: ours_def summarize_lookup)
    next
      case (Some x)
      have x: "dget balances a = Some x" using Some pos by (auto split: option.splits if_splits)
      then have "dec_fix x = x" using assms(4) map_of_SomeD by fastforce
      then have "total_of batch a = x" using sums total_of_single[OF keys(1) Some] by simp
      moreover have "a \<in> le_asset ` set batch" unfolding assets using Some by (force dest: map_of_SomeD)
      ultimately show ?thesis using x by (simp add: ours_def summarize_lookup balance_of_def dget_or_def)
    qed
  qed
  have "reconcile_balances (summarize batch) balances [] = []"
    unfolding reconcile_conv total by (simp add: filter_empty_conv dabs_def dsub_def dget_or_def DEFAULT_TOLERANCE_def)
  then show ?thesis using post bal by auto
qed

theorem opening_snapshot_reconciles_witness:
  "\<exists>batch s. opening_balances (\<lambda>x. x) ''acc'' V_PAPER 0 [(''BRL'', 100), (''BTC'', 0)] = Inr batch
     \<and> memory_post batch [] = (Inr True, s)
     \<and> reconcile_balances (memory_balances s) [(''BRL'', 100), (''BTC'', 0)] [] = []"
proof -
  let ?bal = "[(''BRL'', 100), (''BTC'', 0)] :: (string, rat) dict"
  have "\<exists>e. opening_balances (\<lambda>x. x) ''acc'' V_PAPER 0 ?bal = Inr [e]"
    by (simp add: opening_balances_def ledger_entry_new_def validate_sign_def)
  then obtain e where e: "opening_balances (\<lambda>x. x) ''acc'' V_PAPER 0 ?bal = Inr [e]" by blast
  have "dec_fix 100 = 100" by code_simp
  then have f: "\<forall>(a, x) \<in> set ?bal. 0 \<le> x \<and> dec_fix x = x" by simp
  show ?thesis using opening_snapshot_reconciles[OF e _ _ f] e by auto
qed

end
