(* ===== verification/OMS.thy ===== *)
theory OMS
  imports Ledger Paper_Venue Permits
begin

text \<open>
  The order management system (\<^verbatim>\<open>services/oms/manager.py\<close>) with its durable store
  (\<^verbatim>\<open>services/oms/store.py\<close>). What the manager is constructed with (adapter, ledger, permit ledger,
  instruments, store, recorder) is the record \<open>oms_env\<close>; its own state, with the states of the
  venue, the ledger, the permit ledger and the order table, is the record \<open>oms\<close>. An operation takes
  the clock's reading as \<open>now\<close>. Managed orders are shared mutable objects: every mutation is written
  to \<open>om_orders\<close> at once, so it stays visible after an exception. Saving an order and recording an
  event always succeed here: the runs in which \<^verbatim>\<open>_save\<close> or \<^verbatim>\<open>_record\<close> raises are not modelled. Nor is what
  other tasks do during an awaited call; an operation is one step. The table keeps every field of an order but the fee asset.
\<close>

section \<open>State\<close>

definition FEE_RESERVE :: rat where "FEE_RESERVE = 5 / 1000"

record managed_order =
  mo_intent :: trade_intent
  mo_client_order_id :: string
  mo_status :: order_status
  mo_reserved_asset :: string
  mo_reserved :: rat
  mo_released :: rat
  mo_filled_quantity :: rat
  mo_filled_notional :: rat
  mo_fee :: rat
  mo_fee_asset :: "string option"
  mo_venue_order_id :: "string option"
  mo_reason :: "string option"
  mo_history :: "order_status list"

datatype oms_event = OrderEvent string managed_order | RefusedEvent string string

record ('v, 'l, 'p) oms =
  om_orders :: "(string, managed_order) dict"
  om_by_intent :: "(string, string) dict"
  om_ledger :: 'l
  om_permits :: 'p
  om_venue :: 'v
  om_store :: "(string, managed_order \<times> instant) dict"
  om_events :: "oms_event list"

record ('v, 'l, 'p) oms_env =
  env_adapter :: "'v venue_adapter"
  env_post :: "ledger_entry list \<Rightarrow> 'l \<Rightarrow> bool res \<times> 'l"
  env_has_entry :: "string \<Rightarrow> 'l \<Rightarrow> bool"
  env_fee_assets :: "'l \<Rightarrow> (string, string) dict"
  env_account_id :: string
  env_venue :: venue_id
  env_consume :: "risk_permit \<Rightarrow> trade_intent \<Rightarrow> instant \<Rightarrow> 'p \<Rightarrow> unit res \<times> 'p"
  env_instruments :: "(string, tradable_instrument) dict"
  env_sha256 :: "string \<Rightarrow> string"
  env_uuid5 :: "string \<Rightarrow> string"
  env_dec_str :: "rat \<Rightarrow> string"
  env_has_store :: bool
  env_has_recorder :: bool

text \<open>\<^verbatim>\<open>type(exc).__name__\<close>; the validation error of a contract goes under its base class here, and a
  network error carries its own name.\<close>

fun exn_name :: "exn \<Rightarrow> string" where
  "exn_name (ValueError _) = ''ValueError''"
| "exn_name (KeyError _) = ''KeyError''"
| "exn_name AssertionError = ''AssertionError''"
| "exn_name InvalidOperation = ''InvalidOperation''"
| "exn_name DivisionByZero = ''DivisionByZero''"
| "exn_name (RuntimeError _) = ''RuntimeError''"
| "exn_name (VenueError s) = s"
| "exn_name _ = ''Exception''"

definition oms_new ::
    "('v, 'l, 'p) oms_env \<Rightarrow> 'v \<Rightarrow> 'l \<Rightarrow> 'p \<Rightarrow> (string, managed_order \<times> instant) dict \<Rightarrow> ('v, 'l, 'p) oms res" where
  "oms_new env venue ledger permits store =
     (if va_real_money (env_adapter env)
      then Inl (ValueError ''no certified live scope: real-money adapters are refused'')
      else Inr \<lparr>om_orders = [], om_by_intent = [], om_ledger = ledger, om_permits = permits,
                om_venue = venue, om_store = store, om_events = []\<rparr>)"

section \<open>Persistence and events\<close>

text \<open>What \<^verbatim>\<open>_order_row\<close> keeps of an order and \<^verbatim>\<open>load\<close> gives back.\<close>

definition order_row :: "managed_order \<Rightarrow> managed_order" where
  "order_row o' = o'\<lparr>mo_fee_asset := None\<rparr>"

definition store_save :: "instant \<Rightarrow> managed_order \<Rightarrow> (string, managed_order \<times> instant) dict \<Rightarrow>
    (string, managed_order \<times> instant) dict" where
  "store_save now o' rows = dset (mo_client_order_id o') (order_row o', now) rows"

definition store_load :: "(string, managed_order \<times> instant) dict \<Rightarrow> managed_order list" where
  "store_load rows = map (\<lambda>(cid, row, updated). row) (sort_key (\<lambda>(cid, row, updated). (updated, cid)) rows)"

type_synonym ('v, 'l, 'p, 'a) oms_op = "(('v, 'l, 'p) oms, 'a) op"

definition put_order :: "managed_order \<Rightarrow> ('v, 'l, 'p) oms \<Rightarrow> ('v, 'l, 'p) oms" where
  "put_order o' s = s\<lparr>om_orders := dset (mo_client_order_id o') o' (om_orders s)\<rparr>"

definition register_order :: "managed_order \<Rightarrow> ('v, 'l, 'p) oms \<Rightarrow> ('v, 'l, 'p) oms" where
  "register_order o' s =
     (put_order o' s)\<lparr>om_by_intent := dset (in_intent_id (mo_intent o')) (mo_client_order_id o') (om_by_intent s)\<rparr>"

definition save_order :: "('v, 'l, 'p) oms_env \<Rightarrow> instant \<Rightarrow> managed_order \<Rightarrow> ('v, 'l, 'p) oms \<Rightarrow> ('v, 'l, 'p) oms" where
  "save_order env now o' s =
     (if env_has_store env then s\<lparr>om_store := store_save now o' (om_store s)\<rparr> else s)"

definition record_event :: "('v, 'l, 'p) oms_env \<Rightarrow> oms_event \<Rightarrow> ('v, 'l, 'p) oms \<Rightarrow> ('v, 'l, 'p) oms" where
  "record_event env ev s = (if env_has_recorder env then s\<lparr>om_events := om_events s @ [ev]\<rparr> else s)"

definition commit_order ::
    "('v, 'l, 'p) oms_env \<Rightarrow> instant \<Rightarrow> string option \<Rightarrow> managed_order \<Rightarrow> ('v, 'l, 'p) oms \<Rightarrow> ('v, 'l, 'p) oms" where
  "commit_order env now event_type o' s =
     record_event env
       (OrderEvent (case event_type of Some t \<Rightarrow> t | None \<Rightarrow> ''ORDER_'' @ status_value (mo_status o')) o')
       (save_order env now o' s)"

section \<open>Orders and entries\<close>

definition new_order :: "('v, 'l, 'p) oms_env \<Rightarrow> trade_intent \<Rightarrow> tradable_instrument \<Rightarrow> managed_order res" where
  "new_order env i inst =
     (case in_limit_price i of
        None \<Rightarrow> Inl AssertionError
      | Some limit_price \<Rightarrow>
          res_bind (if in_side i = BUY
                    then res_bind (quantize_up8 (dmul (dmul (in_quantity i) limit_price) (dadd 1 FEE_RESERVE)))
                           (\<lambda>amount. Inr (ti_quote_asset inst, amount))
                    else Inr (ti_base_asset inst, in_quantity i)) (\<lambda>(asset, amount).
          res_bind (client_order_id (env_sha256 env) i 0) (\<lambda>cid.
            Inr \<lparr>mo_intent = i, mo_client_order_id = cid, mo_status = NEW, mo_reserved_asset = asset,
                 mo_reserved = amount, mo_released = 0, mo_filled_quantity = 0, mo_filled_notional = 0,
                 mo_fee = 0, mo_fee_asset = None, mo_venue_order_id = None, mo_reason = None,
                 mo_history = [NEW]\<rparr>)))"

definition oms_entry ::
    "('v, 'l, 'p) oms_env \<Rightarrow> managed_order \<Rightarrow> ledger_entry_kind \<Rightarrow> string \<Rightarrow> rat \<Rightarrow> instant \<Rightarrow> string list \<Rightarrow>
     ledger_entry res" where
  "oms_entry env o' kind asset amount now key =
     ledger_entry_new
       \<lparr>le_entry_id = entry_id (env_uuid5 env) ([mo_client_order_id o', kind_value kind, asset] @ key),
        le_account_id = env_account_id env, le_venue = env_venue env, le_asset = asset,
        le_amount = amount, le_kind = kind, le_reference_id = mo_client_order_id o', le_recorded_at = now\<rparr>"

definition reservation :: "('v, 'l, 'p) oms_env \<Rightarrow> managed_order \<Rightarrow> instant \<Rightarrow> ledger_entry res" where
  "reservation env o' now = oms_entry env o' RESERVATION (mo_reserved_asset o') (dneg (mo_reserved o')) now []"

definition set_status :: "order_status \<Rightarrow> string option \<Rightarrow> managed_order \<Rightarrow> managed_order res" where
  "set_status status reason o' =
     res_bind (if status \<noteq> mo_status o'
               then res_bind (transition (mo_status o') status) (\<lambda>st.
                      Inr (o'\<lparr>mo_status := st, mo_history := mo_history o' @ [status]\<rparr>))
               else Inr o') (\<lambda>o1.
     Inr (case reason of None \<Rightarrow> o1 | Some _ \<Rightarrow> o1\<lparr>mo_reason := reason\<rparr>))"

definition post_batch :: "('v, 'l, 'p) oms_env \<Rightarrow> ledger_entry list \<Rightarrow> ('v, 'l, 'p, bool) oms_op" where
  "post_batch env batch s =
     (case env_post env batch (om_ledger s) of (r, l) \<Rightarrow> (r, s\<lparr>om_ledger := l\<rparr>))"

text \<open>Mutating an order the manager holds.\<close>

definition set_order :: "managed_order \<Rightarrow> ('v, 'l, 'p, managed_order) oms_op" where
  "set_order o' = op_bind (op_modify (put_order o')) (\<lambda>_. op_return o')"

definition commit ::
    "('v, 'l, 'p) oms_env \<Rightarrow> instant \<Rightarrow> string option \<Rightarrow> managed_order \<Rightarrow> ('v, 'l, 'p, managed_order) oms_op" where
  "commit env now event_type o' =
     op_bind (op_modify (commit_order env now event_type o')) (\<lambda>_. op_return o')"

text \<open>\<^verbatim>\<open>_set_status\<close> on a held order, where the exception is not caught.\<close>

definition move ::
    "order_status \<Rightarrow> string option \<Rightarrow> managed_order \<Rightarrow> ('v, 'l, 'p, managed_order) oms_op" where
  "move status reason o' = op_bind (op_lift (set_status status reason o')) set_order"

section \<open>Applying venue reports\<close>

definition fill_fee_asset :: "tradable_instrument \<Rightarrow> execution_report \<Rightarrow> string" where
  "fill_fee_asset inst report =
     (case er_fee_asset report of None \<Rightarrow> ti_quote_asset inst
      | Some a \<Rightarrow> if a = '''' then ti_quote_asset inst else a)"

text \<open>The part of the hold that a fill gives back.\<close>

definition fill_release :: "managed_order \<Rightarrow> rat \<Rightarrow> rat res" where
  "fill_release o' increment =
     res_bind (ddiv (dmul (mo_reserved o') increment) (in_quantity (mo_intent o'))) (\<lambda>share.
       Inr (min share (dsub (mo_reserved o') (mo_released o'))))"

definition post_fill ::
    "('v, 'l, 'p) oms_env \<Rightarrow> instant \<Rightarrow> execution_report \<Rightarrow> rat \<Rightarrow> managed_order \<Rightarrow>
     ('v, 'l, 'p, managed_order) oms_op" where
  "post_fill env now report increment o' =
     (case dget (env_instruments env) (in_instrument_id (mo_intent o')) of
        None \<Rightarrow> op_raise (KeyError (in_instrument_id (mo_intent o')))
      | Some inst \<Rightarrow>
     (case er_average_price report of
        None \<Rightarrow> op_raise AssertionError
      | Some average_price \<Rightarrow>
          let cumulative_notional = dmul (er_filled_quantity report) average_price;
              notional = dsub cumulative_notional (mo_filled_notional o');
              fee = dsub (er_fee report) (mo_fee o');
              buying = (in_side (mo_intent o') = BUY);
              mark = [env_dec_str env (er_filled_quantity report)];
              base = ti_base_asset inst; quote_asset = ti_quote_asset inst
          in op_bind (op_lift (fill_release o' increment)) (\<lambda>release.
                op_bind (op_lift (oms_entry env o' TRADE base (if buying then increment else dneg increment) now mark)) (\<lambda>e1.
                op_bind (op_lift (oms_entry env o' TRADE quote_asset (if buying then dneg notional else notional) now mark)) (\<lambda>e2.
                op_bind (if fee > 0
                         then op_bind (op_lift (oms_entry env o' FEE (fill_fee_asset inst report) (dneg fee) now mark)) (\<lambda>e3.
                              op_bind (set_order (o'\<lparr>mo_fee_asset := Some (fill_fee_asset inst report)\<rparr>)) (\<lambda>o1.
                              op_return ([e3], o1)))
                         else op_return ([], o')) (\<lambda>(fees, o1).
                op_bind (if release > 0
                         then op_bind (op_lift (oms_entry env o' RELEASE (mo_reserved_asset o') release now mark)) (\<lambda>e4.
                              op_return [e4])
                         else op_return []) (\<lambda>releases.
                op_bind (post_batch env ([e1, e2] @ fees @ releases)) (\<lambda>_.
                set_order (o1\<lparr>mo_filled_quantity := er_filled_quantity report,
                              mo_filled_notional := cumulative_notional, mo_fee := er_fee report,
                              mo_released := dadd (mo_released o1) release\<rparr>)))))))))"

definition release_rest ::
    "('v, 'l, 'p) oms_env \<Rightarrow> instant \<Rightarrow> managed_order \<Rightarrow> ('v, 'l, 'p, managed_order) oms_op" where
  "release_rest env now o' =
     (let rest = dsub (mo_reserved o') (mo_released o')
      in if rest > 0
         then op_bind (op_lift (oms_entry env o' RELEASE (mo_reserved_asset o') rest now [''final''])) (\<lambda>e.
              op_bind (post_batch env [e]) (\<lambda>_.
              set_order (o'\<lparr>mo_released := dadd (mo_released o') rest\<rparr>)))
         else op_return o')"

text \<open>\<^verbatim>\<open>_apply\<close> after the fill has been posted: an illegal transition is logged and the order saved.\<close>

definition finish_apply ::
    "('v, 'l, 'p) oms_env \<Rightarrow> instant \<Rightarrow> execution_report \<Rightarrow> managed_order \<Rightarrow> ('v, 'l, 'p, managed_order) oms_op" where
  "finish_apply env now report o' =
     (case set_status (er_status report) (er_reason report) o' of
        Inl _ \<Rightarrow> op_bind (op_modify (save_order env now o')) (\<lambda>_. op_return o')
      | Inr o1 \<Rightarrow>
          op_bind (set_order o1) (\<lambda>o1.
          op_bind (if terminal (mo_status o1) then release_rest env now o1 else op_return o1)
            (commit env now None)))"

definition apply_report ::
    "('v, 'l, 'p) oms_env \<Rightarrow> instant \<Rightarrow> managed_order \<Rightarrow> execution_report \<Rightarrow> ('v, 'l, 'p, managed_order) oms_op" where
  "apply_report env now o' report =
     (if er_client_order_id report \<noteq> mo_client_order_id o'
      then op_raise (ValueError ''report belongs to another order'')
      else
        op_bind (set_order (o'\<lparr>mo_venue_order_id :=
                   (case er_venue_order_id report of None \<Rightarrow> mo_venue_order_id o'
                    | Some x \<Rightarrow> if x = '''' then mo_venue_order_id o' else Some x)\<rparr>)) (\<lambda>o1.
        let increment = dsub (er_filled_quantity report) (mo_filled_quantity o1)
        in if increment < 0 then op_return o1
           else op_bind (if increment > 0 then post_fill env now report increment o1 else op_return o1)
                  (finish_apply env now report)))"

section \<open>The operations\<close>

definition call_venue :: "('v \<Rightarrow> 'a res \<times> 'v) \<Rightarrow> ('v, 'l, 'p, 'a) oms_op" where
  "call_venue f s = (case f (om_venue s) of (r, v) \<Rightarrow> (r, s\<lparr>om_venue := v\<rparr>))"

text \<open>The rest of \<^verbatim>\<open>submit\<close>, once the reservation is posted.\<close>

definition send_order ::
    "('v, 'l, 'p) oms_env \<Rightarrow> instant \<Rightarrow> managed_order \<Rightarrow> ('v, 'l, 'p, managed_order) oms_op" where
  "send_order env now o' =
     op_bind (move SUBMITTED None o') (\<lambda>o1.
     op_bind (commit env now None o1) (\<lambda>o1.
     let i = mo_intent o1
     in op_bind (op_try
            (op_bind (op_lift (venue_order_new
                \<lparr>vo_client_order_id = mo_client_order_id o1, vo_instrument_id = in_instrument_id i,
                 vo_side = in_side i, vo_quantity = in_quantity i, vo_order_type = in_order_type i,
                 vo_limit_price = in_limit_price i, vo_time_in_force = in_time_in_force i\<rparr>))
              (\<lambda>vo. call_venue (va_submit (env_adapter env) vo)))) (\<lambda>outcome.
        (case outcome of
           Inl exc \<Rightarrow> op_bind (move UNKNOWN (Some (exn_name exc)) o1) (commit env now None)
         | Inr report \<Rightarrow> apply_report env now o1 report))))"

text \<open>\<^verbatim>\<open>submit\<close> with the new order: registered and saved before the reservation is posted.\<close>

definition place_order ::
    "('v, 'l, 'p) oms_env \<Rightarrow> instant \<Rightarrow> managed_order \<Rightarrow> ('v, 'l, 'p, managed_order) oms_op" where
  "place_order env now o' =
     op_bind (op_modify (register_order o')) (\<lambda>_.
     op_bind (op_modify (save_order env now o')) (\<lambda>_.
     op_bind (op_try (op_bind (op_lift (reservation env o' now)) (\<lambda>e. post_batch env [e]))) (\<lambda>outcome.
       (case outcome of
          Inl (LedgerRejected reason) \<Rightarrow> op_bind (move REJECTED (Some reason) o') (commit env now None)
        | Inl e \<Rightarrow> op_raise e
        | Inr _ \<Rightarrow> send_order env now o'))))"

definition consume_permit ::
    "('v, 'l, 'p) oms_env \<Rightarrow> instant \<Rightarrow> risk_permit \<Rightarrow> trade_intent \<Rightarrow> ('v, 'l, 'p, unit) oms_op" where
  "consume_permit env now permit i s =
     (case env_consume env permit i now (om_permits s) of (r, p) \<Rightarrow> (r, s\<lparr>om_permits := p\<rparr>))"

definition refuse :: "('v, 'l, 'p) oms_env \<Rightarrow> trade_intent \<Rightarrow> string \<Rightarrow> ('v, 'l, 'p, 'a) oms_op" where
  "refuse env i code =
     op_bind (op_modify (record_event env (RefusedEvent (in_intent_id i) code))) (\<lambda>_.
     op_raise (OrderRejected code))"

definition submit ::
    "('v, 'l, 'p) oms_env \<Rightarrow> instant \<Rightarrow> trade_intent \<Rightarrow> risk_permit \<Rightarrow> ('v, 'l, 'p, managed_order) oms_op" where
  "submit env now i permit =
     op_bind (op_read (\<lambda>s. dget (om_by_intent s) (in_intent_id i))) (\<lambda>existing.
       (case existing of
          Some cid \<Rightarrow>
            op_bind (op_read (\<lambda>s. dget (om_orders s) cid)) (\<lambda>found.
              (case found of None \<Rightarrow> op_raise (KeyError cid) | Some o' \<Rightarrow> op_return o'))
        | None \<Rightarrow>
            op_bind (op_try (consume_permit env now permit i)) (\<lambda>outcome.
              (case outcome of
                 Inl (PermitRejected code) \<Rightarrow> refuse env i (''permit_'' @ code)
               | Inl e \<Rightarrow> op_raise e
               | Inr _ \<Rightarrow>
                   (case dget (env_instruments env) (in_instrument_id i) of
                      None \<Rightarrow> refuse env i ''unsupported_intent''
                    | Some inst \<Rightarrow>
                        if in_limit_price i = None then refuse env i ''unsupported_intent''
                        else op_bind (op_lift (new_order env i inst)) (place_order env now))))))"

text \<open>\<^verbatim>\<open>self._orders[client_order_id]\<close>\<close>

definition find_order :: "string \<Rightarrow> ('v, 'l, 'p, managed_order) oms_op" where
  "find_order cid s = (case dget (om_orders s) cid of None \<Rightarrow> (Inl (KeyError cid), s) | Some o' \<Rightarrow> (Inr o', s))"

definition query_venue ::
    "('v, 'l, 'p) oms_env \<Rightarrow> managed_order \<Rightarrow> string \<Rightarrow> ('v, 'l, 'p, execution_report option) oms_op" where
  "query_venue env o' cid =
     call_venue (va_query (env_adapter env) cid (Some (in_instrument_id (mo_intent o'))))"

definition resolve_unknown ::
    "('v, 'l, 'p) oms_env \<Rightarrow> instant \<Rightarrow> string \<Rightarrow> ('v, 'l, 'p, managed_order) oms_op" where
  "resolve_unknown env now cid =
     op_bind (find_order cid) (\<lambda>o'.
       if mo_status o' \<noteq> UNKNOWN then op_return o'
       else op_bind (query_venue env o' cid) (\<lambda>report.
         (case report of
            None \<Rightarrow>
              op_bind (move REJECTED (Some ''not found at venue'') o') (\<lambda>o1.
              op_bind (release_rest env now o1) (commit env now None))
          | Some r \<Rightarrow> apply_report env now o' r)))"

definition open_orders :: "('v, 'l, 'p) oms \<Rightarrow> managed_order list" where
  "open_orders s = filter (\<lambda>o'. mo_status o' \<in> set [ACKNOWLEDGED, PARTIALLY_FILLED]) (dvalues (om_orders s))"

definition refresh ::
    "('v, 'l, 'p) oms_env \<Rightarrow> instant \<Rightarrow> string \<Rightarrow> ('v, 'l, 'p, managed_order) oms_op" where
  "refresh env now cid =
     op_bind (find_order cid) (\<lambda>o'.
       if mo_status o' \<notin> set [ACKNOWLEDGED, PARTIALLY_FILLED] then op_return o'
       else op_bind (query_venue env o' cid) (\<lambda>report.
         (case report of
            None \<Rightarrow> op_bind (move UNKNOWN (Some ''missing at venue'') o') (commit env now None)
          | Some r \<Rightarrow>
              if er_status r \<noteq> mo_status o' \<or> er_filled_quantity r \<noteq> mo_filled_quantity o'
              then apply_report env now o' r else op_return o')))"

definition cancel ::
    "('v, 'l, 'p) oms_env \<Rightarrow> instant \<Rightarrow> string \<Rightarrow> ('v, 'l, 'p, managed_order) oms_op" where
  "cancel env now cid =
     op_bind (find_order cid) (\<lambda>o'.
       if terminal (mo_status o') \<or> mo_status o' = UNKNOWN then op_return o'
       else op_bind (call_venue (va_cancel (env_adapter env) cid (Some (in_instrument_id (mo_intent o')))))
              (apply_report env now o'))"

text \<open>The body of the loop in \<^verbatim>\<open>recover\<close>; it gives the order when it was open.\<close>

definition recover_order ::
    "('v, 'l, 'p) oms_env \<Rightarrow> instant \<Rightarrow> (string, string) dict \<Rightarrow> managed_order \<Rightarrow>
     ('v, 'l, 'p, managed_order option) oms_op" where
  "recover_order env now charged_in row =
     (let o' = (if mo_fee row > 0 then row\<lparr>mo_fee_asset := dget charged_in (mo_client_order_id row)\<rparr> else row)
      in op_bind (op_modify (register_order o')) (\<lambda>_.
         if terminal (mo_status o') \<or> mo_status o' = UNKNOWN then op_return None
         else
           op_bind (if mo_status o' = NEW
                    then op_bind (move REJECTED (Some ''interrupted before submit'') o') (\<lambda>o1.
                         op_bind (op_lift (reservation env o1 now)) (\<lambda>e.
                         op_bind (op_read (\<lambda>s. env_has_entry env (le_entry_id e) (om_ledger s))) (\<lambda>held.
                         op_bind (set_order (if held then o1 else o1\<lparr>mo_released := mo_reserved o1\<rparr>))
                           (release_rest env now))))
                    else move UNKNOWN (Some ''restarted while open'') o') (\<lambda>o2.
           op_bind (commit env now (Some ''ORDER_RECOVERED'') o2) (\<lambda>o2. op_return (Some o2)))))"

definition recover :: "('v, 'l, 'p) oms_env \<Rightarrow> instant \<Rightarrow> ('v, 'l, 'p, managed_order list) oms_op" where
  "recover env now =
     (if \<not> env_has_store env then op_return []
      else op_bind (op_read (\<lambda>s. (env_fee_assets env (om_ledger s), store_load (om_store s)))) (\<lambda>(charged_in, rows).
           op_bind (op_iter (recover_order env now charged_in) rows) (\<lambda>rs.
           op_return (List.map_filter id rs))))"

section \<open>The book invariant\<close>

text \<open>An order's history is one the state machine admits and ends in its status.\<close>

definition order_ok :: "managed_order \<Rightarrow> bool" where
  "order_ok o' \<longleftrightarrow> lifecycle (mo_history o') \<and> last (mo_history o') = mo_status o'"

definition orders_ok :: "(string, managed_order) dict \<Rightarrow> bool" where
  "orders_ok d \<longleftrightarrow> (\<forall>cid o'. dget d cid = Some o' \<longrightarrow> mo_client_order_id o' = cid \<and> order_ok o')"

definition rows_ok :: "(string, managed_order \<times> instant) dict \<Rightarrow> bool" where
  "rows_ok rows \<longleftrightarrow> (\<forall>(cid, row, t) \<in> set rows. mo_client_order_id row = cid \<and> order_ok row)"

definition index_ok :: "(string, managed_order) dict \<Rightarrow> (string, string) dict \<Rightarrow> bool" where
  "index_ok d ix \<longleftrightarrow> (\<forall>i cid. dget ix i = Some cid \<longrightarrow> dget d cid \<noteq> None)"

definition book_ok :: "('v, 'l, 'p) oms \<Rightarrow> bool" where
  "book_ok s \<longleftrightarrow> orders_ok (om_orders s) \<and> rows_ok (om_store s) \<and> index_ok (om_orders s) (om_by_intent s)"

definition holds :: "managed_order \<Rightarrow> ('v, 'l, 'p) oms \<Rightarrow> bool" where
  "holds o' s \<longleftrightarrow> book_ok s \<and> dget (om_orders s) (mo_client_order_id o') = Some o'"

text \<open>A change of an order that touches neither its identity nor its state.\<close>

definition same_state :: "managed_order \<Rightarrow> managed_order \<Rightarrow> bool" where
  "same_state o' o2 \<longleftrightarrow> mo_client_order_id o2 = mo_client_order_id o' \<and> mo_intent o2 = mo_intent o'
     \<and> mo_status o2 = mo_status o' \<and> mo_history o2 = mo_history o'"

lemma same_state_refl [simp]: "same_state o' o'"
  by (simp add: same_state_def)

lemma holds_ok: "holds o' s \<Longrightarrow> order_ok o' \<and> book_ok s"
  by (auto simp: holds_def book_ok_def orders_ok_def)

lemma dset_subset: "set (dset k v d) \<subseteq> insert (k, v) (set d)"
  by (induction d) auto

lemma holds_put:
  assumes "holds o' s" "order_ok o1" "mo_client_order_id o1 = mo_client_order_id o'" "mo_intent o1 = mo_intent o'"
  shows "holds o1 (put_order o1 s)"
proof -
  have "orders_ok (dset (mo_client_order_id o1) o1 (om_orders s))"
    using assms(1,2) by (simp add: holds_def book_ok_def orders_ok_def)
  moreover have "index_ok (dset (mo_client_order_id o1) o1 (om_orders s)) (om_by_intent s)"
    using assms(1,3,4) by (fastforce simp: holds_def book_ok_def index_ok_def)
  ultimately show ?thesis using assms(1) by (simp add: holds_def book_ok_def put_order_def)
qed

lemma book_ok_frame [frame_simps]:
  "book_ok (s\<lparr>om_ledger := l\<rparr>) = book_ok s" "book_ok (s\<lparr>om_permits := p\<rparr>) = book_ok s"
  "book_ok (s\<lparr>om_venue := v\<rparr>) = book_ok s" "book_ok (record_event env ev s) = book_ok s"
  by (simp_all add: book_ok_def record_event_def)

lemma holds_frame [frame_simps]:
  "holds o' (s\<lparr>om_ledger := l\<rparr>) = holds o' s" "holds o' (s\<lparr>om_permits := p\<rparr>) = holds o' s"
  "holds o' (s\<lparr>om_venue := v\<rparr>) = holds o' s" "holds o' (record_event env ev s) = holds o' s"
  by (simp_all add: holds_def frame_simps) (simp add: record_event_def)

lemma rows_ok_save:
  assumes "rows_ok rows" "order_ok o'"
  shows "rows_ok (store_save now o' rows)"
proof -
  have "order_ok (order_row o')" "mo_client_order_id (order_row o') = mo_client_order_id o'"
    using assms(2) by (simp_all add: order_ok_def order_row_def)
  then show ?thesis
    using assms(1) dset_subset[of "mo_client_order_id o'" "(order_row o', now)" rows]
    unfolding rows_ok_def store_save_def by blast
qed

lemma holds_save: "holds o' s \<Longrightarrow> holds o' (save_order env now o' s)"
  using rows_ok_save[of "om_store s" o' now] holds_ok[of o' s]
  by (simp add: holds_def book_ok_def save_order_def)

lemma holds_commit: "holds o' s \<Longrightarrow> holds o' (commit_order env now t o' s)"
  by (simp add: commit_order_def frame_simps holds_save)

lemma set_status_ok:
  assumes "set_status st reason o' = Inr o1" "order_ok o'"
  shows "order_ok o1 \<and> mo_client_order_id o1 = mo_client_order_id o' \<and> mo_intent o1 = mo_intent o'
    \<and> mo_status o1 = st"
  using assms lifecycle.moved[of "mo_history o'" st]
  by (auto simp: set_status_def order_ok_def res_bind_Inr_conv transition_Inr transition_def
      split: if_splits option.splits)

section \<open>Contracts of the steps\<close>

lemma step_set_order:
  assumes "order_ok o' \<Longrightarrow> order_ok o1" "mo_client_order_id o1 = mo_client_order_id o'" "mo_intent o1 = mo_intent o'"
  shows "contract (holds o') (set_order o1) (\<lambda>o2 s. o2 = o1 \<and> holds o1 s) book_ok"
  unfolding set_order_def
  by (rule contract_bind[of _ _ "\<lambda>_. holds o1"])
    (auto intro!: contract_modify contract_return holds_put[OF _ _ assms(2,3)] assms(1) dest: holds_ok)

lemma step_commit: "contract (holds o') (commit env now t o') (\<lambda>o2 s. o2 = o' \<and> holds o' s) book_ok"
  unfolding commit_def
  by (rule contract_bind[of _ _ "\<lambda>_. holds o'"]) (auto intro!: contract_modify contract_return holds_commit)

lemma step_post: "contract (holds o') (post_batch env b) (\<lambda>_. holds o') book_ok"
  by (rule contractI) (auto simp: post_batch_def frame_simps dest: holds_ok split: prod.splits)

lemma step_lift: "contract (holds o') (op_lift r) (\<lambda>x s. r = Inr x \<and> holds o' s) book_ok"
  by (rule contract_lift) (auto dest: holds_ok)

lemma step_call_venue: "contract (holds o') (call_venue f) (\<lambda>_. holds o') book_ok"
  by (rule contractI) (auto simp: call_venue_def frame_simps dest: holds_ok split: prod.splits)

lemma step_return: "contract (holds o') (op_return x) (\<lambda>y s. y = x \<and> holds o' s) book_ok"
  by (rule contract_return) simp

lemma step_raise: "contract (holds o') (op_raise e) Q book_ok"
  by (rule contract_raise) (auto dest: holds_ok)

text \<open>What every step that hands an order on guarantees.\<close>

abbreviation gives :: "managed_order \<Rightarrow> ('v, 'l, 'p, managed_order) oms_op \<Rightarrow> bool" where
  "gives o' m \<equiv> contract (holds o') m (\<lambda>o2 s. holds o2 s \<and> mo_client_order_id o2 = mo_client_order_id o'
     \<and> mo_intent o2 = mo_intent o') book_ok"

lemma gives_bind:
  assumes "gives o' m" "\<And>o1. mo_client_order_id o1 = mo_client_order_id o' \<Longrightarrow> mo_intent o1 = mo_intent o' \<Longrightarrow> gives o1 (f o1)"
  shows "gives o' (op_bind m f)"
proof (rule contract_bind[OF assms(1)])
  fix o1
  show "contract (\<lambda>s. holds o1 s \<and> mo_client_order_id o1 = mo_client_order_id o' \<and> mo_intent o1 = mo_intent o') (f o1)
      (\<lambda>o2 s. holds o2 s \<and> mo_client_order_id o2 = mo_client_order_id o' \<and> mo_intent o2 = mo_intent o') book_ok"
  proof (cases "mo_client_order_id o1 = mo_client_order_id o' \<and> mo_intent o1 = mo_intent o'")
    case True
    then show ?thesis using assms(2)[of o1] by (auto intro: contract_weaken)
  qed (auto simp: contract_def)
qed

lemma gives_after:
  assumes "contract (holds o') m (\<lambda>_. holds o') book_ok" "\<And>x. gives o' (f x)"
  shows "gives o' (op_bind m f)"
  using contract_bind[OF assms(1)] assms(2) by blast

lemma gives_lift: "(\<And>x. gives o' (f x)) \<Longrightarrow> gives o' (op_bind (op_lift r) f)"
  by (rule gives_after) (auto intro: contract_weaken[OF step_lift])

lemma gives_return: "gives o' (op_return o')"
  by (rule contract_return) simp

lemma gives_set_order:
  assumes "order_ok o' \<Longrightarrow> order_ok o1" "mo_client_order_id o1 = mo_client_order_id o'" "mo_intent o1 = mo_intent o'"
  shows "gives o' (set_order o1)"
  by (rule contract_weaken[OF step_set_order[OF assms]]) (use assms in auto)

lemma gives_commit: "gives o' (commit env now t o')"
  by (rule contract_weaken[OF step_commit]) auto

lemma gives_move: "gives o' (move st reason o')"
proof -
  have "contract (holds o') (move st reason o') (\<lambda>o2 s. holds o2 s \<and> mo_client_order_id o2 = mo_client_order_id o'
     \<and> mo_intent o2 = mo_intent o') book_ok"
    unfolding move_def
  proof (rule contract_bind[OF step_lift])
    fix o1
    show "contract (\<lambda>s. set_status st reason o' = Inr o1 \<and> holds o' s) (set_order o1)
      (\<lambda>o2 s. holds o2 s \<and> mo_client_order_id o2 = mo_client_order_id o' \<and> mo_intent o2 = mo_intent o') book_ok"
      by (rule contractI)
        (auto simp: set_order_def dest: holds_ok intro: holds_put dest!: set_status_ok[OF _ conjunct1[OF holds_ok]])
  qed
  then show ?thesis .
qed

lemma gives_release_rest: "gives o' (release_rest env now o')"
  by (auto simp: release_rest_def Let_def order_ok_def
      intro!: gives_lift gives_return gives_set_order gives_after[OF step_post])

lemmas gives_rules = gives_lift gives_return gives_release_rest gives_commit gives_move
  gives_after[OF step_post] gives_after[OF step_call_venue] step_raise

lemma gives_if: "(c \<Longrightarrow> gives o' a) \<Longrightarrow> (\<not> c \<Longrightarrow> gives o' b) \<Longrightarrow> gives o' (if c then a else b)"
  by simp

lemma gives_option:
  "gives o' a \<Longrightarrow> (\<And>x. gives o' (b x)) \<Longrightarrow> gives o' (case m of None \<Rightarrow> a | Some x \<Rightarrow> b x)"
  by (cases m) auto

lemma gives_sum: "(\<And>e. gives o' (a e)) \<Longrightarrow> (\<And>x. gives o' (b x)) \<Longrightarrow> gives o' (case m of Inl e \<Rightarrow> a e | Inr x \<Rightarrow> b x)"
  by (cases m) auto

lemma gives_keep:
  assumes "order_ok o' \<Longrightarrow> order_ok o1" "mo_client_order_id o1 = mo_client_order_id o'" "mo_intent o1 = mo_intent o'"
    and "gives o1 (f o1)"
  shows "gives o' (op_bind (set_order o1) f)"
proof (rule contract_bind[OF step_set_order[OF assms(1-3)]])
  show "contract (\<lambda>s. x = o1 \<and> holds o1 s) (f x)
      (\<lambda>o2 s. holds o2 s \<and> mo_client_order_id o2 = mo_client_order_id o' \<and> mo_intent o2 = mo_intent o') book_ok" for x
    using assms by (cases "x = o1") (auto intro: contract_weaken simp: contract_def)
qed simp

lemma gives_post_fill: "gives o' (post_fill env now report increment o')"
proof -
  let ?o1 = "\<lambda>fa. o'\<lparr>mo_fee_asset := Some fa\<rparr>"
  have last: "gives o'' (op_bind (post_batch env b) (\<lambda>_. set_order (o''\<lparr>mo_filled_quantity := q,
      mo_filled_notional := n, mo_fee := f, mo_released := rl\<rparr>)))" for o'' b q n f rl
    by (intro gives_after[OF step_post] gives_set_order) (simp_all add: order_ok_def)
  have rel: "gives o'' (op_bind (if c then op_bind (op_lift r) (\<lambda>e. op_return [e]) else op_return []) g)"
    if "\<And>x. gives o'' (g x)" for o'' c and r :: "ledger_entry res" and g
    using that by (intro gives_after) (auto intro!: contract_bind[OF step_lift] contract_return)
  have fee: "gives o' (op_bind (if c then op_bind (op_lift r) (\<lambda>e3. op_bind (set_order (?o1 fa)) (\<lambda>o1. op_return ([e3], o1)))
      else op_return ([], o')) (\<lambda>(fees, o1). k fees o1))"
    if k: "\<And>fees o1. gives o1 (k fees o1)" for c fa k and r :: "ledger_entry res"
  proof (cases c)
    case True
    have "gives o' (op_bind (op_lift r) (\<lambda>e3. op_bind (set_order (?o1 fa)) (\<lambda>o1. k [e3] o1)))"
      by (intro gives_lift gives_keep k) (simp_all add: order_ok_def)
    moreover have "op_bind (op_bind (op_lift r) (\<lambda>e3. op_bind (set_order (?o1 fa)) (\<lambda>o1. op_return ([e3], o1))))
        (\<lambda>(fees, o1). k fees o1) = op_bind (op_lift r) (\<lambda>e3. op_bind (set_order (?o1 fa)) (\<lambda>o1. k [e3] o1))"
      by (rule ext) (cases r; simp add: op_bind_def set_order_def)
    ultimately show ?thesis using True by simp
  next
    case False
    then show ?thesis using k by (simp add: op_bind_lift)
  qed
  show ?thesis
    unfolding post_fill_def Let_def
    by (cases "dget (env_instruments env) (in_instrument_id (mo_intent o'))"; cases "er_average_price report")
      (simp_all only: option.case, (intro step_raise gives_lift fee rel last)+)
qed

lemma gives_finish: "gives o' (finish_apply env now report o')"
proof (cases "set_status (er_status report) (er_reason report) o'")
  case (Inl e)
  have "contract (holds o') (op_modify (save_order env now o')) (\<lambda>_. holds o') book_ok"
    by (rule contract_modify) (rule holds_save)
  then show ?thesis using Inl by (auto simp: finish_apply_def intro: gives_after gives_return)
next
  case (Inr o1)
  have ok: "order_ok o' \<Longrightarrow> order_ok o1" and same: "order_ok o' \<Longrightarrow> mo_client_order_id o1 = mo_client_order_id o'"
    "order_ok o' \<Longrightarrow> mo_intent o1 = mo_intent o'"
    using set_status_ok[OF Inr] by auto
  show ?thesis
  proof (cases "order_ok o'")
    case True
    show ?thesis
      unfolding finish_apply_def Inr sum.case
      by (rule gives_keep[OF ok same(1)[OF True] same(2)[OF True]], assumption,
          intro gives_bind gives_if gives_release_rest gives_return gives_commit)
  next
    case False
    then show ?thesis by (auto simp: contract_def dest: holds_ok)
  qed
qed

lemma gives_apply: "gives o' (apply_report env now o' report)"
proof -
  have "gives o1 (let increment = dsub (er_filled_quantity report) (mo_filled_quantity o1)
        in if increment < 0 then op_return o1
           else op_bind (if increment > 0 then post_fill env now report increment o1 else op_return o1)
                  (finish_apply env now report))" for o1
    unfolding Let_def by (intro gives_if gives_bind gives_finish gives_return gives_post_fill)
  then show ?thesis
    unfolding apply_report_def
    by (cases "er_client_order_id report = mo_client_order_id o'")
      (auto intro!: gives_keep step_raise simp: order_ok_def)
qed

lemma gives_send: "gives o' (send_order env now o')"
proof -
  have tr: "contract (holds o1) (op_try (op_bind (op_lift r) (\<lambda>vo. call_venue (f vo)))) (\<lambda>_. holds o1) book_ok"
    for o1 :: managed_order and r :: "venue_order res" and f :: "venue_order \<Rightarrow> 'v \<Rightarrow> execution_report res \<times> 'v"
    by (rule contractI) (auto simp: op_try_def op_bind_def call_venue_def frame_simps split: prod.splits sum.splits)
  have "gives o1 (let i = mo_intent o1 in op_bind (op_try (op_bind (op_lift (r i)) (\<lambda>vo. call_venue (va_submit (env_adapter env) vo))))
      (\<lambda>outcome. case outcome of Inl exc \<Rightarrow> op_bind (move UNKNOWN (Some (exn_name exc)) o1) (commit env now None)
         | Inr report \<Rightarrow> apply_report env now o1 report))" for o1 and r :: "trade_intent \<Rightarrow> venue_order res"
    unfolding Let_def
    by (intro gives_after[OF tr] gives_sum gives_bind gives_move gives_commit gives_apply)
  then show ?thesis
    unfolding send_order_def by (intro gives_bind gives_move gives_commit)
qed

text \<open>Operations on the book.\<close>

abbreviation keeps_book :: "('v, 'l, 'p, 'a) oms_op \<Rightarrow> bool" where
  "keeps_book m \<equiv> contract book_ok m (\<lambda>_. book_ok) book_ok"

lemma gives_keeps: "gives o' m \<Longrightarrow> contract (holds o') m (\<lambda>_. book_ok) book_ok"
  by (erule contract_weaken) (auto dest: holds_ok)

lemma keeps_found:
  assumes "\<And>o'. gives o' (f o')"
  shows "keeps_book (op_bind (find_order cid) f)"
proof (rule contract_bind)
  show "contract book_ok (find_order cid) (\<lambda>o'. holds o') book_ok"
    by (rule contractI) (auto simp: find_order_def holds_def book_ok_def orders_ok_def split: option.splits)
  show "contract (holds o') (f o') (\<lambda>_. book_ok) book_ok" for o'
    using gives_keeps assms by blast
qed

lemma keeps_refresh: "keeps_book (refresh env now cid)"
  unfolding refresh_def query_venue_def
  by (intro keeps_found gives_if gives_option gives_after[OF step_call_venue] gives_bind gives_move gives_commit
      gives_apply gives_return)

lemma keeps_cancel: "keeps_book (cancel env now cid)"
  unfolding cancel_def
  by (intro keeps_found gives_if gives_after[OF step_call_venue] gives_apply gives_return)

lemma keeps_resolve: "keeps_book (resolve_unknown env now cid)"
  unfolding resolve_unknown_def query_venue_def
  by (intro keeps_found gives_if gives_option gives_after[OF step_call_venue] gives_bind gives_move gives_commit
      gives_apply gives_release_rest gives_return)

lemma holds_register:
  assumes "book_ok s" "order_ok o'"
  shows "holds o' (register_order o' s)"
proof -
  have "orders_ok (dset (mo_client_order_id o') o' (om_orders s))"
    using assms by (simp add: book_ok_def orders_ok_def)
  moreover have "index_ok (dset (mo_client_order_id o') o' (om_orders s))
      (dset (in_intent_id (mo_intent o')) (mo_client_order_id o') (om_by_intent s))"
    using assms(1) by (auto simp: book_ok_def index_ok_def)
  ultimately show ?thesis using assms(1) by (simp add: holds_def book_ok_def register_order_def put_order_def)
qed

lemma step_register: "order_ok o' \<Longrightarrow> contract book_ok (op_modify (register_order o')) (\<lambda>_. holds o') book_ok"
  by (rule contract_modify) (rule holds_register)

lemma step_save: "contract (holds o') (op_modify (save_order env now o')) (\<lambda>_. holds o') book_ok"
  by (rule contract_modify) (rule holds_save)

lemma new_order_ok: "new_order env i inst = Inr o' \<Longrightarrow> order_ok o' \<and> mo_status o' = NEW \<and> mo_intent o' = i"
  by (auto simp: new_order_def order_ok_def res_bind_Inr_conv split: option.splits if_splits intro: lifecycle.born)

lemma keeps_place:
  assumes "order_ok o'"
  shows "contract book_ok (place_order env now o') (\<lambda>_. book_ok) book_ok"
proof -
  have tr: "contract (holds o') (op_try (op_bind (op_lift r) (\<lambda>e. post_batch env [e]))) (\<lambda>_. holds o') book_ok"
    for r :: "ledger_entry res"
    by (rule contractI) (auto simp: op_try_def op_bind_def post_batch_def frame_simps split: prod.splits sum.splits)
  have rej: "gives o' (op_bind (move REJECTED (Some reason) o') (commit env now None))" for reason
    by (intro gives_bind gives_move gives_commit)
  have body: "gives o' (case outcome of
          Inl (LedgerRejected reason) \<Rightarrow> op_bind (move REJECTED (Some reason) o') (commit env now None)
        | Inl e \<Rightarrow> op_raise e
        | Inr _ \<Rightarrow> send_order env now o')" for outcome :: "bool res"
  proof (cases outcome)
    case (Inl e)
    then show ?thesis by (cases e) (simp_all add: rej step_raise)
  qed (simp add: gives_send)
  note rest = gives_after[OF tr body]
  show ?thesis
    unfolding place_order_def
    by (rule contract_bind[OF step_register[OF assms]], rule contract_bind[OF step_save], rule gives_keeps[OF rest])
qed

lemma keeps_raise: "keeps_book (op_raise e)"
  by (rule contract_raise)

lemma keeps_refuse: "keeps_book (refuse env i code)"
  unfolding refuse_def
  by (rule contract_bind[of _ _ "\<lambda>_. book_ok"]) (auto intro!: contract_modify contract_raise simp: frame_simps)

lemma keeps_submit: "keeps_book (submit env now i permit)"
proof -
  have cons: "contract book_ok (op_try (consume_permit env now permit i)) (\<lambda>_. book_ok) book_ok"
    by (rule contractI) (auto simp: op_try_def consume_permit_def frame_simps split: prod.splits)
  have known: "keeps_book (op_bind (op_read (\<lambda>s. dget (om_orders s) cid)) (\<lambda>found.
      case found of None \<Rightarrow> op_raise (KeyError cid) | Some o' \<Rightarrow> op_return o'))" for cid
    by (rule contractI) (auto split: option.splits)
  have fresh: "keeps_book (op_bind (op_lift (new_order env i inst)) (place_order env now))" for inst
  proof (cases "new_order env i inst")
    case (Inr o')
    then show ?thesis using keeps_place[OF conjunct1[OF new_order_ok[OF Inr]]] by (simp add: op_bind_lift)
  qed (simp add: contract_def op_bind_def)
  have "keeps_book (case outcome of
                 Inl (PermitRejected code) \<Rightarrow> refuse env i (''permit_'' @ code)
               | Inl e \<Rightarrow> op_raise e
               | Inr _ \<Rightarrow>
                   (case dget (env_instruments env) (in_instrument_id i) of
                      None \<Rightarrow> refuse env i ''unsupported_intent''
                    | Some inst \<Rightarrow>
                        if in_limit_price i = None then refuse env i ''unsupported_intent''
                        else op_bind (op_lift (new_order env i inst)) (place_order env now)))" for outcome :: "unit res"
    using keeps_refuse keeps_raise fresh by (cases outcome) (auto split: exn.split option.split)
  note new = contract_bind[OF cons this]
  show ?thesis
    unfolding submit_def
    by (rule contract_bind[OF contract_read[of book_ok "\<lambda>_. book_ok"]], assumption,
        rename_tac existing, case_tac existing) (simp_all only: option.case known new)
qed

lemma keeps_recover_order:
  fixes env :: "('v, 'l, 'p) oms_env"
  assumes "order_ok row"
  shows "keeps_book (recover_order env now charged_in row)"
proof -
  define o' where "o' = (if mo_fee row > 0 then row\<lparr>mo_fee_asset := dget charged_in (mo_client_order_id row)\<rparr> else row)"
  have ok: "order_ok o'" using assms by (simp add: o'_def order_ok_def)
  have held: "contract (holds o1) (op_read f) (\<lambda>_. holds o1) book_ok" for o1 and f :: "('v, 'l, 'p) oms \<Rightarrow> bool"
    by (rule contract_read) simp
  have new: "gives o' (op_bind (move REJECTED (Some ''interrupted before submit'') o') (\<lambda>o1.
        op_bind (op_lift (reservation env o1 now)) (\<lambda>e.
        op_bind (op_read (\<lambda>s. env_has_entry env (le_entry_id e) (om_ledger s))) (\<lambda>held.
        op_bind (set_order (if held then o1 else o1\<lparr>mo_released := mo_reserved o1\<rparr>)) (release_rest env now)))))"
    by (intro gives_bind gives_move gives_lift gives_after[OF held] gives_keep gives_release_rest)
      (simp_all add: order_ok_def)
  have fin: "contract (holds o') (op_bind m (\<lambda>o2. op_bind (commit env now t o2) (\<lambda>o2. op_return (Some o2)))) (\<lambda>_. book_ok) book_ok"
    if m: "gives o' m" for m :: "('v, 'l, 'p, managed_order) oms_op" and t
  proof (rule contract_bind[OF m])
    fix o2
    show "contract (\<lambda>s. holds o2 s \<and> mo_client_order_id o2 = mo_client_order_id o' \<and> mo_intent o2 = mo_intent o')
        (op_bind (commit env now t o2) (\<lambda>o2. op_return (Some o2))) (\<lambda>_. book_ok) book_ok"
      by (rule contract_weaken[OF contract_bind[OF step_commit contract_return[of _ "\<lambda>_. book_ok"]]]) (auto dest: holds_ok)
  qed
  show ?thesis
    unfolding recover_order_def Let_def o'_def[symmetric]
  proof (rule contract_bind[OF step_register[OF ok]])
    show "contract (holds o') (if terminal (mo_status o') \<or> mo_status o' = UNKNOWN then op_return None
         else op_bind (if mo_status o' = NEW
                    then op_bind (move REJECTED (Some ''interrupted before submit'') o') (\<lambda>o1.
                         op_bind (op_lift (reservation env o1 now)) (\<lambda>e.
                         op_bind (op_read (\<lambda>s. env_has_entry env (le_entry_id e) (om_ledger s))) (\<lambda>held.
                         op_bind (set_order (if held then o1 else o1\<lparr>mo_released := mo_reserved o1\<rparr>))
                           (release_rest env now))))
                    else move UNKNOWN (Some ''restarted while open'') o') (\<lambda>o2.
           op_bind (commit env now (Some ''ORDER_RECOVERED'') o2) (\<lambda>o2. op_return (Some o2)))) (\<lambda>_. book_ok) book_ok"
      using fin[OF gives_if[OF new gives_move]] by (auto intro!: contract_return dest: holds_ok)
  qed
qed

lemma keeps_recover: "keeps_book (recover env now)"
proof (cases "env_has_store env")
  case True
  have "contract book_ok (op_read (\<lambda>s. (env_fee_assets env (om_ledger s), store_load (om_store s))))
      (\<lambda>(c, rows) s. book_ok s \<and> (\<forall>row \<in> set rows. order_ok row)) book_ok"
    by (rule contract_read) (auto simp: book_ok_def rows_ok_def store_load_def)
  moreover have "contract (\<lambda>s. book_ok s \<and> (\<forall>row \<in> set rows. order_ok row)) (op_iter (recover_order env now c) rows) (\<lambda>_. book_ok) book_ok"
    for c rows
  proof (cases "\<forall>row \<in> set rows. order_ok row")
    case True
    then have "contract book_ok (op_iter (recover_order env now c) rows) (\<lambda>_. book_ok) book_ok"
      by (intro contract_iter keeps_recover_order) simp
    then show ?thesis by (rule contract_weaken) auto
  qed (auto simp: contract_def)
  ultimately show ?thesis
    using True unfolding recover_def
    by (auto intro!: contract_bind contract_return simp: case_prod_beta split: prod.splits)
qed (simp add: recover_def contract_return)

text \<open>
  The states an order manager can be in: constructed, after each operation, and after a restart, which
  keeps the order table and finds the ledger, permits and venue in whatever state they are in.
\<close>

inductive oms_reach :: "('v, 'l, 'p) oms_env \<Rightarrow> ('v, 'l, 'p) oms \<Rightarrow> bool" for env where
  constructed: "oms_new env v l p [] = Inr s \<Longrightarrow> oms_reach env s"
| submitted: "oms_reach env s \<Longrightarrow> submit env now i permit s = (r, s') \<Longrightarrow> oms_reach env s'"
| resolved: "oms_reach env s \<Longrightarrow> resolve_unknown env now cid s = (r, s') \<Longrightarrow> oms_reach env s'"
| refreshed: "oms_reach env s \<Longrightarrow> refresh env now cid s = (r, s') \<Longrightarrow> oms_reach env s'"
| canceled: "oms_reach env s \<Longrightarrow> cancel env now cid s = (r, s') \<Longrightarrow> oms_reach env s'"
| restarted: "oms_reach env s \<Longrightarrow> oms_new env v l p (om_store s) = Inr s1 \<Longrightarrow> recover env now s1 = (rs, s') \<Longrightarrow>
    oms_reach env s'"

lemma keeps_bookD: "keeps_book m \<Longrightarrow> book_ok s \<Longrightarrow> m s = (r, s') \<Longrightarrow> book_ok s'"
  by (cases r) (auto dest: contractD)

lemma oms_new_book_ok: "oms_new env v l p rows = Inr s \<Longrightarrow> rows_ok rows \<Longrightarrow> book_ok s"
  by (auto simp: oms_new_def book_ok_def orders_ok_def index_ok_def split: if_splits)

lemma oms_reach_book_ok: "oms_reach env s \<Longrightarrow> book_ok s"
proof (induction rule: oms_reach.induct)
  case (constructed v l p s)
  then show ?case using oms_new_book_ok rows_ok_def by fastforce
next
  case (restarted s v l p s1 now rs s')
  have "book_ok s1" using restarted.IH oms_new_book_ok[OF restarted.hyps(2)] by (simp add: book_ok_def)
  then show ?case using keeps_bookD[OF keeps_recover] restarted.hyps(3) by blast
qed (blast dest: keeps_bookD[OF keeps_submit] keeps_bookD[OF keeps_resolve] keeps_bookD[OF keeps_refresh]
    keeps_bookD[OF keeps_cancel])+

section \<open>Properties\<close>

text \<open>
  C8: Every order the manager ever holds, in memory or in its table, has a legal life. In every state
  the manager can reach, by any operations with any venue, ledger and permit behaviour, exceptions and
  restarts included, an order's history starts in NEW, ends in its current status, moves only along
  the transition table, and contains SUBMITTED at most once.
\<close>

theorem oms_orders_follow_lifecycle:
  assumes "oms_reach env s"
    and "dget (om_orders s) cid = Some o' \<or> (cid, o', t) \<in> set (om_store s)"
  shows "mo_client_order_id o' = cid \<and> lifecycle (mo_history o') \<and> last (mo_history o') = mo_status o'
    \<and> hd (mo_history o') = NEW \<and> count_list (mo_history o') SUBMITTED \<le> 1"
proof -
  have "order_ok o' \<and> mo_client_order_id o' = cid"
    using oms_reach_book_ok[OF assms(1)] assms(2) by (auto simp: book_ok_def orders_ok_def rows_ok_def)
  then have "lifecycle (mo_history o')" "last (mo_history o') = mo_status o'" "mo_client_order_id o' = cid"
    by (auto simp: order_ok_def)
  moreover have "count_list (mo_history o') SUBMITTED \<le> 1"
    using lifecycle_shape[OF calculation(1)] by (auto simp: count_list_0_iff)
  ultimately show ?thesis using lifecycle_shape by blast
qed

lemma submit_known:
  assumes "dget (om_by_intent s) (in_intent_id i) = Some cid" "dget (om_orders s) cid = Some o'"
  shows "submit env now i permit s = (Inr o', s)"
  using assms by (simp add: submit_def op_bind_def)

text \<open>
  C9: Submission is idempotent per intent, and nothing but a first submission can send an order. An
  intent the manager already knows is answered with its order, whatever the permit and the venue are,
  and nothing changes; and refreshing, cancelling, resolving or recovering never uses the venue's
  submit call: replacing it by any other function changes neither the outcome nor the state. So an
  order in UNKNOWN is never sent again.
\<close>

theorem only_first_submission_sends:
  fixes env :: "('v, 'l, 'p) oms_env" and f :: "venue_order \<Rightarrow> 'v \<Rightarrow> execution_report res \<times> 'v"
  defines "env' \<equiv> env\<lparr>env_adapter := (env_adapter env)\<lparr>va_submit := f\<rparr>\<rparr>"
  shows "(\<forall>o' cid. dget (om_by_intent s) (in_intent_id i) = Some cid \<and> dget (om_orders s) cid = Some o' \<longrightarrow>
        submit env now i permit s = (Inr o', s))
    \<and> resolve_unknown env' now cid s = resolve_unknown env now cid s
    \<and> refresh env' now cid s = refresh env now cid s
    \<and> cancel env' now cid s = cancel env now cid s
    \<and> recover env' now s = recover env now s"
proof -
  have e: "oms_entry env' = oms_entry env" "commit env' = commit env" "post_batch env' = post_batch env"
    "save_order env' = save_order env" "reservation env' = reservation env"
    by (auto simp: fun_eq_iff env'_def oms_entry_def commit_def commit_order_def record_event_def save_order_def
        post_batch_def reservation_def)
  have i: "env_instruments env' = env_instruments env" "env_dec_str env' = env_dec_str env"
    "env_has_store env' = env_has_store env" "env_has_entry env' = env_has_entry env"
    "env_fee_assets env' = env_fee_assets env" "va_cancel (env_adapter env') = va_cancel (env_adapter env)"
    "va_query (env_adapter env') = va_query (env_adapter env)"
    by (simp_all add: env'_def)
  have r: "release_rest env' = release_rest env"
    by (intro ext) (simp only: release_rest_def e)
  have p: "post_fill env' = post_fill env"
    by (intro ext) (simp only: post_fill_def e i)
  have fa: "finish_apply env' = finish_apply env"
    by (intro ext) (simp only: finish_apply_def e r)
  have a: "apply_report env' = apply_report env"
    by (intro ext) (simp only: apply_report_def e fa p)
  have q: "query_venue env' = query_venue env"
    by (intro ext) (simp only: query_venue_def i)
  have ro: "recover_order env' = recover_order env"
    by (intro ext) (simp only: recover_order_def e r i)
  show ?thesis
    using submit_known by (auto simp only: resolve_unknown_def refresh_def cancel_def recover_def e r a q ro i)
qed

text \<open>What has happened when \<^verbatim>\<open>submit\<close> reaches the venue.\<close>

definition cleared ::
    "('v, 'l, 'p) oms_env \<Rightarrow> instant \<Rightarrow> trade_intent \<Rightarrow> risk_permit \<Rightarrow> ('v, 'l, 'p) oms \<Rightarrow> bool" where
  "cleared env now i permit s \<longleftrightarrow>
     (\<exists>p inst o' e b l. env_consume env permit i now (om_permits s) = (Inr (), p)
        \<and> dget (env_instruments env) (in_instrument_id i) = Some inst
        \<and> new_order env i inst = Inr o' \<and> reservation env o' now = Inr e
        \<and> env_post env [e] (om_ledger s) = (Inr b, l))"

lemma venue_frame [frame_simps]:
  "om_venue (put_order o' s) = om_venue s" "om_venue (register_order o' s) = om_venue s"
  "om_venue (save_order env now o' s) = om_venue s" "om_venue (record_event env ev s) = om_venue s"
  "om_venue (commit_order env now t o' s) = om_venue s"
  by (simp_all add: put_order_def register_order_def save_order_def record_event_def commit_order_def)

lemma ledger_frame [frame_simps]:
  "om_ledger (put_order o' s) = om_ledger s" "om_ledger (register_order o' s) = om_ledger s"
  "om_ledger (save_order env now o' s) = om_ledger s" "om_ledger (record_event env ev s) = om_ledger s"
  "om_ledger (commit_order env now t o' s) = om_ledger s"
  by (simp_all add: put_order_def register_order_def save_order_def record_event_def commit_order_def)

lemma move_venue: "move st reason o' s = (r, s') \<Longrightarrow> om_venue s' = om_venue s"
  by (auto simp: move_def set_order_def op_bind_def frame_simps split: sum.splits)

lemma commit_venue: "commit env now t o' s = (r, s') \<Longrightarrow> om_venue s' = om_venue s"
  by (auto simp: commit_def op_bind_def frame_simps)

lemma place_venue:
  assumes "place_order env now o' s = (r, s')" "om_venue s' \<noteq> om_venue s"
  shows "\<exists>e b l. reservation env o' now = Inr e \<and> env_post env [e] (om_ledger s) = (Inr b, l)"
proof (rule ccontr)
  assume no: "\<not> ?thesis"
  define s1 where "s1 = save_order env now o' (register_order o' s)"
  have s1: "om_venue s1 = om_venue s" "om_ledger s1 = om_ledger s" by (simp_all add: s1_def frame_simps)
  obtain outcome s2 where out:
    "op_bind (op_lift (reservation env o' now)) (\<lambda>e. post_batch env [e]) s1 = (outcome, s2)" by fastforce
  have "om_venue s2 = om_venue s" "\<exists>e. outcome = Inl e"
    using out no s1 by (cases "reservation env o' now";
        auto simp: op_bind_def post_batch_def split: prod.splits; metis sum.exhaust)+
  then obtain e where e: "outcome = Inl e" "om_venue s2 = om_venue s" by blast
  have step: "place_order env now o' s = (case e of
      LedgerRejected reason \<Rightarrow> op_bind (move REJECTED (Some reason) o') (commit env now None)
      | _ \<Rightarrow> op_raise e) s2"
    unfolding place_order_def using out e(1) by (cases e) (simp_all add: op_bind_def op_try_def s1_def)
  have "om_venue s' = om_venue s"
    using assms(1) e(2) unfolding step
    by (cases e) (auto elim!: op_bind_cases, (metis move_venue commit_venue)+)
  then show False using assms(2) by simp
qed

lemma submit_cleared:
  assumes "submit env now i permit s = (r, s')" and "om_venue s' \<noteq> om_venue s"
  shows "cleared env now i permit s"
proof -
  have fresh: "dget (om_by_intent s) (in_intent_id i) = None"
    using assms by (auto simp: submit_def op_bind_def split: option.splits)
  obtain out p where c: "env_consume env permit i now (om_permits s) = (out, p)" by fastforce
  let ?s1 = "s\<lparr>om_permits := p\<rparr>"
  have sub: "submit env now i permit s = (case out of
                 Inl (PermitRejected code) \<Rightarrow> refuse env i (''permit_'' @ code)
               | Inl e \<Rightarrow> op_raise e
               | Inr _ \<Rightarrow>
                   (case dget (env_instruments env) (in_instrument_id i) of
                      None \<Rightarrow> refuse env i ''unsupported_intent''
                    | Some inst \<Rightarrow>
                        if in_limit_price i = None then refuse env i ''unsupported_intent''
                        else op_bind (op_lift (new_order env i inst)) (place_order env now))) ?s1"
    by (cases out; simp add: submit_def op_bind_def op_try_def consume_permit_def fresh c split: exn.split)
  have ref: "refuse env i code ?s1 = (r, s') \<Longrightarrow> False" for code
    using assms(2) by (auto simp: refuse_def op_bind_def frame_simps)
  have ok: "out = Inr ()"
  proof (cases out)
    case (Inl e)
    then show ?thesis using assms sub ref by (cases e) auto
  qed simp
  obtain inst where inst: "dget (env_instruments env) (in_instrument_id i) = Some inst"
    using assms sub ok ref by (cases "dget (env_instruments env) (in_instrument_id i)") auto
  obtain o' where o': "new_order env i inst = Inr o'" "place_order env now o' ?s1 = (r, s')"
    using assms sub ok inst ref by (cases "new_order env i inst") (auto simp: op_bind_def split: if_splits)
  have "om_venue s' \<noteq> om_venue ?s1" using assms(2) by simp
  from place_venue[OF o'(2) this] show ?thesis
    using c ok inst o'(1) by (auto simp: cleared_def)
qed

text \<open>
  No order reaches the venue without a permit and funds. Whenever a submission changes the venue's
  state, the permit ledger had accepted the permit for this very intent, the instrument is one the
  manager trades, and the ledger had accepted the order's reservation, all in the state the
  submission started from.
\<close>

theorem venue_touched_only_when_cleared:
  assumes "submit env now i permit s = (r, s')" and "om_venue s' \<noteq> om_venue s"
  shows "cleared env now i permit s"
  by (rule submit_cleared[OF assms])

lemma move_status:
  assumes "move st reason o' s = (Inr o1, s')"
  shows "mo_status o1 = st \<and> mo_client_order_id o1 = mo_client_order_id o' \<and> om_orders s' = om_orders (put_order o1 s)"
  using assms
  by (auto simp: move_def set_order_def op_bind_def set_status_def res_bind_Inr_conv transition_def
      split: sum.splits if_splits option.splits)

lemma commit_orders: "commit env now t o' s = (Inr o1, s') \<Longrightarrow> o1 = o' \<and> om_orders s' = om_orders s"
  by (auto simp: commit_def op_bind_def commit_order_def record_event_def save_order_def split: if_splits)

lemma release_rest_orders:
  assumes "release_rest env now o' s = (Inr o1, s')"
  shows "mo_status o1 = mo_status o' \<and> mo_client_order_id o1 = mo_client_order_id o'
    \<and> (\<forall>k. k \<noteq> mo_client_order_id o' \<longrightarrow> dget (om_orders s') k = dget (om_orders s) k)
    \<and> (dget (om_orders s) (mo_client_order_id o') = Some o' \<longrightarrow> dget (om_orders s') (mo_client_order_id o') = Some o1)"
  using assms
  by (auto simp: release_rest_def Let_def set_order_def put_order_def post_batch_def split: if_splits prod.splits
      elim!: op_bind_cases)

definition settled :: "order_status \<Rightarrow> bool" where
  "settled st \<longleftrightarrow> terminal st \<or> st = UNKNOWN"

lemma recover_order_settles:
  assumes "recover_order env now charged_in row s = (Inr r, s')"
  shows "(\<exists>o'. dget (om_orders s') (mo_client_order_id row) = Some o' \<and> settled (mo_status o'))
    \<and> (\<forall>k. k \<noteq> mo_client_order_id row \<longrightarrow> dget (om_orders s') k = dget (om_orders s) k)"
proof -
  define o' where "o' = (if mo_fee row > 0 then row\<lparr>mo_fee_asset := dget charged_in (mo_client_order_id row)\<rparr> else row)"
  have cid: "mo_client_order_id o' = mo_client_order_id row" by (simp add: o'_def)
  define s1 where "s1 = register_order o' s"
  have reg: "dget (om_orders s1) k = (if k = mo_client_order_id row then Some o' else dget (om_orders s) k)" for k
    by (simp add: s1_def register_order_def put_order_def cid)
  note run = assms[unfolded recover_order_def Let_def o'_def[symmetric]]
  show ?thesis
  proof (cases "terminal (mo_status o') \<or> mo_status o' = UNKNOWN")
    case True
    have "s' = s1" using run True by (auto simp: op_bind_def s1_def)
    then show ?thesis using reg True by (auto simp: settled_def)
  next
    case False
    obtain o2 s2 where m: "(if mo_status o' = NEW
            then op_bind (move REJECTED (Some ''interrupted before submit'') o') (\<lambda>o1.
                 op_bind (op_lift (reservation env o1 now)) (\<lambda>e.
                 op_bind (op_read (\<lambda>s. env_has_entry env (le_entry_id e) (om_ledger s))) (\<lambda>held.
                 op_bind (set_order (if held then o1 else o1\<lparr>mo_released := mo_reserved o1\<rparr>))
                   (release_rest env now))))
            else move UNKNOWN (Some ''restarted while open'') o') s1 = (Inr o2, s2)"
      and c: "om_orders s' = om_orders s2"
      using run False
      by (auto simp: s1_def elim!: op_bind_cases dest!: commit_orders simp del: op_bind_simps split del: if_split)
    have "dget (om_orders s2) (mo_client_order_id o') = Some o2 \<and> settled (mo_status o2)
        \<and> (\<forall>k. k \<noteq> mo_client_order_id o' \<longrightarrow> dget (om_orders s2) k = dget (om_orders s1) k)"
    proof (cases "mo_status o' = NEW")
      case True
      then obtain o1 sa e held where mv: "move REJECTED (Some ''interrupted before submit'') o' s1 = (Inr o1, sa)"
        and rr: "release_rest env now (if held then o1 else o1\<lparr>mo_released := mo_reserved o1\<rparr>)
          (put_order (if held then o1 else o1\<lparr>mo_released := mo_reserved o1\<rparr>) sa) = (Inr o2, s2)"
        using m by (auto simp: set_order_def elim!: op_bind_cases)
      show ?thesis using move_status[OF mv] release_rest_orders[OF rr]
        by (auto simp: put_order_def settled_def terminal_iff split: if_splits)
    next
      case False
      then show ?thesis using move_status[of UNKNOWN _ o' s1 o2 s2] m by (auto simp: put_order_def settled_def)
    qed
    then show ?thesis using c reg by (auto simp: cid)
  qed
qed

lemma recover_loop_settles:
  assumes "op_iter (recover_order env now charged_in) rows s = (Inr rs, s')"
  shows "(\<forall>row \<in> set rows. \<exists>o'. dget (om_orders s') (mo_client_order_id row) = Some o' \<and> settled (mo_status o'))
    \<and> (\<forall>k. k \<notin> mo_client_order_id ` set rows \<longrightarrow> dget (om_orders s') k = dget (om_orders s) k)"
  using assms
proof (induction rows arbitrary: s rs)
  case (Cons row rows)
  obtain r s1 rs' where one: "recover_order env now charged_in row s = (Inr r, s1)"
    and more: "op_iter (recover_order env now charged_in) rows s1 = (Inr rs', s')"
    using Cons.prems by (auto elim!: op_bind_cases)
  note ih = Cons.IH[OF more] and here = recover_order_settles[OF one]
  have "\<exists>o'. dget (om_orders s') (mo_client_order_id row) = Some o' \<and> settled (mo_status o')"
  proof (cases "mo_client_order_id row \<in> mo_client_order_id ` set rows")
    case True
    then obtain row' where "row' \<in> set rows" "mo_client_order_id row = mo_client_order_id row'" by blast
    then show ?thesis using ih by simp
  qed (use ih here in simp)
  then show ?case using ih here by simp
qed simp

lemma recovered_book:
  assumes "oms_new env v l p rows = Inr s" and "env_has_store env" and "recover env now s = (Inr rs, s')"
    and "\<forall>(cid, row, t) \<in> set rows. mo_client_order_id row = cid"
  shows "dom (dget (om_orders s')) = set (dkeys rows)
    \<and> (\<forall>cid o'. dget (om_orders s') cid = Some o' \<longrightarrow> mo_status o' \<in> {FILLED, CANCELED, REJECTED, UNKNOWN})"
proof -
  have s: "om_orders s = []" "om_store s = rows" using assms(1) by (auto simp: oms_new_def split: if_splits)
  obtain rs' where loop: "op_iter (recover_order env now (env_fee_assets env (om_ledger s))) (store_load rows) s = (Inr rs', s')"
    using assms(2,3) s by (auto simp: recover_def elim!: op_bind_cases)
  have keys: "mo_client_order_id ` set (store_load rows) = set (dkeys rows)"
    using assms(4) by (force simp: store_load_def image_image)
  note settles = recover_loop_settles[OF loop]
  show ?thesis
  proof (intro conjI allI impI equalityI subsetI)
    fix cid o' assume "dget (om_orders s') cid = Some o'"
    moreover from this have "cid \<in> mo_client_order_id ` set (store_load rows)" using settles s by fastforce
    ultimately show "mo_status o' \<in> {FILLED, CANCELED, REJECTED, UNKNOWN}"
      using settles by (auto simp: settled_def terminal_iff)
  next
    fix k assume "k \<in> dom (dget (om_orders s'))"
    then show "k \<in> set (dkeys rows)" using settles s unfolding keys[symmetric] by fastforce
  next
    fix k assume "k \<in> set (dkeys rows)"
    then show "k \<in> dom (dget (om_orders s'))" using settles unfolding keys[symmetric] by blast
  qed
qed

text \<open>
  A restart leaves nothing in flight. When recovery of a freshly constructed manager returns, the
  book holds exactly the orders of the table, and each of them is FILLED, CANCELED, REJECTED or
  UNKNOWN: no order is left NEW, SUBMITTED, ACKNOWLEDGED or PARTIALLY\_FILLED to be acted on without
  asking the venue.
\<close>

theorem recovery_leaves_nothing_in_flight:
  assumes "oms_new env v l p rows = Inr s" and "env_has_store env" and "recover env now s = (Inr rs, s')"
    and "\<forall>(cid, row, t) \<in> set rows. mo_client_order_id row = cid"
  shows "dom (dget (om_orders s')) = set (dkeys rows)
    \<and> (\<forall>cid o'. dget (om_orders s') cid = Some o' \<longrightarrow> mo_status o' \<in> {FILLED, CANCELED, REJECTED, UNKNOWN})"
  using recovered_book[OF assms] .

section \<open>Witnesses\<close>

text \<open>A venue that counts submissions and times out, an account with 1000 USDT.\<close>

definition ex_adapter :: "nat venue_adapter" where
  "ex_adapter = \<lparr>va_real_money = False, va_submit = (\<lambda>_ n. (Inl (VenueError ''TimeoutError''), n + 1)),
     va_cancel = (\<lambda>_ _ n. (Inl (VenueError ''TimeoutError''), n)), va_query = (\<lambda>_ _ n. (Inr None, n)),
     va_balances = (\<lambda>_. Inr [])\<rparr>"

definition ex_env :: "(nat, memory_ledger, spent) oms_env" where
  "ex_env = \<lparr>env_adapter = ex_adapter, env_post = memory_post, env_has_entry = memory_has_entry,
     env_fee_assets = memory_fee_assets, env_account_id = ''acc'', env_venue = V_BINANCE_SPOT,
     env_consume = permit_consume (\<lambda>_ _ _. Inr ()),
     env_instruments = [(''BINANCE_SPOT:BTCUSDT'', ex_instrument)], env_sha256 = (\<lambda>x. x),
     env_uuid5 = (\<lambda>x. x), env_dec_str = (\<lambda>_. ''q''), env_has_store = True, env_has_recorder = True\<rparr>"

definition ex_ledger :: memory_ledger where
  "ex_ledger = [(''open'', \<lparr>le_entry_id = ''open'', le_account_id = ''acc'', le_venue = V_BINANCE_SPOT,
     le_asset = ''USDT'', le_amount = 1000, le_kind = OPENING_BALANCE, le_reference_id = ''opening-balance'',
     le_recorded_at = 0\<rparr>)]"

definition ex_oms :: "(nat, memory_ledger, spent) oms" where
  "ex_oms = \<lparr>om_orders = [], om_by_intent = [], om_ledger = ex_ledger, om_permits = [], om_venue = 0,
     om_store = [], om_events = []\<rparr>"

abbreviation ex_submit where "ex_submit \<equiv> submit ex_env 1 ex_intent ex_permit ex_oms"

lemma ex_oms_new: "oms_new ex_env 0 ex_ledger [] [] = Inr ex_oms"
  by (simp add: oms_new_def ex_env_def ex_adapter_def ex_oms_def)

lemma ex_submit_run:
  "(case ex_submit of (Inl _, _) \<Rightarrow> False
    | (Inr o', s') \<Rightarrow> om_venue s' = 1 \<and> mo_history o' = [NEW, SUBMITTED, UNKNOWN]
        \<and> dget (om_orders s') ''PXi1:0'' = Some o' \<and> dget (om_by_intent s') ''i1'' = Some ''PXi1:0''
        \<and> dkeys (om_store s') = [''PXi1:0''] \<and> mo_client_order_id o' = ''PXi1:0'' \<and> length (om_events s') = 2)"
  by code_simp

lemma ex_submit_cases:
  obtains o' s' where "ex_submit = (Inr o', s')" "om_venue s' = 1" "mo_history o' = [NEW, SUBMITTED, UNKNOWN]"
    "dget (om_orders s') ''PXi1:0'' = Some o'" "dget (om_by_intent s') ''i1'' = Some ''PXi1:0''"
  using ex_submit_run by (auto split: prod.splits sum.splits)

theorem oms_orders_follow_lifecycle_witness:
  "\<exists>o' s'. ex_submit = (Inr o', s') \<and> lifecycle (mo_history o') \<and> mo_status o' = UNKNOWN"
proof -
  obtain o' s' where r: "ex_submit = (Inr o', s')" "mo_history o' = [NEW, SUBMITTED, UNKNOWN]"
    "dget (om_orders s') ''PXi1:0'' = Some o'" by (rule ex_submit_cases)
  have "oms_reach ex_env s'" using oms_reach.submitted[OF oms_reach.constructed[OF ex_oms_new] r(1)] .
  from oms_orders_follow_lifecycle[OF this] show ?thesis using r by fastforce
qed

theorem only_first_submission_sends_witness:
  "\<exists>o' s'. ex_submit = (Inr o', s') \<and> submit ex_env 2 ex_intent ex_permit s' = (Inr o', s')"
proof -
  obtain o' s' where r: "ex_submit = (Inr o', s')" "dget (om_orders s') ''PXi1:0'' = Some o'"
    "dget (om_by_intent s') ''i1'' = Some ''PXi1:0''" by (rule ex_submit_cases)
  have "in_intent_id ex_intent = ''i1''" by (simp add: ex_intent_def)
  then show ?thesis using only_first_submission_sends[of s' ex_intent ex_env 2 ex_permit] r by fastforce
qed

theorem venue_touched_only_when_cleared_witness: "cleared ex_env 1 ex_intent ex_permit ex_oms"
proof -
  obtain o' s' where r: "ex_submit = (Inr o', s')" "om_venue s' = 1" by (rule ex_submit_cases)
  then have "om_venue s' \<noteq> om_venue ex_oms" by (simp add: ex_oms_def)
  then show ?thesis using venue_touched_only_when_cleared[OF r(1)] by blast
qed

definition ex_row :: managed_order where
  "ex_row = \<lparr>mo_intent = ex_intent, mo_client_order_id = ''c1'', mo_status = SUBMITTED, mo_reserved_asset = ''USDT'',
     mo_reserved = 100, mo_released = 0, mo_filled_quantity = 0, mo_filled_notional = 0, mo_fee = 0,
     mo_fee_asset = None, mo_venue_order_id = None, mo_reason = None, mo_history = [NEW, SUBMITTED]\<rparr>"

theorem recovery_leaves_nothing_in_flight_witness:
  "\<exists>s rs s'. oms_new ex_env 0 ex_ledger [] [(''c1'', ex_row, 0)] = Inr s \<and> recover ex_env 5 s = (Inr rs, s')
     \<and> dom (dget (om_orders s')) = {''c1''}"
proof -
  define s where "s = ex_oms\<lparr>om_store := [(''c1'', ex_row, 0)]\<rparr>"
  have n: "oms_new ex_env 0 ex_ledger [] [(''c1'', ex_row, 0)] = Inr s"
    by (simp add: oms_new_def ex_env_def ex_adapter_def ex_oms_def s_def)
  have "returned (fst (recover ex_env 5 (ex_oms\<lparr>om_store := [(''c1'', ex_row, 0)]\<rparr>)))" by code_simp
  then obtain rs s' where r: "recover ex_env 5 s = (Inr rs, s')"
    by (cases "recover ex_env 5 s") (auto simp: s_def returned_conv)
  have "env_has_store ex_env" by (simp add: ex_env_def)
  from recovery_leaves_nothing_in_flight[OF n this r] show ?thesis using n r by (auto simp: ex_row_def)
qed

end
