(* ===== verification/OMS_Findings.thy ===== *)
theory OMS_Findings
  imports OMS
begin

text \<open>
  Three scenarios in which the order manager and its ledger do not do what their documentation says,
  each run on the model: a completing fill refused because the shares of a reservation are rounded
  to 28 digits, a fill refused because its fee exceeds the hold, and a fill counted twice after a
  crash between the ledger's post and the order's save.
\<close>

text \<open>A venue that plays back a list of reports.\<close>

definition play :: "execution_report list \<Rightarrow> execution_report res \<times> execution_report list" where
  "play v = (case v of [] \<Rightarrow> (Inl (VenueError ''TimeoutError''), []) | r # rs \<Rightarrow> (Inr r, rs))"

definition scripted :: "execution_report list venue_adapter" where
  "scripted = \<lparr>va_real_money = False, va_submit = (\<lambda>_. play), va_cancel = (\<lambda>_ _. play),
     va_query = (\<lambda>_ _ v. case play v of (Inl e, v') \<Rightarrow> (Inl e, v') | (Inr r, v') \<Rightarrow> (Inr (Some r), v')),
     va_balances = (\<lambda>_. Inr [])\<rparr>"

text \<open>Marks of cumulative fills: the numerator and denominator of the quantity.\<close>

definition mark_str :: "rat \<Rightarrow> string" where
  "mark_str q = (case quotient_of q of (n, d) \<Rightarrow> int_str n @ ''/'' @ int_str d)"

definition scr_env :: "(execution_report list, memory_ledger, spent) oms_env" where
  "scr_env = \<lparr>env_adapter = scripted, env_post = memory_post, env_has_entry = memory_has_entry,
     env_fee_assets = memory_fee_assets, env_account_id = ''acc'', env_venue = V_BINANCE_SPOT,
     env_consume = permit_consume (\<lambda>_ _ _. Inr ()),
     env_instruments = [(''BINANCE_SPOT:BTCUSDT'', ex_instrument)], env_sha256 = (\<lambda>x. x),
     env_uuid5 = (\<lambda>x. x), env_dec_str = mark_str, env_has_store = True, env_has_recorder = True\<rparr>"

definition scr_oms :: "rat \<Rightarrow> execution_report list \<Rightarrow> (execution_report list, memory_ledger, spent) oms" where
  "scr_oms cash reports =
     \<lparr>om_orders = [], om_by_intent = [],
      om_ledger = [(''open'', \<lparr>le_entry_id = ''open'', le_account_id = ''acc'', le_venue = V_BINANCE_SPOT,
        le_asset = ''USDT'', le_amount = cash, le_kind = OPENING_BALANCE, le_reference_id = ''opening-balance'',
        le_recorded_at = 0\<rparr>)],
      om_permits = [], om_venue = reports, om_store = [], om_events = []\<rparr>"

definition scr_report :: "order_status \<Rightarrow> rat \<Rightarrow> rat \<Rightarrow> rat \<Rightarrow> rat \<Rightarrow> execution_report" where
  "scr_report st quantity filled price fee =
     \<lparr>er_venue = V_BINANCE_SPOT, er_client_order_id = ''PXi1:0'', er_venue_order_id = Some ''v1'',
      er_instrument_id = ''BINANCE_SPOT:BTCUSDT'', er_side = BUY, er_status = st, er_quantity = quantity,
      er_filled_quantity = filled, er_average_price = Some price, er_fee = fee, er_fee_asset = None,
      er_reason = None, er_reported_at = 0\<rparr>"

definition ledger_total :: "(execution_report list, memory_ledger, spent) oms \<Rightarrow> string \<Rightarrow> rat" where
  "ledger_total s a = ours (memory_balances (om_ledger s)) a"

section \<open>A completing fill refused for rounding\<close>

text \<open>
  A buy of 0.01863 BTC at 64313.16 holds 1204.14494166 USDT. It is filled in three parts, up to
  0.00208, 0.01074 and 0.01863 BTC. The shares of the hold that the fills give back are rounded to 28
  digits, and so is the ledger's running sum of what is reserved: after the third release it is
  -2E-25, the guard takes that for a release beyond the reservations, and the fill that completes the
  order is refused although the venue has executed it.
\<close>

abbreviation held :: rat where "held \<equiv> 120414494166 / 10 ^ 8"

definition round_order :: "rat \<Rightarrow> managed_order" where
  "round_order released = ex_row\<lparr>mo_intent := ex_intent\<lparr>in_quantity := 1863 / 10 ^ 5\<rparr>, mo_reserved := held,
     mo_released := released\<rparr>"

abbreviation share1 :: rat where "share1 \<equiv> 1344402296646698872785829308 / 10 ^ 25"
abbreviation share2 :: rat where "share2 \<equiv> 5597367254307890499194847021 / 10 ^ 25"
abbreviation share3 :: rat where "share3 \<equiv> 5099679865645410628019323671 / 10 ^ 25"
abbreviation released2 :: rat where "released2 \<equiv> 6941769550954589371980676329 / 10 ^ 25"

lemma fill_release_value:
  assumes "mo_reserved o' = h" "in_quantity (mo_intent o') = q" "mo_released o' = rel" "0 < q"
    and "dmul h inc = p" "dec_fix (p / q) = share" "dsub h rel = rest" "share \<le> rest"
  shows "fill_release o' inc = Inr share"
  using assms by (simp add: fill_release_def ddiv_def)

lemma round_order_fields:
  "mo_reserved (round_order rel) = held" "in_quantity (mo_intent (round_order rel)) = 1863 / 10 ^ 5"
  "mo_released (round_order rel) = rel"
  by (simp_all add: round_order_def)

lemma share_values:
  "fill_release (round_order 0) (208 / 10 ^ 5) = Inr share1"
  "dadd 0 share1 = share1"
  "fill_release (round_order share1) (866 / 10 ^ 5) = Inr share2"
  "dadd share1 share2 = released2"
  "fill_release (round_order released2) (789 / 10 ^ 5) = Inr share3"
proof -
  have p1: "dmul held (208 / 10 ^ 5) = 25046214786528 / 10 ^ 13"
    unfolding dmul_def by (subst dec_fix_value[of _ 27 2504621478652800000000000000]) simp_all
  have p2: "dmul held (866 / 10 ^ 5) = 104278951947756 / 10 ^ 13"
    unfolding dmul_def by (subst dec_fix_value[of _ 26 1042789519477560000000000000]) simp_all
  have p3: "dmul held (789 / 10 ^ 5) = 95007035896974 / 10 ^ 13"
    unfolding dmul_def by (subst dec_fix_value[of _ 27 9500703589697400000000000000]) simp_all
  have d1: "dec_fix (25046214786528 / 10 ^ 13 / (1863 / 10 ^ 5)) = share1"
    by (subst dec_fix_value[of _ 25 1344402296646698872785829308]) simp_all
  have d2: "dec_fix (104278951947756 / 10 ^ 13 / (1863 / 10 ^ 5)) = share2"
    by (subst dec_fix_value[of _ 25 5597367254307890499194847021]) simp_all
  have d3: "dec_fix (95007035896974 / 10 ^ 13 / (1863 / 10 ^ 5)) = share3"
    by (subst dec_fix_value[of _ 25 5099679865645410628019323671]) simp_all
  have r0: "dsub held 0 = held"
    unfolding dsub_def by (subst dec_fix_value[of _ 24 1204144941660000000000000000]) simp_all
  have r1: "dsub held share1 = 1069704711995330112721417069 / 10 ^ 24"
    unfolding dsub_def by (subst dec_fix_value[of _ 24 1069704711995330112721417069]) simp_all
  have r2: "dsub held released2 = share3"
    unfolding dsub_def by (subst dec_fix_value[of _ 25 5099679865645410628019323671]) simp_all
  show "dadd 0 share1 = share1"
    unfolding dadd_def by (subst dec_fix_value[of _ 25 1344402296646698872785829308]) simp_all
  show "dadd share1 share2 = released2"
    unfolding dadd_def by (subst dec_fix_value[of _ 25 6941769550954589371980676329]) simp_all
  show "fill_release (round_order 0) (208 / 10 ^ 5) = Inr share1"
    by (rule fill_release_value[OF round_order_fields _ p1 d1 r0]) simp_all
  show "fill_release (round_order share1) (866 / 10 ^ 5) = Inr share2"
    by (rule fill_release_value[OF round_order_fields _ p2 d2 r1]) simp_all
  show "fill_release (round_order released2) (789 / 10 ^ 5) = Inr share3"
    by (rule fill_release_value[OF round_order_fields _ p3 d3 r2]) simp_all
qed

definition usdt :: "string \<Rightarrow> ledger_entry_kind \<Rightarrow> rat \<Rightarrow> ledger_entry" where
  "usdt i k x = \<lparr>le_entry_id = i, le_account_id = ''acc'', le_venue = V_BINANCE_SPOT, le_asset = ''USDT'',
     le_amount = x, le_kind = k, le_reference_id = ''PXi1:0'', le_recorded_at = 0\<rparr>"

definition round_ledger :: memory_ledger where
  "round_ledger = map (\<lambda>e. (le_entry_id e, e)) [usdt ''open'' OPENING_BALANCE 10000, usdt ''r'' RESERVATION (- held),
     usdt ''t1'' TRADE (- 20901777 / 156250), usdt ''f1'' RELEASE share1,
     usdt ''t2'' TRADE (- 696189957 / 1250000), usdt ''f2'' RELEASE share2]"

definition round_batch :: "ledger_entry list" where
  "round_batch = [usdt ''t3'' TRADE (- 507430833 / 10 ^ 6), usdt ''f3'' RELEASE share3]"

lemma round_reserved: "reserved_of (dvalues round_ledger @ round_batch) ''USDT'' = - 2 / 10 ^ 25"
proof -
  have a: "dsub 0 (- held) = held"
    unfolding dsub_def by (subst dec_fix_value[of _ 24 1204144941660000000000000000]) simp_all
  have b: "dsub held share1 = 1069704711995330112721417069 / 10 ^ 24"
    unfolding dsub_def by (subst dec_fix_value[of _ 24 1069704711995330112721417069]) simp_all
  have c: "dsub (1069704711995330112721417069 / 10 ^ 24) share2 = 5099679865645410628019323669 / 10 ^ 25"
    unfolding dsub_def by (subst dec_fix_value[of _ 25 5099679865645410628019323669]) simp_all
  have d: "dsub (5099679865645410628019323669 / 10 ^ 25) share3 = - 2 / 10 ^ 25"
    unfolding dsub_def by (subst dec_fix_value[of _ 52 "- 2000000000000000000000000000"]) simp_all
  have "reserved_of (dvalues round_ledger @ round_batch) ''USDT''
      = dsub (dsub (dsub (dsub 0 (- held)) share1) share2) share3"
    by (simp add: reserved_of_def round_ledger_def round_batch_def usdt_def TOTAL_KINDS_def)
  then show ?thesis by (simp only: a b c d)
qed

text \<open>
  A completing fill can be refused for rounding alone. For this order and these three fills the
  manager computes the releases \<open>share1\<close>, \<open>share2\<close> and \<open>share3\<close>, and the ledger refuses the third
  fill's batch with "release exceeds reservations", changing nothing.
\<close>

theorem completing_fill_refused_for_rounding:
  "fill_release (round_order 0) (208 / 10 ^ 5) = Inr share1
   \<and> fill_release (round_order (dadd 0 share1)) (866 / 10 ^ 5) = Inr share2
   \<and> fill_release (round_order (dadd (dadd 0 share1) share2)) (789 / 10 ^ 5) = Inr share3
   \<and> memory_post round_batch round_ledger
     = (Inl (LedgerRejected ''release exceeds reservations for USDT''), round_ledger)"
proof -
  have t: "touched round_batch = [''USDT'']" by (simp add: touched_def round_batch_def usdt_def TOTAL_KINDS_def)
  have l: "dget (summarize (dvalues round_ledger @ round_batch)) ''USDT''
      = Some (balance_of (dvalues round_ledger @ round_batch) ''USDT'')"
    by (simp add: summarize_lookup round_batch_def usdt_def)
  have "ab_reserved (balance_of (dvalues round_ledger @ round_batch) ''USDT'') < 0"
    using round_reserved by (simp add: balance_of_def)
  then have g: "guard (summarize (dvalues round_ledger @ round_batch)) round_batch
      = Inl (LedgerRejected ''release exceeds reservations for USDT'')"
    by (simp add: guard_def guard_asset_def t l)
  have known: "map (\<lambda>e. dget round_ledger (le_entry_id e) \<noteq> None) round_batch = [False, False]"
    by (simp add: round_ledger_def round_batch_def usdt_def)
  show ?thesis
    using share_values g unfolding memory_post_def known by (simp only: Let_def) simp
qed

section \<open>A fill refused for its fee\<close>

text \<open>
  The ledger's header says that fills are always recorded. A fill batch that releases a hold is
  guarded like any other: with 100.5 USDT, all of it held for a buy of 1 at 100, a full fill charged
  1 USDT (1%) would leave the account at -0.5, and the whole batch is refused.
\<close>

definition fee_run where
  "fee_run = submit scr_env 1 ex_intent ex_permit (scr_oms (1005 / 10) [scr_report FILLED 1 1 100 1])"

text \<open>
  A fill the venue has executed can be refused by the ledger: the submission raises
  "insufficient available" instead of recording the fill.
\<close>

theorem fill_refused_for_fee:
  "fst fee_run = Inl (LedgerRejected ''insufficient available USDT'')"
  by code_simp

section \<open>A fill counted twice after a crash\<close>

text \<open>
  A buy of 1 BTC is half filled: the ledger's post commits, and the process dies before the order is
  saved. Another order holds 100 USDT. After the restart the saved order is still SUBMITTED with
  nothing filled; it becomes UNKNOWN, and resolving it against the venue's cumulative fill of 1 BTC
  posts the whole quantity under a new mark: the ledger shows 1.5 BTC bought for an order of 1 BTC.
\<close>

definition entry_of :: "string list \<Rightarrow> string \<Rightarrow> ledger_entry_kind \<Rightarrow> rat \<Rightarrow> instant \<Rightarrow> string \<times> ledger_entry" where
  "entry_of parts asset k x now = (join [CHR 0x00] parts,
     \<lparr>le_entry_id = join [CHR 0x00] parts, le_account_id = ''acc'', le_venue = V_BINANCE_SPOT, le_asset = asset,
      le_amount = x, le_kind = k, le_reference_id = ''PXi1:0'', le_recorded_at = now\<rparr>)"

definition start_ledger :: memory_ledger where
  "start_ledger = [(''open'', usdt ''open'' OPENING_BALANCE 1000), (''other'', usdt ''other'' RESERVATION (- 100))]"

definition submitted_row :: managed_order where
  "submitted_row = \<lparr>mo_intent = ex_intent, mo_client_order_id = ''PXi1:0'', mo_status = SUBMITTED,
     mo_reserved_asset = ''USDT'', mo_reserved = 201 / 2, mo_released = 0, mo_filled_quantity = 0,
     mo_filled_notional = 0, mo_fee = 0, mo_fee_asset = None, mo_venue_order_id = None, mo_reason = None,
     mo_history = [NEW, SUBMITTED]\<rparr>"

text \<open>The ledger after the half fill.\<close>

definition half_ledger :: memory_ledger where
  "half_ledger = start_ledger @
     [entry_of [''PXi1:0'', ''RESERVATION'', ''USDT''] ''USDT'' RESERVATION (- 201 / 2) 1,
      entry_of [''PXi1:0'', ''TRADE'', ''BTC'', ''1/2''] ''BTC'' TRADE (1 / 2) 1,
      entry_of [''PXi1:0'', ''TRADE'', ''USDT'', ''1/2''] ''USDT'' TRADE (- 50) 1,
      entry_of [''PXi1:0'', ''RELEASE'', ''USDT'', ''1/2''] ''USDT'' RELEASE (201 / 4) 1]"

definition half_run where
  "half_run = submit scr_env 1 ex_intent ex_permit
     ((scr_oms 1000 [scr_report PARTIALLY_FILLED 1 (1 / 2) 100 0])\<lparr>om_ledger := start_ledger\<rparr>)"

definition crashed :: "(execution_report list, memory_ledger, spent) oms" where
  "crashed = \<lparr>om_orders = [], om_by_intent = [], om_ledger = half_ledger, om_permits = [],
     om_venue = [scr_report FILLED 1 1 100 0], om_store = [(''PXi1:0'', submitted_row, 1)], om_events = []\<rparr>"

lemma half_run_ledger:
  "(case half_run of (r, s) \<Rightarrow> om_ledger s = half_ledger \<and>
     (case om_events s of [] \<Rightarrow> False | ev # _ \<Rightarrow> ev = OrderEvent ''ORDER_SUBMITTED'' submitted_row))"
  by code_simp

lemma crash_recovered:
  "(case op_bind (recover scr_env 2) (\<lambda>_. resolve_unknown scr_env 3 ''PXi1:0'') crashed of
      (Inl _, _) \<Rightarrow> False
    | (Inr o', s') \<Rightarrow> mo_status o' = FILLED \<and> mo_filled_quantity o' = 1 \<and> ledger_total s' ''BTC'' = 3 / 2)"
  by code_simp

text \<open>
  A crash between the ledger's post and the order's save makes the ledger count a fill twice. The
  restart finds the ledger as it was last posted and the order as it was last saved (the ORDER\_SUBMITTED
  commit); recovery and resolution then end in a FILLED order of 1 BTC and a ledger total of 1.5 BTC.
\<close>

lemma crash_counts_fill_twice:
  "om_ledger (snd half_run) = om_ledger crashed
   \<and> hd (om_events (snd half_run)) = OrderEvent ''ORDER_SUBMITTED'' submitted_row
   \<and> om_store crashed = [(''PXi1:0'', order_row submitted_row, 1)]
   \<and> (\<exists>o' s'. op_bind (recover scr_env 2) (\<lambda>_. resolve_unknown scr_env 3 ''PXi1:0'') crashed = (Inr o', s')
       \<and> mo_status o' = FILLED \<and> mo_filled_quantity o' = 1 \<and> ledger_total s' ''BTC'' = 3 / 2)"
proof -
  have "om_ledger crashed = half_ledger" "om_store crashed = [(''PXi1:0'', order_row submitted_row, 1)]"
    by (simp_all add: crashed_def order_row_def submitted_row_def)
  moreover have "om_ledger (snd half_run) = half_ledger
      \<and> hd (om_events (snd half_run)) = OrderEvent ''ORDER_SUBMITTED'' submitted_row"
    using half_run_ledger unfolding case_prod_beta by (cases "om_events (snd half_run)") auto
  ultimately show ?thesis using crash_recovered by (auto split: prod.splits sum.splits)
qed

end
