(* ===== verification/Executor.thy ===== *)
theory Executor
  imports OMS
begin

text \<open>
  The isolated executor (\<^verbatim>\<open>apps/executor/runtime.py\<close>): start, submission, polling, reconciliation,
  the halt latch with its table and the operator's release, around the order manager over the durable
  ledger and permit table. The venue adapter, the verifier, the hashes and the amount column come in
  through \<open>executor_env\<close>. What the venue answers when its balances are read is an input of every read, so
  two reads may differ or fail. \<open>db_ok\<close> says whether the halt row is written and the fate of its
  deletion is an input; every other database access succeeds. The audit deque takes the executor's own events and those its recorder gets from
  the order manager, each by its type; task scheduling and the adapter factories are not modelled.
\<close>

section \<open>State\<close>

record 'v executor_env =
  xs_account_id :: string
  xs_venue :: venue_id
  xs_adapter :: "'v venue_adapter"
  xs_instruments :: "(string, tradable_instrument) dict"
  xs_verify :: verifier
  xs_column :: "rat \<Rightarrow> rat"
  xs_sha256 :: "string \<Rightarrow> string"
  xs_uuid5 :: "string \<Rightarrow> string"
  xs_dec_str :: "rat \<Rightarrow> string"

type_synonym 'v executor_oms = "('v, ledger_rows, consumed_permits) oms"

record 'v executor =
  xe_oms :: "'v executor_oms option"
  xe_halted :: "string option"
  xe_last_reconcile_at :: "instant option"
  xe_last_consistent :: "bool option"
  xe_last_divergences :: "divergence list"
  xe_events :: "string list"
  xe_engine :: bool
  xe_halts :: "(string, string \<times> instant) dict"

text \<open>A new process: nothing in memory, the halt table as the database has it.\<close>

definition executor_new :: "bool \<Rightarrow> (string, string \<times> instant) dict \<Rightarrow> 'v executor" where
  "executor_new engine halts = \<lparr>xe_oms = None, xe_halted = None, xe_last_reconcile_at = None,
     xe_last_consistent = None, xe_last_divergences = [], xe_events = [], xe_engine = engine, xe_halts = halts\<rparr>"

definition executor_oms_env :: "'v executor_env \<Rightarrow> ('v, ledger_rows, consumed_permits) oms_env" where
  "executor_oms_env env =
     \<lparr>env_adapter = xs_adapter env,
      env_post = sql_post (xs_column env) (xs_account_id env) (xs_venue env),
      env_has_entry = sql_has_entry, env_fee_assets = sql_fee_assets (xs_account_id env) (xs_venue env),
      env_account_id = xs_account_id env, env_venue = xs_venue env,
      env_consume = sql_permit_consume (xs_verify env), env_instruments = xs_instruments env,
      env_sha256 = xs_sha256 env, env_uuid5 = xs_uuid5 env, env_dec_str = xs_dec_str env,
      env_has_store = True, env_has_recorder = True\<rparr>"

type_synonym ('v, 'a) executor_op = "('v executor, 'a) op"

text \<open>\<^verbatim>\<open>self.events\<close> is a deque of at most 500.\<close>

definition add_event :: "string \<Rightarrow> 'v executor \<Rightarrow> 'v executor" where
  "add_event event_type x =
     (let evs = xe_events x @ [event_type] in x\<lparr>xe_events := drop (length evs - 500) evs\<rparr>)"


fun event_name :: "oms_event \<Rightarrow> string" where
  "event_name (OrderEvent t o') = t"
| "event_name (RefusedEvent intent_id code) = ''ORDER_REFUSED''"

text \<open>
  Running an order-manager operation: \<^verbatim>\<open>self._oms()\<close>, and \<^verbatim>\<open>self._record\<close> for what the manager records
  meanwhile.
\<close>

definition on_oms :: "('v executor_oms, 'a) op \<Rightarrow> ('v, 'a) executor_op" where
  "on_oms m x = (case xe_oms x of
      None \<Rightarrow> (Inl (RuntimeError ''executor not started''), x)
    | Some s \<Rightarrow> (case m s of (r, s') \<Rightarrow>
        (r, fold (\<lambda>ev. add_event (event_name ev)) (drop (length (om_events s)) (om_events s')) (x\<lparr>xe_oms := Some s'\<rparr>))))"

section \<open>The halt latch\<close>

definition latch :: "'v executor_env \<Rightarrow> bool \<Rightarrow> instant \<Rightarrow> string \<Rightarrow> 'v executor \<Rightarrow> 'v executor" where
  "latch env db_ok now reason x =
     (let x' = x\<lparr>xe_halted := Some reason\<rparr>
      in if \<not> xe_engine x' \<or> \<not> db_ok then x'
         else x'\<lparr>xe_halts := ddel (xs_account_id env) (xe_halts x') @ [(xs_account_id env, take 300 reason, now)]\<rparr>)"

text \<open>The divergences the executor sees now; both sides must be set and the venue must answer.\<close>

type_synonym balance_read = "(string, rat) dict res"

definition divergences :: "'v executor_env \<Rightarrow> balance_read \<Rightarrow> ('v, divergence list) executor_op" where
  "divergences env rd =
     op_bind (op_read xe_oms) (\<lambda>started.
       (case started of
          None \<Rightarrow> op_raise AssertionError
        | Some s \<Rightarrow>
            op_bind (op_lift rd) (\<lambda>balances.
            op_return (reconcile_balances (sql_balances (xs_account_id env) (xs_venue env) (om_ledger s)) balances []))))"

definition note_reconcile :: "instant \<Rightarrow> divergence list \<Rightarrow> 'v executor \<Rightarrow> 'v executor" where
  "note_reconcile now ds x =
     x\<lparr>xe_last_reconcile_at := Some now, xe_last_consistent := Some (ds = []), xe_last_divergences := ds\<rparr>"

definition reconcile :: "'v executor_env \<Rightarrow> bool \<Rightarrow> instant \<Rightarrow> balance_read \<Rightarrow> ('v, bool) executor_op" where
  "reconcile env db_ok now rd =
     op_bind (divergences env rd) (\<lambda>ds.
     op_bind (op_modify (note_reconcile now ds)) (\<lambda>_.
     op_bind (op_read xe_halted) (\<lambda>halted.
     op_bind (if ds \<noteq> [] \<and> halted = None
              then op_modify (\<lambda>x. add_event ''RECONCILIATION_DIVERGENCE''
                     (latch env db_ok now ''reconciliation divergence'' x))
              else op_return ()) (\<lambda>_.
     op_return (ds = [])))))"


text \<open>
  The operator's release: a first read that must agree, the deletion of the row, the memory, and a
  reconciliation on a second read. Whatever raises after the deletion, the release is not undone.
\<close>

definition delete_halt :: "'v executor_env \<Rightarrow> store_fate \<Rightarrow> ('v, unit) executor_op" where
  "delete_halt env fate x =
     (if \<not> xe_engine x then (Inr (), x)
      else let x' = x\<lparr>xe_halts := ddel (xs_account_id env) (xe_halts x)\<rparr>
           in (case fate of Saved \<Rightarrow> (Inr (), x') | Not_Saved \<Rightarrow> (Inl DatabaseError, x) | Saved_Then_Lost \<Rightarrow> (Inl DatabaseError, x')))"

definition release_halt :: "'v executor_env \<Rightarrow> store_fate \<Rightarrow> bool \<Rightarrow> instant \<Rightarrow> balance_read \<Rightarrow> balance_read \<Rightarrow> ('v, bool) executor_op" where
  "release_halt env fate db_ok now rd rd' =
     op_bind (divergences env rd) (\<lambda>ds.
       if ds \<noteq> [] then op_raise (ExecutorHalted ''still diverged from the venue'')
       else op_bind (delete_halt env fate) (\<lambda>_.
            op_bind (op_modify (\<lambda>x. add_event ''HALT_RELEASED'' (x\<lparr>xe_halted := None\<rparr>))) (\<lambda>_.
            reconcile env db_ok now rd')))"

section \<open>Start and work\<close>

definition restore_halt :: "'v executor_env \<Rightarrow> 'v executor \<Rightarrow> 'v executor" where
  "restore_halt env x =
     (case dget (xe_halts x) (xs_account_id env) of
        None \<Rightarrow> x
      | Some (reason, halted_at) \<Rightarrow> add_event ''HALT_RESTORED'' (x\<lparr>xe_halted := Some reason\<rparr>))"

text \<open>The ledger of a first start; a ledger that has balances is left alone.\<close>

definition open_ledger ::
    "'v executor_env \<Rightarrow> instant \<Rightarrow> balance_read \<Rightarrow> ledger_rows \<Rightarrow> (ledger_rows \<times> bool) res \<times> ledger_rows" where
  "open_ledger env now rd rows =
     (if sql_balances (xs_account_id env) (xs_venue env) rows \<noteq> [] then (Inr (rows, False), rows)
      else (case rd of
              Inl e \<Rightarrow> (Inl e, rows)
            | Inr snapshot \<Rightarrow>
                (case opening_balances (xs_uuid5 env) (xs_account_id env) (xs_venue env) now snapshot of
                   Inl e \<Rightarrow> (Inl e, rows)
                 | Inr batch \<Rightarrow>
                     (case sql_post (xs_column env) (xs_account_id env) (xs_venue env) batch rows of
                        (Inl e, rows') \<Rightarrow> (Inl e, rows')
                      | (Inr _, rows') \<Rightarrow> (Inr (rows', True), rows')))))"

definition start ::
    "'v executor_env \<Rightarrow> bool \<Rightarrow> instant \<Rightarrow> balance_read \<Rightarrow> balance_read \<Rightarrow> 'v \<Rightarrow> ledger_rows \<Rightarrow> consumed_permits \<Rightarrow>
     (string, managed_order \<times> instant) dict \<Rightarrow> ('v, bool) executor_op" where
  "start env db_ok now rd rd' v rows permits store =
     (if va_real_money (xs_adapter env)
      then op_raise (RuntimeError ''no certified live scope: real-money adapters are refused'')
      else
        op_bind (op_modify (\<lambda>x. restore_halt env (x\<lparr>xe_engine := True\<rparr>))) (\<lambda>_.
        op_bind (op_lift (fst (open_ledger env now rd rows))) (\<lambda>(rows', opened).
        op_bind (op_modify (\<lambda>x. if opened then add_event ''LEDGER_OPENED'' x else x)) (\<lambda>_.
        op_bind (op_lift (oms_new (executor_oms_env env) v rows' permits store)) (\<lambda>s.
        op_bind (op_modify (\<lambda>x. x\<lparr>xe_oms := Some s\<rparr>)) (\<lambda>_.
        op_bind (on_oms (recover (executor_oms_env env) now)) (\<lambda>_.
        reconcile env db_ok now rd')))))))"




section \<open>What each operation leaves alone\<close>

lemma add_event_frame [frame_simps, simp]:
  "xe_oms (add_event t x) = xe_oms x" "xe_halted (add_event t x) = xe_halted x"
  "xe_halts (add_event t x) = xe_halts x" "xe_engine (add_event t x) = xe_engine x"
  "xe_last_consistent (add_event t x) = xe_last_consistent x"
  by (simp_all add: add_event_def Let_def)

lemma add_events_frame [frame_simps, simp]:
  "xe_oms (fold (\<lambda>ev. add_event (g ev)) evs x) = xe_oms x"
  "xe_halted (fold (\<lambda>ev. add_event (g ev)) evs x) = xe_halted x"
  "xe_halts (fold (\<lambda>ev. add_event (g ev)) evs x) = xe_halts x"
  "xe_engine (fold (\<lambda>ev. add_event (g ev)) evs x) = xe_engine x"
  by (induction evs arbitrary: x) simp_all

lemma on_oms_frame:
  "on_oms m x = (r, x') \<Longrightarrow> xe_halted x' = xe_halted x \<and> xe_halts x' = xe_halts x \<and> xe_engine x' = xe_engine x
     \<and> (xe_oms x' = None \<longleftrightarrow> xe_oms x = None)"
  by (auto simp: on_oms_def split: option.splits prod.splits)

lemma divergences_cases:
  assumes "divergences env rd x = (r, x')"
  obtains (raised) e where "x' = x" "r = Inl e"
  | (seen) s b where "x' = x" "xe_oms x = Some s" "rd = Inr b"
      "r = Inr (reconcile_balances (sql_balances (xs_account_id env) (xs_venue env) (om_ledger s)) b [])"
  using assms by (auto simp: divergences_def elim!: op_bind_cases split: option.splits)

section \<open>The halt holds\<close>

text \<open>The durable row is there, and the process is halted or has not started.\<close>

definition halt_latched :: "'v executor_env \<Rightarrow> 'v executor \<Rightarrow> bool" where
  "halt_latched env x \<longleftrightarrow> dget (xe_halts x) (xs_account_id env) \<noteq> None \<and> (xe_halted x \<noteq> None \<or> xe_oms x = None)"



lemma halt_latched_frame [frame_simps]:
  "halt_latched env (add_event t x) = halt_latched env x" "halt_latched env (note_reconcile now ds x) = halt_latched env x"
  by (simp_all add: halt_latched_def note_reconcile_def)










text \<open>
  The runs of an executor: calls and background jobs in any order, the operator's releases that are
  refused, and a restart, which begins with empty memory, keeps the halt table and finds the venue and
  the other tables in any state. A release is refused when its first read fails or differs from the
  ledger, or when the row could not be deleted; every other release lifts the halt, also one that raises.
\<close>

definition release_refused :: "'v executor_env \<Rightarrow> store_fate \<Rightarrow> balance_read \<Rightarrow> 'v executor \<Rightarrow> bool" where
  "release_refused env fate rd x \<longleftrightarrow> fst (divergences env rd x) \<noteq> Inr [] \<or> xe_engine x \<and> fate = Not_Saved"


lemma refused_changes_nothing:
  assumes "release_halt env fate ok now rd rd' x = (r, x')" "release_refused env fate rd x"
  shows "x' = x \<and> (\<exists>e. r = Inl e)"
proof -
  obtain q where d: "divergences env rd x = (q, x)" by (metis divergences_cases surj_pair)
  show ?thesis
  proof (cases "q = Inr []")
    case True
    then show ?thesis using assms d by (auto simp: release_halt_def release_refused_def delete_halt_def op_bind_def)
  next
    case False
    then show ?thesis using assms(1) d by (cases q) (auto simp: release_halt_def op_bind_def split: if_splits)
  qed
qed



section \<open>Reconciliation, release and start\<close>

text \<open>Ledger and venue agree on every asset within the tolerance.\<close>

definition in_step :: "'v executor_env \<Rightarrow> 'v executor_oms \<Rightarrow> (string, rat) dict \<Rightarrow> bool" where
  "in_step env s b \<longleftrightarrow> (\<forall>a. dabs (dsub (dget_or b a 0)
      (ours (sql_balances (xs_account_id env) (xs_venue env) (om_ledger s)) a)) \<le> DEFAULT_TOLERANCE)"

lemma reconcile_empty:
  "reconcile_balances l v [] = [] \<longleftrightarrow> (\<forall>a. dabs (dsub (dget_or v a 0) (ours l a)) \<le> DEFAULT_TOLERANCE)"
proof -
  have "dabs (dsub (dget_or v a 0) (ours l a)) \<le> DEFAULT_TOLERANCE" if "a \<notin> set (dkeys l)" "a \<notin> set (dkeys v)" for a
  proof -
    have "dget l a = None" "dget v a = None" using that by (simp_all only: dget_None_iff) simp_all
    then show ?thesis by (simp add: ours_def dget_or_def dabs_def dsub_def DEFAULT_TOLERANCE_def)
  qed
  then show ?thesis
    by (auto simp: reconcile_conv filter_empty_conv dget_or_def[of "[]"] not_less)
qed

lemma reconcile_returns:
  assumes "reconcile env ok now rd x = (Inr c, x')"
  obtains s b where "xe_oms x = Some s" "rd = Inr b" "c \<longleftrightarrow> in_step env s b"
    "xe_oms x' = Some s" "xe_last_consistent x' = Some c" "c \<Longrightarrow> xe_halted x' = xe_halted x"
    "\<not> c \<Longrightarrow> xe_halted x' \<noteq> None" "\<And>h. xe_halted x = Some h \<Longrightarrow> xe_halted x' = Some h"
    "\<not> c \<Longrightarrow> xe_halted x = None \<Longrightarrow> xe_engine x \<Longrightarrow> ok \<Longrightarrow> halt_latched env x'"
proof -
  obtain ds y where "divergences env rd x = (Inr ds, y)"
    using assms unfolding reconcile_def by (rule op_bind_cases) auto
  then have d: "divergences env rd x = (Inr ds, x)" by (metis divergences_cases)
  obtain s b where sb: "xe_oms x = Some s" "rd = Inr b"
    "ds = reconcile_balances (sql_balances (xs_account_id env) (xs_venue env) (om_ledger s)) b []"
    using d by (rule divergences_cases) auto
  have empty: "ds = [] \<longleftrightarrow> in_step env s b" by (simp add: sb(3) in_step_def reconcile_empty)
  show ?thesis
  proof (cases "ds \<noteq> [] \<and> xe_halted x = None")
    case True
    then have "c = False" "x' = add_event ''RECONCILIATION_DIVERGENCE''
        (latch env ok now ''reconciliation divergence'' (note_reconcile now ds x))"
      using assms d by (auto simp: reconcile_def op_bind_def note_reconcile_def)
    then show ?thesis using that[of s b] sb empty True
      by (simp add: latch_def note_reconcile_def Let_def halt_latched_def map_add_def)
  next
    case False
    then have "c = (ds = [])" "x' = note_reconcile now ds x"
      using assms d by (auto simp: reconcile_def op_bind_def note_reconcile_def split: if_splits)
    then show ?thesis using that[of s b] sb empty False by (auto simp: note_reconcile_def)
  qed
qed

lemma reconcile_total: "xe_oms x = Some s \<Longrightarrow> \<exists>c x'. reconcile env ok now (Inr b) x = (Inr c, x')"
  by (auto simp: reconcile_def divergences_def op_bind_def)

lemma oms_new_fields: "oms_new env v l p rows = Inr s \<Longrightarrow> om_store s = rows \<and> \<not> va_real_money (env_adapter env)"
  by (auto simp: oms_new_def split: if_splits)

lemma start_steps:
  assumes "start env ok now rd rd' v rows permits store x = (Inr c, x')"
  obtains s0 rows' rs s1 x1 where "\<not> va_real_money (xs_adapter env)"
    "oms_new (executor_oms_env env) v rows' permits store = Inr s0"
    "recover (executor_oms_env env) now s0 = (Inr rs, s1)" "xe_oms x1 = Some s1"
    "xe_halted x1 = xe_halted (restore_halt env (x\<lparr>xe_engine := True\<rparr>))" "reconcile env ok now rd' x1 = (Inr c, x')"
proof -
  have live: "\<not> va_real_money (xs_adapter env)" using assms by (auto simp: start_def)
  let ?x = "restore_halt env (x\<lparr>xe_engine := True\<rparr>)"
  obtain rows' s0 x0 rs x1 where new: "oms_new (executor_oms_env env) v rows' permits store = Inr s0"
    and on: "on_oms (recover (executor_oms_env env) now) x0 = (Inr rs, x1)"
    and r: "reconcile env ok now rd' x1 = (Inr c, x')"
    and x0: "x0 = ?x\<lparr>xe_oms := Some s0\<rparr> \<or> x0 = (add_event ''LEDGER_OPENED'' ?x)\<lparr>xe_oms := Some s0\<rparr>"
    using assms live unfolding start_def if_not_P[OF live]
    by (auto elim!: op_bind_cases split: prod.splits if_splits)
  have x0: "xe_oms x0 = Some s0" "xe_halted x0 = xe_halted ?x" using x0 by auto
  from on x0(1) obtain s1 where "recover (executor_oms_env env) now s0 = (Inr rs, s1)" "xe_oms x1 = Some s1"
    by (auto simp: on_oms_def split: prod.splits)
  with that[OF live new] on_oms_frame[OF on] x0(2) r show ?thesis by simp
qed

section \<open>Properties\<close>


text \<open>
  C22: A divergence from the venue halts. If the venue answers and some asset differs from the ledger by
  more than the tolerance, reconciliation returns "not consistent" and the executor is halted, whether
  or not the halt row could be written; if it was not halted before and the write succeeds, the halt is
  latched in the table too.
\<close>

theorem divergence_halts:
  assumes "xe_oms x = Some s" and "\<not> in_step env s b"
  shows "\<exists>x' reason. reconcile env ok now (Inr b) x = (Inr False, x') \<and> xe_halted x' = Some reason
    \<and> xe_last_consistent x' = Some False
    \<and> (xe_halted x = None \<and> xe_engine x \<and> ok \<longrightarrow> halt_latched env x')"
proof -
  obtain c x' where r: "reconcile env ok now (Inr b) x = (Inr c, x')" using reconcile_total assms(1) by blast
  then have "c = False" using assms by (auto elim!: reconcile_returns)
  moreover from this have "xe_halted x' \<noteq> None" using r by (auto elim!: reconcile_returns)
  ultimately show ?thesis using r by (auto elim!: reconcile_returns)
qed

text \<open>
  A release that lifts the halt needs agreement: unless the first read agrees with the ledger on every asset within
  the tolerance, the release raises and changes nothing.
\<close>

lemma release_needs_agreement:
  assumes "release_halt env fate ok now rd rd' x = (r, x')" "x' \<noteq> x"
  shows "\<exists>s b. xe_oms x = Some s \<and> rd = Inr b \<and> in_step env s b"
proof -
  have "\<not> release_refused env fate rd x" using refused_changes_nothing[OF assms(1)] assms(2) by blast
  then obtain y where "divergences env rd x = (Inr [], y)" unfolding release_refused_def by (metis prod.collapse)
  then show ?thesis by (cases rule: divergences_cases) (auto simp: in_step_def reconcile_empty[symmetric])
qed

text \<open>
  A release that is answered by an error can have lifted the halt: the row is deleted and the memory cleared before
  the final reconciliation, which raises when the venue does not answer. And when only the acknowledgement of the deletion is lost, the
  process stays halted and the next start is not.
\<close>

lemma failed_release_lifts_halt:
  assumes "xe_oms x = Some s" "in_step env s b" "xe_engine x"
  shows "\<exists>x'. release_halt env Saved ok now (Inr b) (Inl e) x = (Inl e, x') \<and> xe_halted x' = None \<and> dget (xe_halts x') (xs_account_id env) = None"
    and "\<exists>x'. release_halt env Saved_Then_Lost ok now (Inr b) rd' x = (Inl DatabaseError, x') \<and> xe_halted x' = xe_halted x
      \<and> dget (xe_halts x') (xs_account_id env) = None"
proof -
  have "reconcile_balances (sql_balances (xs_account_id env) (xs_venue env) (om_ledger s)) b [] = []"
    using assms(2) by (simp add: in_step_def reconcile_empty)
  then show "\<exists>x'. release_halt env Saved ok now (Inr b) (Inl e) x = (Inl e, x') \<and> xe_halted x' = None \<and> dget (xe_halts x') (xs_account_id env) = None"
    and "\<exists>x'. release_halt env Saved_Then_Lost ok now (Inr b) rd' x = (Inl DatabaseError, x') \<and> xe_halted x' = xe_halted x
      \<and> dget (xe_halts x') (xs_account_id env) = None"
    using assms(1,3) by (simp_all add: release_halt_def divergences_def delete_halt_def reconcile_def op_bind_def Let_def)
qed

text \<open>
  C23: A start that returns is safe to trade from. The adapter moves no real money; every order of the
  table is in the book, terminal or UNKNOWN; the ledger and the venue agree on every asset within the
  tolerance as the last read of the balances has them, or the executor is halted; and a halt found in the table is in force again.
\<close>

theorem start_recovers_and_reconciles:
  assumes "start env ok now rd rd' v rows permits store (executor_new engine halts) = (Inr c, x')"
    and "\<forall>(cid, row, t) \<in> set store. mo_client_order_id row = cid"
  shows "\<not> va_real_money (xs_adapter env)
    \<and> (\<exists>s b. xe_oms x' = Some s \<and> rd' = Inr b
         \<and> (c \<longleftrightarrow> in_step env s b) \<and> dom (dget (om_orders s)) = set (dkeys store)
         \<and> (\<forall>cid o'. dget (om_orders s) cid = Some o' \<longrightarrow> mo_status o' \<in> {FILLED, CANCELED, REJECTED, UNKNOWN}))
    \<and> (\<not> c \<longrightarrow> xe_halted x' \<noteq> None)
    \<and> (\<forall>reason t. dget halts (xs_account_id env) = Some (reason, t) \<longrightarrow> xe_halted x' = Some reason)"
proof -
  obtain s0 rows' rs s1 x1 where live: "\<not> va_real_money (xs_adapter env)"
    and new: "oms_new (executor_oms_env env) v rows' permits store = Inr s0"
    and rec: "recover (executor_oms_env env) now s0 = (Inr rs, s1)" and x1: "xe_oms x1 = Some s1"
      "xe_halted x1 = xe_halted (restore_halt env ((executor_new engine halts)\<lparr>xe_engine := True\<rparr>))"
    and r: "reconcile env ok now rd' x1 = (Inr c, x')"
    using assms(1) by (rule start_steps)
  obtain s b where s: "xe_oms x1 = Some s" "rd' = Inr b" "c \<longleftrightarrow> in_step env s b"
    "xe_oms x' = Some s" "\<not> c \<Longrightarrow> xe_halted x' \<noteq> None" "\<And>h. xe_halted x1 = Some h \<Longrightarrow> xe_halted x' = Some h"
    using r by (rule reconcile_returns) blast
  have "env_has_store (executor_oms_env env)" by (simp add: executor_oms_env_def)
  note book = recovered_book[OF new this rec assms(2)]
  have "xe_halted x1 = Some reason" if "dget halts (xs_account_id env) = Some (reason, t)" for reason t
    using that x1(2) by (simp add: restore_halt_def executor_new_def)
  then show ?thesis using live s book x1(1) by auto
qed

section \<open>Witnesses\<close>

text \<open>The venue reports \<open>n\<close> USDT and answers no order.\<close>

definition x_env :: "rat executor_env" where
  "x_env = \<lparr>xs_account_id = ''acc'', xs_venue = V_BINANCE_SPOT,
     xs_adapter = \<lparr>va_real_money = False, va_submit = (\<lambda>_ n. (Inl (VenueError ''TimeoutError''), n)),
       va_cancel = (\<lambda>_ _ n. (Inl (VenueError ''TimeoutError''), n)), va_query = (\<lambda>_ _ n. (Inr None, n)),
       va_balances = (\<lambda>n. Inr [(''USDT'', n)])\<rparr>,
     xs_instruments = [(''BINANCE_SPOT:BTCUSDT'', ex_instrument)], xs_verify = (\<lambda>_ _ _. Inr ()),
     xs_column = (\<lambda>q. q), xs_sha256 = (\<lambda>s. s), xs_uuid5 = (\<lambda>s. s), xs_dec_str = (\<lambda>_. ''q'')\<rparr>"

definition x_start :: "(string, string \<times> instant) dict \<Rightarrow> bool res \<times> rat executor" where
  "x_start halts = start x_env True 5 (Inr [(''USDT'', 1000)]) (Inr [(''USDT'', 1000)]) 1000 [] [] [(''c1'', ex_row, 0)] (executor_new False halts)"

lemma x_start_runs: "fst (x_start []) = Inr True" "fst (x_start [(''acc'', ''watchdog: x'', 1)]) = Inr True"
  by code_simp+



lemma x_diverged_state:
  "(case xe_oms (snd (x_start [])) of None \<Rightarrow> False
    | Some s \<Rightarrow> \<not> dabs (dsub (dget_or [(''USDT'', 900)] ''USDT'' 0) (ours (sql_balances ''acc'' V_BINANCE_SPOT (om_ledger s)) ''USDT''))
              \<le> DEFAULT_TOLERANCE)
   \<and> xe_halted (snd (x_start [])) = None \<and> xe_engine (snd (x_start []))"
  by code_simp

theorem divergence_halts_witness:
  "\<exists>x'. reconcile x_env True 6 (Inr [(''USDT'', 900)]) (snd (x_start [])) = (Inr False, x') \<and> halt_latched x_env x'"
proof (cases "xe_oms (snd (x_start []))")
  case (Some s)
  have "\<not> in_step x_env s [(''USDT'', 900)]" using x_diverged_state Some unfolding in_step_def by (auto simp: x_env_def)
  then show ?thesis using divergence_halts[OF Some, of x_env _ True 6] x_diverged_state by blast
qed (use x_diverged_state in simp)

theorem start_recovers_and_reconciles_witness:
  "\<exists>x' s. x_start [] = (Inr True, x') \<and> xe_oms x' = Some s \<and> dom (dget (om_orders s)) = {''c1''}"
proof -
  obtain x' where r: "x_start [] = (Inr True, x')" using x_start_runs(1) by (cases "x_start []") auto
  have "\<forall>(cid, row, t) \<in> set [(''c1'', ex_row, 0 :: instant)]. mo_client_order_id row = cid" by (simp add: ex_row_def)
  from start_recovers_and_reconciles[OF r[unfolded x_start_def] this] show ?thesis using r by auto
qed

end
