(* ===== verification/Promotion.thy ===== *)
theory Promotion
  imports Contracts
begin

text \<open>
  Promotion of scopes through the release stages: the gates (\<^verbatim>\<open>services/promotion/gates.py\<close>) and the
  durable registry (\<^verbatim>\<open>services/promotion/registry.py\<close>). Formatting and parsing of timestamps and the text
  of a number of days come in through \<open>promotion_env\<close>; the JSON text of a row is kept as the document
  it stands for. Every operation of the registry takes the instant its clock shows; \<open>ok\<close> says whether
  the database accepts the write.
\<close>

section \<open>Gates\<close>

record promotion_env =
  pe_isoformat :: "instant \<Rightarrow> string"
  pe_fromisoformat :: "string \<Rightarrow> instant res"
  pe_days_text :: "timedelta \<Rightarrow> string"

definition STAGE_ORDER :: "release_stage list" where
  "STAGE_ORDER = [RESEARCH, REPLAY, SHADOW, STAGE_PAPER, CANARY, LIVE]"

definition MIN_PAPER_PERIOD :: timedelta where "MIN_PAPER_PERIOD = days 7"
definition EVIDENCE_MAX_AGE :: timedelta where "EVIDENCE_MAX_AGE = days 14"

datatype evidence_kind =
    REPLAY_REPRODUCIBLE | SHADOW_COMPARISON | ADVERSARIAL_SUITE | RECOVERY_DRILL | ROLLBACK_DRILL | WATCHDOG_ACTIVE

fun kind_text :: "evidence_kind \<Rightarrow> string" where
  "kind_text REPLAY_REPRODUCIBLE = ''REPLAY_REPRODUCIBLE''"
| "kind_text SHADOW_COMPARISON = ''SHADOW_COMPARISON''"
| "kind_text ADVERSARIAL_SUITE = ''ADVERSARIAL_SUITE''"
| "kind_text RECOVERY_DRILL = ''RECOVERY_DRILL''"
| "kind_text ROLLBACK_DRILL = ''ROLLBACK_DRILL''"
| "kind_text WATCHDOG_ACTIVE = ''WATCHDOG_ACTIVE''"

definition EVIDENCE_KINDS :: "evidence_kind list" where
  "EVIDENCE_KINDS = [REPLAY_REPRODUCIBLE, SHADOW_COMPARISON, ADVERSARIAL_SUITE, RECOVERY_DRILL, ROLLBACK_DRILL,
     WATCHDOG_ACTIVE]"

text \<open>\<^verbatim>\<open>REQUIRED_EVIDENCE.get(target, frozenset())\<close>, in the sorted order the gate visits it.\<close>

fun REQUIRED_EVIDENCE :: "release_stage \<Rightarrow> evidence_kind list" where
  "REQUIRED_EVIDENCE SHADOW = [REPLAY_REPRODUCIBLE]"
| "REQUIRED_EVIDENCE STAGE_PAPER = [SHADOW_COMPARISON]"
| "REQUIRED_EVIDENCE CANARY = [ADVERSARIAL_SUITE, RECOVERY_DRILL, ROLLBACK_DRILL, WATCHDOG_ACTIVE]"
| "REQUIRED_EVIDENCE _ = []"

definition OPERATOR_ONLY :: "release_stage list" where
  "OPERATOR_ONLY = [CANARY, LIVE]"

fun DEMOTION :: "release_stage \<Rightarrow> release_stage option" where
  "DEMOTION LIVE = Some CANARY"
| "DEMOTION CANARY = Some STAGE_PAPER"
| "DEMOTION _ = None"

record scope =
  sc_account :: string
  sc_venue :: string
  sc_strategy_id :: string
  sc_model_version :: string
  sc_credential_id :: string

abbreviation scope_parts :: "scope \<Rightarrow> string list" where
  "scope_parts s \<equiv> [sc_account s, sc_venue s, sc_strategy_id s, sc_model_version s, sc_credential_id s]"

definition scope_key :: "scope \<Rightarrow> string" where
  "scope_key s = join ''|'' (scope_parts s)"

definition from_key :: "string \<Rightarrow> scope res" where
  "from_key key =
     (case split_on (CHR ''|'') key of
        [a, v, st, m, c] \<Rightarrow>
          if [] \<notin> set [a, v, st, m, c]
          then Inr \<lparr>sc_account = a, sc_venue = v, sc_strategy_id = st, sc_model_version = m, sc_credential_id = c\<rparr>
          else Inl (ValueError ''scope key must have five non-empty parts'')
      | _ \<Rightarrow> Inl (ValueError ''scope key must have five non-empty parts''))"

record evidence =
  ev_kind :: evidence_kind
  ev_reference :: string
  ev_passed :: bool
  ev_recorded_at :: instant
  ev_recorded_by :: string

record scope_record =
  sr_scope :: scope
  sr_stage :: release_stage
  sr_stage_since :: instant
  sr_clean_since :: instant
  sr_evidence :: "evidence list"
  sr_violations :: "(string, string) dict list"
  sr_history :: "(string, string) dict list"

definition clean_for :: "scope_record \<Rightarrow> instant \<Rightarrow> timedelta" where
  "clean_for r now = now - max (sr_stage_since r) (sr_clean_since r)"

definition next_stage :: "release_stage \<Rightarrow> release_stage option" where
  "next_stage stage =
     (let i = stage_index stage in if i + 1 < length STAGE_ORDER then Some (STAGE_ORDER ! (i + 1)) else None)"

definition fresh_evidence :: "scope_record \<Rightarrow> instant \<Rightarrow> evidence_kind \<Rightarrow> evidence list" where
  "fresh_evidence r now kind =
     filter (\<lambda>e. ev_kind e = kind \<and> sr_stage_since r \<le> ev_recorded_at e \<and> now - ev_recorded_at e \<le> EVIDENCE_MAX_AGE)
       (sr_evidence r)"

definition evidence_reasons :: "scope_record \<Rightarrow> instant \<Rightarrow> evidence_kind \<Rightarrow> string list" where
  "evidence_reasons r now kind =
     (let fresh = fresh_evidence r now kind
      in if fresh = [] then [''missing '' @ kind_text kind @ '' evidence recorded in '' @ stage_value (sr_stage r)]
         else if \<not> ev_passed (last fresh) then [''latest '' @ kind_text kind @ '' evidence failed'']
         else [])"

definition gate_check ::
    "promotion_env \<Rightarrow> scope_record \<Rightarrow> release_stage \<Rightarrow> instant \<Rightarrow> bool \<Rightarrow> string list" where
  "gate_check env r target now operator =
     (if Some target \<noteq> next_stage (sr_stage r)
      then [stage_value (sr_stage r) @ '' can only advance to the next stage'']
      else (if target = LIVE then [''LIVE certification is not available yet''] else [])
         @ (if target \<in> set OPERATOR_ONLY \<and> \<not> operator then [stage_value target @ '' needs an operator''] else [])
         @ (if target = CANARY \<and> clean_for r now < MIN_PAPER_PERIOD
            then [''needs 7 clean days in PAPER (has '' @ pe_days_text env (clean_for r now) @ '')''] else [])
         @ concat (map (evidence_reasons r now) (REQUIRED_EVIDENCE target)))"

section \<open>Rows\<close>

fun stage_of :: "string \<Rightarrow> release_stage res" where
  "stage_of s = (case List.find (\<lambda>st. stage_value st = s) STAGE_ORDER of
      Some st \<Rightarrow> Inr st | None \<Rightarrow> Inl (ValueError ''not a valid ReleaseStage''))"

fun kind_of :: "string \<Rightarrow> evidence_kind res" where
  "kind_of s = (case List.find (\<lambda>k. kind_text k = s) EVIDENCE_KINDS of
      Some k \<Rightarrow> Inr k | None \<Rightarrow> Inl (ValueError ''not a valid EvidenceKind''))"

record evidence_doc =
  ed_kind :: string
  ed_reference :: string
  ed_passed :: bool
  ed_recorded_at :: string
  ed_recorded_by :: string

record scope_doc =
  sd_stage :: string
  sd_stage_since :: string
  sd_clean_since :: string
  sd_evidence :: "evidence_doc list"
  sd_violations :: "(string, string) dict list"
  sd_history :: "(string, string) dict list"

definition evidence_dump :: "promotion_env \<Rightarrow> evidence \<Rightarrow> evidence_doc" where
  "evidence_dump env e =
     \<lparr>ed_kind = kind_text (ev_kind e), ed_reference = ev_reference e, ed_passed = ev_passed e,
      ed_recorded_at = pe_isoformat env (ev_recorded_at e), ed_recorded_by = ev_recorded_by e\<rparr>"

definition dump :: "promotion_env \<Rightarrow> scope_record \<Rightarrow> scope_doc" where
  "dump env r =
     \<lparr>sd_stage = stage_value (sr_stage r), sd_stage_since = pe_isoformat env (sr_stage_since r),
      sd_clean_since = pe_isoformat env (sr_clean_since r), sd_evidence = map (evidence_dump env) (sr_evidence r),
      sd_violations = sr_violations r, sd_history = sr_history r\<rparr>"

definition evidence_load :: "promotion_env \<Rightarrow> evidence_doc \<Rightarrow> evidence res" where
  "evidence_load env d =
     res_bind (kind_of (ed_kind d)) (\<lambda>k.
     res_bind (pe_fromisoformat env (ed_recorded_at d)) (\<lambda>t.
     Inr \<lparr>ev_kind = k, ev_reference = ed_reference d, ev_passed = ed_passed d, ev_recorded_at = t,
          ev_recorded_by = ed_recorded_by d\<rparr>))"

definition load :: "promotion_env \<Rightarrow> scope \<Rightarrow> scope_doc \<Rightarrow> scope_record res" where
  "load env s d =
     res_bind (stage_of (sd_stage d)) (\<lambda>stage.
     res_bind (pe_fromisoformat env (sd_stage_since d)) (\<lambda>since.
     res_bind (pe_fromisoformat env (sd_clean_since d)) (\<lambda>clean.
     res_bind (map_res (evidence_load env) (sd_evidence d)) (\<lambda>es.
     Inr \<lparr>sr_scope = s, sr_stage = stage, sr_stage_since = since, sr_clean_since = clean, sr_evidence = es,
          sr_violations = sd_violations d, sr_history = sd_history d\<rparr>))))"

section \<open>Registry\<close>

record registry =
  rg_engine :: bool
  rg_records :: "(string, scope_record) dict"
  rg_loaded :: bool
  rg_table :: "(string, string \<times> scope_doc \<times> instant) dict"

type_synonym 'a registry_op = "(registry, 'a) op"

definition registry_new :: "bool \<Rightarrow> (string, string \<times> scope_doc \<times> instant) dict \<Rightarrow> registry" where
  "registry_new engine table = \<lparr>rg_engine = engine, rg_records = [], rg_loaded = \<not> engine, rg_table = table\<rparr>"

definition put_record :: "scope_record \<Rightarrow> registry \<Rightarrow> registry" where
  "put_record r g = g\<lparr>rg_records := dset (scope_key (sr_scope r)) r (rg_records g)\<rparr>"

definition load_row :: "promotion_env \<Rightarrow> string \<times> string \<times> scope_doc \<times> instant \<Rightarrow> unit registry_op" where
  "load_row env row = (case row of (key, stage, doc, t) \<Rightarrow>
     op_bind (op_lift (from_key key)) (\<lambda>s.
     op_bind (op_lift (load env s doc)) (\<lambda>r.
     op_modify (put_record r))))"

definition ensure_loaded :: "promotion_env \<Rightarrow> unit registry_op" where
  "ensure_loaded env =
     op_bind (op_read (\<lambda>g. (rg_loaded g \<or> \<not> rg_engine g, rg_table g))) (\<lambda>(skip, rows).
       if skip then op_return ()
       else op_bind (op_iter (load_row env) rows) (\<lambda>_. op_modify (\<lambda>g. g\<lparr>rg_loaded := True\<rparr>)))"

definition save :: "promotion_env \<Rightarrow> bool \<Rightarrow> instant \<Rightarrow> scope_record \<Rightarrow> unit registry_op" where
  "save env ok now r =
     op_bind (op_read rg_engine) (\<lambda>engine.
       if \<not> engine then op_return ()
       else if \<not> ok then op_raise DatabaseError
       else op_modify (\<lambda>g. g\<lparr>rg_table := dset (scope_key (sr_scope r)) (stage_value (sr_stage r), dump env r, now)
              (rg_table g)\<rparr>))"

definition new_record :: "scope \<Rightarrow> instant \<Rightarrow> scope_record" where
  "new_record s now = \<lparr>sr_scope = s, sr_stage = RESEARCH, sr_stage_since = now, sr_clean_since = now,
     sr_evidence = [], sr_violations = [], sr_history = []\<rparr>"

definition record_of :: "scope \<Rightarrow> instant \<Rightarrow> scope_record registry_op" where
  "record_of s now =
     op_bind (op_read (\<lambda>g. dget (rg_records g) (scope_key s))) (\<lambda>found.
       (case found of
          Some r \<Rightarrow> op_return r
        | None \<Rightarrow> op_bind (op_modify (put_record (new_record s now))) (\<lambda>_. op_return (new_record s now))))"

definition stage_move :: "promotion_env \<Rightarrow> scope_record \<Rightarrow> release_stage \<Rightarrow> instant \<Rightarrow> string \<Rightarrow> scope_record" where
  "stage_move env r target now why =
     r\<lparr>sr_history := sr_history r @ [[(''at'', pe_isoformat env now), (''from'', stage_value (sr_stage r)),
         (''to'', stage_value target), (''why'', why)]],
       sr_stage := target, sr_stage_since := now\<rparr>"

text \<open>A record is changed in place, then saved.\<close>

definition change_record :: "promotion_env \<Rightarrow> bool \<Rightarrow> instant \<Rightarrow> scope_record \<Rightarrow> scope_record registry_op" where
  "change_record env ok now r =
     op_bind (op_modify (put_record r)) (\<lambda>_. op_bind (save env ok now r) (\<lambda>_. op_return r))"

definition registry_stage :: "promotion_env \<Rightarrow> scope \<Rightarrow> release_stage registry_op" where
  "registry_stage env s =
     op_bind (ensure_loaded env) (\<lambda>_.
     op_read (\<lambda>g. case dget (rg_records g) (scope_key s) of Some r \<Rightarrow> sr_stage r | None \<Rightarrow> RESEARCH))"

definition registry_records :: "promotion_env \<Rightarrow> scope_record list registry_op" where
  "registry_records env =
     op_bind (ensure_loaded env) (\<lambda>_.
     op_read (\<lambda>g. sort_key (\<lambda>r. scope_key (sr_scope r)) (dvalues (rg_records g))))"

definition registry_get :: "promotion_env \<Rightarrow> instant \<Rightarrow> scope \<Rightarrow> scope_record registry_op" where
  "registry_get env now s = op_bind (ensure_loaded env) (\<lambda>_. record_of s now)"

definition add_evidence ::
    "promotion_env \<Rightarrow> bool \<Rightarrow> instant \<Rightarrow> scope \<Rightarrow> evidence_kind \<Rightarrow> string \<Rightarrow> bool \<Rightarrow> string \<Rightarrow> scope_record registry_op" where
  "add_evidence env ok now s kind reference passed by_whom =
     op_bind (ensure_loaded env) (\<lambda>_.
     op_bind (record_of s now) (\<lambda>r.
     change_record env ok now (r\<lparr>sr_evidence := sr_evidence r @
       [\<lparr>ev_kind = kind, ev_reference = reference, ev_passed = passed, ev_recorded_at = now, ev_recorded_by = by_whom\<rparr>]\<rparr>)))"

definition promote ::
    "promotion_env \<Rightarrow> bool \<Rightarrow> instant \<Rightarrow> scope \<Rightarrow> release_stage \<Rightarrow> bool \<Rightarrow> string \<Rightarrow> scope_record registry_op" where
  "promote env ok now s target operator by_whom =
     op_bind (ensure_loaded env) (\<lambda>_.
     op_bind (record_of s now) (\<lambda>r.
       let reasons = gate_check env r target now operator
       in if reasons \<noteq> [] then op_raise (PromotionRefused reasons)
          else change_record env ok now (stage_move env r target now (''promoted by '' @ by_whom))))"

definition demote :: "promotion_env \<Rightarrow> bool \<Rightarrow> instant \<Rightarrow> scope \<Rightarrow> string \<Rightarrow> string \<Rightarrow> scope_record registry_op" where
  "demote env ok now s reason by_whom =
     op_bind (ensure_loaded env) (\<lambda>_.
     op_bind (record_of s now) (\<lambda>r.
       let i = stage_index (sr_stage r)
       in if 0 < i
          then change_record env ok now
                 (stage_move env r (STAGE_ORDER ! (i - 1)) now (reason @ '' ('' @ by_whom @ '')''))
          else op_return r))"

definition violated :: "promotion_env \<Rightarrow> instant \<Rightarrow> string \<Rightarrow> string \<Rightarrow> scope_record \<Rightarrow> scope_record" where
  "violated env now kind detail r =
     (let r' = r\<lparr>sr_clean_since := now, sr_violations := sr_violations r @
                   [[(''at'', pe_isoformat env now), (''kind'', kind), (''detail'', detail)]]\<rparr>
      in case DEMOTION (sr_stage r') of
           None \<Rightarrow> r'
         | Some target \<Rightarrow> stage_move env r' target now (''automatic demotion: '' @ kind))"

definition violation ::
    "promotion_env \<Rightarrow> bool \<Rightarrow> instant \<Rightarrow> string \<Rightarrow> string \<Rightarrow> string \<Rightarrow> scope_record list registry_op" where
  "violation env ok now venue kind detail =
     op_bind (ensure_loaded env) (\<lambda>_.
     op_bind (op_read (\<lambda>g. filter (\<lambda>r. sc_venue (sr_scope r) = venue) (dvalues (rg_records g)))) (\<lambda>rs.
     op_iter (\<lambda>r. change_record env ok now (violated env now kind detail r)) rs))"

section \<open>Facts about gates and keys\<close>

lemma STAGE_ORDER_index [simp]: "stage_index s < length STAGE_ORDER" "STAGE_ORDER ! stage_index s = s"
  by (cases s; simp add: STAGE_ORDER_def)+

lemma next_stage_index: "next_stage s = Some t \<longleftrightarrow> stage_index t = stage_index s + 1"
  by (cases s; cases t) (simp_all add: next_stage_def STAGE_ORDER_def)

lemma stage_before:
  "0 < stage_index s \<Longrightarrow> next_stage (STAGE_ORDER ! (stage_index s - 1)) = Some s"
  by (cases s) (simp_all add: next_stage_def STAGE_ORDER_def)

lemma DEMOTION_next: "DEMOTION s = Some t \<Longrightarrow> next_stage t = Some s"
  by (cases s) (auto simp: next_stage_def STAGE_ORDER_def)

lemma stage_value_inj [simp]: "stage_value s = stage_value t \<longleftrightarrow> s = t"
  by (cases s; cases t) simp_all

lemma stage_of_value [simp]: "stage_of (stage_value s) = Inr s"
  by (cases s) (simp_all add: STAGE_ORDER_def)

lemma kind_of_text [simp]: "kind_of (kind_text k) = Inr k"
  by (cases k) (simp_all add: EVIDENCE_KINDS_def)

declare stage_of.simps [simp del] kind_of.simps [simp del]

text \<open>The latest evidence of a kind that counts in the current stage passed.\<close>

definition evidence_passes :: "scope_record \<Rightarrow> instant \<Rightarrow> evidence_kind \<Rightarrow> bool" where
  "evidence_passes r now kind \<longleftrightarrow> fresh_evidence r now kind \<noteq> [] \<and> ev_passed (last (fresh_evidence r now kind))"

lemma gate_check_passes:
  "gate_check env r target now operator = [] \<longleftrightarrow>
     next_stage (sr_stage r) = Some target \<and> target \<noteq> LIVE
     \<and> (target = CANARY \<longrightarrow> operator \<and> MIN_PAPER_PERIOD \<le> clean_for r now)
     \<and> (\<forall>kind \<in> set (REQUIRED_EVIDENCE target). evidence_passes r now kind)"
proof -
  have "evidence_reasons r now kind = [] \<longleftrightarrow> evidence_passes r now kind" for kind
    by (simp add: evidence_reasons_def evidence_passes_def Let_def)
  then show ?thesis by (auto simp: gate_check_def OPERATOR_ONLY_def)
qed

definition good_scope :: "scope \<Rightarrow> bool" where
  "good_scope s \<longleftrightarrow> list_all (\<lambda>p. p \<noteq> [] \<and> CHR ''|'' \<notin> set p) (scope_parts s)"

lemma from_key_scope_key: "good_scope s \<Longrightarrow> from_key (scope_key s) = Inr s"
proof -
  assume "good_scope s"
  then have "split_on (CHR ''|'') (scope_key s) = scope_parts s"
    unfolding scope_key_def by (intro split_on_join) (auto simp: good_scope_def)
  with \<open>good_scope s\<close> show ?thesis by (auto simp: from_key_def good_scope_def)
qed

lemma scope_key_from_key: "from_key k = Inr s \<Longrightarrow> scope_key s = k"
  using join_split_on[of "CHR ''|''" k]
  by (auto simp: from_key_def scope_key_def split: list.splits if_splits)

section \<open>The trail of stages\<close>

text \<open>
  The history as a path through the stages: every entry starts where the one before it ended and goes
  to a neighbouring stage.
\<close>

definition follows :: "release_stage \<Rightarrow> (string, string) dict \<Rightarrow> release_stage \<Rightarrow> bool" where
  "follows s h t \<longleftrightarrow> dget h ''from'' = Some (stage_value s) \<and> dget h ''to'' = Some (stage_value t)
     \<and> (next_stage s = Some t \<or> next_stage t = Some s)"

fun trail :: "release_stage \<Rightarrow> (string, string) dict list \<Rightarrow> release_stage option" where
  "trail s [] = Some s"
| "trail s (h # hs) = (case List.find (follows s h) STAGE_ORDER of None \<Rightarrow> None | Some t \<Rightarrow> trail t hs)"

lemma find_follows: "follows s h t \<Longrightarrow> List.find (follows s h) STAGE_ORDER = Some t"
  by (cases t) (auto simp: STAGE_ORDER_def follows_def)

lemma trail_snoc: "trail s hs = Some t \<Longrightarrow> follows t h u \<Longrightarrow> trail s (hs @ [h]) = Some u"
  by (induction hs arbitrary: s) (auto simp: find_follows split: option.splits)

lemma trail_move:
  assumes "trail RESEARCH (sr_history r) = Some (sr_stage r)"
    and "next_stage (sr_stage r) = Some target \<or> next_stage target = Some (sr_stage r)"
  shows "trail RESEARCH (sr_history (stage_move env r target now why)) = Some target"
  using trail_snoc[OF assms(1)] assms(2) by (simp add: stage_move_def follows_def)

section \<open>The registry's invariant\<close>

definition sound :: "release_stage \<Rightarrow> (string, string) dict list \<Rightarrow> bool" where
  "sound stage history \<longleftrightarrow> stage \<noteq> LIVE \<and> trail RESEARCH history = Some stage"

abbreviation record_ok :: "scope_record \<Rightarrow> bool" where
  "record_ok r \<equiv> sound (sr_stage r) (sr_history r)"

definition row_ok :: "scope_doc \<Rightarrow> bool" where
  "row_ok d \<longleftrightarrow> (\<exists>st. sd_stage d = stage_value st \<and> sound st (sd_history d))"

definition registry_ok :: "registry \<Rightarrow> bool" where
  "registry_ok g \<longleftrightarrow> dict_ok (rg_records g) \<and> (\<forall>(k, r) \<in> set (rg_records g). k = scope_key (sr_scope r) \<and> record_ok r)
     \<and> (\<forall>(k, st, d, t) \<in> set (rg_table g). row_ok d)"

abbreviation keeps_ok :: "'a registry_op \<Rightarrow> bool" where
  "keeps_ok m \<equiv> contract registry_ok m (\<lambda>_. registry_ok) registry_ok"

lemma dset_forall: "\<forall>x \<in> set d. P x \<Longrightarrow> P (k, v) \<Longrightarrow> \<forall>x \<in> set (dset k v d). P x"
  by (induction d) auto

lemma registry_ok_put: "registry_ok g \<Longrightarrow> record_ok r \<Longrightarrow> registry_ok (put_record r g)"
  using dset_forall[of "rg_records g" "\<lambda>(k, r). k = scope_key (sr_scope r) \<and> record_ok r" "scope_key (sr_scope r)" r]
  by (simp add: registry_ok_def put_record_def)

lemma row_ok_dump: "record_ok r \<Longrightarrow> row_ok (dump env r)"
  by (auto simp: row_ok_def dump_def)

lemma load_ok: "load env s d = Inr r \<Longrightarrow> row_ok d \<Longrightarrow> record_ok r"
  by (auto simp: load_def row_ok_def res_bind_Inr_conv)


lemma keeps_load_row: "row_ok d \<Longrightarrow> keeps_ok (load_row env (k, st, d, t))"
  by (rule contractI) (auto simp: load_row_def elim!: op_bind_cases intro!: registry_ok_put load_ok)

lemma ensure_loaded_cases:
  assumes "ensure_loaded env g = (r, g')"
  obtains (skip) "rg_loaded g \<or> \<not> rg_engine g" "r = Inr ()" "g' = g"
  | (load) "\<not> rg_loaded g" "rg_engine g" "op_bind (op_iter (load_row env) (rg_table g)) (\<lambda>_. op_modify (\<lambda>g. g\<lparr>rg_loaded := True\<rparr>)) g = (r, g')"
  using assms by (auto simp: ensure_loaded_def op_bind_def[of "op_read _"] split: if_splits)

lemma keeps_ensure_loaded: "keeps_ok (ensure_loaded env)"
proof -
  have load: "keeps_ok (op_bind (op_iter (load_row env) rows) (\<lambda>_. op_modify (\<lambda>g. g\<lparr>rg_loaded := True\<rparr>)))"
    if "\<forall>(k, st, d, t) \<in> set rows. row_ok d" for rows
    using that
    by (intro contract_bind[OF contract_iter] contract_modify) (auto intro: keeps_load_row simp: registry_ok_def)
  have "registry_ok g'" if ok: "registry_ok g" and run: "ensure_loaded env g = (r, g')" for g r g'
    using run
  proof (cases rule: ensure_loaded_cases)
    case load': load
    have "\<forall>(k, st, d, t) \<in> set (rg_table g). row_ok d" using ok by (simp add: registry_ok_def)
    from contract_outcome[OF load[OF this] ok load'(3)] show ?thesis .
  qed (use ok in simp)
  then show ?thesis by (rule contract_outcomeI)
qed

lemma change_record_cases:
  assumes "change_record env ok now r g = (res, g')"
  obtains "rg_records g' = dset (scope_key (sr_scope r)) r (rg_records g)"
    "rg_engine g' = rg_engine g" "rg_loaded g' = rg_loaded g" "res = (if rg_engine g \<and> \<not> ok then Inl DatabaseError else Inr r)"
    "rg_table g' = (if rg_engine g \<and> ok
       then dset (scope_key (sr_scope r)) (stage_value (sr_stage r), dump env r, now) (rg_table g) else rg_table g)"
  using assms by (auto simp: change_record_def save_def put_record_def op_bind_def split: if_splits)

lemma keeps_change: "record_ok r \<Longrightarrow> keeps_ok (change_record env ok now r)"
proof -
  assume r: "record_ok r"
  have "registry_ok g'" if "registry_ok g" "change_record env ok now r g = (res, g')" for g res g'
    using that(2)
  proof (rule change_record_cases)
    assume "rg_records g' = dset (scope_key (sr_scope r)) r (rg_records g)"
      "rg_table g' = (if rg_engine g \<and> ok
         then dset (scope_key (sr_scope r)) (stage_value (sr_stage r), dump env r, now) (rg_table g) else rg_table g)"
    then show ?thesis
      using registry_ok_put[OF that(1) r] row_ok_dump[OF r, of env] that(1)
        dset_forall[of "rg_table g" "\<lambda>(k, st, d, t). row_ok d" "scope_key (sr_scope r)" "(stage_value (sr_stage r), dump env r, now)"]
      by (simp add: registry_ok_def put_record_def)
  qed
  then show ?thesis by (rule contract_outcomeI)
qed

lemma record_of_cases:
  assumes "record_of s now g = (res, g')"
  obtains r where "res = Inr r" "dget (rg_records g) (scope_key s) = Some r" "g' = g"
  | "res = Inr (new_record s now)" "dget (rg_records g) (scope_key s) = None" "g' = put_record (new_record s now) g"
  using assms by (auto simp: record_of_def op_bind_def split: option.splits)

lemma new_record_fields [simp]: "sr_scope (new_record s now) = s" "sr_stage_since (new_record s now) = now"
  by (simp_all add: new_record_def)

lemma new_record_ok: "record_ok (new_record s now)"
  by (simp add: sound_def new_record_def)

lemma registry_okD: "registry_ok g \<Longrightarrow> dget (rg_records g) k = Some r \<Longrightarrow> scope_key (sr_scope r) = k \<and> record_ok r"
  by (auto simp: registry_ok_def dest!: map_of_SomeD)

lemma keeps_record_of: "contract registry_ok (record_of s now) (\<lambda>r g. registry_ok g \<and> record_ok r) registry_ok"
  by (rule contractI) (auto elim!: record_of_cases dest: registry_okD intro: registry_ok_put simp: new_record_ok)

lemma violated_ok: "record_ok r \<Longrightarrow> record_ok (violated env now kind detail r)"
proof (cases "DEMOTION (sr_stage r)")
  case (Some t)
  assume r: "record_ok r"
  let ?r = "r\<lparr>sr_clean_since := now, sr_violations := sr_violations r @
    [[(''at'', pe_isoformat env now), (''kind'', kind), (''detail'', detail)]]\<rparr>"
  have "trail RESEARCH (sr_history (stage_move env ?r t now (''automatic demotion: '' @ kind))) = Some t"
    by (rule trail_move) (use r DEMOTION_next[OF Some] in \<open>simp_all add: sound_def\<close>)
  moreover have "t \<noteq> LIVE" using Some by (cases "sr_stage r") auto
  ultimately show ?thesis using Some by (simp add: violated_def sound_def Let_def) (simp add: stage_move_def)
qed (simp add: violated_def Let_def)


section \<open>Calls and runs\<close>

datatype registry_call =
    Stage scope
  | Records
  | Get scope
  | Add_Evidence scope evidence_kind string bool string
  | Promote scope release_stage bool string
  | Demote scope string string
  | Violation string string string

definition void :: "('s, 'a) op \<Rightarrow> ('s, unit) op" where
  "void m = op_bind m (\<lambda>_. op_return ())"

fun registry_do :: "promotion_env \<Rightarrow> bool \<Rightarrow> instant \<Rightarrow> registry_call \<Rightarrow> unit registry_op" where
  "registry_do env ok now (Stage s) = void (registry_stage env s)"
| "registry_do env ok now Records = void (registry_records env)"
| "registry_do env ok now (Get s) = void (registry_get env now s)"
| "registry_do env ok now (Add_Evidence s kind reference passed by_whom) = void (add_evidence env ok now s kind reference passed by_whom)"
| "registry_do env ok now (Promote s target operator by_whom) = void (promote env ok now s target operator by_whom)"
| "registry_do env ok now (Demote s reason by_whom) = void (demote env ok now s reason by_whom)"
| "registry_do env ok now (Violation venue kind detail) = void (violation env ok now venue kind detail)"

lemma contract_void: "contract P m (\<lambda>_. P) P \<Longrightarrow> contract P (void m) (\<lambda>_. P) P"
  unfolding void_def by (auto intro: contract_bind contract_return)

lemma keeps_with_record:
  assumes "\<And>r. record_ok r \<Longrightarrow> keeps_ok (f r)"
  shows "keeps_ok (op_bind (ensure_loaded env) (\<lambda>_. op_bind (record_of s now) f))"
proof (rule contract_bind[OF keeps_ensure_loaded])
  have "contract (\<lambda>g. registry_ok g \<and> record_ok r) (f r) (\<lambda>_. registry_ok) registry_ok" for r
    using assms[of r] by (auto simp: contract_def)
  then show "keeps_ok (op_bind (record_of s now) f)" by (rule contract_bind[OF keeps_record_of])
qed

lemma keeps_promote: "keeps_ok (promote env ok now s target operator by_whom)"
  unfolding promote_def
proof (rule keeps_with_record)
  fix r assume r: "record_ok r"
  show "keeps_ok (let reasons = gate_check env r target now operator
       in if reasons \<noteq> [] then op_raise (PromotionRefused reasons)
          else change_record env ok now (stage_move env r target now (''promoted by '' @ by_whom)))"
  proof (cases "gate_check env r target now operator = []")
    case True
    then have "next_stage (sr_stage r) = Some target" "target \<noteq> LIVE" by (auto simp: gate_check_passes)
    then have "record_ok (stage_move env r target now (''promoted by '' @ by_whom))"
      using trail_move[of r target] r by (simp add: sound_def) (simp add: stage_move_def)
    then show ?thesis using True by (simp add: Let_def keeps_change)
  qed (auto simp: Let_def contract_def)
qed

lemma keeps_demote: "keeps_ok (demote env ok now s reason by_whom)"
  unfolding demote_def
proof (rule keeps_with_record)
  fix r assume r: "record_ok r"
  let ?t = "STAGE_ORDER ! (stage_index (sr_stage r) - 1)"
  have "record_ok (stage_move env r ?t now why)" if "0 < stage_index (sr_stage r)" for why
    using trail_move[of r ?t env now why] stage_before[OF that] r
    by (cases "?t = LIVE") (simp_all add: sound_def, simp_all add: stage_move_def next_stage_def STAGE_ORDER_def)
  then show "keeps_ok (let i = stage_index (sr_stage r)
       in if 0 < i
          then change_record env ok now (stage_move env r (STAGE_ORDER ! (i - 1)) now (reason @ '' ('' @ by_whom @ '')''))
          else op_return r)"
    using keeps_change[of _ env ok now] by (auto simp: Let_def contract_def)
qed

lemma keeps_violation: "keeps_ok (violation env ok now venue kind detail)"
  unfolding violation_def
proof (rule contract_bind[OF keeps_ensure_loaded], rule contract_bind)
  show "contract registry_ok (op_read (\<lambda>g. filter (\<lambda>r. sc_venue (sr_scope r) = venue) (dvalues (rg_records g))))
      (\<lambda>rs g. registry_ok g \<and> (\<forall>r \<in> set rs. record_ok r)) registry_ok"
    by (rule contract_read) (auto simp: registry_ok_def)
  show "contract (\<lambda>g. registry_ok g \<and> (\<forall>r \<in> set rs. record_ok r))
      (op_iter (\<lambda>r. change_record env ok now (violated env now kind detail r)) rs) (\<lambda>_. registry_ok) registry_ok" for rs
  proof (cases "\<forall>r \<in> set rs. record_ok r")
    case True
    then have "keeps_ok (op_iter (\<lambda>r. change_record env ok now (violated env now kind detail r)) rs)"
      by (intro contract_iter keeps_change violated_ok) auto
    then show ?thesis by (auto simp: contract_def)
  qed (auto simp: contract_def)
qed

lemma keeps_reading: "keeps_ok (op_bind (ensure_loaded env) (\<lambda>_. op_read f))"
  by (rule contract_bind[OF keeps_ensure_loaded], rule contract_read)

lemma keeps_get: "keeps_ok (registry_get env now s)"
  unfolding registry_get_def
  by (rule contract_bind[OF keeps_ensure_loaded], rule contract_weaken[OF keeps_record_of]) simp_all

lemma keeps_add_evidence: "keeps_ok (add_evidence env ok now s kind reference passed by_whom)"
  unfolding add_evidence_def by (rule keeps_with_record, rule keeps_change) simp

lemma keeps_do: "keeps_ok (registry_do env ok now c)"
  by (cases c; simp only: registry_do.simps registry_stage_def registry_records_def; rule contract_void;
      rule keeps_promote keeps_demote keeps_violation keeps_get keeps_add_evidence keeps_reading)

text \<open>
  Every state of a registry: made over no database or over an empty table, changed by calls whose
  writes may fail, and made anew over the table of an earlier one.
\<close>

inductive registry_reach :: "promotion_env \<Rightarrow> registry \<Rightarrow> bool" for env where
  empty: "registry_reach env (registry_new engine [])"
| called: "registry_reach env g \<Longrightarrow> registry_do env ok now c g = (r, g') \<Longrightarrow> registry_reach env g'"
| restarted: "registry_reach env g \<Longrightarrow> registry_reach env (registry_new engine (rg_table g))"

lemma registry_reach_ok: "registry_reach env g \<Longrightarrow> registry_ok g"
proof (induction rule: registry_reach.induct)
  case (called g ok now c r g')
  then show ?case using contract_outcome[OF keeps_do] by blast
qed (simp_all add: registry_ok_def registry_new_def)

text \<open>The stage a loaded registry reports for a key.\<close>

definition stage_at :: "registry \<Rightarrow> string \<Rightarrow> release_stage" where
  "stage_at g k = (case dget (rg_records g) k of Some r \<Rightarrow> sr_stage r | None \<Rightarrow> RESEARCH)"

lemma stage_at_put: "stage_at (put_record r g) k = (if k = scope_key (sr_scope r) then sr_stage r else stage_at g k)"
  by (simp add: stage_at_def put_record_def)

lemma stage_at_change:
  "change_record env ok now r g = (res, g') \<Longrightarrow>
     stage_at g' k = (if k = scope_key (sr_scope r) then sr_stage r else stage_at g k)"
  by (auto simp: stage_at_def elim!: change_record_cases)

lemma stage_at_record_of:
  assumes "record_of s now g = (res, g')" "registry_ok g"
  obtains r where "res = Inr r" "scope_key (sr_scope r) = scope_key s" "sr_stage r = stage_at g (scope_key s)"
    "dget (rg_records g') (scope_key s) = Some r" "\<And>k. stage_at g' k = stage_at g k"
  using assms(1)
proof (cases rule: record_of_cases)
  case (1 r)
  then show ?thesis using that registry_okD[OF assms(2) 1(2)] by (simp add: stage_at_def)
next
  case 2
  then show ?thesis using that by (simp add: stage_at_put) (auto simp: stage_at_def new_record_def put_record_def)
qed

lemma moved_fields [simp]:
  "sr_stage (stage_move env r t now why) = t" "sr_scope (stage_move env r t now why) = sr_scope r"
  by (simp_all add: stage_move_def)

lemma violated_stage:
  "sr_stage (violated env now kind detail r) \<le> sr_stage r" "sr_scope (violated env now kind detail r) = sr_scope r"
  by (cases "sr_stage r"; simp add: violated_def stage_order_defs Let_def)+

lemma loaded_skip: "rg_loaded g \<Longrightarrow> ensure_loaded env g = (Inr (), g)"
  by (simp add: ensure_loaded_def op_bind_def)

text \<open>No write of a violation raises a stage.\<close>

lemma violation_lowers:
  assumes ok: "registry_ok g" and loaded: "rg_loaded g" and run: "violation env w now venue kind detail g = (res, g')"
  shows "stage_at g' k \<le> stage_at g k"
proof -
  let ?below = "\<lambda>h. \<forall>k. stage_at h k \<le> stage_at g k"
  let ?rs = "filter (\<lambda>r. sc_venue (sr_scope r) = venue) (dvalues (rg_records g))"
  have iter: "op_iter (\<lambda>r. change_record env w now (violated env now kind detail r)) ?rs g = (res, g')"
    using run loaded by (simp add: violation_def loaded_skip)
  have "contract ?below (change_record env w now (violated env now kind detail r)) (\<lambda>_. ?below) ?below"
    if r: "r \<in> set ?rs" for r
  proof -
    obtain k' where "(k', r) \<in> set (rg_records g)" using r by auto
    then have "dget (rg_records g) (scope_key (sr_scope r)) = Some r"
      using ok by (auto simp: registry_ok_def)
    then have "sr_stage (violated env now kind detail r) \<le> stage_at g (scope_key (sr_scope r))"
      using violated_stage(1)[of env now kind detail r] by (simp add: stage_at_def)
    then show ?thesis
      by (intro contractI) (auto simp: violated_stage(2) stage_at_change)
  qed
  then have "contract ?below (op_iter (\<lambda>r. change_record env w now (violated env now kind detail r)) ?rs) (\<lambda>_. ?below) ?below"
    by (rule contract_iter)
  from contract_outcome[OF this _ iter] show ?thesis by simp
qed


lemma void_run: "void m g = (res, g') \<Longrightarrow> \<exists>r. m g = (r, g')"
  by (auto simp: void_def op_bind_def split: prod.splits sum.splits)

lemma change_only_key:
  assumes "registry_ok g" "op_bind (record_of s now) (\<lambda>r. change_record env ok now (f r)) g = (res, g')"
    and "\<And>r. sr_scope (f r) = sr_scope r" "\<And>r. sr_stage (f r) \<le> sr_stage r"
  shows "stage_at g' k \<le> stage_at g k"
proof -
  obtain q g1 where rec: "record_of s now g = (q, g1)" by fastforce
  then obtain r where r: "q = Inr r" "scope_key (sr_scope r) = scope_key s" "sr_stage r = stage_at g (scope_key s)"
    "\<And>k. stage_at g1 k = stage_at g k" using assms(1) by (rule stage_at_record_of) blast
  have "change_record env ok now (f r) g1 = (res, g')" using assms(2) rec r(1) by simp
  from stage_at_change[OF this] r assms(3,4) show ?thesis by (metis order_refl)
qed

text \<open>Only \<^verbatim>\<open>promote\<close> raises a stage, and only through the gate.\<close>

lemma promote_gate:
  assumes "registry_ok g" "rg_loaded g" "promote env ok now s target operator by_whom g = (res, g')"
    and "stage_at g k < stage_at g' k"
  obtains r where "k = scope_key s" "stage_at g' k = target" "sr_stage r = stage_at g k"
    "dget (rg_records g) k = Some r \<or> dget (rg_records g) k = None \<and> r = new_record s now"
    "gate_check env r target now operator = []"
proof -
  obtain q g1 where rec: "record_of s now g = (q, g1)" by fastforce
  then obtain r where r: "q = Inr r" "scope_key (sr_scope r) = scope_key s" "sr_stage r = stage_at g (scope_key s)"
    "\<And>k. stage_at g1 k = stage_at g k" using assms(1) by (rule stage_at_record_of) blast
  have found: "dget (rg_records g) (scope_key s) = Some r \<or> dget (rg_records g) (scope_key s) = None \<and> r = new_record s now"
    using rec r(1) by (auto elim!: record_of_cases)
  show ?thesis
  proof (cases "gate_check env r target now operator = []")
    case True
    then have "change_record env ok now (stage_move env r target now (''promoted by '' @ by_whom)) g1 = (res, g')"
      using assms(2,3) rec r(1) by (simp add: promote_def loaded_skip)
    from stage_at_change[OF this, of k] assms(4) r have "k = scope_key s" "stage_at g' k = target"
      by (auto split: if_splits)
    then show ?thesis using that r found True by simp
  next
    case False
    then have "g' = g1" using assms(2,3) rec r(1) by (simp add: promote_def loaded_skip)
    then show ?thesis using assms(4) r by simp
  qed
qed

lemma demote_lowers:
  assumes "registry_ok g" "rg_loaded g" "demote env ok now s reason by_whom g = (res, g')"
  shows "stage_at g' k \<le> stage_at g k"
proof -
  obtain q g1 where rec: "record_of s now g = (q, g1)" by fastforce
  then obtain r where r: "q = Inr r" "scope_key (sr_scope r) = scope_key s" "sr_stage r = stage_at g (scope_key s)"
    "\<And>k. stage_at g1 k = stage_at g k" using assms(1) by (rule stage_at_record_of) blast
  let ?i = "stage_index (sr_stage r)"
  have "op_bind (record_of s now) (\<lambda>r. let i = stage_index (sr_stage r)
       in if 0 < i
          then change_record env ok now (stage_move env r (STAGE_ORDER ! (i - 1)) now (reason @ '' ('' @ by_whom @ '')''))
          else op_return r) g = (res, g')" using assms(2,3) by (simp add: demote_def loaded_skip)
  then have run: "(if 0 < ?i
        then change_record env ok now (stage_move env r (STAGE_ORDER ! (?i - 1)) now (reason @ '' ('' @ by_whom @ '')'')) g1
        else op_return r g1) = (res, g')" using rec r(1) by (simp add: Let_def split: if_splits)
  show ?thesis
  proof (cases "0 < ?i")
    case True
    have "STAGE_ORDER ! (?i - 1) \<le> sr_stage r"
      using stage_before[OF True] by (simp add: next_stage_index stage_order_defs)
    then show ?thesis using run True stage_at_change[of env ok now _ g1 res g' k] r by auto
  qed (use run r in simp)
qed


lemma other_calls_lower:
  assumes "registry_ok g" "rg_loaded g" "registry_do env ok now c g = (res, g')"
    and "\<And>s target operator by_whom. c \<noteq> Promote s target operator by_whom"
  shows "stage_at g' k \<le> stage_at g k"
proof (cases c)
  case (Get s)
  then obtain q where "registry_get env now s g = (q, g')" using assms(3) void_run by fastforce
  then have "record_of s now g = (q, g')" using assms(2) by (simp add: registry_get_def loaded_skip)
  then show ?thesis using assms(1) by (auto elim!: stage_at_record_of)
next
  case (Add_Evidence s kind reference passed by_whom)
  then show ?thesis using assms(2,3) void_run[of _ g res g'] change_only_key[OF assms(1)]
    by (fastforce simp: add_evidence_def loaded_skip)
next
  case (Demote s reason by_whom)
  then show ?thesis using assms(3) void_run demote_lowers[OF assms(1,2)] by fastforce
next
  case (Violation venue kind detail)
  then show ?thesis using assms(3) void_run violation_lowers[OF assms(1,2)] by fastforce
qed (use assms in \<open>auto simp: registry_stage_def registry_records_def loaded_skip void_def op_bind_def\<close>)

section \<open>The database copy\<close>

definition iso_ok :: "promotion_env \<Rightarrow> bool" where
  "iso_ok env \<longleftrightarrow> (\<forall>t. pe_fromisoformat env (pe_isoformat env t) = Inr t)"

lemma load_dump:
  assumes "iso_ok env"
  shows "load env (sr_scope r) (dump env r) = Inr r"
proof -
  have "evidence_load env (evidence_dump env e) = Inr e" for e
    using assms by (simp add: iso_ok_def evidence_load_def evidence_dump_def)
  then have "map_res (evidence_load env) (map (evidence_dump env) es) = Inr es" for es
    by (induction es) simp_all
  then show ?thesis using assms by (simp add: iso_ok_def load_def dump_def)
qed

text \<open>A record is in the table as it is in memory, or new and in memory only.\<close>

definition entry_saved :: "promotion_env \<Rightarrow> registry \<Rightarrow> string \<Rightarrow> scope_record \<Rightarrow> bool" where
  "entry_saved env g k r \<longleftrightarrow> good_scope (sr_scope r) \<and> scope_key (sr_scope r) = k
     \<and> (case dget (rg_table g) k of
          Some (st, d, t) \<Rightarrow> d = dump env r
        | None \<Rightarrow> r = new_record (sr_scope r) (sr_stage_since r))"

definition synced :: "promotion_env \<Rightarrow> registry \<Rightarrow> bool" where
  "synced env g \<longleftrightarrow> rg_engine g \<and> rg_loaded g \<and> dict_ok (rg_table g) \<and> dict_ok (rg_records g)
     \<and> (\<forall>k. dget (rg_records g) k = None \<longrightarrow> dget (rg_table g) k = None)
     \<and> (\<forall>k r. dget (rg_records g) k = Some r \<longrightarrow> entry_saved env g k r)"

abbreviation keeps_synced :: "promotion_env \<Rightarrow> 'a registry_op \<Rightarrow> bool" where
  "keeps_synced env m \<equiv> contract (synced env) m (\<lambda>_. synced env) (synced env)"

lemma synced_change: "good_scope (sr_scope r) \<Longrightarrow> keeps_synced env (change_record env True now r)"
  by (rule contract_outcomeI) (auto elim!: change_record_cases simp: synced_def entry_saved_def split: if_splits)

lemma synced_loaded: "keeps_synced env (ensure_loaded env)"
  by (rule contract_outcomeI) (simp add: loaded_skip synced_def)

lemma synced_record_of:
  "good_scope s \<Longrightarrow> contract (synced env) (record_of s now) (\<lambda>r g. synced env g \<and> good_scope (sr_scope r)) (synced env)"
  by (rule contractI)
     (auto elim!: record_of_cases simp: synced_def entry_saved_def put_record_def split: if_splits)

lemma synced_with_record:
  assumes "good_scope s" "\<And>r. good_scope (sr_scope r) \<Longrightarrow> keeps_synced env (f r)"
  shows "keeps_synced env (op_bind (ensure_loaded env) (\<lambda>_. op_bind (record_of s now) f))"
proof (rule contract_bind[OF synced_loaded])
  have "contract (\<lambda>g. synced env g \<and> good_scope (sr_scope r)) (f r) (\<lambda>_. synced env) (synced env)" for r
    using assms(2)[of r] by (auto simp: contract_def)
  then show "keeps_synced env (op_bind (record_of s now) f)" by (rule contract_bind[OF synced_record_of[OF assms(1)]])
qed

lemma synced_records: "synced env g \<Longrightarrow> (k, r) \<in> set (rg_records g) \<Longrightarrow> good_scope (sr_scope r)"
  by (auto simp: synced_def entry_saved_def)

lemma synced_violation: "keeps_synced env (violation env True now venue kind detail)"
  unfolding violation_def
proof (rule contract_bind[OF synced_loaded], rule contract_bind)
  show "contract (synced env) (op_read (\<lambda>g. filter (\<lambda>r. sc_venue (sr_scope r) = venue) (dvalues (rg_records g))))
      (\<lambda>rs g. synced env g \<and> (\<forall>r \<in> set rs. good_scope (sr_scope r))) (synced env)"
    by (rule contract_read) (auto dest: synced_records)
  show "contract (\<lambda>g. synced env g \<and> (\<forall>r \<in> set rs. good_scope (sr_scope r)))
      (op_iter (\<lambda>r. change_record env True now (violated env now kind detail r)) rs) (\<lambda>_. synced env) (synced env)" for rs
  proof (cases "\<forall>r \<in> set rs. good_scope (sr_scope r)")
    case True
    then have "keeps_synced env (op_iter (\<lambda>r. change_record env True now (violated env now kind detail r)) rs)"
      by (intro contract_iter synced_change) (auto simp: violated_stage(2))
    then show ?thesis by (auto simp: contract_def)
  qed (auto simp: contract_def)
qed

fun call_scope :: "registry_call \<Rightarrow> scope option" where
  "call_scope (Get s) = Some s"
| "call_scope (Add_Evidence s _ _ _ _) = Some s"
| "call_scope (Promote s _ _ _) = Some s"
| "call_scope (Demote s _ _) = Some s"
| "call_scope _ = None"

lemma synced_do:
  assumes "pred_option good_scope (call_scope c)"
  shows "keeps_synced env (registry_do env True now c)"
proof -
  have rd: "keeps_synced env (op_bind (ensure_loaded env) (\<lambda>_. op_read f))" for f :: "registry \<Rightarrow> 'b"
    by (rule contract_bind[OF synced_loaded], rule contract_read)
  have get: "keeps_synced env (registry_get env now s)" if "good_scope s" for s
    unfolding registry_get_def
    by (rule contract_bind[OF synced_loaded], rule contract_weaken[OF synced_record_of[OF that]]) simp_all
  have raise_or: "keeps_synced env (if b then op_raise e else m)" if "keeps_synced env m" for b e and m :: "'c registry_op"
    using that by (auto simp: contract_def)
  have or_return: "keeps_synced env (if b then m else op_return r)" if "keeps_synced env m" for b r and m :: "'d registry_op"
    using that by (auto simp: contract_def)
  have pro: "keeps_synced env (promote env True now s target operator by_whom)" if "good_scope s" for s target operator by_whom
    unfolding promote_def Let_def by (rule synced_with_record[OF that], rule raise_or, rule synced_change) simp
  have dem: "keeps_synced env (demote env True now s reason by_whom)" if "good_scope s" for s reason by_whom
    unfolding demote_def Let_def by (rule synced_with_record[OF that], rule or_return, rule synced_change) simp
  have evd: "keeps_synced env (add_evidence env True now s kind reference passed by_whom)" if "good_scope s"
    for s kind reference passed by_whom
    unfolding add_evidence_def by (rule synced_with_record[OF that], rule synced_change) simp
  show ?thesis
    by (use assms in \<open>cases c\<close>; simp only: registry_do.simps registry_stage_def registry_records_def)
       (rule contract_void, rule rd get synced_violation pro dem evd, (simp; fail)?)+
qed


text \<open>Runs whose calls name well-formed scopes and whose writes succeed.\<close>

inductive saved_run :: "promotion_env \<Rightarrow> registry \<Rightarrow> bool" for env where
  opened: "ensure_loaded env (registry_new True []) = (Inr (), g) \<Longrightarrow> saved_run env g"
| called: "saved_run env g \<Longrightarrow> pred_option good_scope (call_scope c) \<Longrightarrow> registry_do env True now c g = (r, g')
     \<Longrightarrow> saved_run env g'"

lemma saved_run_synced: "saved_run env g \<Longrightarrow> synced env g"
proof (induction rule: saved_run.induct)
  case (called g c now r g')
  then show ?case using contract_outcome[OF synced_do] by blast
qed (auto simp: ensure_loaded_def op_bind_def registry_new_def synced_def)

lemma load_rows:
  assumes "iso_ok env"
    and "\<forall>(k, st, d, t) \<in> set rows. d = dump env (R k) \<and> good_scope (sr_scope (R k)) \<and> scope_key (sr_scope (R k)) = k"
  shows "\<exists>us g'. op_iter (load_row env) rows g = (Inr us, g')
     \<and> (\<forall>k. dget (rg_records g') k = (if k \<in> fst ` set rows then Some (R k) else dget (rg_records g) k))"
  using assms(2)
proof (induction rows arbitrary: g)
  case (Cons row rows)
  obtain k st d t where row: "row = (k, st, d, t)" by (cases row)
  then have r: "d = dump env (R k)" "good_scope (sr_scope (R k))" "scope_key (sr_scope (R k)) = k" using Cons.prems by auto
  have one: "load_row env row g = (Inr (), put_record (R k) g)"
    using from_key_scope_key[OF r(2)] load_dump[OF assms(1), of "R k"] r by (simp add: load_row_def row)
  obtain us g' where rest: "op_iter (load_row env) rows (put_record (R k) g) = (Inr us, g')"
    and known: "\<forall>j. dget (rg_records g') j = (if j \<in> fst ` set rows then Some (R j) else dget (rg_records (put_record (R k) g)) j)"
    using Cons.IH[of "put_record (R k) g"] Cons.prems by auto
  show ?case using one rest known r(3) row by (simp add: put_record_def)
qed simp

lemma synced_reload:
  assumes "iso_ok env" "synced env g"
  shows "\<exists>g'. ensure_loaded env (registry_new True (rg_table g)) = (Inr (), g')
    \<and> (\<forall>k. dget (rg_records g') k = (if dget (rg_table g) k = None then None else dget (rg_records g) k))"
proof -
  let ?R = "\<lambda>k. the (dget (rg_records g) k)"
  have rows: "d = dump env (?R k) \<and> good_scope (sr_scope (?R k)) \<and> scope_key (sr_scope (?R k)) = k"
    and found: "dget (rg_records g) k = Some (?R k)" if "(k, st, d, t) \<in> set (rg_table g)" for k st d t
  proof -
    have row: "dget (rg_table g) k = Some (st, d, t)" using that assms(2) by (simp add: synced_def)
    then obtain r where r: "dget (rg_records g) k = Some r" using assms(2) by (cases "dget (rg_records g) k") (auto simp: synced_def)
    have "entry_saved env g k r" using assms(2) r by (simp only: synced_def)
    with r show "d = dump env (?R k) \<and> good_scope (sr_scope (?R k)) \<and> scope_key (sr_scope (?R k)) = k"
      "dget (rg_records g) k = Some (?R k)"
      using row by (simp_all add: entry_saved_def)
  qed
  obtain us g' where load: "op_iter (load_row env) (rg_table g) (registry_new True (rg_table g)) = (Inr us, g')"
    "\<forall>k. dget (rg_records g') k = (if k \<in> fst ` set (rg_table g) then Some (?R k) else None)"
    using load_rows[OF assms(1), of "rg_table g" ?R "registry_new True (rg_table g)"] rows
    by (fastforce simp: registry_new_def)
  have "ensure_loaded env (registry_new True (rg_table g)) = (Inr (), g'\<lparr>rg_loaded := True\<rparr>)"
    using load(1) by (simp add: ensure_loaded_def op_bind_def) (simp add: registry_new_def)
  moreover have "dget (rg_records g') k = (if dget (rg_table g) k = None then None else dget (rg_records g) k)" for k
    using load(2) found by (auto simp: map_of_eq_None_iff)
  ultimately show ?thesis by simp
qed

section \<open>Properties\<close>

text \<open>
  C24: A scope rises only through its gate. In every reachable, loaded registry, a call after which
  some scope's stage is higher than before is a promotion of that scope, to the stage right above its
  own and not to LIVE; the latest evidence of every kind the target requires, recorded in the current
  stage and within 14 days, passed; and for CANARY an operator asked for it and the scope has been in
  PAPER without a violation for 7 days. No other call, and no automation, raises a stage.
\<close>

theorem stage_rises_only_through_gate:
  assumes "registry_reach env g" "rg_loaded g" "registry_do env ok now c g = (res, g')" "stage_at g k < stage_at g' k"
  shows "\<exists>s target operator by_whom r. c = Promote s target operator by_whom \<and> k = scope_key s \<and> stage_at g' k = target
    \<and> (dget (rg_records g) k = Some r \<or> dget (rg_records g) k = None \<and> r = new_record s now)
    \<and> next_stage (stage_at g k) = Some target \<and> target \<noteq> LIVE
    \<and> (target = CANARY \<longrightarrow> operator \<and> days 7 \<le> now - max (sr_stage_since r) (sr_clean_since r))
    \<and> (\<forall>kind \<in> set (REQUIRED_EVIDENCE target). evidence_passes r now kind)"
proof -
  note ok = registry_reach_ok[OF assms(1)]
  obtain s target operator by_whom where c: "c = Promote s target operator by_whom"
    using other_calls_lower[OF ok assms(2,3), of k] assms(4) by (metis not_le)
  then obtain q where "promote env ok now s target operator by_whom g = (q, g')" using assms(3) void_run by fastforce
  from ok assms(2) this assms(4) obtain r where r: "k = scope_key s" "stage_at g' k = target" "sr_stage r = stage_at g k"
    "dget (rg_records g) k = Some r \<or> dget (rg_records g) k = None \<and> r = new_record s now"
    "gate_check env r target now operator = []" by (rule promote_gate)
  then show ?thesis using c by (auto simp: gate_check_passes MIN_PAPER_PERIOD_def clean_for_def)
qed

text \<open>
  C25: Every stage is accounted for and LIVE is never reached. In every reachable registry, with failing
  writes and restarts in between, every record's history is a path that starts at RESEARCH, moves one
  stage at a time and ends at the record's stage, which is not LIVE; the record stands under its own
  scope's key.
\<close>

theorem stage_history_complete:
  assumes "registry_reach env g" "dget (rg_records g) k = Some r"
  shows "k = scope_key (sr_scope r) \<and> trail RESEARCH (sr_history r) = Some (sr_stage r) \<and> sr_stage r \<noteq> LIVE"
  using registry_okD[OF registry_reach_ok[OF assms(1)] assms(2)] by (simp add: sound_def)

text \<open>
  C26: The registry survives a restart. After any run of calls on well-formed scopes whose writes
  succeed, a new registry over the same table loads, reports the same stage for every scope, and has
  every record it had, except the ones never changed since they were made, which are new RESEARCH
  records without evidence.
\<close>

theorem registry_survives_restart:
  assumes "iso_ok env" "saved_run env g"
  shows "\<exists>g'. ensure_loaded env (registry_new True (rg_table g)) = (Inr (), g')
    \<and> (\<forall>k. stage_at g' k = stage_at g k)
    \<and> (\<forall>k r. dget (rg_records g) k = Some r \<longrightarrow>
          dget (rg_records g') k = Some r \<or> r = new_record (sr_scope r) (sr_stage_since r))"
proof -
  note sy = saved_run_synced[OF assms(2)]
  obtain g' where load: "ensure_loaded env (registry_new True (rg_table g)) = (Inr (), g')"
    "\<forall>k. dget (rg_records g') k = (if dget (rg_table g) k = None then None else dget (rg_records g) k)"
    using synced_reload[OF assms(1) sy] by blast
  have fresh: "r = new_record (sr_scope r) (sr_stage_since r)"
    if "dget (rg_records g) k = Some r" "dget (rg_table g) k = None" for k r
    using sy that by (fastforce simp: synced_def entry_saved_def)
  have "stage_at g' k = stage_at g k" for k
    using load(2) fresh[of k] by (cases "dget (rg_records g) k") (auto simp: stage_at_def, metis new_record_def scope_record.select_convs(2))
  then show ?thesis using load fresh by (metis (full_types))
qed


section \<open>Witnesses\<close>

text \<open>Instants as signed binary numbers.\<close>

fun bits :: "int \<Rightarrow> string" where
  "bits n = (if n \<le> 0 then [] else (if n mod 2 = 1 then CHR ''1'' else CHR ''0'') # bits (n div 2))"

declare bits.simps [simp del]

fun unbits :: "string \<Rightarrow> int" where
  "unbits [] = 0"
| "unbits (c # cs) = (if c = CHR ''1'' then 1 else 0) + 2 * unbits cs"

lemma unbits_bits [simp]: "0 \<le> n \<Longrightarrow> unbits (bits n) = n"
proof (induction n rule: bits.induct)
  case (1 n)
  then show ?case by (subst bits.simps) (auto, presburger+)
qed

definition ex_iso :: "instant \<Rightarrow> string" where
  "ex_iso t = (if 0 \<le> t then CHR ''+'' else CHR ''-'') # bits \<bar>t\<bar>"

definition ex_uniso :: "string \<Rightarrow> instant res" where
  "ex_uniso s = (case s of [] \<Rightarrow> Inl (ValueError ''isoformat'')
     | c # cs \<Rightarrow> Inr (if c = CHR ''+'' then unbits cs else - unbits cs))"

definition ex_promo :: promotion_env where
  "ex_promo = \<lparr>pe_isoformat = ex_iso, pe_fromisoformat = ex_uniso, pe_days_text = (\<lambda>_. ''0.0'')\<rparr>"

lemma ex_promo_iso: "iso_ok ex_promo"
  by (simp add: iso_ok_def ex_promo_def ex_iso_def ex_uniso_def)

definition ex_scope :: scope where
  "ex_scope = \<lparr>sc_account = ''a'', sc_venue = ''BINANCE_SPOT'', sc_strategy_id = ''s'', sc_model_version = ''1'',
     sc_credential_id = ''c''\<rparr>"

lemma ex_scope_good: "good_scope ex_scope"
  by (simp add: good_scope_def ex_scope_def)

definition ex_calls :: "(instant \<times> registry_call) list" where
  "ex_calls =
     [(0, Promote ex_scope REPLAY False ''bot''), (1, Add_Evidence ex_scope REPLAY_REPRODUCIBLE ''r'' True ''ci''),
      (2, Promote ex_scope SHADOW False ''bot''), (3, Add_Evidence ex_scope SHADOW_COMPARISON ''r'' True ''ci''),
      (4, Promote ex_scope STAGE_PAPER False ''bot''), (5, Add_Evidence ex_scope ADVERSARIAL_SUITE ''r'' True ''ci''),
      (6, Add_Evidence ex_scope RECOVERY_DRILL ''r'' True ''ci''), (7, Add_Evidence ex_scope ROLLBACK_DRILL ''r'' True ''ci''),
      (8, Add_Evidence ex_scope WATCHDOG_ACTIVE ''r'' True ''ci'')]"

definition ex_run :: "registry \<Rightarrow> registry" where
  "ex_run g = fold (\<lambda>(now, c) g. snd (registry_do ex_promo True now c g)) ex_calls g"

lemma run_reach:
  "registry_reach env g \<Longrightarrow> registry_reach env (fold (\<lambda>(now, c) g. snd (registry_do env True now c g)) calls g)"
  by (induction calls arbitrary: g) (auto, metis registry_reach.called prod.collapse)

lemma run_saved:
  assumes "saved_run env g" "\<forall>(now, c) \<in> set calls. pred_option good_scope (call_scope c)"
  shows "saved_run env (fold (\<lambda>(now, c) g. snd (registry_do env True now c g)) calls g)"
  using assms
proof (induction calls arbitrary: g)
  case (Cons call calls)
  obtain now c where call: "call = (now, c)" by (cases call)
  obtain r g' where run: "registry_do env True now c g = (r, g')" by fastforce
  have "saved_run env g'" by (rule saved_run.called[OF Cons.prems(1) _ run]) (use Cons.prems(2) call in simp)
  then show ?case using Cons call run by simp
qed simp

abbreviation ex_key :: string where "ex_key \<equiv> ''a|BINANCE_SPOT|s|1|c''"
abbreviation ex_canary :: registry_call where "ex_canary \<equiv> Promote ex_scope CANARY True ''owner''"

lemma ex_run_paper:
  "(let g = ex_run (registry_new False []) in stage_at g ex_key = STAGE_PAPER \<and> rg_loaded g
     \<and> stage_at (snd (registry_do ex_promo True (days 7 + 4) ex_canary g)) ex_key = CANARY
     \<and> dget (rg_records g) ex_key \<noteq> None
     \<and> \<not> returned (fst (registry_do ex_promo True (days 7 + 3) ex_canary g)))"
  by code_simp

lemma ex_run_reach: "registry_reach ex_promo (ex_run (registry_new False []))"
  unfolding ex_run_def by (rule run_reach, rule registry_reach.empty)

theorem stage_rises_only_through_gate_witness:
  "\<exists>r. dget (rg_records (ex_run (registry_new False []))) ex_key = Some r \<and> evidence_passes r (days 7 + 4) WATCHDOG_ACTIVE
     \<and> days 7 \<le> days 7 + 4 - max (sr_stage_since r) (sr_clean_since r)"
proof -
  let ?g = "ex_run (registry_new False [])"
  obtain res g' where run: "registry_do ex_promo True (days 7 + 4) ex_canary ?g = (res, g')" by fastforce
  have st: "rg_loaded ?g" "stage_at ?g ex_key = STAGE_PAPER" "stage_at g' ex_key = CANARY" "dget (rg_records ?g) ex_key \<noteq> None"
    using ex_run_paper run by (simp_all add: Let_def)
  then have "stage_at ?g ex_key < stage_at g' ex_key" by (simp add: stage_order_defs)
  from stage_rises_only_through_gate[OF ex_run_reach st(1) run this] show ?thesis using st(3,4) by auto
qed

theorem stage_history_complete_witness:
  "\<exists>r. dget (rg_records (ex_run (registry_new False []))) ex_key = Some r \<and> trail RESEARCH (sr_history r) = Some STAGE_PAPER"
proof -
  let ?g = "ex_run (registry_new False [])"
  obtain r where r: "dget (rg_records ?g) ex_key = Some r" "sr_stage r = STAGE_PAPER"
    using ex_run_paper by (auto simp: Let_def stage_at_def split: option.splits)
  then show ?thesis using stage_history_complete[OF ex_run_reach r(1)] by auto
qed

theorem registry_survives_restart_witness:
  "\<exists>g g'. saved_run ex_promo g \<and> ensure_loaded ex_promo (registry_new True (rg_table g)) = (Inr (), g')
     \<and> stage_at g' ex_key = STAGE_PAPER"
proof -
  let ?new = "(registry_new True [])\<lparr>rg_loaded := True\<rparr>"
  have "saved_run ex_promo ?new"
    by (rule saved_run.opened) (simp add: ensure_loaded_def op_bind_def registry_new_def)
  then have run: "saved_run ex_promo (ex_run ?new)"
    unfolding ex_run_def by (rule run_saved) (simp add: ex_calls_def ex_scope_good)
  have "stage_at (ex_run ?new) ex_key = STAGE_PAPER" by code_simp
  then show ?thesis using registry_survives_restart[OF ex_promo_iso run] run by metis
qed

end
