(* ===== verification/Json.thy ===== *)
theory Json
  imports Contracts
begin

text \<open>
  JSON values as the Python sources use them: the canonical text of the journal
  (\<^verbatim>\<open>canonical_json\<close> in \<^verbatim>\<open>services/events/journal.py\<close>) and a reader of its strings and integers, with
  which the text is shown to determine the value.
\<close>

section \<open>Canonical JSON\<close>

text \<open>A float is its \<^verbatim>\<open>repr\<close>, or \<open>None\<close> when it is not finite.\<close>

datatype json =
    JNull
  | JBool bool
  | JInt int
  | JFloat "string option"
  | JStr string
  | JList "json list"
  | JObj "(string \<times> json) list"

definition hex_digit :: "nat \<Rightarrow> char" where
  "hex_digit n = ''0123456789abcdef'' ! n"

text \<open>\<^verbatim>\<open>json.dumps(..., ensure_ascii=False)\<close> of one character.\<close>

definition esc :: "char \<Rightarrow> string" where
  "esc c =
     (if c = CHR 0x22 then [CHR 0x5C, CHR 0x22]
      else if c = CHR 0x5C then [CHR 0x5C, CHR 0x5C]
      else if c = CHR 0x0A then [CHR 0x5C, CHR ''n'']
      else if c = CHR 0x0D then [CHR 0x5C, CHR ''r'']
      else if c = CHR 0x09 then [CHR 0x5C, CHR ''t'']
      else if c = CHR 0x0C then [CHR 0x5C, CHR ''f'']
      else if c = CHR 0x08 then [CHR 0x5C, CHR ''b'']
      else if (of_char c :: nat) < 32
      then [CHR 0x5C, CHR ''u'', CHR ''0'', CHR ''0'', hex_digit (of_char c div 16), hex_digit (of_char c mod 16)]
      else [c])"

definition json_str :: "string \<Rightarrow> string" where
  "json_str s = CHR 0x22 # concat (map esc s) @ [CHR 0x22]"

fun json_finite :: "json \<Rightarrow> bool" where
  "json_finite (JFloat r) = (r \<noteq> None)"
| "json_finite (JList vs) = list_all json_finite vs"
| "json_finite (JObj kvs) = list_all (\<lambda>(k, v). json_finite v) kvs"
| "json_finite _ = True"

text \<open>\<^verbatim>\<open>sort_keys=True, separators=(",", ":")\<close>.\<close>

fun json_text :: "json \<Rightarrow> string" where
  "json_text JNull = ''null''"
| "json_text (JBool b) = (if b then ''true'' else ''false'')"
| "json_text (JInt i) = int_str i"
| "json_text (JFloat r) = (case r of Some t \<Rightarrow> t | None \<Rightarrow> ''NaN'')"
| "json_text (JStr s) = json_str s"
| "json_text (JList vs) = ''['' @ join '','' (map json_text vs) @ '']''"
| "json_text (JObj kvs) =
     ''{'' @ join '','' (map (\<lambda>(k, t). json_str k @ '':'' @ t) (sort_key fst (map (\<lambda>(k, v). (k, json_text v)) kvs))) @ ''}''"

section \<open>Documents as dictionaries\<close>

type_synonym json_dict = "(string, json) dict"

text \<open>\<^verbatim>\<open>d.get(key)\<close>, where a missing key and a null are both \<^verbatim>\<open>None\<close>.\<close>

definition jget :: "json_dict \<Rightarrow> string \<Rightarrow> json" where
  "jget d k = (case dget d k of None \<Rightarrow> JNull | Some v \<Rightarrow> v)"

text \<open>Truth value of a JSON value.\<close>

fun json_true :: "json \<Rightarrow> bool" where
  "json_true JNull = False"
| "json_true (JBool b) = b"
| "json_true (JInt i) = (i \<noteq> 0)"
| "json_true (JFloat r) = (r \<notin> {Some ''0.0'', Some ''-0.0''})"
| "json_true (JStr s) = (s \<noteq> [])"
| "json_true (JList vs) = (vs \<noteq> [])"
| "json_true (JObj kvs) = (kvs \<noteq> [])"

section \<open>Reading back canonical JSON\<close>

text \<open>A reader of one JSON string: its content and what follows the closing quote.\<close>

definition hex_value :: "char \<Rightarrow> nat" where
  "hex_value c = (let n = of_char c in if n < 58 then n - 48 else n - 87)"

definition short_escape :: "char \<Rightarrow> char" where
  "short_escape c =
     (if c = CHR ''n'' then CHR 0x0A else if c = CHR ''r'' then CHR 0x0D else if c = CHR ''t'' then CHR 0x09
      else if c = CHR ''f'' then CHR 0x0C else if c = CHR ''b'' then CHR 0x08 else c)"

definition push :: "char \<Rightarrow> (string \<times> string) option \<Rightarrow> (string \<times> string) option" where
  "push c r = map_option (\<lambda>(s, rest). (c # s, rest)) r"

fun read_str :: "string \<Rightarrow> (string \<times> string) option" where
  "read_str (c # d # z1 # z2 # h # l # cs) =
     (if c = CHR 0x22 then Some ([], d # z1 # z2 # h # l # cs)
      else if c = CHR 0x5C \<and> d = CHR ''u'' then push (char_of (16 * hex_value h + hex_value l)) (read_str cs)
      else if c = CHR 0x5C then push (short_escape d) (read_str (z1 # z2 # h # l # cs))
      else push c (read_str (d # z1 # z2 # h # l # cs)))"
| "read_str (c # d # cs) =
     (if c = CHR 0x22 then Some ([], d # cs)
      else if c = CHR 0x5C then push (short_escape d) (read_str cs)
      else push c (read_str (d # cs)))"
| "read_str [c] = (if c = CHR 0x22 then Some ([], []) else None)"
| "read_str [] = None"

lemma read_quote: "read_str (CHR 0x22 # rest) = Some ([], rest)"
  by (cases "CHR 0x22 # rest" rule: read_str.cases) auto

lemma read_plain: "c \<noteq> CHR 0x22 \<Longrightarrow> c \<noteq> CHR 0x5C \<Longrightarrow> rest \<noteq> [] \<Longrightarrow> read_str (c # rest) = push c (read_str rest)"
  by (cases "c # rest" rule: read_str.cases) auto

lemma read_short: "d \<noteq> CHR ''u'' \<Longrightarrow> read_str (CHR 0x5C # d # rest) = push (short_escape d) (read_str rest)"
  by (cases "CHR 0x5C # d # rest" rule: read_str.cases) auto

lemma read_u: "read_str (CHR 0x5C # CHR ''u'' # z1 # z2 # h # l # rest) = push (char_of (16 * hex_value h + hex_value l)) (read_str rest)"
  by simp

declare read_str.simps [simp del]

lemma hex_value_digits:
  assumes "(of_char c :: nat) < 32"
  shows "char_of (16 * hex_value (hex_digit (of_char c div 16)) + hex_value (hex_digit (of_char c mod 16))) = c"
proof -
  have "hex_value (hex_digit n) = n" if "n < 16" for n
  proof -
    have "\<forall>n \<in> set [0..<16]. hex_value (hex_digit n) = n" by code_simp
    then show ?thesis using that by simp
  qed
  then have "16 * hex_value (hex_digit (of_char c div 16)) + hex_value (hex_digit (of_char c mod 16))
      = 16 * (of_char c div 16) + of_char c mod 16" using assms by simp
  also have "\<dots> = (of_char c :: nat)" by simp
  finally show ?thesis by simp
qed

lemma read_esc:
  assumes "rest \<noteq> []"
  shows "read_str (esc c @ rest) = push c (read_str rest)"
proof (cases "c \<in> {CHR 0x22, CHR 0x5C, CHR 0x0A, CHR 0x0D, CHR 0x09, CHR 0x0C, CHR 0x08}")
  case True
  then show ?thesis by (auto simp: esc_def read_short short_escape_def)
next
  case False
  then show ?thesis
    using assms read_u[of _ _ "hex_digit (of_char c div 16)" "hex_digit (of_char c mod 16)" rest]
    by (cases "(of_char c :: nat) < 32") (simp_all add: esc_def hex_value_digits read_plain)
qed

lemma read_json_str: "read_str (concat (map esc s) @ CHR 0x22 # rest) = Some (s, rest)"
  by (induction s) (simp_all add: read_quote read_esc push_def)

lemma json_str_prefix:
  assumes "json_str s @ x = json_str t @ y"
  shows "s = t \<and> x = y"
proof -
  have "concat (map esc s) @ CHR 0x22 # x = concat (map esc t) @ CHR 0x22 # y"
    using assms by (simp only: json_str_def append_Cons append_assoc append_Nil list.inject simp_thms)
  then have "read_str (concat (map esc s) @ CHR 0x22 # x) = read_str (concat (map esc t) @ CHR 0x22 # y)" by (rule arg_cong)
  then show ?thesis by (simp only: read_json_str option.inject prod.inject)
qed

lemma json_str_start: "\<exists>r. json_str s = CHR 0x22 # r"
  by (simp add: json_str_def)

section \<open>Reading integers\<close>

lemma nat_str_digits: "c \<in> set (nat_str n) \<Longrightarrow> \<exists>d < 10. c = char_of (48 + d :: nat)"
proof (induction n rule: nat_str.induct)
  case (1 n)
  have last: "\<exists>d < 10. char_of (48 + n mod 10) = (char_of (48 + d :: nat) :: char)" by (intro exI[of _ "n mod 10"]) simp
  from 1 last show ?case by (cases "n < 10") (auto simp: nat_str.simps[of n])
qed

lemma digit_chars: "d < 10 \<Longrightarrow> (char_of (48 + d :: nat) :: char) \<notin> {CHR '','', CHR ''-''}"
proof -
  have "\<forall>d \<in> set [0..<10]. (char_of (48 + d :: nat) :: char) \<notin> {CHR '','', CHR ''-''}" by code_simp
  then show "d < 10 \<Longrightarrow> ?thesis" by simp
qed

lemma nat_str_chars: "CHR '','' \<notin> set (nat_str n)" "CHR ''-'' \<notin> set (nat_str n)"
proof -
  have "c \<notin> set (nat_str n)" if "c \<in> {CHR '','', CHR ''-''}" for c
  proof
    assume "c \<in> set (nat_str n)"
    then obtain d where "d < 10" "c = char_of (48 + d :: nat)" using nat_str_digits by blast
    then show False using that digit_chars[of d] by blast
  qed
  then show "CHR '','' \<notin> set (nat_str n)" "CHR ''-'' \<notin> set (nat_str n)" by blast+
qed

lemma int_str_chars: "CHR '','' \<notin> set (int_str i)"
  by (simp add: int_str_def nat_str_chars)

lemma int_str_inj: "int_str i = int_str j \<Longrightarrow> i = j"
proof -
  have neq: "CHR ''-'' # nat_str m \<noteq> nat_str n" for m n
    using nat_str_chars(2)[of n] by (metis list.set_intros(1))
  show "int_str i = int_str j \<Longrightarrow> i = j" by (auto simp: int_str_def neq neq[symmetric] split: if_splits)
qed

lemma int_str_comma: "int_str i @ '','' @ x = int_str j @ '','' @ y \<Longrightarrow> i = j \<and> x = y"
proof -
  assume eq: "int_str i @ '','' @ x = int_str j @ '','' @ y"
  have "takeWhile (\<lambda>c. c \<noteq> CHR '','') (int_str k @ '','' @ z) = int_str k" for k z
    using int_str_chars[of k] by (subst takeWhile_append2) auto
  then have "int_str i = int_str j" using arg_cong[OF eq, of "takeWhile (\<lambda>c. c \<noteq> CHR '','')"] by simp
  with eq int_str_inj show ?thesis by auto
qed

end
