(* ===== verification/Journal.thy ===== *)
theory Journal
  imports Json
begin

text \<open>
  The operational journal: the hash chain (\<^verbatim>\<open>services/events/journal.py\<close>), its table
  (\<^verbatim>\<open>services/events/journal_store.py\<close>) and the durable-first journal of the API
  (\<^verbatim>\<open>apps/api/app/event_state.py\<close>). SHA-256, the ISO text of an instant and generated UUIDs are
  parameters. Strings are their UTF-8 bytes, which is what is hashed; identifiers are their texts.
\<close>

section \<open>Events and the chain\<close>

record journal_event =
  je_sequence :: int
  je_event_id :: string
  je_timestamp :: string
  je_event_type :: string
  je_source :: string
  je_correlation_id :: string
  je_idempotency_key :: "string option"
  je_payload_json :: string
  je_previous_hash :: string
  je_hash :: string

datatype journal_exn =
    Journal_Error string
  | Duplicate_Event string journal_event
  | Journal_Conflict string
  | Journal_Corrupted string int
  | Journal_Unavailable string

type_synonym 'a jres = "journal_exn + 'a"

definition GENESIS_HASH :: string where "GENESIS_HASH = ''GENESIS''"
definition HASH_VERSION :: string where "HASH_VERSION = ''v2''"

definition canonical_json :: "json \<Rightarrow> string jres" where
  "canonical_json v =
     (if json_finite v then Inr (json_text v) else Inl (Journal_Error ''journal payloads must be finite, JSON-native values''))"

record journal_env =
  jn_sha256 :: "string \<Rightarrow> string"
  jn_isoformat :: "instant \<Rightarrow> string"

definition hash_material :: "journal_event \<Rightarrow> string" where
  "hash_material e = json_text (JObj
     [(''v'', JStr HASH_VERSION), (''sequence'', JInt (je_sequence e)), (''event_id'', JStr (je_event_id e)),
      (''timestamp'', JStr (je_timestamp e)), (''type'', JStr (je_event_type e)), (''source'', JStr (je_source e)),
      (''correlation_id'', JStr (je_correlation_id e)),
      (''idempotency_key'', case je_idempotency_key e of None \<Rightarrow> JNull | Some k \<Rightarrow> JStr k),
      (''payload'', JStr (je_payload_json e)), (''previous_hash'', JStr (je_previous_hash e))])"

text \<open>\<^verbatim>\<open>compute_hash\<close> of an event's other fields; the hash field itself is not read.\<close>

definition expected_hash :: "journal_env \<Rightarrow> journal_event \<Rightarrow> string" where
  "expected_hash env e = jn_sha256 env (hash_material e)"

definition check_link :: "journal_env \<Rightarrow> journal_event \<Rightarrow> int \<Rightarrow> string \<Rightarrow> unit jres" where
  "check_link env e sequence previous_hash =
     (if je_sequence e \<noteq> sequence then Inl (Journal_Corrupted ''sequence gap or reorder'' (je_sequence e))
      else if je_previous_hash e \<noteq> previous_hash then Inl (Journal_Corrupted ''broken previous_hash link'' (je_sequence e))
      else if je_hash e \<noteq> expected_hash env e then Inl (Journal_Corrupted ''hash does not match content'' (je_sequence e))
      else Inr ())"

fun verify_from :: "journal_env \<Rightarrow> int \<Rightarrow> string \<Rightarrow> journal_event list \<Rightarrow> int jres" where
  "verify_from env head_sequence head_hash [] = Inr head_sequence"
| "verify_from env head_sequence head_hash (e # es) =
     (case check_link env e (head_sequence + 1) head_hash of
        Inl x \<Rightarrow> Inl x
      | Inr _ \<Rightarrow> verify_from env (je_sequence e) (je_hash e) es)"

definition verify_chain :: "journal_env \<Rightarrow> journal_event list \<Rightarrow> int jres" where
  "verify_chain env es = verify_from env 0 GENESIS_HASH es"

section \<open>The in-memory journal\<close>

type_synonym lru = "(string, journal_event) dict"

definition lru_remember :: "nat \<Rightarrow> string \<Rightarrow> journal_event \<Rightarrow> lru \<Rightarrow> lru" where
  "lru_remember capacity key e c =
     (let c' = ddel key c @ [(key, e)] in if capacity < length c' then tl c' else c')"

record event_journal =
  ej_window_size :: nat
  ej_key_cache :: nat
  ej_window :: "journal_event list"
  ej_keys :: lru
  ej_ids :: lru
  ej_head_sequence :: int
  ej_head_hash :: string

definition event_journal_new :: "int \<Rightarrow> int \<Rightarrow> event_journal res" where
  "event_journal_new window key_cache =
     (if window < 1 \<or> key_cache < 1 then Inl (ValueError ''window and key_cache must be positive'')
      else Inr \<lparr>ej_window_size = nat window, ej_key_cache = nat key_cache, ej_window = [], ej_keys = [], ej_ids = [],
                ej_head_sequence = 0, ej_head_hash = GENESIS_HASH\<rparr>)"

definition journal_remember :: "journal_event \<Rightarrow> event_journal \<Rightarrow> event_journal" where
  "journal_remember e j =
     j\<lparr>ej_keys := (case je_idempotency_key e of None \<Rightarrow> ej_keys j | Some k \<Rightarrow> lru_remember (ej_key_cache j) k e (ej_keys j)),
       ej_ids := lru_remember (ej_key_cache j) (je_event_id e) e (ej_ids j)\<rparr>"

definition journal_advance :: "journal_event \<Rightarrow> event_journal \<Rightarrow> event_journal" where
  "journal_advance e j =
     (let w = ej_window j @ [e];
          j' = journal_remember e (j\<lparr>ej_window := drop (length w - ej_window_size j) w\<rparr>)
      in j'\<lparr>ej_head_sequence := je_sequence e, ej_head_hash := je_hash e\<rparr>)"

text \<open>What a caller asks to record; \<open>None\<close> for an id or instant means a generated or current one.\<close>

record journal_request =
  jq_event_type :: string
  jq_source :: string
  jq_payload :: "(string \<times> json) list"
  jq_correlation_id :: "string option"
  jq_event_id :: "string option"
  jq_idempotency_key :: "string option"
  jq_timestamp :: "py_datetime option"

definition canonical_timestamp :: "journal_env \<Rightarrow> py_datetime \<Rightarrow> string jres" where
  "canonical_timestamp env value =
     (case value of
        Naive _ \<Rightarrow> Inl (Journal_Error ''journal timestamps must carry a timezone'')
      | Aware t \<Rightarrow> Inr (jn_isoformat env t))"

definition duplicate_of :: "string option \<Rightarrow> string \<Rightarrow> event_journal \<Rightarrow> journal_exn option" where
  "duplicate_of key event_id j =
     (case Option.bind key (dget (ej_keys j)) of
        Some e \<Rightarrow> Some (Duplicate_Event ''duplicate idempotency_key'' e)
      | None \<Rightarrow>
          (case dget (ej_ids j) event_id of
             Some e \<Rightarrow> Some (Duplicate_Event ''duplicate event_id'' e)
           | None \<Rightarrow> None))"

definition build_event ::
    "journal_env \<Rightarrow> journal_request \<Rightarrow> string \<Rightarrow> string \<Rightarrow> string \<Rightarrow> string \<Rightarrow> event_journal \<Rightarrow> journal_event" where
  "build_event env q event_id correlation_id timestamp payload j =
     (let e = \<lparr>je_sequence = ej_head_sequence j + 1, je_event_id = event_id, je_timestamp = timestamp,
               je_event_type = jq_event_type q, je_source = jq_source q, je_correlation_id = correlation_id,
               je_idempotency_key = jq_idempotency_key q, je_payload_json = payload,
               je_previous_hash = ej_head_hash j, je_hash = []\<rparr>
      in e\<lparr>je_hash := expected_hash env e\<rparr>)"

text \<open>\<open>fresh\<close> are the UUIDs that \<^verbatim>\<open>uuid4()\<close> would give for the event and the correlation, \<open>now\<close> is the clock.\<close>

definition prepare ::
    "journal_env \<Rightarrow> string \<times> string \<Rightarrow> instant \<Rightarrow> journal_request \<Rightarrow> event_journal \<Rightarrow> journal_event jres" where
  "prepare env fresh now q j =
     (if jq_event_type q = [] \<or> jq_source q = [] then Inl (Journal_Error ''event_type and source are required'')
      else
        let event_id = (case jq_event_id q of Some i \<Rightarrow> i | None \<Rightarrow> fst fresh);
            correlation_id = (case jq_correlation_id q of Some i \<Rightarrow> i | None \<Rightarrow> snd fresh)
        in case duplicate_of (jq_idempotency_key q) event_id j of
             Some x \<Rightarrow> Inl x
           | None \<Rightarrow>
               (case canonical_timestamp env (case jq_timestamp q of Some t \<Rightarrow> t | None \<Rightarrow> Aware now) of
                  Inl x \<Rightarrow> Inl x
                | Inr ts \<Rightarrow>
                    (case canonical_json (JObj (jq_payload q)) of
                       Inl x \<Rightarrow> Inl x
                     | Inr payload \<Rightarrow> Inr (build_event env q event_id correlation_id ts payload j))))"

definition journal_commit :: "journal_env \<Rightarrow> journal_event \<Rightarrow> event_journal \<Rightarrow> journal_event jres \<times> event_journal" where
  "journal_commit env e j =
     (if je_sequence e \<noteq> ej_head_sequence j + 1 \<or> je_previous_hash e \<noteq> ej_head_hash j
      then (Inl (Journal_Conflict ''event does not extend the current head''), j)
      else if je_hash e \<noteq> expected_hash env e
      then (Inl (Journal_Corrupted ''hash does not match content'' (je_sequence e)), j)
      else (Inr e, journal_advance e j))"

definition journal_append ::
    "journal_env \<Rightarrow> string \<times> string \<Rightarrow> instant \<Rightarrow> journal_request \<Rightarrow> event_journal \<Rightarrow> journal_event jres \<times> event_journal" where
  "journal_append env fresh now q j = (case prepare env fresh now q j of Inl x \<Rightarrow> (Inl x, j) | Inr e \<Rightarrow> journal_commit env e j)"

definition journal_reset :: "event_journal \<Rightarrow> event_journal" where
  "journal_reset j = j\<lparr>ej_window := [], ej_keys := [], ej_ids := [], ej_head_sequence := 0, ej_head_hash := GENESIS_HASH\<rparr>"

definition journal_restore :: "journal_env \<Rightarrow> journal_event \<Rightarrow> event_journal \<Rightarrow> unit jres \<times> event_journal" where
  "journal_restore env e j =
     (case check_link env e (ej_head_sequence j + 1) (ej_head_hash j) of
        Inl x \<Rightarrow> (Inl x, j)
      | Inr _ \<Rightarrow> (Inr (), journal_advance e j))"

definition recent :: "int \<Rightarrow> event_journal \<Rightarrow> journal_event list" where
  "recent limit j = (if limit < 1 then [] else drop (length (ej_window j) - nat limit) (ej_window j))"

fun verify_links :: "journal_env \<Rightarrow> int \<Rightarrow> string \<Rightarrow> journal_event list \<Rightarrow> string jres" where
  "verify_links env sequence previous [] = Inr previous"
| "verify_links env sequence previous (e # es) =
     (case check_link env e sequence previous of
        Inl x \<Rightarrow> Inl x
      | Inr _ \<Rightarrow> verify_links env (je_sequence e + 1) (je_hash e) es)"

definition verify_window :: "journal_env \<Rightarrow> event_journal \<Rightarrow> bool" where
  "verify_window env j =
     (case ej_window j of
        [] \<Rightarrow> ej_head_sequence j = 0 \<and> ej_head_hash j = GENESIS_HASH
      | e # es \<Rightarrow>
          (case verify_links env (je_sequence e) (je_previous_hash e) (e # es) of
             Inl _ \<Rightarrow> False
           | Inr previous \<Rightarrow> je_sequence (last (e # es)) = ej_head_sequence j \<and> previous = ej_head_hash j))"

section \<open>The table\<close>

text \<open>The unique columns: sequence, event id, idempotency key (when there is one), previous hash and hash.\<close>

definition row_clash :: "journal_event \<Rightarrow> journal_event \<Rightarrow> bool" where
  "row_clash e row \<longleftrightarrow> je_sequence row = je_sequence e \<or> je_event_id row = je_event_id e
     \<or> (je_idempotency_key e \<noteq> None \<and> je_idempotency_key row = je_idempotency_key e)
     \<or> je_previous_hash row = je_previous_hash e \<or> je_hash row = je_hash e"

definition by_idempotency_key :: "string \<Rightarrow> journal_event list \<Rightarrow> journal_event option" where
  "by_idempotency_key key rows = List.find (\<lambda>row. je_idempotency_key row = Some key) rows"

definition store_append :: "journal_event \<Rightarrow> journal_event list \<Rightarrow> unit jres \<times> journal_event list" where
  "store_append e rows =
     (if list_ex (row_clash e) rows
      then ((case Option.bind (je_idempotency_key e) (\<lambda>k. by_idempotency_key k rows) of
               Some existing \<Rightarrow> Inl (Duplicate_Event ''duplicate idempotency_key'' existing)
             | None \<Rightarrow> Inl (Journal_Conflict ''persisted head moved; another writer is active'')), rows)
      else (Inr (), rows @ [e]))"

text \<open>Reading back in batches of \<open>n\<close>, in the order of the sequence, from the row after \<open>after\<close>.\<close>

definition rows_after :: "int \<Rightarrow> journal_event list \<Rightarrow> journal_event list" where
  "rows_after after rows = sort_key je_sequence (filter (\<lambda>row. after < je_sequence row) rows)"

lemma rows_after_last:
  assumes "batch = take n (rows_after after rows)" "batch \<noteq> []"
  shows "after < je_sequence (last batch)" "\<exists>row \<in> set rows. je_sequence row = je_sequence (last batch)"
proof -
  have "last batch \<in> set batch" using assms(2) by simp
  then have "last batch \<in> set (rows_after after rows)" unfolding assms(1) by (rule in_set_takeD)
  then show "after < je_sequence (last batch)" "\<exists>row \<in> set rows. je_sequence row = je_sequence (last batch)"
    by (auto simp: rows_after_def)
qed

function iter_from :: "nat \<Rightarrow> int \<Rightarrow> journal_event list \<Rightarrow> journal_event list" where
  "iter_from n after rows =
     (let batch = take n (rows_after after rows)
      in if batch = [] then [] else batch @ iter_from n (je_sequence (last batch)) rows)"
  by pat_completeness auto

termination
proof (relation "measure (\<lambda>(n, after, rows). length (filter (\<lambda>row. after < je_sequence row) rows))", simp)
  fix n after rows batch
  assume batch: "batch = take n (rows_after after rows)" "batch \<noteq> []"
  then obtain row where row: "row \<in> set rows" "je_sequence row = je_sequence (last batch)" "after < je_sequence row"
    using rows_after_last[OF batch] by auto
  have "filter (\<lambda>r. je_sequence (last batch) < je_sequence r) rows
      = filter (\<lambda>r. je_sequence (last batch) < je_sequence r) (filter (\<lambda>r. after < je_sequence r) rows)"
    using row by (auto intro!: filter_cong)
  also have "length \<dots> < length (filter (\<lambda>r. after < je_sequence r) rows)"
    using row by (intro length_filter_less[of row]) auto
  finally show "((n, je_sequence (last batch), rows), n, after, rows)
      \<in> measure (\<lambda>(n, after, rows). length (filter (\<lambda>row. after < je_sequence row) rows))" by simp
qed

declare iter_from.simps [simp del]

definition iter_events :: "nat \<Rightarrow> journal_event list \<Rightarrow> journal_event list" where
  "iter_events batch_size rows = iter_from batch_size 0 rows"

section \<open>What the hash covers\<close>

text \<open>The hashed text, keys in sorted order.\<close>

abbreviation key_text :: "string \<Rightarrow> string" where
  "key_text k \<equiv> json_str k @ '':''"

definition key_json :: "string option \<Rightarrow> string" where
  "key_json k = (case k of None \<Rightarrow> ''null'' | Some s \<Rightarrow> json_str s)"

lemma hash_material_text:
  "hash_material e =
     ''{'' @ key_text ''correlation_id'' @ json_str (je_correlation_id e)
     @ '','' @ key_text ''event_id'' @ json_str (je_event_id e)
     @ '','' @ key_text ''idempotency_key'' @ key_json (je_idempotency_key e)
     @ '','' @ key_text ''payload'' @ json_str (je_payload_json e)
     @ '','' @ key_text ''previous_hash'' @ json_str (je_previous_hash e)
     @ '','' @ key_text ''sequence'' @ int_str (je_sequence e)
     @ '','' @ key_text ''source'' @ json_str (je_source e)
     @ '','' @ key_text ''timestamp'' @ json_str (je_timestamp e)
     @ '','' @ key_text ''type'' @ json_str (je_event_type e)
     @ '','' @ key_text ''v'' @ json_str HASH_VERSION @ ''}''"
  by (cases "je_idempotency_key e") (simp_all add: hash_material_def key_json_def sort_key_def)


lemma key_json_prefix:
  assumes "key_json k @ x = key_json l @ y"
  shows "k = l \<and> x = y"
proof (cases k)
  case None
  then show ?thesis using assms by (cases l) (simp_all add: key_json_def json_str_def)
next
  case (Some s)
  then show ?thesis
  proof (cases l)
    case (Some t)
    have "json_str s @ x = json_str t @ y" using assms \<open>k = Some s\<close> Some by (simp only: key_json_def option.case)
    from json_str_prefix[OF this] show ?thesis using \<open>k = Some s\<close> Some by simp
  qed (use assms in \<open>simp add: key_json_def json_str_def\<close>)
qed

lemma hash_material_inj:
  assumes "hash_material e = hash_material e'"
  shows "je_sequence e = je_sequence e' \<and> je_previous_hash e = je_previous_hash e' \<and> e\<lparr>je_hash := h\<rparr> = e'\<lparr>je_hash := h\<rparr>"
proof -
  note eq = assms[unfolded hash_material_text same_append_eq append_assoc]
  note s1 = json_str_prefix[OF eq] note e1 = s1[THEN conjunct2, unfolded same_append_eq append_assoc]
  note s2 = json_str_prefix[OF e1] note e2 = s2[THEN conjunct2, unfolded same_append_eq append_assoc]
  note s3 = key_json_prefix[OF e2] note e3 = s3[THEN conjunct2, unfolded same_append_eq append_assoc]
  note s4 = json_str_prefix[OF e3] note e4 = s4[THEN conjunct2, unfolded same_append_eq append_assoc]
  note s5 = json_str_prefix[OF e4] note e5 = s5[THEN conjunct2, unfolded same_append_eq append_assoc]
  note s6 = int_str_comma[OF e5] note e6 = s6[THEN conjunct2, unfolded same_append_eq append_assoc]
  note s7 = json_str_prefix[OF e6] note e7 = s7[THEN conjunct2, unfolded same_append_eq append_assoc]
  note s8 = json_str_prefix[OF e7] note e8 = s8[THEN conjunct2, unfolded same_append_eq append_assoc]
  note s9 = json_str_prefix[OF e8]
  show ?thesis using s1 s2 s3 s4 s5 s6 s7 s8 s9 by (cases e; cases e') simp
qed


section \<open>Verified chains\<close>

definition head_of :: "journal_event list \<Rightarrow> string" where
  "head_of es = (if es = [] then GENESIS_HASH else je_hash (last es))"

lemma check_link_Inr:
  "check_link env e n h = Inr u \<longleftrightarrow> je_sequence e = n \<and> je_previous_hash e = h \<and> je_hash e = expected_hash env e"
  by (auto simp: check_link_def)

lemma verify_from_Cons:
  "verify_from env n h (e # es) = Inr m \<longleftrightarrow>
     je_sequence e = n + 1 \<and> je_previous_hash e = h \<and> je_hash e = expected_hash env e
     \<and> verify_from env (n + 1) (je_hash e) es = Inr m"
  using check_link_Inr[of env e "n + 1" h] by (cases "check_link env e (n + 1) h") auto

lemma verify_from_append:
  "verify_from env n h (es @ [e]) = Inr m \<longleftrightarrow>
     (\<exists>k. verify_from env n h es = Inr k \<and> je_sequence e = k + 1 \<and> m = je_sequence e
        \<and> je_previous_hash e = (if es = [] then h else je_hash (last es)) \<and> je_hash e = expected_hash env e)"
  by (induction es arbitrary: n h) (auto simp: verify_from_Cons simp del: verify_from.simps(2))

lemma verify_chain_snoc:
  "verify_chain env (es @ [e]) = Inr m \<longleftrightarrow>
     (\<exists>k. verify_chain env es = Inr k \<and> je_sequence e = k + 1 \<and> m = k + 1
        \<and> je_previous_hash e = head_of es \<and> je_hash e = expected_hash env e)"
  by (auto simp: verify_chain_def verify_from_append head_of_def)

lemma verify_chain_length: "verify_chain env es = Inr n \<Longrightarrow> n = int (length es)"
  by (induction es arbitrary: n rule: rev_induct) (auto simp: verify_chain_snoc, simp add: verify_chain_def)

lemma verify_chain_Nil [simp]: "verify_chain env [] = Inr 0"
  by (simp add: verify_chain_def)

definition chained :: "journal_env \<Rightarrow> journal_event list \<Rightarrow> bool" where
  "chained env es \<longleftrightarrow> verify_chain env es = Inr (int (length es))"

lemma chained_conv: "verify_chain env es = Inr n \<longleftrightarrow> chained env es \<and> n = int (length es)"
  using verify_chain_length[of env es n] by (auto simp: chained_def)

lemma chained_Nil [simp]: "chained env []"
  by (simp add: chained_def)

lemma chained_snoc:
  "chained env (es @ [e]) \<longleftrightarrow> chained env es \<and> je_sequence e = int (length es) + 1 \<and> je_previous_hash e = head_of es
     \<and> je_hash e = expected_hash env e"
  by (auto simp: chained_def verify_chain_snoc dest: verify_chain_length)

lemma chained_take: "chained env es \<Longrightarrow> chained env (take n es)"
proof (induction es rule: rev_induct)
  case (snoc e es)
  then show ?case by (cases "n \<le> length es") (simp_all add: chained_snoc)
qed simp

lemma chained_sequence: "chained env es \<Longrightarrow> i < length es \<Longrightarrow> je_sequence (es ! i) = int i + 1"
proof (induction es rule: rev_induct)
  case (snoc e es)
  then show ?case by (cases "i < length es") (auto simp: chained_snoc nth_append less_Suc_eq)
qed simp

lemma chained_sequences: "chained env es \<Longrightarrow> map je_sequence es = map int [1..<length es + 1]"
  by (rule nth_equalityI) (simp_all add: chained_sequence del: upt_Suc)

section \<open>Reading the table\<close>

lemma rows_after_chained:
  assumes "chained env rows"
  shows "rows_after (int k) rows = drop k rows"
proof -
  have seq: "\<And>i. i < length rows \<Longrightarrow> je_sequence (rows ! i) = int i + 1" using chained_sequence[OF assms] .
  have "filter (\<lambda>row. int k < je_sequence row) rows = drop k rows"
  proof -
    have "filter (\<lambda>row. int k < je_sequence row) (take k rows) = []"
      using seq by (auto simp: filter_empty_conv in_set_conv_nth)
    moreover have "filter (\<lambda>row. int k < je_sequence row) (drop k rows) = drop k rows"
      using seq by (auto simp: filter_id_conv in_set_conv_nth)
    ultimately show ?thesis by (metis append_take_drop_id filter_append self_append_conv2)
  qed
  moreover have "sorted (map je_sequence (drop k rows))"
    using seq by (auto simp: sorted_iff_nth_mono)
  ultimately show ?thesis by (simp add: rows_after_def sort_key_id_if_sorted)
qed

lemma iter_from_chained:
  assumes "chained env rows" "0 < n" "k \<le> length rows"
  shows "iter_from n (int k) rows = drop k rows"
  using assms(3)
proof (induction "length rows - k" arbitrary: k rule: less_induct)
  case less
  let ?batch = "take n (drop k rows)"
  note step = iter_from.simps[of n "int k" rows, unfolded rows_after_chained[OF assms(1)] Let_def]
  show ?case
  proof (cases "k < length rows")
    case True
    let ?m = "min (k + n) (length rows)"
    have ne: "?batch \<noteq> []" using True assms(2) by simp
    have "last ?batch = rows ! (?m - 1)"
      using True assms(2) ne by (auto simp: last_conv_nth min_def intro!: arg_cong[of _ _ "(!) rows"])
    then have "je_sequence (last ?batch) = int ?m"
      using chained_sequence[OF assms(1), of "?m - 1"] True assms(2) by (simp add: of_nat_diff)
    moreover have "iter_from n (int ?m) rows = drop ?m rows" by (rule less(1)) (use True assms(2) in auto)
    moreover have "?batch @ drop ?m rows = drop k rows"
      using append_take_drop_id[of n "drop k rows"] by (simp add: min_def add.commute)
    ultimately show ?thesis using step ne by simp
  next
    case False
    then show ?thesis using step by simp
  qed
qed

lemma iter_events_chained: "chained env rows \<Longrightarrow> 0 < n \<Longrightarrow> iter_events n rows = rows"
  using iter_from_chained[of env rows n 0] by (simp add: iter_events_def)


section \<open>Properties of the chain\<close>

text \<open>Two histories collide at a position: from there on they agree, and the texts hashed there differ but have one hash.\<close>

definition collide_at :: "journal_env \<Rightarrow> journal_event list \<Rightarrow> journal_event list \<Rightarrow> nat \<Rightarrow> bool" where
  "collide_at env es ds k \<longleftrightarrow> k < length es \<and> k < length ds \<and> drop (Suc k) es = drop (Suc k) ds
     \<and> hash_material (es ! k) \<noteq> hash_material (ds ! k)
     \<and> jn_sha256 env (hash_material (es ! k)) = jn_sha256 env (hash_material (ds ! k))"

lemma collide_at_snoc: "length es = length ds \<Longrightarrow> collide_at env es ds k \<Longrightarrow> collide_at env (es @ [e]) (ds @ [e]) k"
  by (simp add: collide_at_def nth_append)

lemma same_head_same_history:
  assumes "chained env es" "chained env ds" "length es = length ds" "head_of es = head_of ds"
  shows "es = ds \<or> (\<exists>k. collide_at env es ds k)"
  using assms
proof (induction es arbitrary: ds rule: rev_induct)
  case (snoc e es)
  obtain d ds' where ds: "ds = ds' @ [d]" using snoc.prems(3) by (cases ds rule: rev_cases) auto
  have e: "chained env es" "je_previous_hash e = head_of es" "je_hash e = expected_hash env e"
    and d: "chained env ds'" "je_previous_hash d = head_of ds'" "je_hash d = expected_hash env d"
    using snoc.prems(1,2) unfolding ds chained_snoc by auto
  have len: "length es = length ds'" using snoc.prems(3) ds by simp
  have hash: "je_hash e = je_hash d" using snoc.prems(4) by (simp add: head_of_def ds)
  show ?case
  proof (cases "hash_material e = hash_material d")
    case True
    from hash_material_inj[OF this, of "je_hash e"] have same: "e = d" and prev: "je_previous_hash e = je_previous_hash d"
      using hash by (cases e; cases d; simp)+
    from snoc.IH[OF e(1) d(1) len] e(2) d(2) prev have "es = ds' \<or> (\<exists>k. collide_at env es ds' k)" by simp
    then show ?thesis using ds same collide_at_snoc[OF len] by blast
  next
    case False
    then have "collide_at env (es @ [e]) ds (length es)"
      using hash e(3) d(3) len by (simp add: collide_at_def ds expected_hash_def nth_append)
    then show ?thesis by blast
  qed
qed simp

text \<open>
  C28: The head of the chain vouches for the whole history. Two histories that both verify from GENESIS
  and end in the same head (same length, same last hash) are equal, or they themselves exhibit a collision
  of the hash: there is a position after which they agree and at which the texts that were hashed for
  their two events differ and have the same hash. So no edit, deletion, reordering or insertion goes
  unnoticed unless whoever made it found a second text for the hash of one of the journal's own events.
  What is hashed is injective in every field of the event.
\<close>

theorem chain_head_fixes_history:
  assumes "verify_chain env es = Inr n" "verify_chain env ds = Inr n" "head_of es = head_of ds"
  shows "es = ds \<or> (\<exists>k < length es. k < length ds \<and> drop (Suc k) es = drop (Suc k) ds
    \<and> hash_material (es ! k) \<noteq> hash_material (ds ! k)
    \<and> jn_sha256 env (hash_material (es ! k)) = jn_sha256 env (hash_material (ds ! k)))"
proof -
  have "chained env es" "chained env ds" "length es = length ds" using assms(1,2) by (auto simp: chained_conv)
  from same_head_same_history[OF this assms(3)] show ?thesis unfolding collide_at_def by blast
qed


section \<open>Witness\<close>

text \<open>A hash without collisions: the text itself.\<close>

definition ex_journal_env :: journal_env where
  "ex_journal_env = \<lparr>jn_sha256 = (\<lambda>s. s), jn_isoformat = int_str\<rparr>"

text \<open>A hash that cannot tell texts apart, and two histories of one event with the same head.\<close>

definition ex_colliding_env :: journal_env where
  "ex_colliding_env = \<lparr>jn_sha256 = (\<lambda>s. ''h''), jn_isoformat = int_str\<rparr>"

definition ex_event :: "string \<Rightarrow> journal_event" where
  "ex_event payload = \<lparr>je_sequence = 1, je_event_id = ''i'', je_timestamp = ''t'', je_event_type = ''ORDER'', je_source = ''oms'',
     je_correlation_id = ''c'', je_idempotency_key = Some ''k'', je_payload_json = payload,
     je_previous_hash = GENESIS_HASH, je_hash = ''h''\<rparr>"

lemma ex_event_chain: "verify_chain ex_colliding_env [ex_event p] = Inr 1"
  by (simp add: verify_chain_def ex_event_def check_link_def expected_hash_def ex_colliding_env_def)

theorem chain_head_fixes_history_witness:
  "verify_chain ex_colliding_env [ex_event ''1''] = Inr 1 \<and> verify_chain ex_colliding_env [ex_event ''2''] = Inr 1
   \<and> head_of [ex_event ''1''] = head_of [ex_event ''2''] \<and> [ex_event ''1''] \<noteq> [ex_event ''2'']
   \<and> hash_material (ex_event ''1'') \<noteq> hash_material (ex_event ''2'')"
proof -
  have head: "head_of [ex_event ''1''] = head_of [ex_event ''2'']" and differ: "[ex_event ''1''] \<noteq> [ex_event ''2'']"
    by (simp_all add: head_of_def ex_event_def)
  from chain_head_fixes_history[OF ex_event_chain ex_event_chain head] differ
  have "hash_material (ex_event ''1'') \<noteq> hash_material (ex_event ''2'')" by auto
  then show ?thesis using head differ ex_event_chain by simp
qed

end
