(* ===== verification/Operational_Journal.thy ===== *)
theory Operational_Journal
  imports Journal
begin

text \<open>
  The API's durable-first journal (\<^verbatim>\<open>apps/api/app/event_state.py\<close>): start with full verification,
  recording through the table, verification and the snapshot. The fate of a write is part of the call:
  it succeeds, fails before the table changes, or fails after it did; a read of the history may stop
  after some rows. The publication on the event bus after a write does not touch the journal and is not
  modelled.
\<close>

section \<open>State and operations\<close>

datatype journal_integrity = UNVERIFIED | VALID | CORRUPTED

fun integrity_value :: "journal_integrity \<Rightarrow> string" where
  "integrity_value UNVERIFIED = ''UNVERIFIED''"
| "integrity_value VALID = ''VALID''"
| "integrity_value CORRUPTED = ''CORRUPTED''"

record operational_journal =
  oj_store :: bool
  oj_batch_size :: nat
  oj_rows :: "journal_event list"
  oj_journal :: event_journal
  oj_integrity :: journal_integrity
  oj_corruption :: "string option"
  oj_write_failures :: nat

definition operational_journal_new :: "bool \<Rightarrow> nat \<Rightarrow> journal_event list \<Rightarrow> event_journal \<Rightarrow> operational_journal" where
  "operational_journal_new store batch_size rows j =
     \<lparr>oj_store = store, oj_batch_size = batch_size, oj_rows = rows, oj_journal = j,
      oj_integrity = (if store then UNVERIFIED else VALID), oj_corruption = None, oj_write_failures = 0\<rparr>"

definition mark_corrupted :: "string \<Rightarrow> operational_journal \<Rightarrow> operational_journal" where
  "mark_corrupted reason s = s\<lparr>oj_integrity := CORRUPTED, oj_corruption := Some reason\<rparr>"

fun journal_exn_text :: "journal_exn \<Rightarrow> string" where
  "journal_exn_text (Journal_Error m) = m"
| "journal_exn_text (Duplicate_Event m _) = m"
| "journal_exn_text (Journal_Conflict m) = m"
| "journal_exn_text (Journal_Corrupted m sequence) = m @ '' at sequence '' @ int_str sequence"
| "journal_exn_text (Journal_Unavailable m) = m"

fun restore_all :: "journal_env \<Rightarrow> journal_event list \<Rightarrow> event_journal \<Rightarrow> unit jres \<times> event_journal" where
  "restore_all env [] j = (Inr (), j)"
| "restore_all env (e # es) j =
     (case journal_restore env e j of (Inl x, j') \<Rightarrow> (Inl x, j') | (Inr _, j') \<Rightarrow> restore_all env es j')"

text \<open>\<open>stop\<close> is the number of rows after which reading the table fails, if it does.\<close>

definition journal_start :: "journal_env \<Rightarrow> nat option \<Rightarrow> operational_journal \<Rightarrow> unit jres \<times> operational_journal" where
  "journal_start env stop s =
     (if \<not> oj_store s then (Inr (), s)
      else
        let events = iter_events (oj_batch_size s) (oj_rows s);
            s' = s\<lparr>oj_integrity := UNVERIFIED, oj_journal := journal_reset (oj_journal s)\<rparr>
        in case restore_all env (case stop of None \<Rightarrow> events | Some k \<Rightarrow> take k events) (oj_journal s') of
             (Inl x, j) \<Rightarrow> (Inr (), mark_corrupted (journal_exn_text x) (s'\<lparr>oj_journal := j\<rparr>))
           | (Inr _, j) \<Rightarrow>
               (case stop of
                  Some _ \<Rightarrow> (Inl (Journal_Unavailable ''database''), s'\<lparr>oj_journal := j\<rparr>)
                | None \<Rightarrow> (Inr (), s'\<lparr>oj_journal := j, oj_integrity := VALID, oj_corruption := None\<rparr>)))"

datatype write_fate = Written | Not_Written | Written_Then_Lost

definition store_write :: "write_fate \<Rightarrow> journal_event \<Rightarrow> journal_event list \<Rightarrow> unit jres \<times> journal_event list" where
  "store_write fate e rows =
     (case fate of
        Written \<Rightarrow> store_append e rows
      | Not_Written \<Rightarrow> (Inl (Journal_Unavailable ''operational journal write failed''), rows)
      | Written_Then_Lost \<Rightarrow> (Inl (Journal_Unavailable ''operational journal write failed''), snd (store_append e rows)))"

definition commit_event ::
    "journal_env \<Rightarrow> journal_event \<Rightarrow> operational_journal \<Rightarrow> (journal_event \<times> bool) jres \<times> operational_journal" where
  "commit_event env e s =
     (case journal_commit env e (oj_journal s) of
        (Inl x, j) \<Rightarrow> (Inl x, s\<lparr>oj_journal := j\<rparr>)
      | (Inr _, j) \<Rightarrow> (Inr (e, True), s\<lparr>oj_journal := j\<rparr>))"

text \<open>The durable part of \<^verbatim>\<open>record\<close>: the table first, then the memory.\<close>

definition write_event ::
    "journal_env \<Rightarrow> write_fate \<Rightarrow> journal_event \<Rightarrow> operational_journal \<Rightarrow>
     (journal_event \<times> bool) jres \<times> operational_journal" where
  "write_event env fate e s =
     (case store_write fate e (oj_rows s) of
        (Inl (Duplicate_Event _ existing), rows) \<Rightarrow>
          (Inr (existing, False), s\<lparr>oj_rows := rows, oj_journal := journal_remember existing (oj_journal s)\<rparr>)
      | (Inl (Journal_Conflict m), rows) \<Rightarrow>
          (Inl (Journal_Unavailable m),
           mark_corrupted m (s\<lparr>oj_rows := rows, oj_write_failures := oj_write_failures s + 1\<rparr>))
      | (Inl x, rows) \<Rightarrow>
          (Inl (Journal_Unavailable ''operational journal write failed''),
           s\<lparr>oj_rows := rows, oj_write_failures := oj_write_failures s + 1\<rparr>)
      | (Inr _, rows) \<Rightarrow> commit_event env e (s\<lparr>oj_rows := rows\<rparr>))"

definition record_event_op ::
    "journal_env \<Rightarrow> write_fate \<Rightarrow> string \<times> string \<Rightarrow> instant \<Rightarrow> journal_request \<Rightarrow> operational_journal \<Rightarrow>
     (journal_event \<times> bool) jres \<times> operational_journal" where
  "record_event_op env fate fresh now q s =
     (if oj_integrity s \<noteq> VALID
      then (Inl (Journal_Unavailable (''operational journal is '' @ integrity_value (oj_integrity s))), s)
      else
        (case prepare env fresh now (q\<lparr>jq_event_id := None\<rparr>) (oj_journal s) of
           Inl (Duplicate_Event _ existing) \<Rightarrow> (Inr (existing, False), s)
         | Inl x \<Rightarrow> (Inl x, s)
         | Inr e \<Rightarrow> if oj_store s then write_event env fate e s else commit_event env e s))"

definition verifier_new :: event_journal where
  "verifier_new = \<lparr>ej_window_size = 1, ej_key_cache = 1, ej_window = [], ej_keys = [], ej_ids = [],
     ej_head_sequence = 0, ej_head_hash = GENESIS_HASH\<rparr>"

text \<open>Whether the journal verifies, and the error if it does not.\<close>

definition journal_verify :: "journal_env \<Rightarrow> nat option \<Rightarrow> operational_journal \<Rightarrow> bool \<times> string option" where
  "journal_verify env stop s =
     (if \<not> oj_store s then (verify_window env (oj_journal s), None)
      else
        let events = iter_events (oj_batch_size s) (oj_rows s)
        in case restore_all env (case stop of None \<Rightarrow> events | Some k \<Rightarrow> take k events) verifier_new of
             (Inl x, _) \<Rightarrow> (False, Some (journal_exn_text x))
           | (Inr _, v) \<Rightarrow>
               (case stop of
                  Some _ \<Rightarrow> (False, Some ''durable store unreachable'')
                | None \<Rightarrow>
                    if ej_head_sequence v = ej_head_sequence (oj_journal s) \<and> ej_head_hash v = ej_head_hash (oj_journal s)
                    then (True, None) else (False, Some ''durable head differs from in-memory head'')))"

record journal_snapshot =
  js_count :: int
  js_returned :: nat
  js_head_hash :: string
  js_integrity :: string
  js_chain_valid :: bool
  js_corruption :: "string option"
  js_persistence_enabled :: bool
  js_write_failures :: nat
  js_events :: "journal_event list"

definition snapshot_of :: "journal_env \<Rightarrow> int \<Rightarrow> operational_journal \<Rightarrow> journal_snapshot" where
  "snapshot_of env limit s =
     (let selected = recent limit (oj_journal s)
      in \<lparr>js_count = ej_head_sequence (oj_journal s), js_returned = length selected,
          js_head_hash = ej_head_hash (oj_journal s), js_integrity = integrity_value (oj_integrity s),
          js_chain_valid = (oj_integrity s = VALID \<and> verify_window env (oj_journal s)),
          js_corruption = oj_corruption s, js_persistence_enabled = oj_store s,
          js_write_failures = oj_write_failures s, js_events = selected\<rparr>)"

section \<open>The memory follows a history\<close>

text \<open>The journal in memory stands at the end of the history \<open>es\<close>; its caches know events of \<open>pool\<close>.\<close>

definition cached :: "journal_event list \<Rightarrow> lru \<Rightarrow> (journal_event \<Rightarrow> string option) \<Rightarrow> bool" where
  "cached pool c f \<longleftrightarrow> (\<forall>(k, e) \<in> set c. e \<in> set pool \<and> f e = Some k)"

definition follows_history :: "journal_event list \<Rightarrow> journal_event list \<Rightarrow> event_journal \<Rightarrow> bool" where
  "follows_history pool es j \<longleftrightarrow> ej_head_sequence j = int (length es) \<and> ej_head_hash j = head_of es
     \<and> ej_window j = drop (length es - ej_window_size j) es \<and> 0 < ej_window_size j
     \<and> cached pool (ej_keys j) je_idempotency_key \<and> cached pool (ej_ids j) (\<lambda>e. Some (je_event_id e))"

lemma set_lru_remember: "set (lru_remember n k e c) \<subseteq> insert (k, e) (set c)"
proof -
  have "set (ddel k c @ [(k, e)]) \<subseteq> insert (k, e) (set c)" by (auto simp: AList.delete_eq)
  moreover have "set (tl (ddel k c @ [(k, e)])) \<subseteq> set (ddel k c @ [(k, e)])" by (rule list.set_sel(2)[THEN subsetI]) simp_all
  ultimately show ?thesis unfolding lru_remember_def Let_def by (auto split: if_splits)
qed

lemma cached_remember: "cached pool c f \<Longrightarrow> e \<in> set pool \<Longrightarrow> f e = Some k \<Longrightarrow> cached pool (lru_remember n k e c) f"
  using set_lru_remember[of n k e c] by (fastforce simp: cached_def)

lemma cached_mono: "cached pool c f \<Longrightarrow> set pool \<subseteq> set pool' \<Longrightarrow> cached pool' c f"
  by (fastforce simp: cached_def)

lemma follows_mono: "follows_history pool es j \<Longrightarrow> set pool \<subseteq> set pool' \<Longrightarrow> follows_history pool' es j"
  by (auto simp: follows_history_def intro: cached_mono)

lemma follows_remember: "follows_history pool es j \<Longrightarrow> e \<in> set pool \<Longrightarrow> follows_history pool es (journal_remember e j)"
  by (auto simp: follows_history_def journal_remember_def cached_remember split: option.splits)

lemma follows_advance:
  assumes "follows_history pool es j" "e \<in> set pool" "je_sequence e = int (length es) + 1"
  shows "follows_history pool (es @ [e]) (journal_advance e j)"
proof -
  let ?n = "ej_window_size j"
  have "drop (length (drop (length es - ?n) es @ [e]) - ?n) (drop (length es - ?n) es @ [e]) = drop (length (es @ [e]) - ?n) (es @ [e])"
    using assms(1) by (cases "?n \<le> length es") (auto simp: follows_history_def Suc_diff_le)
  then show ?thesis
    using follows_remember[OF assms(1,2)] assms
    by (auto simp: follows_history_def journal_advance_def journal_remember_def head_of_def Let_def split: option.splits)
qed

lemma follows_reset: "0 < ej_window_size j \<Longrightarrow> follows_history pool [] (journal_reset j)"
  by (simp add: follows_history_def journal_reset_def head_of_def cached_def)

lemma prepare_builds:
  assumes "prepare env fresh now q j = Inr e"
  obtains ts payload where "e = build_event env q (case jq_event_id q of Some i \<Rightarrow> i | None \<Rightarrow> fst fresh)
     (case jq_correlation_id q of Some i \<Rightarrow> i | None \<Rightarrow> snd fresh) ts payload j"
  using assms by (auto simp: prepare_def Let_def split: if_splits option.splits sum.splits)

lemma build_event_fields:
  "je_sequence (build_event env q i c ts p j) = ej_head_sequence j + 1"
  "je_previous_hash (build_event env q i c ts p j) = ej_head_hash j"
  "je_idempotency_key (build_event env q i c ts p j) = jq_idempotency_key q"
  "je_hash (build_event env q i c ts p j) = expected_hash env (build_event env q i c ts p j)"
  by (simp_all add: build_event_def Let_def expected_hash_def hash_material_def)

lemma prepare_Inr:
  assumes "prepare env fresh now q j = Inr e" "follows_history pool es j" "chained env es"
  shows "chained env (es @ [e])" "je_idempotency_key e = jq_idempotency_key q"
proof -
  obtain ts payload where e: "e = build_event env q (case jq_event_id q of Some i \<Rightarrow> i | None \<Rightarrow> fst fresh)
     (case jq_correlation_id q of Some i \<Rightarrow> i | None \<Rightarrow> snd fresh) ts payload j" using assms(1) by (rule prepare_builds)
  show "chained env (es @ [e])" using assms(2,3) by (simp add: chained_snoc e build_event_fields follows_history_def)
  show "je_idempotency_key e = jq_idempotency_key q" by (simp add: e build_event_fields)
qed

lemma prepare_dup:
  assumes "prepare env fresh now q j = Inl (Duplicate_Event m e)"
  shows "(\<exists>k. jq_idempotency_key q = Some k \<and> dget (ej_keys j) k = Some e)
     \<or> dget (ej_ids j) (case jq_event_id q of Some i \<Rightarrow> i | None \<Rightarrow> fst fresh) = Some e"
  using assms
  by (auto simp: prepare_def duplicate_of_def canonical_timestamp_def canonical_json_def Let_def bind_eq_Some_conv
      split: if_splits option.splits sum.splits py_datetime.splits)

lemma commit_follows:
  assumes "follows_history pool es j" "chained env (es @ [e])" "e \<in> set pool"
  shows "journal_commit env e j = (Inr e, journal_advance e j) \<and> follows_history pool (es @ [e]) (journal_advance e j)"
  using assms follows_advance[OF assms(1,3)] by (auto simp: journal_commit_def chained_snoc follows_history_def)


section \<open>The invariant\<close>

text \<open>
  With a table: its rows form a verified chain whose ids and keys do not repeat, and the memory stands
  at the end of a prefix of it. Without one: the memory stands at the end of some verified history.
\<close>

abbreviation keys_of :: "journal_event list \<Rightarrow> string list" where
  "keys_of es \<equiv> List.map_filter je_idempotency_key es"

definition rows_ok :: "journal_env \<Rightarrow> journal_event list \<Rightarrow> bool" where
  "rows_ok env rows \<longleftrightarrow> chained env rows \<and> distinct (keys_of rows) \<and> distinct (map je_event_id rows)"

definition journal_inv :: "journal_env \<Rightarrow> operational_journal \<Rightarrow> bool" where
  "journal_inv env s \<longleftrightarrow> 0 < oj_batch_size s \<and>
     (if oj_store s
      then rows_ok env (oj_rows s) \<and> (\<exists>n \<le> length (oj_rows s). follows_history (oj_rows s) (take n (oj_rows s)) (oj_journal s))
      else \<exists>es. chained env es \<and> follows_history es es (oj_journal s))"

lemma keys_of_snoc [simp]: "keys_of (es @ [e]) = keys_of es @ (case je_idempotency_key e of None \<Rightarrow> [] | Some k \<Rightarrow> [k])"
  by (simp add: List.map_filter_def split: option.splits)

lemma in_keys_of: "k \<in> set (keys_of es) \<longleftrightarrow> (\<exists>e \<in> set es. je_idempotency_key e = Some k)"
  by (force simp: List.map_filter_def)

text \<open>An event made on a prefix fits the table only if the prefix is the whole table.\<close>

lemma store_append_prefix:
  assumes rows: "rows_ok env rows" and n: "n \<le> length rows" and e: "chained env (take n rows @ [e])"
    and run: "store_append e rows = (Inr u, rows')"
  shows "n = length rows \<and> rows' = rows @ [e] \<and> rows_ok env rows'"
proof -
  have free: "\<not> row_clash e row" if "row \<in> set rows" for row
    using run that by (auto simp: store_append_def list_ex_iff split: if_splits option.splits)
  have "n = length rows"
  proof (rule ccontr)
    assume "n \<noteq> length rows"
    then have "n < length rows" using n by simp
    then have "je_sequence (rows ! n) = je_sequence e"
      using chained_sequence[of env rows n] rows e by (simp add: rows_ok_def chained_snoc)
    then show False using free[of "rows ! n"] \<open>n < length rows\<close> by (simp add: row_clash_def)
  qed
  moreover have "rows' = rows @ [e]" using run by (auto simp: store_append_def split: if_splits option.splits)
  moreover have "je_event_id e \<notin> set (map je_event_id rows)" using free unfolding row_clash_def by fastforce
  moreover have "k \<notin> set (keys_of rows)" if "je_idempotency_key e = Some k" for k
    using free that by (auto simp: row_clash_def in_keys_of)
  ultimately show ?thesis using rows e by (auto simp: rows_ok_def split: option.splits)
qed

lemma store_append_refused:
  "store_append e rows = (Inl x, rows') \<Longrightarrow> rows' = rows
     \<and> ((\<exists>m existing k. x = Duplicate_Event m existing \<and> existing \<in> set rows \<and> je_idempotency_key e = Some k
            \<and> je_idempotency_key existing = Some k) \<or> (\<exists>m. x = Journal_Conflict m))"
  by (auto simp: store_append_def by_idempotency_key_def bind_eq_Some_conv find_Some_iff split: if_splits option.splits)

lemma restore_all_follows:
  assumes "follows_history pool es j" "chained env (es @ ds)" "set ds \<subseteq> set pool"
  shows "\<exists>j'. restore_all env ds j = (Inr (), j') \<and> follows_history pool (es @ ds) j'"
  using assms
proof (induction ds arbitrary: es j)
  case (Cons d ds)
  have here: "chained env (es @ [d])" using chained_take[OF Cons.prems(2), of "length es + 1"] by simp
  then have "journal_restore env d j = (Inr (), journal_advance d j)"
    using Cons.prems(1) by (simp add: journal_restore_def follows_history_def chained_snoc check_link_def)
  moreover have "follows_history pool (es @ [d]) (journal_advance d j)"
    by (rule follows_advance) (use Cons.prems here in \<open>auto simp: chained_snoc\<close>)
  ultimately show ?case using Cons.IH[of "es @ [d]" "journal_advance d j"] Cons.prems by simp
qed simp

lemma start_inv:
  assumes "journal_inv env s" "journal_start env stop s = (r, s')"
  shows "journal_inv env s' \<and> (oj_store s \<and> stop = None \<longrightarrow> oj_integrity s' = VALID \<and> r = Inr ()
     \<and> oj_rows s' = oj_rows s \<and> follows_history (oj_rows s) (oj_rows s) (oj_journal s'))"
proof (cases "oj_store s")
  case True
  let ?rows = "oj_rows s"
  have ok: "rows_ok env ?rows" "0 < oj_batch_size s" using assms(1) True by (auto simp: journal_inv_def)
  then have iter: "iter_events (oj_batch_size s) ?rows = ?rows" using iter_events_chained by (auto simp: rows_ok_def)
  have win: "0 < ej_window_size (oj_journal s)" using assms(1) True by (auto simp: journal_inv_def follows_history_def)
  define k where "k = (case stop of None \<Rightarrow> length ?rows | Some k \<Rightarrow> k)"
  have cut: "(case stop of None \<Rightarrow> ?rows | Some k \<Rightarrow> take k ?rows) = take k ?rows" by (simp add: k_def split: option.splits)
  have "chained env ([] @ take k ?rows)" using chained_take ok by (simp add: rows_ok_def)
  moreover have "set (take k ?rows) \<subseteq> set ?rows" by (rule set_take_subset)
  ultimately obtain j where j: "restore_all env (take k ?rows) (journal_reset (oj_journal s)) = (Inr (), j)"
    "follows_history ?rows (take k ?rows) j"
    using restore_all_follows[OF follows_reset[OF win, of ?rows]] by fastforce
  have "\<exists>n \<le> length ?rows. follows_history ?rows (take n ?rows) j"
    using j(2) by (cases "k \<le> length ?rows") (auto intro: exI[of _ "length ?rows"])
  then show ?thesis
    using assms(2) True j ok by (auto simp: journal_start_def iter cut journal_inv_def Let_def k_def split: option.splits)
qed (use assms in \<open>auto simp: journal_start_def\<close>)


lemma commit_event_follows:
  assumes "follows_history pool es (oj_journal s)" "chained env (es @ [e])" "e \<in> set pool"
  shows "commit_event env e s = (Inr (e, True), s\<lparr>oj_journal := journal_advance e (oj_journal s)\<rparr>)"
    and "follows_history pool (es @ [e]) (journal_advance e (oj_journal s))"
  using commit_follows[OF assms] by (simp_all add: commit_event_def)

text \<open>Recording without a table.\<close>

lemma record_memory_inv:
  assumes "journal_inv env s" "\<not> oj_store s" "record_event_op env fate fresh now q s = (r, s')"
  shows "journal_inv env s'"
proof -
  obtain es where es: "chained env es" "follows_history es es (oj_journal s)" and batch: "0 < oj_batch_size s"
    using assms(1,2) by (auto simp: journal_inv_def)
  show ?thesis
  proof (cases "oj_integrity s = VALID \<and> (\<exists>e. prepare env fresh now (q\<lparr>jq_event_id := None\<rparr>) (oj_journal s) = Inr e)")
    case True
    then obtain e where e: "prepare env fresh now (q\<lparr>jq_event_id := None\<rparr>) (oj_journal s) = Inr e" by auto
    note chain = prepare_Inr(1)[OF e es(2,1)]
    have pool: "follows_history (es @ [e]) es (oj_journal s)" by (rule follows_mono[OF es(2)]) auto
    from commit_event_follows[OF this chain] show ?thesis
      using True e assms(2,3) chain batch by (auto simp: record_event_op_def journal_inv_def)
  next
    case False
    then have "s' = s" using assms(3) by (auto simp: record_event_op_def split: if_splits sum.splits journal_exn.splits)
    then show ?thesis using assms(1) by simp
  qed
qed

text \<open>Writing an event made at the end of a prefix of the table.\<close>

lemma write_refused_cases:
  assumes inv: "journal_inv env s" "oj_store s" and run: "write_event env fate e s = (r, s')"
    and ap: "store_append e (oj_rows s) = (Inl x, rows')"
  obtains (refused) y where "r = Inl y" "oj_rows s' = oj_rows s" "journal_inv env s'" "oj_store s'"
  | (known) ex k where "r = Inr (ex, False)" "ex \<in> set (oj_rows s)" "oj_rows s' = oj_rows s" "journal_inv env s'"
      "oj_store s'" "je_idempotency_key e = Some k" "je_idempotency_key ex = Some k"
proof (cases "fate = Written \<and> (\<exists>m ex. x = Duplicate_Event m ex)")
  case True
  then obtain m ex where x: "x = Duplicate_Event m ex" by auto
  with store_append_refused[OF ap] obtain k where ex: "ex \<in> set (oj_rows s)" "je_idempotency_key e = Some k"
    "je_idempotency_key ex = Some k" "rows' = oj_rows s" by auto
  have "journal_inv env (s\<lparr>oj_rows := oj_rows s, oj_journal := journal_remember ex (oj_journal s)\<rparr>)"
    using inv follows_remember[OF _ ex(1)] by (auto simp: journal_inv_def)
  then show thesis using known[of ex k] run ap x True ex inv(2) by (auto simp: write_event_def store_write_def)
next
  case False
  have "journal_inv env (s\<lparr>oj_rows := oj_rows s, oj_write_failures := k\<rparr>)"
    "journal_inv env (mark_corrupted m (s\<lparr>oj_rows := oj_rows s, oj_write_failures := k\<rparr>))" for k m
    using inv by (simp_all add: journal_inv_def mark_corrupted_def)
  then show thesis using refused run ap store_append_refused[OF ap] inv(2) False
    by (cases fate) (auto simp: write_event_def store_write_def mark_corrupted_def)
qed

lemma write_accepted_cases:
  assumes store: "oj_store s" "0 < oj_batch_size s" and rows: "rows_ok env (oj_rows s)"
    and n: "n \<le> length (oj_rows s)" and f: "follows_history (oj_rows s) (take n (oj_rows s)) (oj_journal s)"
    and e: "chained env (take n (oj_rows s) @ [e])" and run: "write_event env fate e s = (r, s')"
    and ap: "store_append e (oj_rows s) = (Inr u, rows')"
  obtains (refused) y where "r = Inl y" "oj_rows s' = oj_rows s" "journal_inv env s'" "oj_store s'"
  | (created) "r = Inr (e, True) \<or> fate = Written_Then_Lost \<and> (\<exists>x. r = Inl x)" "oj_rows s' = oj_rows s @ [e]"
      "journal_inv env s'" "oj_store s'" "r = Inr (e, True) \<longrightarrow> follows_history (oj_rows s') (oj_rows s') (oj_journal s')"
proof -
  note fit = store_append_prefix[OF rows n e ap]
  have whole: "follows_history (oj_rows s) (oj_rows s) (oj_journal s)" using f fit by simp
  then have pool: "follows_history rows' (oj_rows s) (oj_journal s)" using fit by (auto intro: follows_mono)
  show thesis
  proof (cases fate)
    case Written
    have "chained env (oj_rows s @ [e])" "e \<in> set rows'" using fit by (auto simp: rows_ok_def)
    note c = commit_event_follows[of rows' "oj_rows s" "s\<lparr>oj_rows := rows'\<rparr>", simplified, OF pool this]
    have s': "s' = s\<lparr>oj_rows := rows', oj_journal := journal_advance e (oj_journal s)\<rparr>" "r = Inr (e, True)"
      using run ap Written c(1) by (simp_all add: write_event_def store_write_def)
    have "journal_inv env s'"
      using s'(1) fit c(2) store by (auto simp: journal_inv_def intro!: exI[of _ "Suc (length (oj_rows s))"])
    then show thesis using created fit c(2) store s' by simp
  next
    case Not_Written
    then have s': "s' = s\<lparr>oj_write_failures := oj_write_failures s + 1\<rparr>" "\<exists>x. r = Inl x"
      using run by (auto simp: write_event_def store_write_def)
    then have "journal_inv env s'" using store rows n f by (auto simp: journal_inv_def)
    then show thesis using refused s' store by auto
  next
    case Written_Then_Lost
    then have s': "s' = s\<lparr>oj_rows := rows', oj_write_failures := oj_write_failures s + 1\<rparr>" "\<exists>x. r = Inl x"
      using run ap by (auto simp: write_event_def store_write_def)
    have "journal_inv env s'" using s'(1) fit pool store by (auto simp: journal_inv_def intro!: exI[of _ "length (oj_rows s)"])
    then show thesis using created fit store s' Written_Then_Lost by auto
  qed
qed

text \<open>Recording into the table: what a call does to it.\<close>

lemma record_store_cases:
  assumes inv: "journal_inv env s" and store: "oj_store s" and run: "record_event_op env fate fresh now q s = (r, s')"
  obtains (refused) x where "r = Inl x" "oj_rows s' = oj_rows s" "journal_inv env s'" "oj_store s'"
  | (known) e k where "r = Inr (e, False)" "e \<in> set (oj_rows s)" "oj_rows s' = oj_rows s" "journal_inv env s'" "oj_store s'"
      "jq_idempotency_key q = Some k \<and> je_idempotency_key e = Some k \<or> je_event_id e = fst fresh"
  | (created) e where "r = Inr (e, True) \<or> fate = Written_Then_Lost \<and> (\<exists>x. r = Inl x)" "oj_rows s' = oj_rows s @ [e]"
      "journal_inv env s'" "oj_store s'" "je_idempotency_key e = jq_idempotency_key q"
      "r = Inr (e, True) \<longrightarrow> follows_history (oj_rows s') (oj_rows s') (oj_journal s')"
proof (cases "oj_integrity s = VALID")
  case valid: True
  let ?p = "prepare env fresh now (q\<lparr>jq_event_id := None\<rparr>) (oj_journal s)"
  obtain n where ok: "rows_ok env (oj_rows s)" "0 < oj_batch_size s" and n: "n \<le> length (oj_rows s)"
    and f: "follows_history (oj_rows s) (take n (oj_rows s)) (oj_journal s)" using inv store by (auto simp: journal_inv_def)
  show thesis
  proof (cases ?p)
    case (Inl x)
    show thesis
    proof (cases "\<exists>m e. x = Duplicate_Event m e")
      case True
      then obtain m e where x: "x = Duplicate_Event m e" by auto
      have "s' = s" "r = Inr (e, False)" using run valid Inl x by (simp_all add: record_event_op_def)
      moreover have "e \<in> set (oj_rows s) \<and> (jq_idempotency_key q = je_idempotency_key e \<and> je_idempotency_key e \<noteq> None
          \<or> je_event_id e = fst fresh)"
        using prepare_dup[OF Inl[unfolded x]] f by (fastforce simp: follows_history_def cached_def dest: map_of_SomeD)
      ultimately show thesis using known inv store by (metis option.exhaust)
    next
      case False
      then have "s' = s" "r = Inl x" using run valid Inl by (auto simp: record_event_op_def split: journal_exn.splits)
      then show thesis using refused inv store by auto
    qed
  next
    case (Inr e)
    have "chained env (take n (oj_rows s))" using ok chained_take by (simp add: rows_ok_def)
    note e = prepare_Inr[OF Inr f this, simplified]
    have w: "write_event env fate e s = (r, s')" using run valid Inr store by (simp add: record_event_op_def)
    show thesis
    proof (cases "store_append e (oj_rows s)")
      case (Pair q' rows')
      show thesis
      proof (cases q')
        case (Inl x)
        from inv store w Pair[unfolded Inl] show thesis
          by (rule write_refused_cases) (use refused known e(2) in auto)
      next
        case (Inr u)
        from store ok(2,1) n f e(1) w Pair[unfolded Inr] show thesis
          by (rule write_accepted_cases) (use refused created[of e] e(2) in auto)
      qed
    qed
  qed
next
  case False
  then have "s' = s" "\<exists>x. r = Inl x" using run by (auto simp: record_event_op_def)
  then show thesis using refused inv store by blast
qed


section \<open>Runs\<close>

text \<open>
  A journal over no table or an empty one, then starts whose reading may stop, records with any fate of
  the write, and new processes over the same table.
\<close>

inductive journal_reach :: "journal_env \<Rightarrow> operational_journal \<Rightarrow> bool" for env where
  opened: "event_journal_new window key_cache = Inr j \<Longrightarrow> 0 < batch \<Longrightarrow>
     journal_reach env (operational_journal_new store batch [] j)"
| started: "journal_reach env s \<Longrightarrow> journal_start env stop s = (r, s') \<Longrightarrow> journal_reach env s'"
| recorded: "journal_reach env s \<Longrightarrow> record_event_op env fate fresh now q s = (r, s') \<Longrightarrow> journal_reach env s'"
| restarted: "journal_reach env s \<Longrightarrow> event_journal_new window key_cache = Inr j \<Longrightarrow> oj_store s \<Longrightarrow>
     journal_reach env (operational_journal_new True (oj_batch_size s) (oj_rows s) j)"

lemma new_follows: "event_journal_new window key_cache = Inr j \<Longrightarrow> follows_history pool [] j"
  by (auto simp: event_journal_new_def follows_history_def head_of_def cached_def split: if_splits)

lemma record_inv: "journal_inv env s \<Longrightarrow> record_event_op env fate fresh now q s = (r, s') \<Longrightarrow> journal_inv env s'"
  by (cases "oj_store s") (auto elim: record_store_cases record_memory_inv)

lemma journal_reach_inv: "journal_reach env s \<Longrightarrow> journal_inv env s"
proof (induction rule: journal_reach.induct)
  case (opened window key_cache j batch store)
  then show ?case using new_follows[OF opened(1), of "[]"]
    by (auto simp: journal_inv_def operational_journal_new_def rows_ok_def List.map_filter_def intro!: exI[of _ "[]"])
next
  case (restarted s window key_cache j)
  then show ?case using new_follows[OF restarted(2), of "oj_rows s"]
    by (auto simp: journal_inv_def operational_journal_new_def intro!: exI[of _ 0])
next
  case (started s stop r s')
  then show ?case using start_inv by blast
next
  case (recorded s fate fresh now q r s')
  then show ?case using record_inv by blast
qed

lemma verify_links_chained:
  assumes "chained env (ds @ es)" "es \<noteq> []"
  shows "verify_links env (int (length ds) + 1) (head_of ds) es = Inr (head_of (ds @ es))"
  using assms
proof (induction es arbitrary: ds)
  case (Cons e es)
  have "chained env (ds @ [e])" using chained_take[OF Cons.prems(1), of "length ds + 1"] by simp
  then have e: "check_link env e (int (length ds) + 1) (head_of ds) = Inr ()" "je_sequence e = int (length ds) + 1"
    by (simp_all add: chained_snoc check_link_def)
  show ?case
  proof (cases "es = []")
    case False
    then show ?thesis using Cons.IH[of "ds @ [e]"] Cons.prems(1) e by (simp add: head_of_def add.commute)
  qed (use e in \<open>simp add: head_of_def\<close>)
qed simp

lemma verify_window_follows:
  assumes "follows_history pool es j" "chained env es"
  shows "verify_window env j"
proof (cases "ej_window j")
  case Nil
  then have "es = []" using assms(1) by (cases es) (auto simp: follows_history_def)
  then show ?thesis using Nil assms(1) by (simp add: verify_window_def follows_history_def head_of_def)
next
  case (Cons e w)
  define k where "k = length es - ej_window_size j"
  have w: "drop k es = e # w" using assms(1) Cons by (simp add: follows_history_def k_def)
  then have es: "es = take k es @ e # w" using append_take_drop_id[of k es] by simp
  have "k < length es" using w by (metis drop_all list.distinct(1) not_le)
  have "chained env (take k es @ [e])" using chained_take[OF assms(2), of "Suc k"] \<open>k < length es\<close> w
    by (simp add: take_Suc_conv_app_nth) (metis Cons_nth_drop_Suc list.inject)
  then have "je_sequence e = int (length (take k es)) + 1" "je_previous_hash e = head_of (take k es)"
    by (simp_all add: chained_snoc)
  moreover have "verify_links env (int (length (take k es)) + 1) (head_of (take k es)) (e # w) = Inr (head_of es)"
    using verify_links_chained[of env "take k es" "e # w"] assms(2) es by simp
  moreover have "je_sequence (last (e # w)) = int (length es)"
  proof -
    have "es \<noteq> []" using \<open>k < length es\<close> by auto
    then have "last (e # w) = es ! (length es - 1)" using w \<open>k < length es\<close> last_drop[of k es] by (simp add: last_conv_nth)
    then show ?thesis using chained_sequence[OF assms(2), of "length es - 1"] \<open>k < length es\<close> by (simp add: of_nat_diff)
  qed
  moreover have "ej_head_sequence j = int (length es)" "ej_head_hash j = head_of es"
    using assms(1) by (simp_all add: follows_history_def)
  ultimately show ?thesis unfolding verify_window_def Cons by (simp del: verify_links.simps)
qed


section \<open>Properties\<close>

text \<open>
  C27: The durable journal is always a verified chain. Whatever writes fail or are lost after the table
  took them, wherever a start stops reading and however often the process restarts, the history read
  back from the table in batches verifies from GENESIS over all its rows, no event id or idempotency
  key occurs twice, and the memory stands at the end of a prefix of the table: it never holds an event
  the table lacks. The window in memory always verifies, with or without a table.
\<close>

theorem durable_journal_verifies:
  assumes "journal_reach env s"
  shows "(oj_store s \<longrightarrow>
      verify_chain env (iter_events (oj_batch_size s) (oj_rows s)) = Inr (int (length (oj_rows s)))
      \<and> distinct (keys_of (oj_rows s)) \<and> distinct (map je_event_id (oj_rows s))
      \<and> (\<exists>n \<le> length (oj_rows s). ej_head_sequence (oj_journal s) = int n
            \<and> ej_head_hash (oj_journal s) = head_of (take n (oj_rows s))
            \<and> set (ej_window (oj_journal s)) \<subseteq> set (take n (oj_rows s))))
    \<and> verify_window env (oj_journal s)"
proof (cases "oj_store s")
  case True
  obtain n where rows: "rows_ok env (oj_rows s)" "0 < oj_batch_size s" and n: "n \<le> length (oj_rows s)"
    and f: "follows_history (oj_rows s) (take n (oj_rows s)) (oj_journal s)"
    using journal_reach_inv[OF assms] True by (auto simp: journal_inv_def)
  have "chained env (oj_rows s)" using rows by (simp add: rows_ok_def)
  then have "iter_events (oj_batch_size s) (oj_rows s) = oj_rows s" using rows(2) by (rule iter_events_chained)
  moreover have "set (ej_window (oj_journal s)) \<subseteq> set (take n (oj_rows s))"
    using f set_drop_subset by (fastforce simp: follows_history_def)
  moreover have "verify_window env (oj_journal s)"
    using verify_window_follows[OF f chained_take] \<open>chained env (oj_rows s)\<close> by blast
  ultimately show ?thesis using rows n f
    by (auto simp: rows_ok_def chained_def follows_history_def intro!: exI[of _ n])
next
  case False
  then show ?thesis using journal_reach_inv[OF assms] verify_window_follows by (auto simp: journal_inv_def)
qed

text \<open>
  Recording is idempotent. If the table holds an event under an idempotency key, another record
  with that key never adds a row, whatever its content, the state of the caches and the fate of the
  write; and if it returns, it returns that event and says that it was not created. The generated id
  must not be one of the table's.
\<close>

theorem record_is_idempotent:
  assumes "journal_reach env s" "oj_store s" "e \<in> set (oj_rows s)" "je_idempotency_key e = Some k"
    and "jq_idempotency_key q = Some k" "fst fresh \<notin> set (map je_event_id (oj_rows s))"
    and "record_event_op env fate fresh now q s = (r, s')"
  shows "oj_rows s' = oj_rows s \<and> (\<forall>x created. r = Inr (x, created) \<longrightarrow> x = e \<and> \<not> created)"
proof -
  have ok: "rows_ok env (oj_rows s)" using journal_reach_inv[OF assms(1)] assms(2) by (simp add: journal_inv_def)
  have unique: "x = e" if "x \<in> set rows" "e \<in> set rows" "je_idempotency_key x = Some k" "distinct (keys_of rows)" for x rows
    using that assms(4)
    by (induction rows) (auto simp: List.map_filter_simps in_keys_of split: option.splits)
  from journal_reach_inv[OF assms(1)] assms(2,7) show ?thesis
  proof (cases rule: record_store_cases)
    case (known x k')
    have "je_event_id x \<noteq> fst fresh" using known(2) assms(6) by (metis image_eqI set_map)
    then show ?thesis using known assms(3,5) ok unique[of x "oj_rows s"] by (auto simp: rows_ok_def)
  next
    case (created x)
    have "distinct (keys_of (oj_rows s @ [x]))" using created(2-4) by (auto simp: journal_inv_def rows_ok_def)
    moreover have "k \<in> set (keys_of (oj_rows s))" using assms(3,4) by (auto simp: in_keys_of)
    ultimately show ?thesis using created(5) assms(5) by simp
  qed auto
qed


section \<open>Witnesses\<close>

definition ex_memory :: event_journal where
  "ex_memory = \<lparr>ej_window_size = 2, ej_key_cache = 1, ej_window = [], ej_keys = [], ej_ids = [],
     ej_head_sequence = 0, ej_head_hash = GENESIS_HASH\<rparr>"

definition ex_request :: "string \<Rightarrow> int \<Rightarrow> journal_request" where
  "ex_request key v = \<lparr>jq_event_type = ''HALT'', jq_source = ''watchdog'', jq_payload = [(''v'', JInt v)],
     jq_correlation_id = None, jq_event_id = None, jq_idempotency_key = Some key, jq_timestamp = None\<rparr>"

definition ex_open :: operational_journal where
  "ex_open = snd (journal_start ex_journal_env None (operational_journal_new True 1 [] ex_memory))"

text \<open>Two events, the second one lost after the table took it, then a new process that starts.\<close>

definition ex_recorded :: operational_journal where
  "ex_recorded =
     (let s1 = snd (record_event_op ex_journal_env Written (''u1'', ''c1'') 7 (ex_request ''a'' 1) ex_open);
          s2 = snd (record_event_op ex_journal_env Written_Then_Lost (''u2'', ''c2'') 8 (ex_request ''b'' 2) s1)
      in snd (journal_start ex_journal_env None (operational_journal_new True 1 (oj_rows s2) ex_memory)))"

lemma ex_memory_new: "event_journal_new 2 1 = Inr ex_memory"
  by (simp add: event_journal_new_def ex_memory_def)

lemma record_store: "oj_store (snd (record_event_op env fate fresh now q s)) = oj_store s"
  by (auto simp: record_event_op_def write_event_def commit_event_def mark_corrupted_def
      split: sum.splits journal_exn.splits prod.splits)

lemma start_frame: "oj_store (snd (journal_start env stop s)) = oj_store s" "oj_batch_size (snd (journal_start env stop s)) = oj_batch_size s"
  by (auto simp: journal_start_def mark_corrupted_def Let_def split: sum.splits prod.splits option.splits)

lemma record_frame: "oj_batch_size (snd (record_event_op env fate fresh now q s)) = oj_batch_size s"
  by (auto simp: record_event_op_def write_event_def commit_event_def mark_corrupted_def
      split: sum.splits journal_exn.splits prod.splits)

lemma ex_recorded_reach: "journal_reach ex_journal_env ex_recorded"
proof -
  note snd = journal_reach.started[OF _ prod.collapse[symmetric]] journal_reach.recorded[OF _ prod.collapse[symmetric]]
  have open': "journal_reach ex_journal_env ex_open"
    unfolding ex_open_def by (rule snd(1), rule journal_reach.opened[OF ex_memory_new]) simp
  define s2 where "s2 = snd (record_event_op ex_journal_env Written_Then_Lost (''u2'', ''c2'') 8 (ex_request ''b'' 2)
     (snd (record_event_op ex_journal_env Written (''u1'', ''c1'') 7 (ex_request ''a'' 1) ex_open)))"
  have r: "journal_reach ex_journal_env s2" unfolding s2_def by (rule snd(2), rule snd(2), rule open')
  have "oj_store s2" "oj_batch_size s2 = 1"
    by (simp_all add: s2_def record_store record_frame ex_open_def start_frame operational_journal_new_def)
  from journal_reach.restarted[OF r ex_memory_new this(1)] show ?thesis
    unfolding ex_recorded_def Let_def s2_def[symmetric] by (intro snd(1)) (simp add: \<open>oj_batch_size s2 = 1\<close>)
qed

lemma ex_recorded_rows:
  "(map je_idempotency_key (oj_rows ex_recorded) = [Some ''a'', Some ''b''] \<and> map je_event_id (oj_rows ex_recorded) = [''u1'', ''u2''])
   \<and> oj_store ex_recorded \<and> oj_integrity ex_recorded = VALID"
  by code_simp

theorem durable_journal_verifies_witness:
  "verify_chain ex_journal_env (iter_events (oj_batch_size ex_recorded) (oj_rows ex_recorded)) = Inr 2"
proof -
  have "length (oj_rows ex_recorded) = 2" using ex_recorded_rows by (metis length_map length_Cons list.size(3) numeral_2_eq_2)
  then show ?thesis using durable_journal_verifies[OF ex_recorded_reach] ex_recorded_rows by simp
qed

theorem record_is_idempotent_witness:
  "\<exists>e s'. je_idempotency_key e = Some ''a''
     \<and> record_event_op ex_journal_env Written (''u3'', ''c3'') 9 (ex_request ''a'' 5) ex_recorded = (Inr (e, False), s')
     \<and> oj_rows s' = oj_rows ex_recorded"
proof -
  obtain e where e: "e \<in> set (oj_rows ex_recorded)" "je_idempotency_key e = Some ''a''"
    using ex_recorded_rows by (metis list.set_intros(1) image_iff list.set_map)
  let ?call = "record_event_op ex_journal_env Written (''u3'', ''c3'') 9 (ex_request ''a'' 5) ex_recorded"
  have "(case fst ?call of Inl _ \<Rightarrow> False | Inr _ \<Rightarrow> True)" by code_simp
  then obtain x c s' where run: "?call = (Inr (x, c), s')" by (cases ?call) (auto split: sum.splits)
  have "fst (''u3'', ''c3'') \<notin> set (map je_event_id (oj_rows ex_recorded))" using ex_recorded_rows by simp
  from record_is_idempotent[OF ex_recorded_reach _ e _ this run] show ?thesis
    using run e ex_recorded_rows by (auto simp: ex_request_def)
qed

end
