(* ===== verification/Watchdog.thy ===== *)
theory Watchdog
  imports Json
begin

text \<open>
  The watchdog (\<^verbatim>\<open>services/watchdog/checks.py\<close>, \<^verbatim>\<open>services/watchdog/runner.py\<close>): limits, the checks with
  their counters, the checks of the XP and Alpaca executors, and the cycle that probes, decides, halts
  and reports. The answers of the probes and the outcome of each halt request are inputs of a cycle; the
  requests it sends are recorded. Parsing of decimal and ISO texts, the local clocks of the exchanges and
  Python's text of a list or dict come in through \<open>watchdog_env\<close>. Dicts that arrive as JSON have distinct
  keys; \<^verbatim>\<open>str.lower\<close> is taken on ASCII letters.
\<close>

section \<open>Limits\<close>

record limits =
  lm_daily_loss_fraction :: rat
  lm_drawdown_fraction :: rat
  lm_unreachable_cycles :: int
  lm_stale_market_cycles :: int
  lm_max_reconcile_age :: timedelta

definition default_limits :: limits where
  "default_limits = \<lparr>lm_daily_loss_fraction = 1, lm_drawdown_fraction = 1, lm_unreachable_cycles = 3,
     lm_stale_market_cycles = 6, lm_max_reconcile_age = minutes 3\<rparr>"

definition limits_new :: "limits \<Rightarrow> limits res" where
  "limits_new l =
     (if \<not> (0 < lm_daily_loss_fraction l \<and> lm_daily_loss_fraction l \<le> 1)
      then Inl (ValueError ''daily_loss_fraction must be in (0, 1]: the watchdog may only tighten limits'')
      else if \<not> (0 < lm_drawdown_fraction l \<and> lm_drawdown_fraction l \<le> 1)
      then Inl (ValueError ''drawdown_fraction must be in (0, 1]: the watchdog may only tighten limits'')
      else if lm_unreachable_cycles l < 1 \<or> lm_stale_market_cycles l < 1
      then Inl (ValueError ''cycle counts must be positive'')
      else Inr l)"

definition max_daily_loss :: "limits \<Rightarrow> rat" where
  "max_daily_loss l = dmul MAX_DAILY_LOSS (lm_daily_loss_fraction l)"

definition max_drawdown :: "limits \<Rightarrow> rat" where
  "max_drawdown l = dmul MAX_DRAWDOWN (lm_drawdown_fraction l)"

section \<open>Observations\<close>

record observation =
  ob_at :: instant
  ob_api_health :: bool
  ob_floor :: "json_dict option"
  ob_market_ready :: "bool option"
  ob_executor_configured :: bool
  ob_executor :: "json_dict option"
  ob_xp_configured :: bool
  ob_xp :: "json_dict option"
  ob_alpaca_configured :: bool
  ob_alpaca :: "json_dict option"

record watchdog_env =
  wd_decimal :: "string \<Rightarrow> rat option"
  wd_fromisoformat :: "string \<Rightarrow> py_datetime option"
  wd_local :: "string \<Rightarrow> instant \<Rightarrow> int \<times> int"
  wd_repr :: "json \<Rightarrow> string"

text \<open>\<^verbatim>\<open>value or {}\<close>, used as a dict.\<close>

definition dict_or_empty :: "json \<Rightarrow> json_dict res" where
  "dict_or_empty v =
     (if \<not> json_true v then Inr [] else (case v of JObj d \<Rightarrow> Inr d | _ \<Rightarrow> Inl AttributeError))"

definition py_str :: "watchdog_env \<Rightarrow> json \<Rightarrow> string" where
  "py_str env v =
     (case v of
        JNull \<Rightarrow> ''None'' | JBool b \<Rightarrow> (if b then ''True'' else ''False'') | JInt i \<Rightarrow> int_str i
      | JFloat (Some r) \<Rightarrow> r | JStr s \<Rightarrow> s | _ \<Rightarrow> wd_repr env v)"

definition lower_char :: "char \<Rightarrow> char" where
  "lower_char c = (let n = (of_char c :: nat) in if 65 \<le> n \<and> n \<le> 90 then char_of (n + 32) else c)"

text \<open>\<^verbatim>\<open>_dec\<close>: a finite Decimal, or nothing.\<close>

definition dec_of :: "watchdog_env \<Rightarrow> json \<Rightarrow> rat option" where
  "dec_of env v =
     (case v of
        JInt i \<Rightarrow> Some (of_int i) | JFloat (Some r) \<Rightarrow> wd_decimal env r | JStr s \<Rightarrow> wd_decimal env s | _ \<Rightarrow> None)"

text \<open>Age of an ISO instant; unreadable, naive or missing gives nothing.\<close>

definition age_of :: "watchdog_env \<Rightarrow> instant \<Rightarrow> json \<Rightarrow> timedelta option" where
  "age_of env at_time last_value =
     (if \<not> json_true last_value then None
      else (case last_value of
              JList _ \<Rightarrow> None | JObj _ \<Rightarrow> None
            | v \<Rightarrow> (case wd_fromisoformat env (py_str env v) of Some (Aware t) \<Rightarrow> Some (at_time - t) | _ \<Rightarrow> None)))"

definition reconcile_stale :: "watchdog_env \<Rightarrow> limits \<Rightarrow> instant \<Rightarrow> json_dict \<Rightarrow> bool" where
  "reconcile_stale env lm at_time ex =
     (case age_of env at_time (jget ex ''last_reconcile_at'') of None \<Rightarrow> True | Some age \<Rightarrow> lm_max_reconcile_age lm < age)"

definition in_session :: "string \<Rightarrow> timedelta \<Rightarrow> timedelta \<Rightarrow> watchdog_env \<Rightarrow> instant \<Rightarrow> bool" where
  "in_session zone opens closes env at_time =
     (case wd_local env zone at_time of (weekday, t) \<Rightarrow> weekday < 5 \<and> opens \<le> t \<and> t < closes)"

definition b3_session :: "watchdog_env \<Rightarrow> instant \<Rightarrow> bool" where
  "b3_session = in_session ''America/Sao_Paulo'' (minutes 600) (minutes 1075)"

definition us_session :: "watchdog_env \<Rightarrow> instant \<Rightarrow> bool" where
  "us_session = in_session ''America/New_York'' (minutes 570) (minutes 960)"

section \<open>Checks\<close>

record check_state =
  cs_misses :: "(string, nat) dict"
  cs_trips :: "string list"
  cs_status :: "(string, string) dict"

type_synonym 'a check_op = "(check_state, 'a) op"

definition sustained :: "string \<Rightarrow> bool \<Rightarrow> (string, nat) dict \<Rightarrow> nat" where
  "sustained name failing misses = (if failing then dget_or misses name 0 + 1 else 0)"

definition run_check :: "string \<Rightarrow> bool \<Rightarrow> int \<Rightarrow> string \<Rightarrow> check_state \<Rightarrow> check_state" where
  "run_check name failing cycles reason s =
     (let n = sustained name failing (cs_misses s)
      in s\<lparr>cs_misses := dset name n (cs_misses s),
           cs_status := dset name (if cycles \<le> int n then ''trip'' else if failing then ''warn'' else ''ok'') (cs_status s),
           cs_trips := (if cycles \<le> int n then cs_trips s @ [reason] else cs_trips s)\<rparr>)"

text \<open>\<^verbatim>\<open>min(cap, REFERENCE_CAPITAL) if cap and cap > 0 else REFERENCE_CAPITAL\<close>.\<close>

definition account_cap :: "rat option \<Rightarrow> rat" where
  "account_cap cap = (case cap of Some c \<Rightarrow> if c > 0 then min c REFERENCE_CAPITAL else REFERENCE_CAPITAL | None \<Rightarrow> REFERENCE_CAPITAL)"

definition loss_beyond :: "rat \<Rightarrow> rat \<Rightarrow> rat \<Rightarrow> rat \<Rightarrow> bool" where
  "loss_beyond equity baseline cap limit \<longleftrightarrow> dec_fix (dsub equity baseline / min baseline cap) \<le> - limit"

definition check_equities :: "limits \<Rightarrow> string \<Rightarrow> rat \<Rightarrow> rat \<Rightarrow> rat \<Rightarrow> rat \<Rightarrow> check_state \<Rightarrow> check_state" where
  "check_equities lm asset equity start_equity peak cap s =
     (let s1 = (if start_equity > 0
                then run_check (''daily_loss_'' @ asset) (loss_beyond equity start_equity cap (max_daily_loss lm)) 1
                       (''daily_loss:'' @ asset) s else s)
      in if peak > 0
         then run_check (''drawdown_'' @ asset) (loss_beyond equity peak cap (max_drawdown lm)) 1
                (''drawdown:'' @ asset) s1 else s1)"

definition check_account :: "watchdog_env \<Rightarrow> limits \<Rightarrow> string \<times> json \<Rightarrow> check_state \<Rightarrow> check_state" where
  "check_account env lm entry s =
     (case entry of (asset, value) \<Rightarrow>
        let name = ''account_'' @ asset
        in (case value of
              JObj account \<Rightarrow>
                let s1 = s\<lparr>cs_status := dset name ''ok'' (cs_status s), cs_misses := dset name 0 (cs_misses s)\<rparr>
                in (case (dec_of env (jget account ''equity''), dec_of env (jget account ''start_of_day_equity''),
                          dec_of env (jget account ''peak_equity'')) of
                      (Some equity, Some start_equity, Some peak) \<Rightarrow>
                        check_equities lm asset equity start_equity peak
                          (account_cap (dec_of env (jget account ''reference_capital''))) s1
                    | _ \<Rightarrow> run_check name True (lm_unreachable_cycles lm) (''account_unreadable:'' @ asset) s1)
            | _ \<Rightarrow> run_check name True (lm_unreachable_cycles lm) (''account_unavailable:'' @ asset) s))"

definition check_floor :: "watchdog_env \<Rightarrow> limits \<Rightarrow> observation \<Rightarrow> json_dict \<Rightarrow> unit check_op" where
  "check_floor env lm obs floor_state =
     (let journal = py_str env (dget_or floor_state ''journal'' (JStr ''UNKNOWN''))
      in op_bind (op_modify (run_check ''journal_integrity'' (journal \<noteq> ''VALID'') 1 (''journal_'' @ map lower_char journal))) (\<lambda>_.
         op_bind (op_lift (dict_or_empty (jget floor_state ''accounts''))) (\<lambda>accounts.
         op_bind (op_modify (fold (check_account env lm) (sort_key fst accounts))) (\<lambda>_.
         op_bind (op_lift (dict_or_empty (jget floor_state ''pipeline''))) (\<lambda>pipeline.
           let executing = json_true (jget pipeline ''paper_execution_enabled'')
                 \<or> jget pipeline ''execution_backend'' = JStr ''executor''
           in op_modify (run_check ''market_data'' (executing \<and> ob_market_ready obs \<noteq> Some True)
                (lm_stale_market_cycles lm) ''market_data_stale''))))))"

definition check_executor :: "watchdog_env \<Rightarrow> limits \<Rightarrow> observation \<Rightarrow> check_state \<Rightarrow> check_state" where
  "check_executor env lm obs s =
     (if \<not> ob_executor_configured obs then s
      else
        (case ob_executor obs of
           None \<Rightarrow> run_check ''executor_reachable'' True (lm_unreachable_cycles lm) ''executor_unreachable'' s
         | Some ex \<Rightarrow>
             let s1 = run_check ''executor_reachable'' (\<not> json_true (jget ex ''ready'')) (lm_unreachable_cycles lm)
                        ''executor_unreachable'' s
             in if \<not> json_true (jget ex ''ready'') then s1
                else run_check ''executor_reconcile_age'' (reconcile_stale env lm (ob_at obs) ex) 1 ''reconciliation_stale''
                       (run_check ''executor_reconciliation'' (jget ex ''consistent'' = JBool False) 1
                          ''reconciliation_divergence'' s1)))"

definition evaluate_checks ::
    "watchdog_env \<Rightarrow> limits \<Rightarrow> observation \<Rightarrow> (string list \<times> (string, string) dict) check_op" where
  "evaluate_checks env lm obs =
     op_bind (op_modify (\<lambda>s. run_check ''api_reachable'' (\<not> ob_api_health obs \<or> ob_floor obs = None)
                (lm_unreachable_cycles lm) ''api_unreachable'' (s\<lparr>cs_trips := [], cs_status := []\<rparr>))) (\<lambda>_.
     op_bind (case ob_floor obs of None \<Rightarrow> op_return () | Some floor_state \<Rightarrow> check_floor env lm obs floor_state) (\<lambda>_.
     op_bind (op_modify (check_executor env lm obs)) (\<lambda>_.
     op_read (\<lambda>s. (cs_trips s, cs_status s)))))"

text \<open>The two remote executors follow the same rules with their own names and sessions.\<close>

definition evaluate_remote ::
    "string \<Rightarrow> bool \<Rightarrow> json_dict option \<Rightarrow> (watchdog_env \<Rightarrow> instant \<Rightarrow> bool) \<Rightarrow> watchdog_env \<Rightarrow> limits \<Rightarrow> instant \<Rightarrow>
     string list \<times> (string, string) dict" where
  "evaluate_remote name configured status session env lm at_time =
     (if \<not> configured then ([], [])
      else
        (case status of
           None \<Rightarrow> ([], [(name @ ''_executor'', ''unreachable'')])
         | Some ex \<Rightarrow>
             if \<not> json_true (jget ex ''ready'') then ([], [(name @ ''_executor'', ''unreachable'')])
             else
               let trips = (if jget ex ''consistent'' = JBool False then [name @ ''_reconciliation_divergence''] else [])
                     @ (if reconcile_stale env lm at_time ex \<and> session env at_time then [name @ ''_reconciliation_stale''] else [])
               in (trips, [(name @ ''_executor'', if json_true (jget ex ''halted'') then ''halted'' else ''ok''),
                           (name @ ''_reconciliation'', if trips \<noteq> [] then ''trip'' else ''ok'')])))"

definition evaluate_xp :: "watchdog_env \<Rightarrow> limits \<Rightarrow> observation \<Rightarrow> string list \<times> (string, string) dict" where
  "evaluate_xp env lm obs = evaluate_remote ''xp'' (ob_xp_configured obs) (ob_xp obs) b3_session env lm (ob_at obs)"

definition evaluate_alpaca :: "watchdog_env \<Rightarrow> limits \<Rightarrow> observation \<Rightarrow> string list \<times> (string, string) dict" where
  "evaluate_alpaca env lm obs =
     evaluate_remote ''alpaca'' (ob_alpaca_configured obs) (ob_alpaca obs) us_session env lm (ob_at obs)"

section \<open>The cycle\<close>

record response =
  rs_status :: nat
  rs_body :: "json option"

definition json_object :: "response option \<Rightarrow> json_dict option" where
  "json_object r =
     (case r of
        None \<Rightarrow> None
      | Some r \<Rightarrow> if rs_status r \<noteq> 200 then None else (case rs_body r of Some (JObj d) \<Rightarrow> Some d | _ \<Rightarrow> None))"

record watchdog_config =
  wc_executor :: bool
  wc_xp :: bool
  wc_alpaca :: bool
  wc_limits :: limits
  wc_halts :: bool

datatype halt_target = To_Api | To_Executor | To_Xp | To_Alpaca

text \<open>
  The answers of one cycle. A halt request is answered with a status, or not at all
  (\<^verbatim>\<open>httpx.HTTPError\<close>).
\<close>

record probe =
  pr_at :: instant
  pr_health :: "response option"
  pr_floor :: "response option"
  pr_market :: "response option"
  pr_executor :: "response option"
  pr_xp :: "response option"
  pr_alpaca :: "response option"
  pr_halt :: "halt_target \<Rightarrow> nat option"

definition observe :: "watchdog_config \<Rightarrow> probe \<Rightarrow> observation" where
  "observe cfg p =
     \<lparr>ob_at = pr_at p, ob_api_health = (case pr_health p of Some r \<Rightarrow> rs_status r = 200 | None \<Rightarrow> False),
      ob_floor = json_object (pr_floor p), ob_market_ready = map_option (\<lambda>r. rs_status r = 200) (pr_market p),
      ob_executor_configured = wc_executor cfg, ob_executor = (if wc_executor cfg then json_object (pr_executor p) else None),
      ob_xp_configured = wc_xp cfg, ob_xp = (if wc_xp cfg then json_object (pr_xp p) else None),
      ob_alpaca_configured = wc_alpaca cfg, ob_alpaca = (if wc_alpaca cfg then json_object (pr_alpaca p) else None)\<rparr>"

record cycle_result =
  cr_at :: instant
  cr_trips :: "string list"
  cr_status :: "(string, string) dict"
  cr_api_halted :: bool
  cr_executor_halted :: bool

record watchdog =
  wg_checks :: check_state
  wg_halted :: "halt_target \<Rightarrow> bool"
  wg_sent :: "(halt_target \<times> string list) list"
  wg_heartbeats :: "cycle_result list"

type_synonym 'a watchdog_op = "(watchdog, 'a) op"

text \<open>What the last probe showed of a target's own halt.\<close>

definition seen_halted :: "observation \<Rightarrow> halt_target \<Rightarrow> bool res" where
  "seen_halted obs target =
     (case target of
        To_Api \<Rightarrow>
          res_bind (dict_or_empty (jget (case ob_floor obs of Some f \<Rightarrow> f | None \<Rightarrow> []) ''controls'')) (\<lambda>controls.
          Inr (json_true (jget controls ''global_kill'')))
      | To_Executor \<Rightarrow> Inr (json_true (jget (case ob_executor obs of Some d \<Rightarrow> d | None \<Rightarrow> []) ''halted''))
      | To_Xp \<Rightarrow> Inr (json_true (jget (case ob_xp obs of Some d \<Rightarrow> d | None \<Rightarrow> []) ''halted''))
      | To_Alpaca \<Rightarrow> Inr (json_true (jget (case ob_alpaca obs of Some d \<Rightarrow> d | None \<Rightarrow> []) ''halted'')))"

definition configured :: "watchdog_config \<Rightarrow> halt_target \<Rightarrow> bool" where
  "configured cfg target =
     (case target of To_Api \<Rightarrow> True | To_Executor \<Rightarrow> wc_executor cfg | To_Xp \<Rightarrow> wc_xp cfg | To_Alpaca \<Rightarrow> wc_alpaca cfg)"

text \<open>\<^verbatim>\<open>_halt_api\<close>, \<^verbatim>\<open>_halt_executor\<close>, \<^verbatim>\<open>_halt_xp\<close>, \<^verbatim>\<open>_halt_alpaca\<close>.\<close>

definition send_halt :: "watchdog_config \<Rightarrow> probe \<Rightarrow> observation \<Rightarrow> halt_target \<Rightarrow> string list \<Rightarrow> unit watchdog_op" where
  "send_halt cfg p obs target reasons =
     (if \<not> configured cfg target then op_return ()
      else
        op_bind (op_read (\<lambda>w. wg_halted w target)) (\<lambda>already.
        op_bind (if already then op_lift (seen_halted obs target) else op_return False) (\<lambda>seen.
        op_modify (\<lambda>w. if seen then w
          else w\<lparr>wg_sent := wg_sent w @ [(target, reasons)],
                 wg_halted := (wg_halted w)(target := pr_halt p target = Some 200)\<rparr>))))"

definition halt_or_clear :: "watchdog_config \<Rightarrow> probe \<Rightarrow> observation \<Rightarrow> halt_target list \<Rightarrow> string list \<Rightarrow> unit watchdog_op" where
  "halt_or_clear cfg p obs targets trips =
     (if trips \<noteq> [] then op_bind (op_iter (\<lambda>t. send_halt cfg p obs t trips) targets) (\<lambda>_. op_return ())
      else op_modify (\<lambda>w. w\<lparr>wg_halted := (\<lambda>t. t \<notin> set targets \<and> wg_halted w t)\<rparr>))"

definition on_checks :: "'a check_op \<Rightarrow> 'a watchdog_op" where
  "on_checks m w = (case m (wg_checks w) of (r, c) \<Rightarrow> (r, w\<lparr>wg_checks := c\<rparr>))"

definition heartbeat :: "cycle_result \<Rightarrow> cycle_result watchdog_op" where
  "heartbeat r = op_bind (op_modify (\<lambda>w. w\<lparr>wg_heartbeats := wg_heartbeats w @ [r]\<rparr>)) (\<lambda>_. op_return r)"

definition flag_text :: "bool \<Rightarrow> string" where
  "flag_text b = (if b then ''true'' else ''false'')"

definition cycle :: "watchdog_env \<Rightarrow> watchdog_config \<Rightarrow> probe \<Rightarrow> cycle_result watchdog_op" where
  "cycle env cfg p =
     (let obs = observe cfg p;
          (xp_trips, xp_status) = evaluate_xp env (wc_limits cfg) obs;
          (us_trips, us_status) = evaluate_alpaca env (wc_limits cfg) obs
      in op_bind (on_checks (evaluate_checks env (wc_limits cfg) obs)) (\<lambda>(trips, status).
           if \<not> wc_halts cfg
           then heartbeat \<lparr>cr_at = ob_at obs, cr_trips = trips @ xp_trips @ us_trips,
                  cr_status = status @ xp_status @ us_status @ [(''halts'', ''disabled'')],
                  cr_api_halted = False, cr_executor_halted = False\<rparr>
           else
             op_bind (halt_or_clear cfg p obs [To_Api, To_Executor] trips) (\<lambda>_.
             op_bind (halt_or_clear cfg p obs [To_Xp] xp_trips) (\<lambda>_.
             op_bind (halt_or_clear cfg p obs [To_Alpaca] us_trips) (\<lambda>_.
             op_bind (op_read wg_halted) (\<lambda>halted.
             heartbeat \<lparr>cr_at = ob_at obs, cr_trips = trips @ xp_trips @ us_trips,
               cr_status = status
                 @ xp_status @ (if wc_xp cfg then [(''xp_halted_by_watchdog'', flag_text (halted To_Xp))] else [])
                 @ us_status @ (if wc_alpaca cfg then [(''alpaca_halted_by_watchdog'', flag_text (halted To_Alpaca))] else []),
               cr_api_halted = halted To_Api, cr_executor_halted = halted To_Executor\<rparr>))))))"

text \<open>The loop: a cycle that raises is logged and the next one runs.\<close>

definition run_cycles :: "watchdog_env \<Rightarrow> watchdog_config \<Rightarrow> probe list \<Rightarrow> watchdog \<Rightarrow> watchdog" where
  "run_cycles env cfg ps w = fold (\<lambda>p w. snd (cycle env cfg p w)) ps w"


section \<open>What a cycle sends\<close>

text \<open>The halts of a target that are still due: not taken before, or released since.\<close>

definition still_halted :: "watchdog \<Rightarrow> observation \<Rightarrow> halt_target \<Rightarrow> bool" where
  "still_halted w obs t \<longleftrightarrow> wg_halted w t \<and> seen_halted obs t = Inr True"

lemma send_halt_cases:
  assumes "send_halt cfg p obs t reasons w = (r, w')"
  obtains (skip) "w' = w" "\<not> configured cfg t \<or> still_halted w obs t"
  | (raised) e where "r = Inl e" "w' = w"
  | (sent) "r = Inr ()" "configured cfg t" "wg_sent w' = wg_sent w @ [(t, reasons)]" "wg_checks w' = wg_checks w"
      "\<And>u. wg_halted w' u = (if u = t then pr_halt p t = Some 200 else wg_halted w u)" "wg_heartbeats w' = wg_heartbeats w"
  using assms
  by (auto simp: send_halt_def still_halted_def op_bind_def split: if_splits sum.splits)

lemma halt_or_clear_sends:
  assumes "halt_or_clear cfg p obs ts trips w = (Inr u, w')" "distinct ts"
  shows "\<exists>new. wg_sent w' = wg_sent w @ new \<and> wg_checks w' = wg_checks w \<and> wg_heartbeats w' = wg_heartbeats w
    \<and> (\<forall>(t, reasons) \<in> set new. t \<in> set ts \<and> configured cfg t \<and> reasons = trips \<and> trips \<noteq> [])
    \<and> (trips \<noteq> [] \<longrightarrow> (\<forall>t \<in> set ts. configured cfg t \<longrightarrow> (t, trips) \<in> set new \<or> still_halted w obs t))
    \<and> (\<forall>t. t \<notin> set ts \<longrightarrow> wg_halted w' t = wg_halted w t)"
proof (cases "trips = []")
  case True
  then show ?thesis using assms(1) by (auto simp: halt_or_clear_def)
next
  case False
  have "\<exists>new. wg_sent w' = wg_sent w @ new \<and> wg_checks w' = wg_checks w \<and> wg_heartbeats w' = wg_heartbeats w
      \<and> (\<forall>(t, reasons) \<in> set new. t \<in> set ts \<and> configured cfg t \<and> reasons = trips)
      \<and> (\<forall>t \<in> set ts. configured cfg t \<longrightarrow> (t, trips) \<in> set new \<or> still_halted w obs t)
      \<and> (\<forall>t. t \<notin> set ts \<longrightarrow> wg_halted w' t = wg_halted w t)"
    if "op_iter (\<lambda>t. send_halt cfg p obs t trips) ts w = (Inr us, w')" for us
    using that assms(2)
  proof (induction ts arbitrary: w us)
    case (Cons t ts)
    obtain w1 vs where t: "send_halt cfg p obs t trips w = (Inr (), w1)"
      and rest: "op_iter (\<lambda>t. send_halt cfg p obs t trips) ts w1 = (Inr vs, w')"
      using Cons.prems(1) by (auto elim!: op_bind_cases)
    obtain new where new: "wg_sent w' = wg_sent w1 @ new" "wg_checks w' = wg_checks w1" "wg_heartbeats w' = wg_heartbeats w1"
      "\<forall>(t, reasons) \<in> set new. t \<in> set ts \<and> configured cfg t \<and> reasons = trips"
      "\<forall>t \<in> set ts. configured cfg t \<longrightarrow> (t, trips) \<in> set new \<or> still_halted w1 obs t"
      "\<forall>t. t \<notin> set ts \<longrightarrow> wg_halted w' t = wg_halted w1 t"
      using Cons.IH[OF rest] Cons.prems(2) by auto
    from t show ?case
    proof (cases rule: send_halt_cases)
      case skip
      then show ?thesis using new by (intro exI[of _ new]) auto
    next
      case sent
      have "still_halted w1 obs u = still_halted w obs u" if "u \<in> set ts" for u
        using sent(5)[of u] that Cons.prems(2) by (auto simp: still_halted_def)
      then show ?thesis using new sent by (intro exI[of _ "(t, trips) # new"]) auto
    qed simp
  qed (auto intro!: exI[of _ "[]"])
  then show ?thesis using assms(1) False
    by (auto simp: halt_or_clear_def elim!: op_bind_cases)
qed


lemma evaluate_checks_trips: "evaluate_checks env lm obs s = (Inr (trips, status), s') \<Longrightarrow> trips = cs_trips s'"
  by (auto simp: evaluate_checks_def elim!: op_bind_cases)

lemma still_halted_frame:
  "wg_halted w' t = wg_halted w t \<Longrightarrow> still_halted w' obs t = still_halted w obs t"
  by (simp add: still_halted_def)

lemma cycle_steps:
  assumes "cycle env cfg p w = (Inr r, w')" "wc_halts cfg"
  obtains w0 w1 w2 w3 where
    "wg_sent w0 = wg_sent w" "wg_halted w0 = wg_halted w" "cs_trips (wg_checks w0) = cs_trips (wg_checks w')"
    "halt_or_clear cfg p (observe cfg p) [To_Api, To_Executor] (cs_trips (wg_checks w')) w0 = (Inr (), w1)"
    "halt_or_clear cfg p (observe cfg p) [To_Xp] (fst (evaluate_xp env (wc_limits cfg) (observe cfg p))) w1 = (Inr (), w2)"
    "halt_or_clear cfg p (observe cfg p) [To_Alpaca] (fst (evaluate_alpaca env (wc_limits cfg) (observe cfg p))) w2 = (Inr (), w3)"
    "wg_sent w' = wg_sent w3"
proof -
  obtain xt xs ut us where xp: "evaluate_xp env (wc_limits cfg) (observe cfg p) = (xt, xs)"
    and us: "evaluate_alpaca env (wc_limits cfg) (observe cfg p) = (ut, us)" by fastforce
  obtain c trips status where ev: "evaluate_checks env (wc_limits cfg) (observe cfg p) (wg_checks w) = (Inr (trips, status), c)"
    using assms(1) by (auto simp: cycle_def Let_def xp us on_checks_def elim!: op_bind_cases split: prod.splits)
  let ?w = "w\<lparr>wg_checks := c\<rparr>"
  obtain w1 w2 w3 where h: "halt_or_clear cfg p (observe cfg p) [To_Api, To_Executor] trips ?w = (Inr (), w1)"
    "halt_or_clear cfg p (observe cfg p) [To_Xp] xt w1 = (Inr (), w2)"
    "halt_or_clear cfg p (observe cfg p) [To_Alpaca] ut w2 = (Inr (), w3)"
    and fin: "wg_sent w' = wg_sent w3" "wg_checks w' = wg_checks w3"
    using assms ev by (auto simp: cycle_def Let_def xp us on_checks_def heartbeat_def elim!: op_bind_cases)
  have "wg_checks w3 = c"
    using halt_or_clear_sends[OF h(1)] halt_or_clear_sends[OF h(2)] halt_or_clear_sends[OF h(3)] by auto
  then have "cs_trips (wg_checks w') = trips" using evaluate_checks_trips[OF ev] fin(2) by simp
  then show thesis using that[of ?w w1 w2 w3] h fin xp us evaluate_checks_trips[OF ev] by simp
qed

section \<open>Properties\<close>

text \<open>
  C29: A tripped watchdog halts every side it can, until the halt took. When a cycle with halts enabled
  returns, then for every target whose checks tripped (the API and the executor for the main checks,
  the XP and Alpaca executors for their own), a halt with exactly these reasons was sent to it in this
  cycle, or an earlier halt of this incident was accepted and the target still shows itself halted. No
  halt is sent to a target that is not configured or whose checks did not trip: an incident of one
  remote executor never halts another side.
\<close>

theorem watchdog_halts_until_taken:
  assumes "cycle env cfg p w = (Inr r, w')" "wc_halts cfg"
  defines "obs \<equiv> observe cfg p"
  defines "due \<equiv> (\<lambda>t. case t of To_Api \<Rightarrow> cs_trips (wg_checks w') | To_Executor \<Rightarrow> cs_trips (wg_checks w')
     | To_Xp \<Rightarrow> fst (evaluate_xp env (wc_limits cfg) obs) | To_Alpaca \<Rightarrow> fst (evaluate_alpaca env (wc_limits cfg) obs))"
  shows "\<exists>new. wg_sent w' = wg_sent w @ new
    \<and> (\<forall>t. configured cfg t \<and> due t \<noteq> [] \<longrightarrow> (t, due t) \<in> set new \<or> wg_halted w t \<and> seen_halted obs t = Inr True)
    \<and> (\<forall>(t, reasons) \<in> set new. configured cfg t \<and> due t \<noteq> [] \<and> reasons = due t)"
proof -
  obtain w0 w1 w2 w3 where s: "wg_sent w0 = wg_sent w" "wg_halted w0 = wg_halted w"
    and h: "halt_or_clear cfg p obs [To_Api, To_Executor] (due To_Api) w0 = (Inr (), w1)"
      "halt_or_clear cfg p obs [To_Xp] (due To_Xp) w1 = (Inr (), w2)"
      "halt_or_clear cfg p obs [To_Alpaca] (due To_Alpaca) w2 = (Inr (), w3)"
    and fin: "wg_sent w' = wg_sent w3"
    using assms(1,2) unfolding due_def obs_def by (rule cycle_steps) auto
  obtain n1 where n1: "wg_sent w1 = wg_sent w0 @ n1"
    "\<forall>(t, reasons) \<in> set n1. t \<in> {To_Api, To_Executor} \<and> configured cfg t \<and> reasons = due To_Api \<and> due To_Api \<noteq> []"
    "due To_Api \<noteq> [] \<longrightarrow> (\<forall>t \<in> {To_Api, To_Executor}. configured cfg t \<longrightarrow> (t, due To_Api) \<in> set n1 \<or> still_halted w0 obs t)"
    "\<forall>t. t \<notin> {To_Api, To_Executor} \<longrightarrow> wg_halted w1 t = wg_halted w0 t"
    using halt_or_clear_sends[OF h(1)] by auto
  obtain n2 where n2: "wg_sent w2 = wg_sent w1 @ n2"
    "\<forall>(t, reasons) \<in> set n2. t = To_Xp \<and> configured cfg t \<and> reasons = due To_Xp \<and> due To_Xp \<noteq> []"
    "due To_Xp \<noteq> [] \<longrightarrow> configured cfg To_Xp \<longrightarrow> (To_Xp, due To_Xp) \<in> set n2 \<or> still_halted w1 obs To_Xp"
    "\<forall>t. t \<noteq> To_Xp \<longrightarrow> wg_halted w2 t = wg_halted w1 t"
    using halt_or_clear_sends[OF h(2)] by auto
  obtain n3 where n3: "wg_sent w3 = wg_sent w2 @ n3"
    "\<forall>(t, reasons) \<in> set n3. t = To_Alpaca \<and> configured cfg t \<and> reasons = due To_Alpaca \<and> due To_Alpaca \<noteq> []"
    "due To_Alpaca \<noteq> [] \<longrightarrow> configured cfg To_Alpaca \<longrightarrow> (To_Alpaca, due To_Alpaca) \<in> set n3 \<or> still_halted w2 obs To_Alpaca"
    using halt_or_clear_sends[OF h(3)] by auto
  have ex: "due To_Executor = due To_Api" by (simp add: due_def)
  have same: "wg_halted w1 To_Xp = wg_halted w To_Xp" "wg_halted w2 To_Alpaca = wg_halted w To_Alpaca"
    using n1(4) n2(4) s(2) by auto
  have "(t, due t) \<in> set (n1 @ n2 @ n3) \<or> wg_halted w t \<and> seen_halted obs t = Inr True"
    if "configured cfg t" "due t \<noteq> []" for t
    using that n1(3) n2(3) n3(3) s(2) same ex by (cases t) (auto simp: still_halted_def)
  moreover have "configured cfg t \<and> due t \<noteq> [] \<and> reasons = due t" if mem: "(t, reasons) \<in> set (n1 @ n2 @ n3)" for t reasons
  proof -
    consider "(t, reasons) \<in> set n1" | "(t, reasons) \<in> set n2" | "(t, reasons) \<in> set n3" using mem by auto
    then show ?thesis using n1(2) n2(2) n3(2) ex by cases fastforce+
  qed
  ultimately show ?thesis using fin n1(1) n2(1) n3(1) s(1) by (intro exI[of _ "n1 @ n2 @ n3"]) auto
qed


text \<open>No evaluation adds a reason that starts with \<open>account_unreadable:\<close>, however often it runs.\<close>

definition unreadable_free :: "check_state \<Rightarrow> bool" where
  "unreadable_free s \<longleftrightarrow> (\<forall>r \<in> set (cs_trips s). \<not> prefix ''account_unreadable:'' r)"

lemma run_check_free:
  assumes "unreadable_free s" "\<not> prefix ''account_unreadable:'' reason"
  shows "unreadable_free (run_check name failing cycles reason s)"
  using assms by (auto simp: unreadable_free_def run_check_def Let_def)

lemma unreadable_check_free:
  "unreadable_free s \<Longrightarrow> 2 \<le> cycles \<Longrightarrow> unreadable_free (run_check name True cycles reason (s\<lparr>cs_status := st, cs_misses := dset name 0 m\<rparr>))"
  by (simp add: unreadable_free_def run_check_def sustained_def dget_or_def Let_def)

lemma check_account_free:
  assumes "unreadable_free s" "2 \<le> lm_unreachable_cycles lm"
  shows "unreadable_free (check_account env lm entry s)"
proof -
  have "unreadable_free (s\<lparr>cs_status := st, cs_misses := m\<rparr>)" for st m using assms(1) by (simp add: unreadable_free_def)
  then show ?thesis using assms
    by (auto simp: check_account_def check_equities_def Let_def intro!: run_check_free unreadable_check_free
        split: prod.splits json.splits option.splits)
qed

lemma check_floor_free:
  assumes "unreadable_free s" "2 \<le> lm_unreachable_cycles lm" "check_floor env lm obs fl s = (r, s')"
  shows "unreadable_free s'"
proof -
  have accounts: "unreadable_free (fold (check_account env lm) es t)" if "unreadable_free t" for es t
    using that assms(2) by (induction es arbitrary: t) (simp_all add: check_account_free)
  show ?thesis using assms(1,3)
    by (auto simp: check_floor_def Let_def elim!: op_bind_cases intro!: run_check_free accounts)
qed

lemma evaluate_free:
  assumes "2 \<le> lm_unreachable_cycles lm" "evaluate_checks env lm obs s = (r, s')"
  shows "unreadable_free s'"
proof -
  let ?s = "run_check ''api_reachable'' (\<not> ob_api_health obs \<or> ob_floor obs = None) (lm_unreachable_cycles lm)
    ''api_unreachable'' (s\<lparr>cs_trips := [], cs_status := []\<rparr>)"
  have start: "unreadable_free ?s" by (rule run_check_free) (simp_all add: unreadable_free_def)
  have ex: "unreadable_free (check_executor env lm obs t)" if "unreadable_free t" for t
    using that by (auto simp: check_executor_def Let_def intro!: run_check_free split: option.splits)
  show ?thesis using assms(2) start check_floor_free[OF start assms(1)]
    by (auto simp: evaluate_checks_def elim!: op_bind_cases intro!: ex split: option.splits)
qed

text \<open>
  An account whose equities cannot be read never trips the watchdog. With two or more
  unreachable cycles configured (three by default), no evaluation, whatever came before it, returns a
  reason \<open>account_unreadable\<close>: the miss counter of the account is set to zero right before the failed
  read counts one miss, so it stays at one for ever and the status stays at "warn".
\<close>

theorem unreadable_account_never_trips:
  assumes "2 \<le> lm_unreachable_cycles lm" "evaluate_checks env lm obs s = (Inr (trips, status), s')"
  shows "\<forall>asset. ''account_unreadable:'' @ asset \<notin> set trips"
  using evaluate_free[OF assms] evaluate_checks_trips[OF assms(2)] by (auto simp: unreadable_free_def)


section \<open>Witnesses\<close>

definition ex_wd :: watchdog_env where
  "ex_wd = \<lparr>wd_decimal = (\<lambda>_. None), wd_fromisoformat = (\<lambda>_. None), wd_local = (\<lambda>_ _. (0, 0)), wd_repr = (\<lambda>_. [])\<rparr>"

definition ex_config :: watchdog_config where
  "ex_config = \<lparr>wc_executor = True, wc_xp = True, wc_alpaca = False,
     wc_limits = default_limits\<lparr>lm_unreachable_cycles := 1\<rparr>, wc_halts = True\<rparr>"

definition ex_probe :: probe where
  "ex_probe = \<lparr>pr_at = 0, pr_health = None, pr_floor = None, pr_market = None, pr_executor = None,
     pr_xp = Some \<lparr>rs_status = 200, rs_body = Some (JObj [(''ready'', JBool True), (''consistent'', JBool False)])\<rparr>,
     pr_alpaca = None, pr_halt = (\<lambda>_. Some 200)\<rparr>"

definition ex_watchdog :: watchdog where
  "ex_watchdog = \<lparr>wg_checks = \<lparr>cs_misses = [], cs_trips = [], cs_status = []\<rparr>, wg_halted = (\<lambda>_. False), wg_sent = [],
     wg_heartbeats = []\<rparr>"

theorem watchdog_halts_until_taken_witness:
  "\<exists>r w'. cycle ex_wd ex_config ex_probe ex_watchdog = (Inr r, w')
     \<and> (To_Api, [''api_unreachable'', ''executor_unreachable'']) \<in> set (wg_sent w')
     \<and> (To_Xp, [''xp_reconciliation_divergence'']) \<in> set (wg_sent w')"
proof -
  have "(case cycle ex_wd ex_config ex_probe ex_watchdog of (r, w') \<Rightarrow>
     returned r \<and> cs_trips (wg_checks w') = [''api_unreachable'', ''executor_unreachable''])" by code_simp
  then obtain r w' where run: "cycle ex_wd ex_config ex_probe ex_watchdog = (Inr r, w')"
    and trips: "cs_trips (wg_checks w') = [''api_unreachable'', ''executor_unreachable'']"
    by (auto simp: returned_conv split: prod.splits)
  have xp: "fst (evaluate_xp ex_wd (wc_limits ex_config) (observe ex_config ex_probe)) = [''xp_reconciliation_divergence'']"
    by code_simp
  have cfg: "wc_halts ex_config" "configured ex_config To_Api" "configured ex_config To_Xp"
    by (simp_all add: ex_config_def configured_def)
  have no: "wg_sent ex_watchdog = []" "\<not> wg_halted ex_watchdog t" for t by (simp_all add: ex_watchdog_def)
  obtain new where new: "wg_sent w' = new"
    and due: "\<And>t. configured ex_config t \<Longrightarrow> (case t of To_Api \<Rightarrow> cs_trips (wg_checks w') | To_Executor \<Rightarrow> cs_trips (wg_checks w')
       | To_Xp \<Rightarrow> fst (evaluate_xp ex_wd (wc_limits ex_config) (observe ex_config ex_probe))
       | To_Alpaca \<Rightarrow> fst (evaluate_alpaca ex_wd (wc_limits ex_config) (observe ex_config ex_probe))) \<noteq> [] \<Longrightarrow>
       (t, case t of To_Api \<Rightarrow> cs_trips (wg_checks w') | To_Executor \<Rightarrow> cs_trips (wg_checks w')
       | To_Xp \<Rightarrow> fst (evaluate_xp ex_wd (wc_limits ex_config) (observe ex_config ex_probe))
       | To_Alpaca \<Rightarrow> fst (evaluate_alpaca ex_wd (wc_limits ex_config) (observe ex_config ex_probe))) \<in> set new"
    using watchdog_halts_until_taken[OF run cfg(1)] no by auto
  show ?thesis using run new due[of To_Api] due[of To_Xp] cfg(2,3) trips xp by auto
qed

definition ex_unreadable :: observation where
  "ex_unreadable = (observe ex_config ex_probe)\<lparr>ob_api_health := True, ob_floor := Some
     [(''journal'', JStr ''VALID''), (''accounts'', JObj [(''BRL'', JObj [(''equity'', JStr ''?'')])])]\<rparr>"

theorem unreadable_account_never_trips_witness:
  "\<exists>trips status s'. evaluate_checks ex_wd default_limits ex_unreadable \<lparr>cs_misses = [(''account_BRL'', 1)], cs_trips = [], cs_status = []\<rparr>
       = (Inr (trips, status), s') \<and> dget status ''account_BRL'' = Some ''warn'' \<and> ''account_unreadable:BRL'' \<notin> set trips"
proof -
  let ?e = "evaluate_checks ex_wd default_limits ex_unreadable \<lparr>cs_misses = [(''account_BRL'', 1)], cs_trips = [], cs_status = []\<rparr>"
  have "(case fst ?e of Inl _ \<Rightarrow> False | Inr (trips, status) \<Rightarrow> dget status ''account_BRL'' = Some ''warn'')" by code_simp
  then obtain trips status s' where e: "?e = (Inr (trips, status), s')" "dget status ''account_BRL'' = Some ''warn''"
    by (cases ?e) (auto split: sum.splits)
  have "2 \<le> lm_unreachable_cycles default_limits" by (simp add: default_limits_def)
  from unreadable_account_never_trips[OF this e(1)] have "''account_unreadable:BRL'' \<notin> set trips" by (auto dest: spec[of _ "''BRL''"])
  with e show ?thesis by blast
qed

end
