(* ===== verification/Orchestration.thy ===== *)
theory Orchestration
  imports Json
begin

text \<open>
  The durable job queue of the orchestrator: \<^verbatim>\<open>services/orchestration/runtime.py\<close> (job contracts, the worker
  \<^verbatim>\<open>ProtoBrain\<close>) and \<^verbatim>\<open>services/orchestration/store.py\<close> (the table \<^verbatim>\<open>orchestration_job_runs\<close>).

  The table is the list of its rows. Every store operation reads in one statement and writes in another
  of the same transaction; \<open>between\<close> is what other sessions commit in between (the identity when the
  sessions are serialised). Handlers and the risk gate are operations on the table too, since other
  workers go on while they are awaited. Durations in seconds are the exact values of finite floats; a
  \<^verbatim>\<open>timedelta\<close> built from them is rounded half-even to microseconds. Payloads and results are JSON
  documents; what the store returns has gone through \<^verbatim>\<open>json.dumps(sort_keys=True)\<close> and back.
\<close>

section \<open>Job contracts\<close>

datatype job_state = QUEUED | RUNNING | RETRY_WAIT | SUCCEEDED | BLOCKED | DEAD_LETTER

datatype job_capability =
  MARKET_DATA | QUANT_RESEARCH | CALIBRATION | RISK | REPLAY | PORTFOLIO | OBSERVABILITY | PAPER_EXECUTION

definition SAFE_MODES :: "string list" where
  "SAFE_MODES = [''SIMULATION'', ''SHADOW'', ''PAPER_TRADING'', ''HISTORICAL_REPLAY'', ''LIVE_MONITORING'']"

record job_spec =
  js_name :: string
  js_capability :: job_capability
  js_max_attempts :: int
  js_base_backoff_seconds :: rat
  js_lease_seconds :: rat
  js_requires_risk_gate :: bool
  js_allowed_modes :: "string list"
  js_financial_side_effects :: bool

text \<open>\<^verbatim>\<open>str.strip\<close> with no argument, on the code points below 256.\<close>

definition py_space :: "char \<Rightarrow> bool" where
  "py_space c = ((of_char c :: nat) \<in> set ([9..<14] @ [28..<33] @ [133, 160]))"

definition strip :: "string \<Rightarrow> string" where
  "strip s = rev (dropWhile py_space (rev (dropWhile py_space s)))"

definition job_spec_new :: "job_spec \<Rightarrow> job_spec res" where
  "job_spec_new s =
     (if strip (js_name s) = [] then Inl (ValueError ''job name must be non-empty'')
      else if js_max_attempts s < 1 then Inl (ValueError ''max_attempts must be >= 1'')
      else if js_base_backoff_seconds s < 0 then Inl (ValueError ''base_backoff_seconds must be >= 0'')
      else if js_lease_seconds s \<le> 0 then Inl (ValueError ''lease_seconds must be > 0'')
      else if js_allowed_modes s = [] \<or> \<not> list_all (\<lambda>m. m \<in> set SAFE_MODES) (js_allowed_modes s)
      then Inl (ValueError ''jobs may only target safe PROTO modes'')
      else if js_financial_side_effects s
      then Inl (ValueError ''real financial side effects are forbidden in ProtoBrain'')
      else Inr s)"

record job_run =
  jr_id :: string
  jr_idempotency_key :: string
  jr_job_name :: string
  jr_capability :: job_capability
  jr_mode :: string
  jr_payload :: json
  jr_state :: job_state
  jr_attempts :: int
  jr_max_attempts :: int
  jr_created_at :: instant
  jr_updated_at :: instant
  jr_not_before :: instant
  jr_lease_owner :: "string option"
  jr_lease_expires_at :: "instant option"
  jr_heartbeat_at :: "instant option"
  jr_last_error :: "string option"
  jr_result :: "json option"

type_synonym job_table = "job_run list"
type_synonym specs = "(string, job_spec) dict"
type_synonym stamp = "string \<Rightarrow> string \<times> instant"

definition seconds_delta :: "rat \<Rightarrow> timedelta" where
  "seconds_delta s = round_half_even (s * 1000000)"

definition next_retry_at :: "job_spec \<Rightarrow> int \<Rightarrow> instant \<Rightarrow> instant" where
  "next_retry_at spec attempts now =
     (let exponent = nat (max (attempts - 1) 0)
      in now + seconds_delta (js_base_backoff_seconds spec * 2 ^ exponent))"

section \<open>The table\<close>

text \<open>\<^verbatim>\<open>json.loads(json.dumps(doc, sort_keys=True))\<close>: the same document, keys in order.\<close>

fun sorted_doc :: "json \<Rightarrow> json" where
  "sorted_doc (JList vs) = JList (map sorted_doc vs)"
| "sorted_doc (JObj kvs) = JObj (sort_key fst (map (\<lambda>(k, v). (k, sorted_doc v)) kvs))"
| "sorted_doc v = v"

definition by_key :: "string \<Rightarrow> job_table \<Rightarrow> job_run option" where
  "by_key key rows = List.find (\<lambda>r. jr_idempotency_key r = key) rows"

definition by_id :: "string \<Rightarrow> job_table \<Rightarrow> job_run option" where
  "by_id i rows = List.find (\<lambda>r. jr_id r = i) rows"

definition update_where :: "(job_run \<Rightarrow> bool) \<Rightarrow> (job_run \<Rightarrow> job_run) \<Rightarrow> job_table \<Rightarrow> job_table" where
  "update_where P f rows = map (\<lambda>r. if P r then f r else r) rows"

definition same_contract :: "job_spec \<Rightarrow> string \<Rightarrow> job_run \<Rightarrow> job_run res" where
  "same_contract spec mode existing =
     (if jr_job_name existing \<noteq> js_name spec \<or> jr_mode existing \<noteq> mode
      then Inl (ValueError ''idempotency key already belongs to a different job contract'')
      else Inr existing)"

definition new_run :: "job_spec \<Rightarrow> string \<Rightarrow> string \<Rightarrow> json \<Rightarrow> string \<Rightarrow> instant \<Rightarrow> job_run" where
  "new_run spec key mode payload i now =
     \<lparr>jr_id = i, jr_idempotency_key = key, jr_job_name = js_name spec, jr_capability = js_capability spec,
      jr_mode = mode, jr_payload = sorted_doc payload, jr_state = QUEUED, jr_attempts = 0,
      jr_max_attempts = js_max_attempts spec, jr_created_at = now, jr_updated_at = now, jr_not_before = now,
      jr_lease_owner = None, jr_lease_expires_at = None, jr_heartbeat_at = None, jr_last_error = None,
      jr_result = None\<rparr>"

text \<open>The commit of a new row fails when the id or the key is taken by then.\<close>

definition store_enqueue ::
    "(job_table \<Rightarrow> job_table) \<Rightarrow> job_spec \<Rightarrow> string \<Rightarrow> string \<Rightarrow> json \<Rightarrow> string \<Rightarrow> instant \<Rightarrow> (job_table, job_run) op" where
  "store_enqueue between spec key mode payload i now rows =
     (case by_key key rows of
        Some existing \<Rightarrow> (same_contract spec mode existing, rows)
      | None \<Rightarrow>
          let rows' = between rows; run = new_run spec key mode payload i now in
          if list_ex (\<lambda>r. jr_id r = i \<or> jr_idempotency_key r = key) rows'
          then (case by_key key rows' of
                  None \<Rightarrow> (Inl DatabaseError, rows')
                | Some existing \<Rightarrow> (same_contract spec mode existing, rows'))
          else (Inr run, rows' @ [run]))"

definition claimable :: "instant \<Rightarrow> job_run \<Rightarrow> bool" where
  "claimable now r \<longleftrightarrow> jr_state r \<in> {QUEUED, RETRY_WAIT} \<and> jr_not_before r \<le> now"

definition claim_values :: "job_spec \<Rightarrow> string \<Rightarrow> instant \<Rightarrow> job_run \<Rightarrow> job_run" where
  "claim_values spec owner now r =
     r\<lparr>jr_state := RUNNING, jr_attempts := jr_attempts r + 1, jr_lease_owner := Some owner,
       jr_lease_expires_at := Some (now + seconds_delta (js_lease_seconds spec)),
       jr_heartbeat_at := Some now, jr_updated_at := now\<rparr>"

definition due :: "specs \<Rightarrow> instant \<Rightarrow> job_table \<Rightarrow> job_run list" where
  "due specs now rows =
     sort_key (\<lambda>r. (jr_not_before r, jr_created_at r))
       (filter (\<lambda>r. jr_job_name r \<in> set (dkeys specs) \<and> claimable now r) rows)"

text \<open>The update repeats the condition of the read: a job another worker took meanwhile is not claimed.\<close>

definition claim_next ::
    "(job_table \<Rightarrow> job_table) \<Rightarrow> specs \<Rightarrow> string \<Rightarrow> instant \<Rightarrow> (job_table, job_run option) op" where
  "claim_next between specs owner now rows =
     (case due specs now rows of
        [] \<Rightarrow> (Inr None, rows)
      | record # _ \<Rightarrow>
          (case dget specs (jr_job_name record) of
             None \<Rightarrow> (Inl (KeyError (jr_job_name record)), rows)
           | Some spec \<Rightarrow>
               let rows' = between rows; P = (\<lambda>r. jr_id r = jr_id record \<and> claimable now r) in
               if length (filter P rows') \<noteq> 1 then (Inr None, rows')
               else let rows'' = update_where P (claim_values spec owner now) rows'
                    in (Inr (by_id (jr_id record) rows''), rows'')))"

definition owned_running :: "string \<Rightarrow> string \<Rightarrow> job_table \<Rightarrow> job_run res" where
  "owned_running i owner rows =
     (case List.find (\<lambda>r. jr_id r = i \<and> jr_state r = RUNNING \<and> jr_lease_owner r = Some owner) rows of
        None \<Rightarrow> Inl (RuntimeError ''job is not owned by this worker'')
      | Some r \<Rightarrow> Inr r)"

text \<open>
  The session keeps the row it has read and applies the new values to it, so the record returned is the
  row as read with the new values; the update in the table is by id only.
\<close>

definition owned_update ::
    "(job_table \<Rightarrow> job_table) \<Rightarrow> string \<Rightarrow> string \<Rightarrow> (job_run \<Rightarrow> job_run \<Rightarrow> job_run) \<Rightarrow> (job_table, job_run) op" where
  "owned_update between i owner values rows =
     (case owned_running i owner rows of
        Inl e \<Rightarrow> (Inl e, rows)
      | Inr record \<Rightarrow>
          (Inr (values record record), update_where (\<lambda>r. jr_id r = i) (values record) (between rows)))"

definition heartbeat_values :: "rat \<Rightarrow> instant \<Rightarrow> job_run \<Rightarrow> job_run" where
  "heartbeat_values lease_seconds now r =
     r\<lparr>jr_heartbeat_at := Some now, jr_lease_expires_at := Some (now + seconds_delta lease_seconds),
       jr_updated_at := now\<rparr>"

definition store_heartbeat ::
    "(job_table \<Rightarrow> job_table) \<Rightarrow> string \<Rightarrow> string \<Rightarrow> rat \<Rightarrow> instant \<Rightarrow> (job_table, job_run) op" where
  "store_heartbeat between i owner lease_seconds now =
     owned_update between i owner (\<lambda>_. heartbeat_values lease_seconds now)"

definition terminal_values :: "job_state \<Rightarrow> instant \<Rightarrow> string option \<Rightarrow> json option \<Rightarrow> job_run \<Rightarrow> job_run" where
  "terminal_values state now error result r =
     r\<lparr>jr_state := state, jr_lease_owner := None, jr_lease_expires_at := None, jr_heartbeat_at := None,
       jr_last_error := error, jr_result := map_option sorted_doc result, jr_updated_at := now\<rparr>"

definition terminal_transition ::
    "(job_table \<Rightarrow> job_table) \<Rightarrow> string \<Rightarrow> string \<Rightarrow> job_state \<Rightarrow> instant \<Rightarrow> string option \<Rightarrow> json option \<Rightarrow>
     (job_table, job_run) op" where
  "terminal_transition between i owner state now error result =
     owned_update between i owner (\<lambda>_. terminal_values state now error result)"

definition store_succeed ::
    "(job_table \<Rightarrow> job_table) \<Rightarrow> string \<Rightarrow> string \<Rightarrow> json \<Rightarrow> instant \<Rightarrow> (job_table, job_run) op" where
  "store_succeed between i owner result now = terminal_transition between i owner SUCCEEDED now None (Some result)"

definition store_block ::
    "(job_table \<Rightarrow> job_table) \<Rightarrow> string \<Rightarrow> string \<Rightarrow> string \<Rightarrow> instant \<Rightarrow> (job_table, job_run) op" where
  "store_block between i owner error now = terminal_transition between i owner BLOCKED now (Some error) None"

definition store_dead_letter ::
    "(job_table \<Rightarrow> job_table) \<Rightarrow> string \<Rightarrow> string \<Rightarrow> string \<Rightarrow> instant \<Rightarrow> (job_table, job_run) op" where
  "store_dead_letter between i owner error now = terminal_transition between i owner DEAD_LETTER now (Some error) None"

text \<open>Back to the queue, or to the dead letters: state, time of the next try and error, without a lease.\<close>

definition requeue_values :: "job_state \<Rightarrow> instant \<Rightarrow> string \<Rightarrow> instant \<Rightarrow> job_run \<Rightarrow> job_run" where
  "requeue_values state not_before error now r =
     r\<lparr>jr_state := state, jr_not_before := not_before, jr_lease_owner := None, jr_lease_expires_at := None,
       jr_heartbeat_at := None, jr_last_error := Some error, jr_updated_at := now\<rparr>"

definition fail_values :: "job_spec \<Rightarrow> string \<Rightarrow> instant \<Rightarrow> job_run \<Rightarrow> job_run \<Rightarrow> job_run" where
  "fail_values spec error now record =
     (let state = (if js_max_attempts spec \<le> jr_attempts record then DEAD_LETTER else RETRY_WAIT);
          not_before = (if state = DEAD_LETTER then now else next_retry_at spec (jr_attempts record) now)
      in requeue_values state not_before error now)"

definition store_fail ::
    "(job_table \<Rightarrow> job_table) \<Rightarrow> string \<Rightarrow> string \<Rightarrow> job_spec \<Rightarrow> string \<Rightarrow> instant \<Rightarrow> (job_table, job_run) op" where
  "store_fail between i owner spec error now = owned_update between i owner (fail_values spec error now)"

definition stale :: "instant \<Rightarrow> job_run \<Rightarrow> bool" where
  "stale now r \<longleftrightarrow> jr_state r = RUNNING \<and> (case jr_lease_expires_at r of None \<Rightarrow> False | Some t \<Rightarrow> t \<le> now)"

definition recover_values :: "specs \<Rightarrow> instant \<Rightarrow> job_run \<Rightarrow> job_run" where
  "recover_values specs now r =
     (case dget specs (jr_job_name r) of
        None \<Rightarrow> requeue_values DEAD_LETTER now ''worker lease expired'' now r
      | Some spec \<Rightarrow>
          if jr_max_attempts r \<le> jr_attempts r
          then requeue_values DEAD_LETTER now ''worker lease expired'' now r
          else requeue_values RETRY_WAIT (next_retry_at spec (jr_attempts r) now) ''worker lease expired'' now r)"

text \<open>The session writes, by id, the columns whose value it has changed.\<close>

definition flush_row :: "job_run \<Rightarrow> job_run \<Rightarrow> job_run \<Rightarrow> job_run" where
  "flush_row old new r =
     r\<lparr>jr_state := (if jr_state new = jr_state old then jr_state r else jr_state new),
       jr_not_before := (if jr_not_before new = jr_not_before old then jr_not_before r else jr_not_before new),
       jr_lease_owner := (if jr_lease_owner new = jr_lease_owner old then jr_lease_owner r else jr_lease_owner new),
       jr_lease_expires_at :=
         (if jr_lease_expires_at new = jr_lease_expires_at old then jr_lease_expires_at r else jr_lease_expires_at new),
       jr_heartbeat_at := (if jr_heartbeat_at new = jr_heartbeat_at old then jr_heartbeat_at r else jr_heartbeat_at new),
       jr_last_error := (if jr_last_error new = jr_last_error old then jr_last_error r else jr_last_error new),
       jr_updated_at := (if jr_updated_at new = jr_updated_at old then jr_updated_at r else jr_updated_at new)\<rparr>"

definition recover_stale :: "(job_table \<Rightarrow> job_table) \<Rightarrow> specs \<Rightarrow> instant \<Rightarrow> (job_table, nat) op" where
  "recover_stale between specs now rows =
     (let olds = filter (stale now) rows in
      if olds = [] then (Inr 0, rows)
      else (Inr (length olds),
            fold (\<lambda>old. update_where (\<lambda>r. jr_id r = jr_id old) (flush_row old (recover_values specs now old)))
              olds (between rows)))"

section \<open>The worker\<close>

type_synonym handler = "json \<Rightarrow> (job_table, json option) op"
type_synonym contextual_handler = "json \<Rightarrow> job_run \<Rightarrow> (job_table, json option) op"
type_synonym risk_gate = "job_run \<Rightarrow> (job_table, bool) op"

record proto_brain =
  pb_worker_id :: string
  pb_specs :: specs
  pb_handlers :: "(string, handler) dict"
  pb_contextual_handlers :: "(string, contextual_handler) dict"
  pb_risk_gate :: "risk_gate option"

text \<open>The text of an exception, and what other sessions commit between a read and a write.\<close>

record orch_env =
  oe_exn_text :: "exn \<Rightarrow> string"
  oe_between :: "job_table \<Rightarrow> job_table"

definition register :: "job_spec \<Rightarrow> handler \<Rightarrow> proto_brain \<Rightarrow> proto_brain res" where
  "register spec h b =
     (if js_name spec \<in> set (dkeys (pb_specs b))
      then Inl (ValueError (''job already registered: '' @ js_name spec))
      else Inr (b\<lparr>pb_specs := dset (js_name spec) spec (pb_specs b),
                  pb_handlers := dset (js_name spec) h (pb_handlers b)\<rparr>))"

definition register_contextual :: "job_spec \<Rightarrow> contextual_handler \<Rightarrow> proto_brain \<Rightarrow> proto_brain res" where
  "register_contextual spec h b =
     (if js_name spec \<in> set (dkeys (pb_specs b))
      then Inl (ValueError (''job already registered: '' @ js_name spec))
      else Inr (b\<lparr>pb_specs := dset (js_name spec) spec (pb_specs b),
                  pb_contextual_handlers := dset (js_name spec) h (pb_contextual_handlers b)\<rparr>))"

definition brain_enqueue ::
    "orch_env \<Rightarrow> proto_brain \<Rightarrow> string \<Rightarrow> string \<Rightarrow> string \<Rightarrow> json option \<Rightarrow> string \<Rightarrow> instant \<Rightarrow> (job_table, job_run) op" where
  "brain_enqueue env b job_name key mode payload i now =
     (case dget (pb_specs b) job_name of
        None \<Rightarrow> op_raise (KeyError job_name)
      | Some spec \<Rightarrow>
          if mode \<notin> set (js_allowed_modes spec)
          then op_raise (ValueError (''mode '' @ mode @ '' not allowed for '' @ job_name))
          else if strip key = [] then op_raise (ValueError ''idempotency_key must be non-empty'')
          else store_enqueue (oe_between env) spec key mode (case payload of None \<Rightarrow> JObj [] | Some p \<Rightarrow> p) i now)"

definition call_handler :: "proto_brain \<Rightarrow> job_run \<Rightarrow> (job_table, json option) op" where
  "call_handler b run =
     (case dget (pb_contextual_handlers b) (jr_job_name run) of
        Some ch \<Rightarrow> ch (jr_payload run) run
      | None \<Rightarrow> (case dget (pb_handlers b) (jr_job_name run) of
                  Some h \<Rightarrow> h (jr_payload run)
                | None \<Rightarrow> op_raise AssertionError))"

text \<open>The handler, and the outcome recorded for it.\<close>

definition attempt ::
    "orch_env \<Rightarrow> proto_brain \<Rightarrow> job_spec \<Rightarrow> job_run \<Rightarrow> instant \<Rightarrow> (job_table, job_run) op" where
  "attempt env b spec run now =
     op_bind (op_try (call_handler b run)) (\<lambda>outcome.
       case outcome of
         Inl e \<Rightarrow> store_fail (oe_between env) (jr_id run) (pb_worker_id b) spec (oe_exn_text env e) now
       | Inr result \<Rightarrow>
           store_succeed (oe_between env) (jr_id run) (pb_worker_id b) (case result of None \<Rightarrow> JObj [] | Some v \<Rightarrow> v) now)"

definition gated_attempt ::
    "orch_env \<Rightarrow> proto_brain \<Rightarrow> job_spec \<Rightarrow> job_run \<Rightarrow> instant \<Rightarrow> (job_table, job_run) op" where
  "gated_attempt env b spec run now =
     (if \<not> js_requires_risk_gate spec then attempt env b spec run now
      else (case pb_risk_gate b of
              None \<Rightarrow> store_block (oe_between env) (jr_id run) (pb_worker_id b) ''risk gate unavailable'' now
            | Some gate \<Rightarrow>
                op_bind (gate run) (\<lambda>approved.
                  if approved then attempt env b spec run now
                  else store_block (oe_between env) (jr_id run) (pb_worker_id b) ''risk gate rejected job'' now)))"

definition run_claimed :: "orch_env \<Rightarrow> proto_brain \<Rightarrow> job_run \<Rightarrow> instant \<Rightarrow> (job_table, job_run) op" where
  "run_claimed env b run now =
     (case dget (pb_specs b) (jr_job_name run) of
        None \<Rightarrow> store_dead_letter (oe_between env) (jr_id run) (pb_worker_id b) ''unregistered job'' now
      | Some spec \<Rightarrow>
          if dget (pb_handlers b) (jr_job_name run) = None \<and> dget (pb_contextual_handlers b) (jr_job_name run) = None
          then store_dead_letter (oe_between env) (jr_id run) (pb_worker_id b) ''unregistered job'' now
          else gated_attempt env b spec run now)"

definition run_once :: "orch_env \<Rightarrow> proto_brain \<Rightarrow> instant \<Rightarrow> (job_table, job_run option) op" where
  "run_once env b now =
     op_bind (recover_stale (oe_between env) (pb_specs b) now) (\<lambda>_.
     op_bind (claim_next (oe_between env) (pb_specs b) (pb_worker_id b) now) (\<lambda>claimed.
       case claimed of
         None \<Rightarrow> op_return None
       | Some run \<Rightarrow> op_bind (run_claimed env b run now) (\<lambda>finished. op_return (Some finished))))"

definition brain_heartbeat :: "orch_env \<Rightarrow> proto_brain \<Rightarrow> string \<Rightarrow> instant \<Rightarrow> (job_table, job_run) op" where
  "brain_heartbeat env b i now rows =
     (case by_id i rows of
        None \<Rightarrow> (Inl (KeyError (''unknown job run: '' @ i)), rows)
      | Some run \<Rightarrow>
          (case dget (pb_specs b) (jr_job_name run) of
             None \<Rightarrow> (Inl (KeyError (''unregistered job: '' @ jr_job_name run)), rows)
           | Some spec \<Rightarrow> store_heartbeat (oe_between env) i (pb_worker_id b) (js_lease_seconds spec) now rows))"

section \<open>Well-formed tables and progress\<close>

abbreviation terminal_job :: "job_run \<Rightarrow> bool" where
  "terminal_job r \<equiv> jr_state r \<in> {SUCCEEDED, BLOCKED, DEAD_LETTER}"

definition specs_ok :: "specs \<Rightarrow> bool" where
  "specs_ok specs \<longleftrightarrow> dict_ok specs \<and> list_all (\<lambda>(n, s). js_name s = n \<and> job_spec_new s = Inr s) specs"

text \<open>A row agrees with its contract: a lease exactly while it runs, a result exactly when it succeeded,
  an error when it is set aside, and never more attempts than allowed.\<close>

definition lease_ok :: "job_run \<Rightarrow> bool" where
  "lease_ok r \<longleftrightarrow> (jr_lease_owner r \<noteq> None) = (jr_state r = RUNNING)
     \<and> (jr_lease_expires_at r \<noteq> None) = (jr_state r = RUNNING) \<and> (jr_heartbeat_at r \<noteq> None) = (jr_state r = RUNNING)"

definition outcome_ok :: "job_run \<Rightarrow> bool" where
  "outcome_ok r \<longleftrightarrow> (jr_result r \<noteq> None) = (jr_state r = SUCCEEDED)
     \<and> (jr_state r \<in> {RETRY_WAIT, BLOCKED, DEAD_LETTER} \<longrightarrow> jr_last_error r \<noteq> None)"

definition attempts_ok :: "job_run \<Rightarrow> bool" where
  "attempts_ok r \<longleftrightarrow> 0 \<le> jr_attempts r \<and> jr_attempts r \<le> jr_max_attempts r \<and> (jr_attempts r = 0) = (jr_state r = QUEUED)
     \<and> (jr_state r = RETRY_WAIT \<longrightarrow> jr_attempts r < jr_max_attempts r)"

definition contract_ok :: "specs \<Rightarrow> job_run \<Rightarrow> bool" where
  "contract_ok specs r \<longleftrightarrow> strip (jr_idempotency_key r) \<noteq> [] \<and>
     (case dget specs (jr_job_name r) of
        None \<Rightarrow> False
      | Some spec \<Rightarrow> jr_max_attempts r = js_max_attempts spec \<and> jr_capability r = js_capability spec
          \<and> jr_mode r \<in> set (js_allowed_modes spec) \<and> jr_mode r \<in> set SAFE_MODES)"

definition row_ok :: "specs \<Rightarrow> job_run \<Rightarrow> bool" where
  "row_ok specs r \<longleftrightarrow> lease_ok r \<and> outcome_ok r \<and> attempts_ok r \<and> contract_ok specs r"

definition table_ok :: "specs \<Rightarrow> job_table \<Rightarrow> bool" where
  "table_ok specs t \<longleftrightarrow> list_all (row_ok specs) t \<and> distinct (map jr_id t) \<and> distinct (map jr_idempotency_key t)"

text \<open>What may become of a row: its contract stays, attempts only grow, a finished row is final, a waiting row
  changes only by a further attempt.\<close>

definition row_progress :: "job_run \<Rightarrow> job_run \<Rightarrow> bool" where
  "row_progress r r' \<longleftrightarrow> jr_id r' = jr_id r \<and> jr_idempotency_key r' = jr_idempotency_key r
     \<and> jr_job_name r' = jr_job_name r \<and> jr_capability r' = jr_capability r \<and> jr_mode r' = jr_mode r
     \<and> jr_payload r' = jr_payload r \<and> jr_max_attempts r' = jr_max_attempts r \<and> jr_created_at r' = jr_created_at r
     \<and> jr_attempts r \<le> jr_attempts r' \<and> (terminal_job r \<longrightarrow> r' = r)
     \<and> (jr_state r \<in> {QUEUED, RETRY_WAIT} \<and> jr_attempts r' = jr_attempts r \<longrightarrow> r' = r)"

definition table_progress :: "job_table \<Rightarrow> job_table \<Rightarrow> bool" where
  "table_progress t t' \<longleftrightarrow> (\<exists>u v. t' = u @ v \<and> list_all2 row_progress t u)"

lemma row_progress_refl [simp]: "row_progress r r"
  by (simp add: row_progress_def)

lemma row_progress_trans:
  assumes "row_progress r s" "row_progress s t"
  shows "row_progress r t"
proof -
  have "t = r" if "terminal_job r" using assms that unfolding row_progress_def by metis
  moreover have "t = r" if waiting: "jr_state r \<in> {QUEUED, RETRY_WAIT}" "jr_attempts t = jr_attempts r"
  proof -
    have "jr_attempts s = jr_attempts r" using assms waiting(2) by (simp add: row_progress_def)
    then have "s = r" using assms(1) waiting(1) unfolding row_progress_def by blast
    then show ?thesis using assms(2) waiting unfolding row_progress_def by blast
  qed
  ultimately show ?thesis using assms by (simp add: row_progress_def)
qed

lemma table_progress_refl [simp]: "table_progress t t"
  unfolding table_progress_def by (intro exI[of _ t] exI[of _ "[]"]) (simp add: list.rel_refl)

lemma table_progress_append: "table_progress t (t @ v)"
  unfolding table_progress_def by (intro exI[of _ t] exI[of _ v]) (simp add: list.rel_refl)

lemma table_progress_trans:
  assumes "table_progress t t'" "table_progress t' t''"
  shows "table_progress t t''"
proof -
  obtain u v where uv: "t' = u @ v" "list_all2 row_progress t u" using assms(1) by (auto simp: table_progress_def)
  obtain x y where xy: "t'' = x @ y" "list_all2 row_progress (u @ v) x" using assms(2) uv by (auto simp: table_progress_def)
  then obtain x1 x2 where x: "x = x1 @ x2" "list_all2 row_progress u x1" by (auto simp: list_all2_append1)
  have "list_all2 row_progress t x1" by (rule list_all2_trans[OF row_progress_trans uv(2) x(2)])
  with x xy show ?thesis unfolding table_progress_def by (intro exI[of _ x1] exI[of _ "x2 @ y"]) simp
qed

lemma table_progress_row:
  assumes "table_progress t t'" "r \<in> set t"
  shows "\<exists>r' \<in> set t'. row_progress r r'"
proof -
  obtain u v where u: "t' = u @ v" "list_all2 row_progress t u" using assms(1) by (auto simp: table_progress_def)
  obtain k where k: "k < length t" "t ! k = r" using assms(2) by (auto simp: in_set_conv_nth)
  then have "u ! k \<in> set t'" "row_progress r (u ! k)"
    using u list_all2_nthD[OF u(2)] list_all2_lengthD[OF u(2)] by auto
  then show ?thesis by blast
qed

lemma specs_okD:
  assumes "specs_ok specs" "dget specs n = Some spec"
  shows "js_name spec = n" "1 \<le> js_max_attempts spec" "0 < js_lease_seconds spec" "0 \<le> js_base_backoff_seconds spec"
    "strip n \<noteq> []" "set (js_allowed_modes spec) \<subseteq> set SAFE_MODES"
proof -
  have "(n, spec) \<in> set specs" using assms(2) by (rule map_of_SomeD)
  with assms(1) have "js_name spec = n" "job_spec_new spec = Inr spec" by (auto simp: specs_ok_def list_all_iff)
  then show "js_name spec = n" "1 \<le> js_max_attempts spec" "0 < js_lease_seconds spec" "0 \<le> js_base_backoff_seconds spec"
    "strip n \<noteq> []" "set (js_allowed_modes spec) \<subseteq> set SAFE_MODES"
    by (auto simp: job_spec_new_def list_all_iff split: if_splits)
qed

section \<open>One transaction at a time\<close>

lemma by_id_unique:
  assumes "distinct (map jr_id t)" "r \<in> set t"
  shows "by_id (jr_id r) t = Some r"
  using assms by (induction t) (auto simp: by_id_def)

lemma by_id_Some: "by_id i t = Some r \<Longrightarrow> r \<in> set t \<and> jr_id r = i"
  by (auto simp: by_id_def find_Some_iff)

lemma by_key_Some: "by_key k t = Some r \<Longrightarrow> r \<in> set t \<and> jr_idempotency_key r = k"
  by (auto simp: by_key_def find_Some_iff)

lemma by_key_None: "by_key k t = None \<longleftrightarrow> k \<notin> jr_idempotency_key ` set t"
  by (auto simp: by_key_def find_None_iff)

lemma owned_running_Inr:
  "owned_running i owner t = Inr r \<Longrightarrow> r \<in> set t \<and> jr_id r = i \<and> jr_state r = RUNNING \<and> jr_lease_owner r = Some owner"
  by (auto simp: owned_running_def find_Some_iff split: option.splits)

lemma same_id_same_row: "distinct (map jr_id t) \<Longrightarrow> r \<in> set t \<Longrightarrow> r' \<in> set t \<Longrightarrow> jr_id r = jr_id r' \<Longrightarrow> r = r'"
  by (auto simp: distinct_map dest: inj_onD)

lemma update_where_progress:
  assumes "\<And>r. r \<in> set t \<Longrightarrow> P r \<Longrightarrow> row_progress r (f r)"
  shows "table_progress t (update_where P f t)"
  unfolding table_progress_def update_where_def
  using assms by (intro exI[of _ "map (\<lambda>r. if P r then f r else r) t"] exI[of _ "[]"]) (auto simp: list_all2_conv_all_nth)

lemma update_where_ok:
  assumes "table_ok specs t" "\<And>r. r \<in> set t \<Longrightarrow> P r \<Longrightarrow> row_progress r (f r) \<and> row_ok specs (f r)"
  shows "table_ok specs (update_where P f t) \<and> table_progress t (update_where P f t)"
proof -
  have "map jr_id (update_where P f t) = map jr_id t" "map jr_idempotency_key (update_where P f t) = map jr_idempotency_key t"
    using assms(2) by (auto simp: update_where_def row_progress_def)
  moreover have "list_all (row_ok specs) (update_where P f t)"
    using assms by (auto simp: update_where_def table_ok_def list_all_iff)
  ultimately show ?thesis using assms update_where_progress[of t P f] by (simp add: table_ok_def)
qed

text \<open>The values each transition writes keep a row in order.\<close>

lemma row_step:
  assumes "row_ok specs r" "row_progress r r'" "lease_ok r'" "outcome_ok r'" "attempts_ok r'"
  shows "row_progress r r' \<and> row_ok specs r'"
proof -
  have "contract_ok specs r' = contract_ok specs r"
    using assms(2) by (simp add: contract_ok_def row_progress_def split: option.splits)
  then show ?thesis using assms by (simp add: row_ok_def)
qed

lemmas row_parts = row_progress_def lease_ok_def outcome_ok_def attempts_ok_def

lemma claim_row:
  assumes "row_ok specs r" "claimable now r" "dget specs (jr_job_name r) = Some spec" "specs_ok specs"
  shows "row_progress r (claim_values spec owner now r) \<and> row_ok specs (claim_values spec owner now r)"
proof -
  have facts: "1 \<le> jr_max_attempts r" "attempts_ok r" "outcome_ok r"
    using specs_okD(2)[OF assms(4,3)] assms(1,3) by (simp_all add: row_ok_def contract_ok_def)
  from assms(2) have "jr_state r = QUEUED \<or> jr_state r = RETRY_WAIT" by (auto simp: claimable_def)
  then show ?thesis
    by (rule disjE) (rule row_step[OF assms(1)]; use facts in \<open>simp add: claim_values_def row_parts\<close>)+
qed

lemma heartbeat_row:
  assumes "row_ok specs r" "jr_state r = RUNNING"
  shows "row_progress r (heartbeat_values lease now r) \<and> row_ok specs (heartbeat_values lease now r)"
proof -
  have "lease_ok r" "outcome_ok r" "attempts_ok r" using assms(1) by (simp_all add: row_ok_def)
  with assms(2) show ?thesis by (intro row_step[OF assms(1)]) (auto simp: row_parts heartbeat_values_def)
qed

lemma terminal_row:
  assumes "row_ok specs r" "jr_state r = RUNNING" "state \<in> {SUCCEEDED, BLOCKED, DEAD_LETTER}"
    "(result \<noteq> None) = (state = SUCCEEDED)" "state = SUCCEEDED \<or> error \<noteq> None"
  shows "row_progress r (terminal_values state now error result r) \<and> row_ok specs (terminal_values state now error result r)"
proof -
  have "attempts_ok r" using assms(1) by (simp add: row_ok_def)
  with assms(2-5) show ?thesis by (intro row_step[OF assms(1)]) (auto simp: row_parts terminal_values_def)
qed

lemma requeue_row:
  assumes "row_ok specs r" "jr_state r = RUNNING" "state = DEAD_LETTER \<or> state = RETRY_WAIT \<and> jr_attempts r < jr_max_attempts r"
  shows "row_progress r (requeue_values state not_before error now r) \<and> row_ok specs (requeue_values state not_before error now r)"
proof -
  have "attempts_ok r" "outcome_ok r" using assms(1) by (simp_all add: row_ok_def)
  with assms(2,3) show ?thesis unfolding requeue_values_def by (intro row_step[OF assms(1)]) (auto simp: row_parts)
qed

lemma fail_row:
  assumes "row_ok specs r" "jr_state r = RUNNING" "dget specs (jr_job_name r) = Some spec"
  shows "row_progress r (fail_values spec error now r r) \<and> row_ok specs (fail_values spec error now r r)"
proof -
  have "jr_max_attempts r = js_max_attempts spec" using assms(1,3) by (simp add: row_ok_def contract_ok_def)
  then show ?thesis unfolding fail_values_def Let_def by (intro requeue_row assms(1,2)) auto
qed

lemma recover_row:
  assumes "row_ok specs r" "stale now r"
  shows "row_progress r (recover_values specs now r) \<and> row_ok specs (recover_values specs now r)"
  using assms(2) requeue_row[OF assms(1)]
  by (auto simp: recover_values_def stale_def split: option.splits)

lemma new_run_row:
  assumes "dget specs n = Some spec" "specs_ok specs" "mode \<in> set (js_allowed_modes spec)" "strip key \<noteq> []"
  shows "row_ok specs (new_run spec key mode payload i now)"
  using assms specs_okD[OF assms(2,1)]
  by (auto simp: new_run_def row_ok_def lease_ok_def outcome_ok_def attempts_ok_def contract_ok_def)

text \<open>Recovery of all stale rows is one update when ids are unique.\<close>

lemma fold_update_by_id:
  assumes "distinct (map jr_id os)" "\<And>old r. jr_id (g old r) = jr_id r"
  shows "fold (\<lambda>old. update_where (\<lambda>r. jr_id r = jr_id old) (g old)) os t
    = map (\<lambda>r. case by_id (jr_id r) os of None \<Rightarrow> r | Some old \<Rightarrow> g old r) t"
  using assms(1)
proof (induction os arbitrary: t)
  case Nil
  then show ?case by (simp add: by_id_def)
next
  case (Cons old os)
  then have fresh: "by_id (jr_id old) os = None" by (auto simp: by_id_def find_None_iff rev_image_eqI)
  then show ?case
    using Cons by (auto simp: update_where_def assms(2) by_id_def)
qed

lemma flush_recover: "stale now r \<Longrightarrow> flush_row r (recover_values specs now r) r = recover_values specs now r"
  by (auto simp: flush_row_def recover_values_def requeue_values_def split: option.splits)

lemma recover_serial:
  assumes "distinct (map jr_id t)"
  shows "recover_stale id specs now t = (Inr (length (filter (stale now) t)), update_where (stale now) (recover_values specs now) t)"
proof (cases "filter (stale now) t = []")
  case True
  then show ?thesis by (auto simp: recover_stale_def update_where_def filter_empty_conv intro!: map_idI[symmetric])
next
  case False
  have keep: "jr_id (flush_row old new r) = jr_id r" for old new r by (simp add: flush_row_def)
  have olds: "distinct (map jr_id (filter (stale now) t))" using assms by (rule distinct_map_filter)
  have row: "(case by_id (jr_id r) (filter (stale now) t) of None \<Rightarrow> r | Some old \<Rightarrow> flush_row old (recover_values specs now old) r)
      = (if stale now r then recover_values specs now r else r)" if r: "r \<in> set t" for r
  proof (cases "by_id (jr_id r) (filter (stale now) t)")
    case None
    then have "\<not> stale now r" using r by (auto simp: by_id_def find_None_iff)
    then show ?thesis by (simp add: None)
  next
    case (Some old)
    then have "old \<in> set t" "stale now old" "jr_id old = jr_id r" using by_id_Some by fastforce+
    then have "old = r" using assms r by (auto intro: same_id_same_row)
    then show ?thesis using Some \<open>stale now old\<close> by (simp add: flush_recover)
  qed
  have "map (\<lambda>r. case by_id (jr_id r) (filter (stale now) t) of None \<Rightarrow> r | Some old \<Rightarrow> flush_row old (recover_values specs now old) r) t
      = update_where (stale now) (recover_values specs now) t"
    unfolding update_where_def by (rule map_cong[OF refl row])
  then show ?thesis using False by (simp add: recover_stale_def fold_update_by_id[OF olds keep])
qed

text \<open>The transactions of the workers of one release, one at a time.\<close>

inductive job_step :: "specs \<Rightarrow> job_table \<Rightarrow> job_table \<Rightarrow> bool" for specs where
  enqueue: "dget specs n = Some spec \<Longrightarrow> mode \<in> set (js_allowed_modes spec) \<Longrightarrow> strip key \<noteq> [] \<Longrightarrow>
    store_enqueue id spec key mode payload i now t = (res, t') \<Longrightarrow> job_step specs t t'"
| claim: "claim_next id specs owner now t = (claimed, t') \<Longrightarrow> job_step specs t t'"
| heartbeat: "store_heartbeat id i owner lease now t = (res, t') \<Longrightarrow> job_step specs t t'"
| succeed: "store_succeed id i owner result now t = (res, t') \<Longrightarrow> job_step specs t t'"
| block: "store_block id i owner error now t = (res, t') \<Longrightarrow> job_step specs t t'"
| dead_letter: "store_dead_letter id i owner error now t = (res, t') \<Longrightarrow> job_step specs t t'"
| fail: "by_id i t = Some run \<Longrightarrow> dget specs (jr_job_name run) = Some spec \<Longrightarrow>
    store_fail id i owner spec error now t = (res, t') \<Longrightarrow> job_step specs t t'"
| recover: "recover_stale id specs now t = (n, t') \<Longrightarrow> job_step specs t t'"

abbreviation job_steps :: "specs \<Rightarrow> job_table \<Rightarrow> job_table \<Rightarrow> bool" where
  "job_steps specs \<equiv> (job_step specs)\<^sup>*\<^sup>*"

lemma owned_update_ok:
  assumes "table_ok specs t" "owned_update id i owner values t = (res, t')"
    and "\<And>r. r \<in> set t \<Longrightarrow> jr_id r = i \<Longrightarrow> row_ok specs r \<Longrightarrow> jr_state r = RUNNING \<Longrightarrow>
      row_progress r (values r r) \<and> row_ok specs (values r r)"
  shows "table_ok specs t' \<and> table_progress t t'"
proof (cases "owned_running i owner t")
  case (Inl e)
  then show ?thesis using assms(1,2) by (simp add: owned_update_def)
next
  case (Inr row)
  then have t': "t' = update_where (\<lambda>r. jr_id r = i) (values row) t" using assms(2) by (simp add: owned_update_def)
  have rec: "row \<in> set t" "jr_id row = i" "jr_state row = RUNNING" using owned_running_Inr[OF Inr] by auto
  have "r = row" if "r \<in> set t" "jr_id r = i" for r
    using assms(1) that rec same_id_same_row by (auto simp: table_ok_def)
  moreover have "row_ok specs row" using assms(1) rec(1) by (simp add: table_ok_def list_all_iff)
  ultimately have "row_progress r (values row r) \<and> row_ok specs (values row r)" if "r \<in> set t" "jr_id r = i" for r
    using assms(3)[OF rec(1,2) _ rec(3)] that by simp
  then show ?thesis unfolding t' by (rule update_where_ok[OF assms(1)])
qed

lemma store_enqueue_serial:
  "store_enqueue id spec key mode payload i now t =
     (case by_key key t of
        Some existing \<Rightarrow> (same_contract spec mode existing, t)
      | None \<Rightarrow> if by_id i t \<noteq> None then (Inl DatabaseError, t)
                else (Inr (new_run spec key mode payload i now), t @ [new_run spec key mode payload i now]))"
proof (cases "by_key key t")
  case None
  then have "list_ex (\<lambda>r. jr_id r = i \<or> jr_idempotency_key r = key) t \<longleftrightarrow> by_id i t \<noteq> None"
    by (auto simp: by_key_def by_id_def find_None_iff list_ex_iff)
  with None show ?thesis by (simp add: store_enqueue_def Let_def)
qed (simp add: store_enqueue_def)

lemma enqueue_ok:
  assumes "specs_ok specs" "table_ok specs t" "dget specs n = Some spec" "mode \<in> set (js_allowed_modes spec)"
    "strip key \<noteq> []" "store_enqueue id spec key mode payload i now t = (res, t')"
  shows "table_ok specs t' \<and> table_progress t t'"
proof (cases "by_key key t = None \<and> by_id i t = None")
  case True
  then have t': "t' = t @ [new_run spec key mode payload i now]" using assms(6) by (simp add: store_enqueue_serial)
  have "key \<notin> jr_idempotency_key ` set t" "i \<notin> jr_id ` set t"
    using True by (auto simp: by_key_None by_id_def find_None_iff)
  then have "table_ok specs t'"
    using assms(2) new_run_row[OF assms(3,1,4,5)] unfolding t' table_ok_def by (auto simp: new_run_def)
  then show ?thesis by (simp add: t' table_progress_append)
next
  case False
  then show ?thesis using assms(2,6) by (auto simp: store_enqueue_serial split: option.splits if_splits)
qed

lemma due_first:
  assumes "due specs now t = job # rest"
  shows "job \<in> set t" "jr_job_name job \<in> set (dkeys specs)" "claimable now job"
proof -
  have "job \<in> set (due specs now t)" by (simp add: assms)
  then show "job \<in> set t" "jr_job_name job \<in> set (dkeys specs)" "claimable now job" by (auto simp: due_def)
qed

lemma one_with_id: "distinct (map jr_id t) \<Longrightarrow> job \<in> set t \<Longrightarrow> length (filter (\<lambda>r. jr_id r = jr_id job) t) = 1"
  by (induction t) (auto simp: filter_empty_conv image_iff)

lemma by_id_claimed:
  assumes "distinct (map jr_id t)" "job \<in> set t"
  shows "by_id (jr_id job) (update_where (\<lambda>r. jr_id r = jr_id job) (claim_values spec owner now) t)
    = Some (claim_values spec owner now job)"
proof -
  let ?t = "update_where (\<lambda>r. jr_id r = jr_id job) (claim_values spec owner now) t"
  have "map jr_id ?t = map jr_id t" by (auto simp: update_where_def claim_values_def)
  moreover have "claim_values spec owner now job \<in> set ?t" using assms(2) by (force simp: update_where_def)
  ultimately show ?thesis using by_id_unique[of ?t "claim_values spec owner now job"] assms(1) by (simp add: claim_values_def)
qed

lemma claim_serial:
  assumes "distinct (map jr_id t)" "due specs now t = job # rest" "dget specs (jr_job_name job) = Some spec"
  shows "claim_next id specs owner now t =
    (Inr (Some (claim_values spec owner now job)),
     update_where (\<lambda>r. jr_id r = jr_id job) (claim_values spec owner now) t)"
proof -
  note job = due_first[OF assms(2)]
  have one: "(jr_id r = jr_id job \<and> claimable now r) = (jr_id r = jr_id job)" if "r \<in> set t" for r
    using that job assms(1) same_id_same_row by blast
  have "filter (\<lambda>r. jr_id r = jr_id job \<and> claimable now r) t = filter (\<lambda>r. jr_id r = jr_id job) t"
    by (rule filter_cong) (use one in auto)
  moreover have "length (filter (\<lambda>r. jr_id r = jr_id job) t) = 1"
    by (rule one_with_id[OF assms(1) job(1)])
  moreover have upd: "update_where (\<lambda>r. jr_id r = jr_id job \<and> claimable now r) (claim_values spec owner now) t
      = update_where (\<lambda>r. jr_id r = jr_id job) (claim_values spec owner now) t"
    unfolding update_where_def by (rule map_cong[OF refl]) (simp add: one)
  ultimately show ?thesis using assms(2,3) by_id_claimed[OF assms(1) job(1)] by (simp add: claim_next_def Let_def)
qed

lemma claim_ok:
  assumes "specs_ok specs" "table_ok specs t" "claim_next id specs owner now t = (claimed, t')"
  shows "table_ok specs t' \<and> table_progress t t'"
proof (cases "due specs now t")
  case Nil
  then show ?thesis using assms(2,3) by (simp add: claim_next_def)
next
  case (Cons job rest)
  note job = due_first[OF Cons]
  have row: "row_ok specs job" using assms(2) job(1) by (simp add: table_ok_def list_all_iff)
  then obtain spec where spec: "dget specs (jr_job_name job) = Some spec"
    by (auto simp: row_ok_def contract_ok_def split: option.splits)
  have ids: "distinct (map jr_id t)" using assms(2) by (simp add: table_ok_def)
  have "t' = update_where (\<lambda>r. jr_id r = jr_id job) (claim_values spec owner now) t"
    using assms(3) claim_serial[OF ids Cons spec] by simp
  moreover have "r = job" if "r \<in> set t" "jr_id r = jr_id job" for r
    using same_id_same_row[OF ids that(1) job(1) that(2)] .
  ultimately show ?thesis
    using claim_row[OF row job(3) spec assms(1)] by (auto intro!: update_where_ok[OF assms(2)])
qed

lemma job_step_ok:
  assumes "job_step specs t t'" "specs_ok specs" "table_ok specs t"
  shows "table_ok specs t' \<and> table_progress t t'"
  using assms
proof cases
  case (enqueue n spec mode key payload i now res)
  then show ?thesis using enqueue_ok assms by blast
next
  case (claim owner now claimed)
  then show ?thesis using claim_ok assms by blast
next
  case (heartbeat i owner lease now res)
  then show ?thesis unfolding store_heartbeat_def by (rule owned_update_ok[OF assms(3)]) (rule heartbeat_row)
next
  case (succeed i owner result now res)
  then show ?thesis unfolding store_succeed_def terminal_transition_def
    by (rule owned_update_ok[OF assms(3)]) (rule terminal_row; simp)
next
  case (block i owner error now res)
  then show ?thesis unfolding store_block_def terminal_transition_def
    by (rule owned_update_ok[OF assms(3)]) (rule terminal_row; simp)
next
  case (dead_letter i owner error now res)
  then show ?thesis unfolding store_dead_letter_def terminal_transition_def
    by (rule owned_update_ok[OF assms(3)]) (rule terminal_row; simp)
next
  case (fail i run spec owner error now res)
  have "dget specs (jr_job_name r) = Some spec" if "r \<in> set t" "jr_id r = i" for r
    using by_id_unique[of t r] fail(1,2) assms(3) that by (simp add: table_ok_def)
  then show ?thesis using fail_row
    by (intro owned_update_ok[OF assms(3) fail(3)[unfolded store_fail_def]]) blast
next
  case (recover now n)
  then show ?thesis using assms(3) recover_row update_where_ok[OF assms(3), of "stale now" "recover_values specs now"]
    by (simp add: recover_serial table_ok_def list_all_iff)
qed

lemma job_steps_ok:
  assumes "job_steps specs t t'" "specs_ok specs" "table_ok specs t"
  shows "table_ok specs t' \<and> table_progress t t'"
  using assms(1)
proof (induction rule: rtranclp_induct)
  case base
  then show ?case using assms(3) by simp
next
  case (step u v)
  then show ?case using job_step_ok[OF step(2) assms(2)] table_progress_trans by blast
qed

section \<open>The worker takes only such steps\<close>

definition step_op :: "specs \<Rightarrow> (job_table, 'a) op \<Rightarrow> bool" where
  "step_op specs m \<longleftrightarrow> (\<forall>t r t'. m t = (r, t') \<longrightarrow> job_steps specs t t')"

text \<open>While a handler or the gate is awaited the table changes by transactions of other workers only.\<close>

definition brain_ok :: "proto_brain \<Rightarrow> bool" where
  "brain_ok b \<longleftrightarrow> specs_ok (pb_specs b)
     \<and> (\<forall>h \<in> set (dvalues (pb_handlers b)). \<forall>p. step_op (pb_specs b) (h p))
     \<and> (\<forall>h \<in> set (dvalues (pb_contextual_handlers b)). \<forall>p run. step_op (pb_specs b) (h p run))
     \<and> (\<forall>gate \<in> set_option (pb_risk_gate b). \<forall>run. step_op (pb_specs b) (gate run))"

definition tracked :: "specs \<Rightarrow> job_table \<Rightarrow> job_run \<Rightarrow> job_table \<Rightarrow> bool" where
  "tracked specs t0 run t \<longleftrightarrow> specs_ok specs \<and> table_ok specs t \<and> job_steps specs t0 t
     \<and> (\<exists>r \<in> set t. jr_id r = jr_id run \<and> jr_job_name r = jr_job_name run)"

lemma tracked_steps:
  assumes "tracked specs t0 run t" "job_steps specs t t'"
  shows "tracked specs t0 run t'"
proof -
  have t: "specs_ok specs" "table_ok specs t" "job_steps specs t0 t" using assms(1) by (simp_all add: tracked_def)
  obtain r where r: "r \<in> set t" "jr_id r = jr_id run" "jr_job_name r = jr_job_name run"
    using assms(1) by (auto simp: tracked_def)
  have t': "table_ok specs t'" "table_progress t t'" using job_steps_ok[OF assms(2) t(1,2)] by simp_all
  then obtain r' where "r' \<in> set t'" "row_progress r r'" using table_progress_row r(1) by blast
  then have "\<exists>r \<in> set t'. jr_id r = jr_id run \<and> jr_job_name r = jr_job_name run"
    using r by (auto simp: row_progress_def)
  with t t' assms(2) show ?thesis by (auto simp: tracked_def intro: rtranclp_trans)
qed

lemma tracked_op: "step_op specs m \<Longrightarrow> contract (tracked specs t0 run) m (\<lambda>_. tracked specs t0 run) (tracked specs t0 run)"
  by (rule contract_outcomeI) (auto simp: step_op_def intro: tracked_steps)

lemma step_ops:
  "step_op specs (store_succeed id i owner result now)"
  "step_op specs (store_block id i owner error now)"
  "step_op specs (store_dead_letter id i owner error now)"
  "step_op specs (store_heartbeat id i owner lease now)"
  "step_op specs (claim_next id specs owner now)"
  "step_op specs (recover_stale id specs now)"
  by (auto simp: step_op_def intro: job_step.intros r_into_rtranclp)

lemma tracked_fail:
  assumes "dget specs (jr_job_name run) = Some spec"
  shows "contract (tracked specs t0 run) (store_fail id (jr_id run) owner spec error now)
    (\<lambda>_. tracked specs t0 run) (tracked specs t0 run)"
proof (rule contract_outcomeI)
  fix t r t'
  assume t: "tracked specs t0 run t" and out: "store_fail id (jr_id run) owner spec error now t = (r, t')"
  obtain row where row: "row \<in> set t" "jr_id row = jr_id run" "jr_job_name row = jr_job_name run"
    using t by (auto simp: tracked_def)
  have "by_id (jr_id run) t = Some row" using by_id_unique[of t row] t row by (simp add: tracked_def table_ok_def)
  then have "job_step specs t t'" using out assms row(3) by (auto intro: job_step.fail)
  then show "tracked specs t0 run t'" using t tracked_steps by blast
qed

lemma brain_okD:
  assumes "brain_ok b"
  shows "specs_ok (pb_specs b)" "step_op (pb_specs b) (call_handler b run)"
    "pb_risk_gate b = Some gate \<Longrightarrow> step_op (pb_specs b) (gate run)"
proof -
  have h: "step_op (pb_specs b) (h p)" if "dget (pb_handlers b) n = Some h" for n h p
    using assms dget_Some_in[OF that] by (simp add: brain_ok_def del: set_map)
  have c: "step_op (pb_specs b) (h p run)" if "dget (pb_contextual_handlers b) n = Some h" for n h p run
    using assms dget_Some_in[OF that] by (simp add: brain_ok_def del: set_map)
  show "specs_ok (pb_specs b)" "pb_risk_gate b = Some gate \<Longrightarrow> step_op (pb_specs b) (gate run)"
    using assms by (simp_all add: brain_ok_def)
  show "step_op (pb_specs b) (call_handler b run)"
    using h c by (simp add: call_handler_def step_op_def[of _ "op_raise AssertionError"] split: option.splits)
qed

lemma tracked_run:
  assumes "brain_ok b" "oe_between env = id" "pb_specs b = specs"
  shows "contract (tracked specs t0 run) (run_claimed env b run now) (\<lambda>_. tracked specs t0 run) (tracked specs t0 run)"
proof -
  note ops = tracked_op[OF step_ops(1)] tracked_op[OF step_ops(2)] tracked_op[OF step_ops(3)]
  have attempt: "contract (tracked specs t0 run) (attempt env b spec run now) (\<lambda>_. tracked specs t0 run) (tracked specs t0 run)"
    if "dget specs (jr_job_name run) = Some spec" for spec
    unfolding attempt_def assms(2)
    using ops tracked_fail[OF that] tracked_op[OF brain_okD(2)[OF assms(1)]] unfolding assms(3)
    by (intro contract_bind[OF contract_try]) (auto split: sum.splits intro: contract_weaken)
  show ?thesis
    using ops attempt brain_okD(3)[OF assms(1)] unfolding run_claimed_def gated_attempt_def assms(2,3)
    by (auto split: option.splits intro!: contract_bind[OF tracked_op])
qed

lemma claim_Some:
  assumes "specs_ok specs" "table_ok specs t" "claim_next id specs owner now t = (Inr (Some run), t')"
  obtains job rest spec where "due specs now t = job # rest" "dget specs (jr_job_name job) = Some spec"
    "run = claim_values spec owner now job" "run \<in> set t'"
    "t' = update_where (\<lambda>r. jr_id r = jr_id job) (claim_values spec owner now) t"
proof (cases "due specs now t")
  case Nil
  then show ?thesis using assms(3) by (simp add: claim_next_def)
next
  case (Cons job rest)
  note job = due_first[OF Cons]
  then obtain spec where spec: "dget specs (jr_job_name job) = Some spec"
    using dget_None_iff[of specs "jr_job_name job"] by auto
  have "distinct (map jr_id t)" using assms(2) by (simp add: table_ok_def)
  from claim_serial[OF this Cons spec] assms(3) job(1) show ?thesis
    by (intro that[OF Cons spec]) (auto simp: update_where_def)
qed

lemma run_once_steps:
  assumes "brain_ok b" "oe_between env = id" "table_ok (pb_specs b) t" "run_once env b now t = (r, t')"
  shows "job_steps (pb_specs b) t t'"
proof -
  let ?specs = "pb_specs b"
  have specs: "specs_ok ?specs" using brain_okD(1)[OF assms(1)] .
  obtain n t1 where rec: "recover_stale id ?specs now t = (Inr n, t1)"
    using recover_serial[of t] assms(3) by (auto simp: table_ok_def)
  have s1: "job_steps ?specs t t1" using rec step_ops(6) by (auto simp: step_op_def)
  have ok1: "table_ok ?specs t1" using job_steps_ok[OF s1 specs assms(3)] by simp
  obtain c t2 where claim: "claim_next id ?specs (pb_worker_id b) now t1 = (c, t2)" by fastforce
  have s2: "job_steps ?specs t t2" using s1 claim step_ops(5) by (auto simp: step_op_def intro: rtranclp_trans)
  show ?thesis
  proof (cases "\<exists>run. c = Inr (Some run)")
    case False
    then show ?thesis using assms(2,4) rec claim s2
      by (cases c) (auto simp: run_once_def split: option.splits)
  next
    case True
    then obtain run where run: "c = Inr (Some run)" by blast
    have "run \<in> set t2" using claim_Some[OF specs ok1 claim[unfolded run]] by blast
    then have tr: "tracked ?specs t run t2"
      using s2 specs job_steps_ok[OF s2 specs assms(3)] by (auto simp: tracked_def)
    obtain r' where "run_claimed env b run now t2 = (r', t')"
      using assms(2,4) rec claim run by (auto simp: run_once_def op_bind_def split: prod.splits sum.splits)
    from contract_outcome[OF tracked_run[OF assms(1,2) refl] tr this] show ?thesis by (simp add: tracked_def)
  qed
qed

section \<open>Properties\<close>

lemma brain_calls_steps:
  assumes "brain_ok b" "oe_between env = id" "table_ok (pb_specs b) t"
  shows "brain_enqueue env b n key mode payload i now t = (r, t') \<Longrightarrow> job_steps (pb_specs b) t t'"
    and "brain_heartbeat env b i now t = (r, t') \<Longrightarrow> job_steps (pb_specs b) t t'"
proof -
  show "job_steps (pb_specs b) t t'" if "brain_enqueue env b n key mode payload i now t = (r, t')"
    using that assms(2) by (auto simp: brain_enqueue_def split: option.splits if_splits intro!: r_into_rtranclp job_step.enqueue)
  show "job_steps (pb_specs b) t t'" if "brain_heartbeat env b i now t = (r, t')"
    using that assms(2) step_ops(4) by (auto simp: brain_heartbeat_def step_op_def split: option.splits)
qed

text \<open>
  C32: The job table under serialised transactions, that is when no other session commits between a
  transaction's read and its write. In every table the workers of one release can then produce, each row
  agrees with its contract: it holds a lease exactly while it runs, a result exactly when it succeeded, an
  error when it waits or was set aside, it runs in a safe mode its contract allows, it never has more
  attempts than its contract allows, and no two rows share an id or an idempotency key. Every call of a
  worker, so serialised, keeps this, leaves every row in place with its contract and its payload, never
  lowers the attempts, never changes a finished row, and changes a waiting row only by starting another
  attempt. Without the condition a finished row can be reopened (\<open>late_failure_reopens_finished_job\<close>).
\<close>

theorem jobs_keep_their_contract:
  assumes "brain_ok b" "oe_between env = id" "job_steps (pb_specs b) [] t"
  shows "table_ok (pb_specs b) t
    \<and> (\<forall>now r t'. run_once env b now t = (r, t') \<longrightarrow> table_ok (pb_specs b) t' \<and> table_progress t t')
    \<and> (\<forall>n key mode payload i now r t'. brain_enqueue env b n key mode payload i now t = (r, t') \<longrightarrow>
         table_ok (pb_specs b) t' \<and> table_progress t t')
    \<and> (\<forall>i now r t'. brain_heartbeat env b i now t = (r, t') \<longrightarrow> table_ok (pb_specs b) t' \<and> table_progress t t')"
proof -
  have specs: "specs_ok (pb_specs b)" using brain_okD(1)[OF assms(1)] .
  have "table_ok (pb_specs b) []" by (simp add: table_ok_def)
  then have ok: "table_ok (pb_specs b) t" using job_steps_ok[OF assms(3) specs] by simp
  note steps = run_once_steps[OF assms(1,2) ok] brain_calls_steps[OF assms(1,2) ok]
  show ?thesis using ok steps job_steps_ok[OF _ specs ok] by blast
qed

text \<open>
  C31: A job whose contract requires the risk gate and whose gate is missing, says no or raises never
  reaches its handler: the call has the same outcome whatever the handlers are, under every interleaving
  with other sessions, and if it returns then the job is BLOCKED.
\<close>

theorem gate_precedes_handler:
  assumes "recover_stale (oe_between env) (pb_specs b) now t = (Inr n, t1)"
    and "claim_next (oe_between env) (pb_specs b) (pb_worker_id b) now t1 = (Inr (Some run), t2)"
    and "dget (pb_specs b) (jr_job_name run) = Some spec" "js_requires_risk_gate spec"
    and "case pb_risk_gate b of None \<Rightarrow> True | Some gate \<Rightarrow> fst (gate run t2) \<noteq> Inr True"
    and "jr_job_name run \<in> set (dkeys (pb_handlers b)) \<union> set (dkeys (pb_contextual_handlers b))"
    and "jr_job_name run \<in> set (dkeys hs) \<union> set (dkeys cs)"
  shows "run_once env b now t = run_once env (b\<lparr>pb_handlers := hs, pb_contextual_handlers := cs\<rparr>) now t
    \<and> (\<forall>out t'. run_once env b now t = (Inr (Some out), t') \<longrightarrow> jr_state out = BLOCKED)
    \<and> (\<forall>t'. run_once env b now t \<noteq> (Inr None, t'))"
proof -
  let ?b = "b\<lparr>pb_handlers := hs, pb_contextual_handlers := cs\<rparr>"
  have registered: "\<not> (dget (pb_handlers x) (jr_job_name run) = None \<and> dget (pb_contextual_handlers x) (jr_job_name run) = None)"
    if "x = b \<or> x = ?b" for x
    using that assms(6,7) by (auto simp: dget_None_iff simp del: set_map)
  define m where "m = (case pb_risk_gate b of
      None \<Rightarrow> store_block (oe_between env) (jr_id run) (pb_worker_id b) ''risk gate unavailable'' now
    | Some gate \<Rightarrow> op_bind (gate run) (\<lambda>_. store_block (oe_between env) (jr_id run) (pb_worker_id b) ''risk gate rejected job'' now))"
  have same: "run_claimed env x run now t2 = m t2" if "x = b \<or> x = ?b" for x
  proof -
    have "run_claimed env x run now = gated_attempt env x spec run now"
      using registered[OF that] that assms(3) by (auto simp: run_claimed_def)
    then show ?thesis using that assms(4,5)
      by (auto simp: gated_attempt_def m_def op_bind_def split: option.splits prod.splits sum.splits)
  qed
  have once: "run_once env x now t = op_bind m (\<lambda>out. op_return (Some out)) t2" if "x = b \<or> x = ?b" for x
    using that assms(1,2) same[OF that] by (auto simp: run_once_def op_bind_def)
  have blocked: "jr_state out = BLOCKED" if "store_block bt i w e now s = (Inr out, s')" for bt i w e s out s'
    using that
    by (auto simp: store_block_def terminal_transition_def owned_update_def terminal_values_def split: sum.splits)
  have "jr_state out = BLOCKED" if "m t2 = (Inr out, t')" for out t'
    using that blocked unfolding m_def by (auto split: option.splits elim!: op_bind_cases)
  then show ?thesis using once[of b] once[of ?b] by (auto simp: op_bind_def split: prod.splits sum.splits)
qed

text \<open>
  Two workers never hold the same claim: whatever other sessions commit between its read and its write, a
  claim that returns a job found it still waiting and due, and changed only that row; a job another
  worker took meanwhile is not claimed and nothing is written.
\<close>

lemma claim_is_exclusive:
  assumes "claim_next between specs owner now t = (Inr c, t')" "distinct (map jr_id (between t))"
  shows "case c of
      None \<Rightarrow> t' = t \<or> t' = between t
    | Some run \<Rightarrow> \<exists>spec. \<exists>job \<in> set (between t). claimable now job \<and> run = claim_values spec owner now job
        \<and> dget specs (jr_job_name (hd (due specs now t))) = Some spec
        \<and> t' = update_where (\<lambda>r. jr_id r = jr_id job) (claim_values spec owner now) (between t)"
proof (cases "due specs now t")
  case Nil
  then show ?thesis using assms(1) by (auto simp: claim_next_def)
next
  case (Cons job rest)
  then obtain spec where spec: "dget specs (jr_job_name job) = Some spec"
    using assms(1) by (auto simp: claim_next_def split: option.splits)
  let ?P = "\<lambda>r. jr_id r = jr_id job \<and> claimable now r"
  show ?thesis
  proof (cases "length (filter ?P (between t)) = 1")
    case False
    then show ?thesis using assms(1) Cons spec by (auto simp: claim_next_def Let_def)
  next
    case True
    then obtain row where row: "filter ?P (between t) = [row]" by (auto simp: length_Suc_conv)
    then have "row \<in> set (filter ?P (between t))" by simp
    then have in_row: "row \<in> set (between t)" "jr_id row = jr_id job" "claimable now row" by auto
    have only: "?P r = (jr_id r = jr_id row)" if "r \<in> set (between t)" for r
      using that in_row same_id_same_row[OF assms(2)] by metis
    have upd: "update_where ?P (claim_values spec owner now) (between t)
        = update_where (\<lambda>r. jr_id r = jr_id row) (claim_values spec owner now) (between t)"
      unfolding update_where_def by (rule map_cong[OF refl]) (simp only: only)
    have "by_id (jr_id row) (update_where (\<lambda>r. jr_id r = jr_id row) (claim_values spec owner now) (between t))
        = Some (claim_values spec owner now row)"
      by (rule by_id_claimed[OF assms(2) in_row(1)])
    then have "c = Some (claim_values spec owner now row)"
      "t' = update_where (\<lambda>r. jr_id r = jr_id row) (claim_values spec owner now) (between t)"
      using assms(1) Cons spec True upd in_row(2) by (simp_all add: claim_next_def Let_def)
    then show ?thesis using in_row spec Cons by simp (intro exI[of _ spec] bexI[of _ row]; simp)
  qed
qed

subsection \<open>Examples\<close>

definition ex_spec :: job_spec where
  "ex_spec = \<lparr>js_name = ''paper-decision'', js_capability = PAPER_EXECUTION, js_max_attempts = 3,
     js_base_backoff_seconds = 1, js_lease_seconds = 30, js_requires_risk_gate = True,
     js_allowed_modes = [''PAPER_TRADING''], js_financial_side_effects = False\<rparr>"

definition ex_brain :: "bool \<Rightarrow> proto_brain" where
  "ex_brain approve = \<lparr>pb_worker_id = ''a'', pb_specs = [(''paper-decision'', ex_spec)],
     pb_handlers = [(''paper-decision'', \<lambda>p. op_return (Some p))], pb_contextual_handlers = [],
     pb_risk_gate = Some (\<lambda>run. op_return approve)\<rparr>"

definition ex_orch_env :: orch_env where
  "ex_orch_env = \<lparr>oe_exn_text = (\<lambda>_. ''error''), oe_between = id\<rparr>"

definition ex_job :: job_run where
  "ex_job = new_run ex_spec ''k'' ''PAPER_TRADING'' (JObj []) ''1'' 0"

lemma ex_specs_ok: "specs_ok [(''paper-decision'', ex_spec)]"
  by code_simp

lemma ex_brain_ok: "brain_ok (ex_brain approve)"
  using ex_specs_ok by (simp add: brain_ok_def ex_brain_def step_op_def)

lemma ex_enqueued: "job_steps [(''paper-decision'', ex_spec)] [] [ex_job]"
proof (intro r_into_rtranclp job_step.enqueue)
  show "dget [(''paper-decision'', ex_spec)] ''paper-decision'' = Some ex_spec" by simp
  show "''PAPER_TRADING'' \<in> set (js_allowed_modes ex_spec)" "strip ''k'' \<noteq> []" by code_simp+
  show "store_enqueue id ex_spec ''k'' ''PAPER_TRADING'' (JObj []) ''1'' 0 [] = (Inr ex_job, [ex_job])"
    by (simp add: store_enqueue_serial by_key_def by_id_def ex_job_def)
qed

theorem jobs_keep_their_contract_witness:
  "table_ok [(''paper-decision'', ex_spec)] (snd (run_once ex_orch_env (ex_brain True) 5 [ex_job]))
   \<and> map jr_state (snd (run_once ex_orch_env (ex_brain True) 5 [ex_job])) = [SUCCEEDED]"
proof -
  have "oe_between ex_orch_env = id" by (simp add: ex_orch_env_def)
  note sound = jobs_keep_their_contract[OF ex_brain_ok[of True] this, of "[ex_job]"]
  have "pb_specs (ex_brain True) = [(''paper-decision'', ex_spec)]" by (simp add: ex_brain_def)
  with sound ex_enqueued have "table_ok [(''paper-decision'', ex_spec)] (snd (run_once ex_orch_env (ex_brain True) 5 [ex_job]))"
    by (cases "run_once ex_orch_env (ex_brain True) 5 [ex_job]") simp
  then show ?thesis by (rule conjI) code_simp
qed

theorem gate_precedes_handler_witness:
  "run_once ex_orch_env (ex_brain False) 5 [ex_job]
     = run_once ex_orch_env ((ex_brain False)\<lparr>pb_handlers := [(''paper-decision'', \<lambda>p. op_raise AssertionError)],
         pb_contextual_handlers := []\<rparr>) 5 [ex_job]
   \<and> map jr_state (snd (run_once ex_orch_env (ex_brain False) 5 [ex_job])) = [BLOCKED]"
proof -
  let ?run = "claim_values ex_spec ''a'' 5 ex_job"
  have rec: "recover_stale (oe_between ex_orch_env) (pb_specs (ex_brain False)) 5 [ex_job] = (Inr 0, [ex_job])" by code_simp
  have claim: "claim_next (oe_between ex_orch_env) (pb_specs (ex_brain False)) (pb_worker_id (ex_brain False)) 5 [ex_job]
      = (Inr (Some ?run), [?run])" by code_simp
  have "run_once ex_orch_env (ex_brain False) 5 [ex_job]
     = run_once ex_orch_env ((ex_brain False)\<lparr>pb_handlers := [(''paper-decision'', \<lambda>p. op_raise AssertionError)],
         pb_contextual_handlers := []\<rparr>) 5 [ex_job]"
    by (rule gate_precedes_handler[OF rec claim, of ex_spec, THEN conjunct1]) code_simp+
  then show ?thesis by (rule conjI) code_simp
qed

text \<open>
  The final writes of a run are by id only. If another worker recovers the expired lease, runs the job and
  finishes it between the check of the owner and the write, the late failure of the first worker puts a
  finished job back into the queue.
\<close>

definition ex_taken_over :: "job_table \<Rightarrow> job_table" where
  "ex_taken_over t =
     (let b = (ex_brain True)\<lparr>pb_worker_id := ''b''\<rparr>
      in snd (run_once ex_orch_env b 40000000 (snd (run_once ex_orch_env b 31000000 t))))"

lemma late_failure_reopens_finished_job:
  "map jr_state (ex_taken_over [claim_values ex_spec ''a'' 5 ex_job]) = [SUCCEEDED]"
  "map jr_state (snd (store_fail ex_taken_over ''1'' ''a'' ex_spec ''ValueError: late'' 31000000
     [claim_values ex_spec ''a'' 5 ex_job])) = [RETRY_WAIT]"
  by code_simp+

end
