(* ===== verification/Supervisor.thy ===== *)
theory Supervisor
  imports Orchestration
begin

text \<open>
  What feeds and drives the job queue: the in-memory event bus (\<^verbatim>\<open>services/events/bus.py\<close>), the dispatcher
  that turns bus events into jobs (\<^verbatim>\<open>services/orchestration/event_triggers.py\<close>) and the supervisor with
  its schedules and its drain loop (\<^verbatim>\<open>services/orchestration/supervisor.py\<close>).

  The id and the time an enqueue takes are given by \<open>stamp\<close>, a function of the idempotency key; the times the
  drain loop reads are a sequence \<open>clock\<close>. The asyncio task around the loop is not modelled.
\<close>

section \<open>The event bus\<close>

record bus_message =
  bm_message_id :: string
  bm_stream :: string
  bm_payload :: "(string, string) dict"

record event_bus =
  eb_messages :: "(string, bus_message list) dict"
  eb_sequence :: nat

definition publish :: "string \<Rightarrow> (string, string) dict \<Rightarrow> event_bus \<Rightarrow> string \<times> event_bus" where
  "publish stream payload bus =
     (let n = eb_sequence bus + 1; i = nat_str n @ ''-0'';
          messages = dget_or (eb_messages bus) stream []
      in (i, \<lparr>eb_messages = dset stream (messages @ [\<lparr>bm_message_id = i, bm_stream = stream, bm_payload = payload\<rparr>]) (eb_messages bus),
              eb_sequence = n\<rparr>))"

text \<open>
  The number before the first dash. The identifiers of this bus are digits there (\<open>publish\<close>); the signs, blanks and
  underscores that \<^verbatim>\<open>int\<close> would also accept are refused here.
\<close>

definition message_seq :: "string \<Rightarrow> nat res" where
  "message_seq i =
     (let s = hd (split_on (CHR ''-'') i)
      in if s \<noteq> [] \<and> list_all (\<lambda>c. 48 \<le> (of_char c :: nat) \<and> (of_char c :: nat) \<le> 57) s then Inr (digits_val s)
         else Inl (ValueError ''invalid literal for int()''))"

text \<open>The messages a subscription yields, and the exception it ends with, if any.\<close>

fun newer :: "nat \<Rightarrow> bus_message list \<Rightarrow> bus_message list \<times> unit res" where
  "newer after_seq [] = ([], Inr ())"
| "newer after_seq (m # ms) =
     (case message_seq (bm_message_id m) of
        Inl e \<Rightarrow> ([], Inl e)
      | Inr seq \<Rightarrow> (case newer after_seq ms of (rest, end') \<Rightarrow> (if after_seq < seq then m # rest else rest, end')))"

definition subscribe :: "string \<Rightarrow> string \<Rightarrow> event_bus \<Rightarrow> bus_message list \<times> unit res" where
  "subscribe stream after bus =
     (case message_seq after of
        Inl e \<Rightarrow> ([], Inl e)
      | Inr after_seq \<Rightarrow> newer after_seq (dget_or (eb_messages bus) stream []))"

definition bus_dead_letter :: "string \<Rightarrow> (string, string) dict \<Rightarrow> event_bus \<Rightarrow> string \<times> event_bus" where
  "bus_dead_letter stream payload bus = publish (stream @ ''.dead_letter'') payload bus"

section \<open>Events that trigger jobs\<close>

datatype autonomous_event = MARKET_TICK | REGIME_CHANGED | OPPORTUNITY_FOUND | MODEL_DEGRADED

fun event_value :: "autonomous_event \<Rightarrow> string" where
  "event_value MARKET_TICK = ''MARKET_TICK''"
| "event_value REGIME_CHANGED = ''REGIME_CHANGED''"
| "event_value OPPORTUNITY_FOUND = ''OPPORTUNITY_FOUND''"
| "event_value MODEL_DEGRADED = ''MODEL_DEGRADED''"

record trigger_rule =
  tr_event_type :: autonomous_event
  tr_job_name :: string
  tr_mode :: string

record dispatcher =
  di_stream :: string
  di_rules :: "(string, trigger_rule) dict"
  di_default :: "autonomous_event option"
  di_cursor :: string
  di_processed :: nat
  di_ignored :: nat
  di_last_error :: "string option"

definition rules_of :: "trigger_rule list \<Rightarrow> (string, trigger_rule) dict" where
  "rules_of rules = fold (\<lambda>r. dset (event_value (tr_event_type r)) r) rules []"

text \<open>\<open>bus\<close> and \<open>runtime\<close>: whether one is configured.\<close>

definition dispatcher_new ::
    "string \<Rightarrow> trigger_rule list \<Rightarrow> bool \<Rightarrow> bool \<Rightarrow> autonomous_event option \<Rightarrow> dispatcher res" where
  "dispatcher_new stream rules bus runtime default_event =
     (if strip stream = [] then Inl (ValueError ''event stream must be non-empty'')
      else if bus = runtime then Inl (ValueError ''configure exactly one of bus or runtime'')
      else if (case default_event of None \<Rightarrow> False | Some e \<Rightarrow> event_value e \<notin> set (dkeys (rules_of rules)))
      then Inl (ValueError ''default event type must have a configured trigger rule'')
      else Inr \<lparr>di_stream = stream, di_rules = rules_of rules, di_default = default_event, di_cursor = ''0-0'',
                di_processed = 0, di_ignored = 0, di_last_error = None\<rparr>)"

definition json_opt :: "string option \<Rightarrow> json" where
  "json_opt s = (case s of None \<Rightarrow> JNull | Some x \<Rightarrow> JStr x)"

definition or_else :: "string option \<Rightarrow> string option \<Rightarrow> string option" where
  "or_else a b = (case a of None \<Rightarrow> b | Some s \<Rightarrow> if s = [] then b else a)"

definition event_type_of :: "dispatcher \<Rightarrow> bus_message \<Rightarrow> string option" where
  "event_type_of d m =
     (case dget (bm_payload m) ''event_type'' of
        Some e \<Rightarrow> Some e
      | None \<Rightarrow> map_option event_value (di_default d))"

definition rule_of :: "dispatcher \<Rightarrow> bus_message \<Rightarrow> trigger_rule option" where
  "rule_of d m = dget (di_rules d) (case event_type_of d m of None \<Rightarrow> [] | Some e \<Rightarrow> e)"

definition event_key :: "dispatcher \<Rightarrow> bus_message \<Rightarrow> trigger_rule \<Rightarrow> string" where
  "event_key d m rule =
     ''event:'' @ di_stream d @ '':'' @ bm_message_id m @ '':'' @ tr_job_name rule @ '':'' @ tr_mode rule"

definition event_payload :: "dispatcher \<Rightarrow> bus_message \<Rightarrow> json" where
  "event_payload d m =
     (let get = dget (bm_payload m)
      in JObj [(''trigger_event'', json_opt (event_type_of d m)), (''trigger_stream'', JStr (di_stream d)),
               (''trigger_message_id'', JStr (bm_message_id m)), (''event_id'', json_opt (get ''event_id'')),
               (''symbol'', json_opt (get ''symbol'')),
               (''observed_at'', json_opt (or_else (get ''occurred_at'') (get ''observed_at''))),
               (''received_at'', json_opt (get ''received_at'')), (''sequence'', json_opt (get ''sequence'')),
               (''source'', json_opt (get ''source''))])"

text \<open>One message; the cursor moves before the job is queued.\<close>

definition dispatch ::
    "orch_env \<Rightarrow> proto_brain \<Rightarrow> stamp \<Rightarrow> bus_message \<Rightarrow> dispatcher \<times> job_table \<Rightarrow> nat res \<times> dispatcher \<times> job_table" where
  "dispatch env b stamp m = (\<lambda>(d0, t).
     let d = d0\<lparr>di_cursor := bm_message_id m\<rparr> in
     case rule_of d m of
       None \<Rightarrow> (Inr 0, d\<lparr>di_ignored := di_ignored d + 1\<rparr>, t)
     | Some rule \<Rightarrow>
         let key = event_key d m rule; (i, now) = stamp key in
         case brain_enqueue env b (tr_job_name rule) key (tr_mode rule) (Some (event_payload d m)) i now t of
           (Inl e, t') \<Rightarrow> (Inl e, d\<lparr>di_last_error := Some (oe_exn_text env e)\<rparr>, t')
         | (Inr run, t') \<Rightarrow> (Inr 1, d\<lparr>di_processed := di_processed d + 1, di_last_error := None\<rparr>, t'))"

text \<open>The bus is \<open>None\<close> while its runtime is not ready.\<close>

definition drain ::
    "orch_env \<Rightarrow> proto_brain \<Rightarrow> stamp \<Rightarrow> event_bus option \<Rightarrow> (dispatcher \<times> job_table, nat) op" where
  "drain env b stamp bus = (\<lambda>(d, t).
     case bus of
       None \<Rightarrow> (Inr 0, d, t)
     | Some bus \<Rightarrow>
         (case subscribe (di_stream d) (di_cursor d) bus of
            (messages, end') \<Rightarrow>
              op_bind (op_iter (dispatch env b stamp) messages) (\<lambda>ns. op_bind (op_lift end') (\<lambda>_. op_return (sum_list ns))) (d, t)))"

section \<open>The supervisor\<close>

record periodic_job =
  pj_job_name :: string
  pj_interval_seconds :: int
  pj_mode :: string

definition periodic_job_new :: "periodic_job \<Rightarrow> periodic_job res" where
  "periodic_job_new p =
     (if pj_interval_seconds p < 1 then Inl (ValueError ''interval_seconds must be >= 1'') else Inr p)"

text \<open>\<^verbatim>\<open>int(now.timestamp())\<close> truncates towards zero.\<close>

definition whole_seconds :: "instant \<Rightarrow> int" where
  "whole_seconds now = (if 0 \<le> now then now div 1000000 else - ((- now) div 1000000))"

definition periodic_key :: "periodic_job \<Rightarrow> instant \<Rightarrow> string" where
  "periodic_key p now =
     ''periodic:'' @ pj_job_name p @ '':'' @ pj_mode p @ '':'' @ int_str (pj_interval_seconds p)
     @ '':'' @ int_str (whole_seconds now div pj_interval_seconds p)"

record supervisor =
  sv_schedules :: "periodic_job list"
  sv_poll_seconds :: rat
  sv_dispatchers :: "dispatcher list"
  sv_ticks :: nat
  sv_event_dispatches :: nat
  sv_last_error :: "string option"

definition supervisor_new :: "periodic_job list \<Rightarrow> dispatcher list \<Rightarrow> rat \<Rightarrow> supervisor res" where
  "supervisor_new schedules dispatchers poll_seconds =
     (if poll_seconds \<le> 0 then Inl (ValueError ''poll_seconds must be > 0'')
      else Inr \<lparr>sv_schedules = schedules, sv_poll_seconds = poll_seconds, sv_dispatchers = dispatchers,
                sv_ticks = 0, sv_event_dispatches = 0, sv_last_error = None\<rparr>)"

definition enqueue_periodic ::
    "orch_env \<Rightarrow> proto_brain \<Rightarrow> (instant \<Rightarrow> string) \<Rightarrow> stamp \<Rightarrow> instant \<Rightarrow> periodic_job \<Rightarrow> (job_table, job_run) op" where
  "enqueue_periodic env b isoformat stamp current p =
     (let key = periodic_key p current; (i, now) = stamp key
      in brain_enqueue env b (pj_job_name p) key (pj_mode p)
           (Some (JObj [(''scheduled_at'', JStr (isoformat current)),
                        (''schedule_interval_seconds'', JInt (pj_interval_seconds p))])) i now)"

text \<open>The dispatchers in turn; an exception leaves the later ones untouched.\<close>

fun drain_all ::
    "orch_env \<Rightarrow> proto_brain \<Rightarrow> stamp \<Rightarrow> event_bus option \<Rightarrow> dispatcher list \<Rightarrow> job_table \<Rightarrow>
     nat \<Rightarrow> unit res \<times> nat \<times> dispatcher list \<times> job_table" where
  "drain_all env b stamp bus [] t n = (Inr (), n, [], t)"
| "drain_all env b stamp bus (d # ds) t n =
     (case drain env b stamp bus (d, t) of
        (Inl e, d', t') \<Rightarrow> (Inl e, n, d' # ds, t')
      | (Inr k, d', t') \<Rightarrow>
          (case drain_all env b stamp bus ds t' (n + k) of (r, n', ds', t'') \<Rightarrow> (r, n', d' # ds', t'')))"

text \<open>\<^verbatim>\<open>while await self.brain.run_once() is not None: pass\<close>; the \<open>k\<close>th turn reads the time \<open>clock k\<close>.\<close>

partial_function (option) run_due ::
    "orch_env \<Rightarrow> proto_brain \<Rightarrow> (nat \<Rightarrow> instant) \<Rightarrow> nat \<Rightarrow> job_table \<Rightarrow> (unit res \<times> nat \<times> job_table) option" where
  "run_due env b clock k t =
     (case run_once env b (clock k) t of
        (Inl e, t') \<Rightarrow> Some (Inl e, k, t')
      | (Inr None, t') \<Rightarrow> Some (Inr (), k, t')
      | (Inr (Some run), t') \<Rightarrow> run_due env b clock (Suc k) t')"

definition tick ::
    "orch_env \<Rightarrow> proto_brain \<Rightarrow> (instant \<Rightarrow> string) \<Rightarrow> stamp \<Rightarrow> event_bus option \<Rightarrow> instant \<Rightarrow> (nat \<Rightarrow> instant) \<Rightarrow>
     supervisor \<times> job_table \<Rightarrow> (unit res \<times> supervisor \<times> job_table) option" where
  "tick env b isoformat stamp bus current clock = (\<lambda>(s, t).
     case op_iter (enqueue_periodic env b isoformat stamp current) (sv_schedules s) t of
       (Inl e, t1) \<Rightarrow> Some (Inl e, s, t1)
     | (Inr _, t1) \<Rightarrow>
         (case drain_all env b stamp bus (sv_dispatchers s) t1 (sv_event_dispatches s) of
            (r, n, ds, t2) \<Rightarrow>
              let s' = s\<lparr>sv_dispatchers := ds, sv_event_dispatches := n\<rparr> in
              (case r of
                 Inl e \<Rightarrow> Some (Inl e, s', t2)
               | Inr _ \<Rightarrow>
                   (case run_due env b clock 0 t2 of
                      None \<Rightarrow> None
                    | Some (Inl e, _, t3) \<Rightarrow> Some (Inl e, s', t3)
                    | Some (Inr _, _, t3) \<Rightarrow> Some (Inr (), s'\<lparr>sv_ticks := sv_ticks s' + 1, sv_last_error := None\<rparr>, t3)))))"

text \<open>One turn of the background task: an exception becomes the last error.\<close>

definition supervised_tick ::
    "orch_env \<Rightarrow> proto_brain \<Rightarrow> (instant \<Rightarrow> string) \<Rightarrow> stamp \<Rightarrow> event_bus option \<Rightarrow> instant \<Rightarrow> (nat \<Rightarrow> instant) \<Rightarrow>
     supervisor \<times> job_table \<Rightarrow> (supervisor \<times> job_table) option" where
  "supervised_tick env b isoformat stamp bus current clock st =
     map_option (\<lambda>(r, s, t).
       (case r of Inl e \<Rightarrow> s\<lparr>sv_last_error := Some (oe_exn_text env e)\<rparr> | Inr _ \<Rightarrow> s, t))
     (tick env b isoformat stamp bus current clock st)"

section \<open>The drain loop ends\<close>

text \<open>Handlers and gate that leave the queue alone, a gate that answers.\<close>

definition quiet :: "proto_brain \<Rightarrow> bool" where
  "quiet b \<longleftrightarrow> (\<forall>h \<in> set (dvalues (pb_handlers b)). \<forall>p t. snd (h p t) = t)
     \<and> (\<forall>h \<in> set (dvalues (pb_contextual_handlers b)). \<forall>p run t. snd (h p run t) = t)
     \<and> (\<forall>gate \<in> set_option (pb_risk_gate b). \<forall>run t. \<exists>approved. gate run t = (Inr approved, t))"

text \<open>The attempts a row may still make.\<close>

definition tries_left :: "job_run \<Rightarrow> nat" where
  "tries_left r = (if terminal_job r then 0 else nat (jr_max_attempts r - jr_attempts r) + (if jr_state r = RUNNING then 1 else 0))"

definition work_left :: "job_table \<Rightarrow> nat" where
  "work_left t = sum_list (map tries_left t)"

lemma quiet_gate: "quiet b \<Longrightarrow> pb_risk_gate b = Some gate \<Longrightarrow> \<exists>approved. gate run t = (Inr approved, t)"
  by (simp add: quiet_def)

lemma step_op_quiet: "(\<And>t. snd (m t) = t) \<Longrightarrow> step_op specs m"
  unfolding step_op_def by (metis rtranclp.rtrancl_refl snd_conv)

lemma quiet_brain_ok:
  assumes "quiet b" "specs_ok (pb_specs b)"
  shows "brain_ok b"
proof -
  have "step_op (pb_specs b) (gate run)" if "pb_risk_gate b = Some gate" for gate run
    using quiet_gate[OF assms(1) that] by (intro step_op_quiet) (metis snd_conv)
  then show ?thesis using assms by (auto simp: quiet_def brain_ok_def simp del: set_map intro!: step_op_quiet)
qed

lemma quiet_call: "quiet b \<Longrightarrow> \<exists>r. call_handler b run t = (r, t)"
proof -
  assume quiet: "quiet b"
  have h: "\<exists>r. h p t = (r, t)" if "dget (pb_handlers b) n = Some h" for n h p
    using quiet dget_Some_in[OF that] unfolding quiet_def by (metis prod.collapse)
  have c: "\<exists>r. h p run t = (r, t)" if "dget (pb_contextual_handlers b) n = Some h" for n h p
    using quiet dget_Some_in[OF that] unfolding quiet_def by (metis prod.collapse)
  show ?thesis
  proof (cases "dget (pb_contextual_handlers b) (jr_job_name run)")
    case None
    then show ?thesis using h by (cases "dget (pb_handlers b) (jr_job_name run)") (auto simp: call_handler_def)
  next
    case (Some ch)
    then show ?thesis using c by (auto simp: call_handler_def)
  qed
qed

text \<open>How a claimed job ends when nothing else happens to the table: finished, or waiting for another try.\<close>

definition settled :: "(job_run \<Rightarrow> job_run) \<Rightarrow> job_run \<Rightarrow> bool" where
  "settled f run \<longleftrightarrow> terminal_job (f run)
     \<or> jr_state (f run) = RETRY_WAIT \<and> jr_attempts (f run) = jr_attempts run \<and> jr_max_attempts (f run) = jr_max_attempts run"

lemma settled_values:
  "settled (terminal_values SUCCEEDED now e res) run"
  "settled (terminal_values BLOCKED now e res) run"
  "settled (terminal_values DEAD_LETTER now e res) run"
  "settled (fail_values spec error now run) run"
  by (auto simp: settled_def terminal_values_def fail_values_def requeue_values_def Let_def)

lemma owned_update_settles:
  assumes "distinct (map jr_id t)" "run \<in> set t" "jr_state run = RUNNING" "jr_lease_owner run = Some owner" "settled (values run) run"
  shows "\<exists>f. settled f run \<and> owned_update id (jr_id run) owner values t = (Inr (f run), update_where (\<lambda>r. jr_id r = jr_id run) f t)"
proof -
  have "owned_running (jr_id run) owner t = Inr run"
  proof (cases "owned_running (jr_id run) owner t")
    case (Inl e)
    then show ?thesis using assms by (auto simp: owned_running_def find_None_iff split: option.splits)
  next
    case (Inr r)
    then show ?thesis using owned_running_Inr[OF Inr] same_id_same_row[OF assms(1) _ assms(2)] by auto
  qed
  then show ?thesis using assms(5) by (auto simp: owned_update_def)
qed

lemma run_settles:
  assumes "quiet b" "oe_between env = id" "distinct (map jr_id t)" "run \<in> set t" "jr_state run = RUNNING"
    "jr_lease_owner run = Some (pb_worker_id b)"
  shows "\<exists>f. settled f run \<and> run_claimed env b run now t = (Inr (f run), update_where (\<lambda>r. jr_id r = jr_id run) f t)"
proof -
  let ?ends = "\<lambda>m. \<exists>f. settled f run \<and> m t = (Inr (f run), update_where (\<lambda>r. jr_id r = jr_id run) f t)"
  note ends = owned_update_settles[OF assms(3-6)]
  have transitions: "?ends (store_succeed id (jr_id run) (pb_worker_id b) res now)" "?ends (store_block id (jr_id run) (pb_worker_id b) e now)"
    "?ends (store_dead_letter id (jr_id run) (pb_worker_id b) e now)" "?ends (store_fail id (jr_id run) (pb_worker_id b) spec e now)"
    for res e spec
    unfolding store_succeed_def store_block_def store_dead_letter_def store_fail_def terminal_transition_def
    by (rule ends; rule settled_values)+
  have attempt: "?ends (attempt env b spec run now)" for spec
  proof -
    obtain r where "call_handler b run t = (r, t)" using quiet_call[OF assms(1)] by blast
    then show ?thesis using transitions by (cases r) (simp_all add: attempt_def op_try_def op_bind_def assms(2))
  qed
  have gated: "?ends (gated_attempt env b spec run now)" for spec
  proof (cases "pb_risk_gate b")
    case None
    then show ?thesis using attempt transitions by (simp add: gated_attempt_def assms(2))
  next
    case (Some gate)
    then obtain approved where "gate run t = (Inr approved, t)" using quiet_gate[OF assms(1)] by blast
    then show ?thesis using Some attempt transitions by (cases approved) (simp_all add: gated_attempt_def assms(2))
  qed
  show ?thesis using gated transitions by (auto simp: run_claimed_def assms(2) split: option.splits)
qed

lemma length_update_where [simp]: "length (update_where P f t) = length t"
  by (simp add: update_where_def)

lemma work_update_le:
  assumes "\<And>r. r \<in> set t \<Longrightarrow> P r \<Longrightarrow> tries_left (f r) \<le> tries_left r"
  shows "work_left (update_where P f t) \<le> work_left t"
  using assms by (auto simp: work_left_def update_where_def o_def intro!: sum_list_mono)

lemma work_update_less:
  assumes "distinct (map jr_id t)" "job \<in> set t" "tries_left (f job) < tries_left job"
  shows "work_left (update_where (\<lambda>r. jr_id r = jr_id job) f t) < work_left t"
proof -
  obtain u v where t: "t = u @ job # v" using assms(2) split_list by metis
  have rest: "map (\<lambda>r. if jr_id r = jr_id job then f r else r) w = w" if "jr_id job \<notin> jr_id ` set w" for w
    using that by (intro map_idI) (metis imageI)
  have "update_where (\<lambda>r. jr_id r = jr_id job) f t = u @ f job # v"
    using assms(1) by (simp add: t update_where_def rest)
  then show ?thesis using assms(3) by (simp add: work_left_def t)
qed

lemma recover_tries:
  assumes "row_ok specs r" "stale now r"
  shows "tries_left (recover_values specs now r) \<le> tries_left r"
  using assms by (auto simp: recover_values_def requeue_values_def stale_def tries_left_def split: option.splits)

lemma settled_tries:
  assumes "specs_ok specs" "row_ok specs job" "claimable now job" "settled f (claim_values spec owner now job)"
  shows "tries_left (f (claim_values spec owner now job)) < tries_left job"
proof -
  have job: "attempts_ok job" "1 \<le> jr_max_attempts job"
    using assms(2) specs_okD(2)[OF assms(1)] by (auto simp: row_ok_def contract_ok_def split: option.splits)
  then have "jr_attempts job < jr_max_attempts job" "\<not> terminal_job job"
    using assms(3) by (auto simp: attempts_ok_def claimable_def)
  moreover have "jr_attempts (claim_values spec owner now job) = jr_attempts job + 1"
    "jr_max_attempts (claim_values spec owner now job) = jr_max_attempts job" by (simp_all add: claim_values_def)
  ultimately show ?thesis using assms(4) unfolding settled_def tries_left_def by auto
qed

lemma run_once_works:
  assumes "quiet b" "oe_between env = id" "specs_ok (pb_specs b)" "table_ok (pb_specs b) t" "run_once env b now t = (r, t')"
  shows "length t' = length t
    \<and> (r = Inr None \<and> due (pb_specs b) now t' = [] \<or> (\<exists>out. r = Inr (Some out) \<and> work_left t' < work_left t))"
proof -
  let ?specs = "pb_specs b"
  define t1 where "t1 = update_where (stale now) (recover_values ?specs now) t"
  have rec: "recover_stale id ?specs now t = (Inr (length (filter (stale now) t)), t1)"
    using assms(4) by (simp add: t1_def recover_serial table_ok_def)
  have ok1: "table_ok ?specs t1" using job_step_ok[OF job_step.recover[OF rec] assms(3,4)] by simp
  then have ids: "distinct (map jr_id t1)" by (simp add: table_ok_def)
  have le: "work_left t1 \<le> work_left t" unfolding t1_def
    using assms(4) recover_tries by (intro work_update_le) (auto simp: table_ok_def list_all_iff)
  show ?thesis
  proof (cases "due ?specs now t1")
    case Nil
    then have "claim_next id ?specs (pb_worker_id b) now t1 = (Inr None, t1)" by (simp add: claim_next_def)
    then show ?thesis using assms(2,5) rec Nil by (auto simp: run_once_def t1_def)
  next
    case (Cons job rest)
    note job = due_first[OF Cons]
    have row: "row_ok ?specs job" using ok1 job(1) by (simp add: table_ok_def list_all_iff)
    obtain spec where spec: "dget ?specs (jr_job_name job) = Some spec"
      using job(2) dget_None_iff[of ?specs "jr_job_name job"] by auto
    define run where "run = claim_values spec (pb_worker_id b) now job"
    define t2 where "t2 = update_where (\<lambda>r. jr_id r = jr_id job) (claim_values spec (pb_worker_id b) now) t1"
    have claim: "claim_next id ?specs (pb_worker_id b) now t1 = (Inr (Some run), t2)"
      using claim_serial[OF ids Cons spec] by (simp add: run_def t2_def)
    have run: "jr_state run = RUNNING" "jr_lease_owner run = Some (pb_worker_id b)" "jr_id run = jr_id job"
      by (simp_all add: run_def claim_values_def)
    have "run \<in> set t2" using job(1) by (auto simp: t2_def run_def update_where_def)
    moreover have "distinct (map jr_id t2)" using job_step_ok[OF job_step.claim[OF claim] assms(3) ok1] by (simp add: table_ok_def)
    ultimately obtain f where f: "settled f run"
      "run_claimed env b run now t2 = (Inr (f run), update_where (\<lambda>r. jr_id r = jr_id run) f t2)"
      using run_settles[OF assms(1,2)] run by blast
    have "update_where (\<lambda>r. jr_id r = jr_id run) f t2
        = update_where (\<lambda>r. jr_id r = jr_id job) (f \<circ> claim_values spec (pb_worker_id b) now) t1"
      by (simp add: t2_def update_where_def run(3) claim_values_def)
    moreover have "tries_left (f run) < tries_left job" unfolding run_def
      by (rule settled_tries[OF assms(3) row job(3) f(1)[unfolded run_def]])
    ultimately have "work_left (update_where (\<lambda>r. jr_id r = jr_id run) f t2) < work_left t1"
      using work_update_less[OF ids job(1)] by (simp add: run_def)
    then show ?thesis using assms(2,5) rec claim f(2) le by (auto simp: run_once_def t1_def t2_def)
  qed
qed

lemma run_due_ends:
  assumes "quiet b" "oe_between env = id" "specs_ok (pb_specs b)" "table_ok (pb_specs b) t"
  shows "\<exists>n t'. run_due env b clock k t = Some (Inr (), k + n, t') \<and> n \<le> work_left t
    \<and> due (pb_specs b) (clock (k + n)) t' = [] \<and> table_ok (pb_specs b) t' \<and> table_progress t t' \<and> length t' = length t"
  using assms(4)
proof (induction "work_left t" arbitrary: t k rule: less_induct)
  case less
  let ?specs = "pb_specs b"
  obtain r t1 where once: "run_once env b (clock k) t = (r, t1)" by fastforce
  have "job_steps ?specs t t1" by (rule run_once_steps[OF quiet_brain_ok[OF assms(1,3)] assms(2) less(2) once])
  then have ok1: "table_ok ?specs t1" "table_progress t t1" using job_steps_ok[OF _ assms(3) less(2)] by blast+
  from run_once_works[OF assms(1-3) less(2) once] show ?case
  proof (elim disjE conjE exE)
    assume "length t1 = length t" "r = Inr None" "due ?specs (clock k) t1 = []"
    then show ?thesis using once ok1 by (intro exI[of _ 0] exI[of _ t1]) (simp add: run_due.simps)
  next
    fix out
    assume len: "length t1 = length t" and out: "r = Inr (Some out)" "work_left t1 < work_left t"
    from less(1)[OF out(2) ok1(1), of "Suc k"] obtain n t' where
      n: "run_due env b clock (Suc k) t1 = Some (Inr (), Suc k + n, t')" "n \<le> work_left t1"
         "due ?specs (clock (Suc k + n)) t' = []" "table_ok ?specs t'" "table_progress t1 t'" "length t' = length t1" by blast
    have "run_due env b clock k t = Some (Inr (), k + Suc n, t')" using n(1) once out(1) by (subst run_due.simps) simp
    with n out(2) ok1 len show ?thesis
      by (intro exI[of _ "Suc n"] exI[of _ t']) (auto intro: table_progress_trans)
  qed
qed

lemma no_due_no_claimable:
  assumes "due specs now t = []" "table_ok specs t" "r \<in> set t"
  shows "\<not> claimable now r"
proof -
  have "row_ok specs r" using assms(2,3) by (simp add: table_ok_def list_all_iff)
  then have "dget specs (jr_job_name r) \<noteq> None" by (auto simp: row_ok_def contract_ok_def split: option.splits)
  then have "jr_job_name r \<in> set (dkeys specs)" by (simp add: dget_None_iff del: set_map)
  moreover have "set (due specs now t) = {r \<in> set t. jr_job_name r \<in> set (dkeys specs) \<and> claimable now r}"
    by (simp add: due_def)
  ultimately show ?thesis using assms(1,3) by auto
qed

section \<open>Properties\<close>

text \<open>
  A table grown out of another by queueing before the instant \<open>limit\<close>: the old rows as they were, the new ones
  waiting for their first attempt and due.
\<close>

definition grown :: "specs \<Rightarrow> instant \<Rightarrow> job_table \<Rightarrow> job_table \<Rightarrow> bool" where
  "grown specs limit t0 t \<longleftrightarrow> table_ok specs t \<and> table_progress t0 t \<and> set t \<subseteq> set t0 \<union> {r. claimable limit r \<and> jr_attempts r = 0}"

lemma grown_refl: "table_ok specs t \<Longrightarrow> grown specs limit t t"
  by (simp add: grown_def)

lemma queued_rows:
  assumes "brain_enqueue env b n key mode payload i now t = (r, t')" "oe_between env = id"
  shows "set t' \<subseteq> set t \<union> {r. claimable now r \<and> jr_attempts r = 0}"
  using assms
  by (auto simp: brain_enqueue_def store_enqueue_serial new_run_def claimable_def split: option.splits if_splits)

lemma grown_enqueue:
  assumes "brain_ok b" "oe_between env = id" "now \<le> limit"
  shows "contract (grown (pb_specs b) limit t0) (brain_enqueue env b n key mode payload i now)
    (\<lambda>_. grown (pb_specs b) limit t0) (grown (pb_specs b) limit t0)"
proof (rule contract_outcomeI)
  fix t r t'
  assume t: "grown (pb_specs b) limit t0 t" and out: "brain_enqueue env b n key mode payload i now t = (r, t')"
  then have "job_steps (pb_specs b) t t'" using brain_calls_steps(1)[OF assms(1,2)] by (auto simp: grown_def)
  moreover have "{r. claimable now r \<and> jr_attempts r = 0} \<subseteq> {r. claimable limit r \<and> jr_attempts r = 0}" using assms(3) by (auto simp: claimable_def)
  ultimately show "grown (pb_specs b) limit t0 t'"
    using t job_steps_ok[OF _ brain_okD(1)[OF assms(1)]] table_progress_trans queued_rows[OF out assms(2)]
    unfolding grown_def by blast
qed

lemma grown_periodic:
  assumes "brain_ok b" "oe_between env = id" "\<forall>key. snd (stamp key) \<le> limit"
  shows "contract (grown (pb_specs b) limit t0) (enqueue_periodic env b isoformat stamp current p)
    (\<lambda>_. grown (pb_specs b) limit t0) (grown (pb_specs b) limit t0)"
proof -
  obtain i now where i: "stamp (periodic_key p current) = (i, now)" by fastforce
  show ?thesis using grown_enqueue[OF assms(1,2)] assms(3)[rule_format, of "periodic_key p current"] i by (simp add: enqueue_periodic_def Let_def)
qed

lemma grown_dispatch:
  assumes "brain_ok b" "oe_between env = id" "\<forall>key. snd (stamp key) \<le> limit"
  shows "contract (\<lambda>(d, t). grown (pb_specs b) limit t0 t) (dispatch env b stamp m)
    (\<lambda>_ (d, t). grown (pb_specs b) limit t0 t) (\<lambda>(d, t). grown (pb_specs b) limit t0 t)"
proof (intro contract_outcomeI, clarify)
  fix d t r d' t'
  assume t: "grown (pb_specs b) limit t0 t" and out: "dispatch env b stamp m (d, t) = (r, d', t')"
  have "grown (pb_specs b) limit t0 (snd (brain_enqueue env b n key mode payload (fst (stamp key')) (snd (stamp key')) t))"
    for n key mode payload key'
    using contract_outcome[OF grown_enqueue[OF assms(1,2) assms(3)[rule_format]] t] by (metis prod.collapse)
  then show "grown (pb_specs b) limit t0 t'"
    using out t by (auto simp: dispatch_def Let_def case_prod_beta split: option.splits prod.splits sum.splits)
qed

lemma grown_drain:
  assumes "brain_ok b" "oe_between env = id" "\<forall>key. snd (stamp key) \<le> limit"
    and "grown (pb_specs b) limit t0 t" "drain env b stamp bus (d, t) = (r, d', t')"
  shows "grown (pb_specs b) limit t0 t'"
proof (cases bus)
  case None
  then show ?thesis using assms(4,5) by (simp add: drain_def)
next
  case (Some the_bus)
  obtain messages stop where sub: "subscribe (di_stream d) (di_cursor d) the_bus = (messages, stop)" by fastforce
  let ?P = "\<lambda>(d, t). grown (pb_specs b) limit t0 t"
  have "contract ?P (op_bind (op_iter (dispatch env b stamp) messages)
      (\<lambda>ns. op_bind (op_lift stop) (\<lambda>_. op_return (sum_list ns)))) (\<lambda>_. ?P) ?P"
    using grown_dispatch[OF assms(1-3)]
    by (intro contract_bind[OF contract_iter] contract_bind[OF contract_lift] contract_return) auto
  then show ?thesis using contract_outcome[of ?P _ ?P "(d, t)" r "(d', t')"] assms(4,5) Some sub by (simp add: drain_def)
qed

lemma grown_drain_all:
  assumes "brain_ok b" "oe_between env = id" "\<forall>key. snd (stamp key) \<le> limit"
    and "grown (pb_specs b) limit t0 t" "drain_all env b stamp bus ds t n = (r, n', ds', t')"
  shows "grown (pb_specs b) limit t0 t'"
  using assms(4,5)
proof (induction ds arbitrary: t n n' ds' r)
  case (Cons d ds)
  obtain x d1 t1 where d: "drain env b stamp bus (d, t) = (x, d1, t1)" by (metis prod_cases3)
  then have t1: "grown (pb_specs b) limit t0 t1" using grown_drain[OF assms(1-3) Cons.prems(1)] by blast
  show ?case using Cons.prems(2) d t1 Cons.IH[OF t1] by (auto split: sum.splits prod.splits)
qed simp

text \<open>The job of a schedule for the period of the tick.\<close>

definition job_of :: "periodic_job \<Rightarrow> instant \<Rightarrow> job_run \<Rightarrow> bool" where
  "job_of p current r \<longleftrightarrow> jr_idempotency_key r = periodic_key p current \<and> jr_job_name r = pj_job_name p \<and> jr_mode r = pj_mode p"

lemma job_of_progress: "job_of p current r \<Longrightarrow> row_progress r r' \<Longrightarrow> job_of p current r'"
  by (simp add: job_of_def row_progress_def)

lemma periodic_job_queued:
  assumes "specs_ok (pb_specs b)" "oe_between env = id" "enqueue_periodic env b isoformat stamp current p t = (Inr run, t')"
  shows "run \<in> set t' \<and> job_of p current run"
proof -
  have found: "r \<in> set t" "jr_idempotency_key r = key" if "by_key key t = Some r" for key r
    using that by (auto simp: by_key_def find_Some_iff)
  show ?thesis
    using assms(3) found specs_okD(1)[OF assms(1)]
    by (auto simp: enqueue_periodic_def brain_enqueue_def store_enqueue_serial assms(2) same_contract_def job_of_def new_run_def
        Let_def split: prod.splits option.splits if_splits)
qed

lemma schedules_queued:
  assumes "brain_ok b" "oe_between env = id" "\<forall>key. snd (stamp key) \<le> limit" "table_ok (pb_specs b) t"
    and "op_iter (enqueue_periodic env b isoformat stamp current) ps t = (Inr runs, t')" "p \<in> set ps"
  shows "\<exists>job \<in> set t'. job_of p current job"
  using assms(4-6)
proof (induction ps arbitrary: t runs)
  case (Cons q ps)
  from Cons.prems(2) obtain run t1 runs' where q: "enqueue_periodic env b isoformat stamp current q t = (Inr run, t1)"
    and rest: "op_iter (enqueue_periodic env b isoformat stamp current) ps t1 = (Inr runs', t')"
    by (auto elim!: op_bind_cases)
  have t1: "table_ok (pb_specs b) t1"
    using contract_outcome[OF grown_periodic[OF assms(1-3)] grown_refl[OF Cons.prems(1)] q] by (simp add: grown_def)
  have "contract (grown (pb_specs b) limit t1) (op_iter (enqueue_periodic env b isoformat stamp current) ps)
      (\<lambda>_. grown (pb_specs b) limit t1) (grown (pb_specs b) limit t1)"
    using grown_periodic[OF assms(1-3)] by (intro contract_iter)
  from contract_outcome[OF this grown_refl[OF t1] rest] have prog: "table_progress t1 t'" by (simp add: grown_def)
  show ?case
  proof (cases "p = q")
    case True
    then show ?thesis
      using periodic_job_queued[OF brain_okD(1)[OF assms(1)] assms(2) q] table_progress_row[OF prog] job_of_progress by blast
  next
    case False
    then show ?thesis using Cons.IH[OF t1 rest] Cons.prems(3) by simp
  qed
qed simp

text \<open>What the drain loop leaves behind.\<close>

definition drained :: "instant \<Rightarrow> job_table \<Rightarrow> job_table \<Rightarrow> bool" where
  "drained now t t' \<longleftrightarrow> list_all2 (\<lambda>r r'. row_progress r r' \<and> (claimable now r \<longrightarrow> jr_attempts r < jr_attempts r')) t t'
     \<and> (\<forall>r' \<in> set t'. \<not> claimable now r')"

lemma run_due_drains:
  assumes "quiet b" "oe_between env = id" "specs_ok (pb_specs b)" "table_ok (pb_specs b) t" "\<And>n. clock 0 \<le> clock n"
  shows "\<exists>n t'. run_due env b clock 0 t = Some (Inr (), n, t') \<and> table_ok (pb_specs b) t' \<and> drained (clock 0) t t'"
proof -
  obtain k t' where run: "run_due env b clock 0 t = Some (Inr (), k, t')" "due (pb_specs b) (clock k) t' = []"
      "table_ok (pb_specs b) t'" "table_progress t t'" "length t' = length t"
    using run_due_ends[OF assms(1-4), of clock 0] by auto
  from run(4) obtain u v where u: "t' = u @ v" "list_all2 row_progress t u" by (auto simp: table_progress_def)
  then have rows: "list_all2 row_progress t t'" using run(5) list_all2_lengthD[OF u(2)] by simp
  have idle: "\<not> claimable (clock 0) r'" if "r' \<in> set t'" for r'
    using no_due_no_claimable[OF run(2,3) that] assms(5)[of k] by (auto simp: claimable_def)
  have "jr_attempts r < jr_attempts r'" if "row_progress r r'" "r' \<in> set t'" "claimable (clock 0) r" for r r'
    using idle[OF that(2)] that(1,3) unfolding row_progress_def claimable_def by (metis order_le_imp_less_or_eq)
  then have "drained (clock 0) t t'" using rows idle by (auto simp: drained_def list_all2_conv_all_nth)
  with run(1,3) show ?thesis by blast
qed

lemma drained_progress:
  assumes "drained now t t'"
  shows "table_progress t t'"
proof -
  have "list_all2 row_progress t t'" using assms by (auto simp: drained_def elim: list_all2_mono)
  then show ?thesis unfolding table_progress_def by (intro exI[of _ t'] exI[of _ "[]"]) simp
qed

lemma drained_rows:
  assumes "drained now t t'"
  shows "r \<in> set t \<Longrightarrow> \<exists>r' \<in> set t'. row_progress r r' \<and> (claimable now r \<longrightarrow> jr_attempts r < jr_attempts r')"
    and "r' \<in> set t' \<Longrightarrow> \<exists>r \<in> set t. row_progress r r' \<and> (claimable now r \<longrightarrow> jr_attempts r < jr_attempts r')"
  using assms by (auto simp: drained_def list_all2_conv_all_nth in_set_conv_nth[of r] in_set_conv_nth[of r'] intro!: bexI[OF _ nth_mem])

text \<open>
  C34: The drain loop of the supervisor ends. When handlers and gate leave the queue alone, each turn uses
  up one of the attempts the rows have left, so the loop stops after at most as many turns as there were
  attempts left, without an exception, and then no registered job is due.
\<close>

theorem drain_loop_terminates:
  assumes "quiet b" "oe_between env = id" "specs_ok (pb_specs b)" "table_ok (pb_specs b) t"
  shows "\<exists>n t'. run_due env b clock 0 t = Some (Inr (), n, t') \<and> n \<le> work_left t
    \<and> due (pb_specs b) (clock n) t' = [] \<and> table_ok (pb_specs b) t' \<and> table_progress t t'"
  using run_due_ends[OF assms, of clock 0] by auto

text \<open>
  C33: Every tick of the supervisor ends, when handlers and gate leave the queue alone, no other session
  commits in between and its clock does not run backwards. A tick that returns has counted itself and
  cleared the last error; its schedules and events never disturbed the rows already in the table; every
  schedule has its job of the current period in the table; every job that was due when the drain loop
  began was attempted, both the rows the tick found and those it queued for its schedules and events; and
  no job of the table is left due at that time.
\<close>

theorem tick_attempts_due_jobs:
  assumes "quiet b" "oe_between env = id" "specs_ok (pb_specs b)" "table_ok (pb_specs b) t" "\<And>n. clock 0 \<le> clock n"
    and "\<forall>key. snd (stamp key) \<le> clock 0"
  shows "\<exists>r s' t'. tick env b isoformat stamp bus current clock (s, t) = Some (r, s', t')
    \<and> table_ok (pb_specs b) t' \<and> table_progress t t'
    \<and> (r = Inr () \<longrightarrow> sv_ticks s' = sv_ticks s + 1 \<and> sv_last_error s' = None
        \<and> (\<forall>job \<in> set t. claimable (clock 0) job \<longrightarrow> (\<exists>job' \<in> set t'. row_progress job job' \<and> jr_attempts job < jr_attempts job'))
        \<and> (\<forall>job' \<in> set t'. jr_id job' \<notin> jr_id ` set t \<longrightarrow> 0 < jr_attempts job')
        \<and> (\<forall>p \<in> set (sv_schedules s). \<exists>job' \<in> set t'. job_of p current job')
        \<and> (\<forall>job' \<in> set t'. \<not> claimable (clock 0) job'))"
proof -
  let ?specs = "pb_specs b" and ?G = "grown (pb_specs b) (clock 0) t"
  have ok: "brain_ok b" using quiet_brain_ok[OF assms(1,3)] .
  obtain r1 t1 where p: "op_iter (enqueue_periodic env b isoformat stamp current) (sv_schedules s) t = (r1, t1)" by fastforce
  have "contract ?G (op_iter (enqueue_periodic env b isoformat stamp current) (sv_schedules s)) (\<lambda>_. ?G) ?G"
    using grown_periodic[OF ok assms(2,6)] by (intro contract_iter)
  from contract_outcome[OF this grown_refl[OF assms(4)] p] have t1: "?G t1" .
  obtain r2 n ds t2 where d: "drain_all env b stamp bus (sv_dispatchers s) t1 (sv_event_dispatches s) = (r2, n, ds, t2)"
    by (metis prod_cases4)
  have t2: "?G t2" by (rule grown_drain_all[OF ok assms(2,6) t1 d])
  then have ok2: "table_ok ?specs t2" "table_progress t t2" "set t2 \<subseteq> set t \<union> {r. claimable (clock 0) r \<and> jr_attempts r = 0}" by (simp_all add: grown_def)
  obtain k t3 where
    run: "run_due env b clock 0 t2 = Some (Inr (), k, t3)" "table_ok ?specs t3" "drained (clock 0) t2 t3"
    using run_due_drains[OF assms(1-3) ok2(1), of clock] assms(5) by blast
  note t3 = table_progress_trans[OF ok2(2) drained_progress[OF run(3)]]
  have attempted: "\<exists>job' \<in> set t3. row_progress job job' \<and> jr_attempts job < jr_attempts job'"
    if job: "job \<in> set t" "claimable (clock 0) job" for job
  proof -
    obtain q where q: "q \<in> set t2" "row_progress job q" using table_progress_row[OF ok2(2) job(1)] by blast
    obtain job' where job': "job' \<in> set t3" "row_progress q job'" "claimable (clock 0) q \<longrightarrow> jr_attempts q < jr_attempts job'"
      using drained_rows(1)[OF run(3) q(1)] by blast
    have "jr_attempts q \<le> jr_attempts job'" using job'(2) by (simp add: row_progress_def)
    moreover have "q = job \<or> jr_attempts job < jr_attempts q"
      using q(2) job(2) unfolding row_progress_def claimable_def by (metis order_le_imp_less_or_eq)
    ultimately have "jr_attempts job < jr_attempts job'" using job(2) job'(3) by auto
    then show ?thesis using job'(1) row_progress_trans[OF q(2) job'(2)] by blast
  qed
  have queued: "0 < jr_attempts job'" if new: "job' \<in> set t3" "jr_id job' \<notin> jr_id ` set t" for job'
  proof -
    obtain q where q: "q \<in> set t2" "row_progress q job'" "claimable (clock 0) q \<longrightarrow> jr_attempts q < jr_attempts job'"
      using drained_rows(2)[OF run(3) new(1)] by blast
    then have "q \<notin> set t" using new(2) by (auto simp: row_progress_def)
    then show ?thesis using ok2(3) q by auto
  qed
  have scheduled: "\<forall>q \<in> set (sv_schedules s). \<exists>job' \<in> set t3. job_of q current job'" if "r1 = Inr runs" for runs
  proof
    fix q
    assume "q \<in> set (sv_schedules s)"
    from schedules_queued[OF ok assms(2,6,4) p[unfolded that] this] obtain job where job: "job \<in> set t1" "job_of q current job" by blast
    have "table_progress t1 t2"
      using grown_drain_all[OF ok assms(2,6) grown_refl d] t1 by (simp add: grown_def)
    from table_progress_row[OF table_progress_trans[OF this drained_progress[OF run(3)]] job(1)]
    show "\<exists>job' \<in> set t3. job_of q current job'" using job_of_progress[OF job(2)] by blast
  qed
  show ?thesis
  proof (cases r1)
    case (Inl e)
    then show ?thesis using p t1 by (simp add: tick_def grown_def)
  next
    case r1: (Inr runs)
    show ?thesis
    proof (cases r2)
      case (Inl e)
      then show ?thesis using p d ok2 r1 by (simp add: tick_def Let_def)
    next
      case (Inr u)
      have idle: "\<forall>job' \<in> set t3. \<not> claimable (clock 0) job'" using run(3) by (simp add: drained_def)
      show ?thesis
        using p d run(1,2) r1 Inr t3 attempted queued scheduled[OF r1] idle by (simp add: tick_def Let_def)
    qed
  qed
qed

text \<open>
  An event whose job could not be queued is not tried again: the cursor already stands on it, so no later
  subscription of the dispatcher yields it, whatever the bus holds by then.
\<close>

lemma newer_seq: "m \<in> set (fst (newer n ms)) \<Longrightarrow> \<exists>k. message_seq (bm_message_id m) = Inr k \<and> n < k"
  by (induction ms) (auto split: sum.splits prod.splits if_splits)

lemma dispatch_cursor: "dispatch env b stamp m (d, t) = (r, d', t') \<Longrightarrow> di_cursor d' = bm_message_id m \<and> di_stream d' = di_stream d"
  by (auto simp: dispatch_def Let_def split: option.splits prod.splits sum.splits)

lemma failed_event_is_lost:
  assumes "dispatch env b stamp m (d, t) = (Inl e, d', t')"
  shows "m \<notin> set (fst (subscribe (di_stream d') (di_cursor d') bus))"
  using dispatch_cursor[OF assms] newer_seq by (fastforce simp: subscribe_def split: sum.splits)

subsection \<open>Examples\<close>

lemma ex_quiet: "quiet (ex_brain approve)"
  by (simp add: quiet_def ex_brain_def)

lemma ex_table_ok: "table_ok (pb_specs (ex_brain approve)) [ex_job]"
  using job_steps_ok[OF ex_enqueued ex_specs_ok] by (simp add: ex_brain_def table_ok_def)

lemma ex_serial: "oe_between ex_orch_env = id" "specs_ok (pb_specs (ex_brain approve))"
  using ex_specs_ok by (simp_all add: ex_orch_env_def ex_brain_def)

theorem drain_loop_terminates_witness:
  "\<exists>n t'. run_due ex_orch_env (ex_brain True) (\<lambda>n. 5) 0 [ex_job] = Some (Inr (), n, t') \<and> n \<le> 3
    \<and> due (pb_specs (ex_brain True)) 5 t' = []"
proof -
  have "work_left [ex_job] = 3" by code_simp
  then show ?thesis
    using drain_loop_terminates[OF ex_quiet ex_serial ex_table_ok, of True "\<lambda>n. 5"] by auto
qed

definition ex_supervisor :: supervisor where
  "ex_supervisor = \<lparr>sv_schedules = [\<lparr>pj_job_name = ''paper-decision'', pj_interval_seconds = 60, pj_mode = ''PAPER_TRADING''\<rparr>],
     sv_poll_seconds = 1, sv_dispatchers = [], sv_ticks = 0, sv_event_dispatches = 0, sv_last_error = None\<rparr>"

lemma ex_tick_returns:
  "\<exists>s' t'. tick ex_orch_env (ex_brain True) int_str (\<lambda>key. (''2'', 4)) None 5 (\<lambda>n. 5) (ex_supervisor, [ex_job]) = Some (Inr (), s', t')"
proof -
  let ?queue = "op_iter (enqueue_periodic ex_orch_env (ex_brain True) int_str (\<lambda>key. (''2'', 4)) 5) (sv_schedules ex_supervisor) [ex_job]"
  have "case ?queue of (Inr runs, t) \<Rightarrow> table_ok (pb_specs (ex_brain True)) t | _ \<Rightarrow> False" by code_simp
  then obtain runs t where queue: "?queue = (Inr runs, t)" and t: "table_ok (pb_specs (ex_brain True)) t"
    by (auto split: prod.splits sum.splits)
  obtain n t' where "run_due ex_orch_env (ex_brain True) (\<lambda>n. 5) 0 t = Some (Inr (), n, t')"
    using run_due_ends[OF ex_quiet ex_serial t, of "\<lambda>n. 5" 0] by auto
  then show ?thesis using queue by (simp add: tick_def ex_supervisor_def Let_def)
qed

theorem tick_attempts_due_jobs_witness:
  "\<exists>s' t'. tick ex_orch_env (ex_brain True) int_str (\<lambda>key. (''2'', 4)) None 5 (\<lambda>n. 5) (ex_supervisor, [ex_job]) = Some (Inr (), s', t')
    \<and> sv_ticks s' = 1 \<and> (\<exists>job' \<in> set t'. jr_id job' = ''1'' \<and> 0 < jr_attempts job')
    \<and> (\<exists>job' \<in> set t'. jr_idempotency_key job' = ''periodic:paper-decision:PAPER_TRADING:60:0'')
    \<and> (\<forall>job' \<in> set t'. jr_id job' \<noteq> ''1'' \<longrightarrow> 0 < jr_attempts job')"
proof -
  have job: "claimable 5 ex_job" "jr_id ex_job = ''1''" "jr_attempts ex_job = 0" and ticks: "sv_ticks ex_supervisor = 0"
    and p: "periodic_key (hd (sv_schedules ex_supervisor)) 5 = ''periodic:paper-decision:PAPER_TRADING:60:0''"
      "hd (sv_schedules ex_supervisor) \<in> set (sv_schedules ex_supervisor)" by code_simp+
  obtain r s' t' where tick: "tick ex_orch_env (ex_brain True) int_str (\<lambda>key. (''2'', 4)) None 5 (\<lambda>n. 5) (ex_supervisor, [ex_job])
      = Some (r, s', t')"
    and rest: "r = Inr () \<longrightarrow> sv_ticks s' = sv_ticks ex_supervisor + 1 \<and> sv_last_error s' = None
        \<and> (\<forall>job \<in> set [ex_job]. claimable 5 job \<longrightarrow> (\<exists>job' \<in> set t'. row_progress job job' \<and> jr_attempts job < jr_attempts job'))
        \<and> (\<forall>job' \<in> set t'. jr_id job' \<notin> jr_id ` set [ex_job] \<longrightarrow> 0 < jr_attempts job')
        \<and> (\<forall>p \<in> set (sv_schedules ex_supervisor). \<exists>job' \<in> set t'. job_of p 5 job') \<and> (\<forall>job' \<in> set t'. \<not> claimable 5 job')"
    using tick_attempts_due_jobs[OF ex_quiet ex_serial ex_table_ok, of "\<lambda>n. 5" "\<lambda>key. (''2'', 4)" True int_str None 5 ex_supervisor] by auto
  have "r = Inr ()" using ex_tick_returns tick by auto
  moreover have "\<exists>job' \<in> set t'. jr_id job' = ''1'' \<and> 0 < jr_attempts job'"
    using rest calculation job by (auto simp: row_progress_def)
  moreover have "\<exists>job' \<in> set t'. jr_idempotency_key job' = ''periodic:paper-decision:PAPER_TRADING:60:0''"
    using rest calculation(1) p unfolding job_of_def by metis
  ultimately show ?thesis using tick rest ticks job(2) by auto
qed

end
