(* ===== verification/Missions.thy ===== *)
theory Missions
  imports Orchestration
begin

text \<open>
  The catalog of job contracts (\<^verbatim>\<open>services/orchestration/registry.py\<close>) and the gateway that maps validated
  missions to jobs (\<^verbatim>\<open>services/orchestration/missions.py\<close>). A mission id is the text of its UUID;
  \<open>stamp\<close> gives the id and the time an enqueue takes, by its idempotency key.
\<close>

section \<open>The catalog\<close>

record job_contract =
  jc_spec :: job_spec
  jc_completion_criteria :: "string list"
  jc_owner_domain :: string

text \<open>The contract of a job with the default attempts, backoff and lease.\<close>

definition job_contract_new ::
    "string \<Rightarrow> job_capability \<Rightarrow> bool \<Rightarrow> string list \<Rightarrow> string list \<Rightarrow> string \<Rightarrow> job_contract" where
  "job_contract_new name capability gate modes criteria owner =
     \<lparr>jc_spec = \<lparr>js_name = name, js_capability = capability, js_max_attempts = 3, js_base_backoff_seconds = 1,
                 js_lease_seconds = 30, js_requires_risk_gate = gate, js_allowed_modes = modes,
                 js_financial_side_effects = False\<rparr>,
      jc_completion_criteria = criteria, jc_owner_domain = owner\<rparr>"

definition CONTRACTS :: "job_contract list" where
  "CONTRACTS = [
     job_contract_new ''market-data-health'' MARKET_DATA False [''LIVE_MONITORING'']
       [''BTC/ETH/SOL freshness evaluated'', ''source provenance preserved'', ''no financial side effects'']
       ''market-data'',
     job_contract_new ''opportunity-scan'' QUANT_RESEARCH False
       [''SIMULATION'', ''SHADOW'', ''PAPER_TRADING'', ''HISTORICAL_REPLAY'', ''LIVE_MONITORING'']
       [''all thresholds and weights supplied explicitly'',
        ''incomplete quantitative evidence omitted rather than synthesized'',
        ''instrument and provenance fields preserved'', ''no financial side effects'']
       ''analytics'',
     job_contract_new ''shadow-decision'' QUANT_RESEARCH False [''SHADOW'']
       [''candidate contains no fabricated model or market fields'',
        ''server-authoritative exposure, liquidity and configured risk limits evaluated'',
        ''hypothetical fill is never persisted or applied to the paper portfolio'',
        ''actual_action remains null and decision lineage is persisted before success'',
        ''financial connectivity and real-money execution remain unavailable'']
       ''orchestration'',
     job_contract_new ''quant-research'' QUANT_RESEARCH False [''SIMULATION'', ''SHADOW'', ''HISTORICAL_REPLAY'']
       [''input lineage persisted'', ''cost provenance explicit'',
        ''model output persisted or returned with version metadata'']
       ''quant'',
     job_contract_new ''model-calibration'' CALIBRATION False [''SIMULATION'', ''SHADOW'', ''HISTORICAL_REPLAY'']
       [''labels are present'', ''metrics computed without synthetic substitution'', ''calibration record persisted'']
       ''calibration'',
     job_contract_new ''risk-evaluation'' RISK False [''SIMULATION'', ''SHADOW'', ''PAPER_TRADING'']
       [''all configured limits evaluated'', ''decision reason recorded'', ''failure resolves to rejection'']
       ''risk'',
     job_contract_new ''historical-replay'' REPLAY False [''HISTORICAL_REPLAY'']
       [''session identifiers persisted'', ''event ordering preserved'', ''result reproducible from recorded inputs'']
       ''replay'',
     job_contract_new ''portfolio-snapshot'' PORTFOLIO False [''SIMULATION'', ''PAPER_TRADING'']
       [''positions reconciled from journal'', ''P&L attribution computed from recorded fills/marks'',
        ''source labeled PAPER/SIM'']
       ''portfolio'',
     job_contract_new ''observability-health'' OBSERVABILITY False
       [''SIMULATION'', ''SHADOW'', ''PAPER_TRADING'', ''HISTORICAL_REPLAY'', ''LIVE_MONITORING'']
       [''critical dependencies evaluated'', ''staleness and journal integrity represented'',
        ''degraded state never reported as healthy'']
       ''observability'',
     job_contract_new ''paper-decision'' PAPER_EXECUTION True [''PAPER_TRADING'']
       [''independent risk gate approved before handler invocation'', ''event journal contains decision/result'',
        ''real-money execution remains unavailable'']
       ''paper-execution'']"

definition build_job_catalog :: "(string, job_contract) dict res" where
  "build_job_catalog =
     res_bind (map_res (\<lambda>c. res_bind (job_spec_new (jc_spec c)) (\<lambda>_. Inr c)) CONTRACTS) (\<lambda>contracts.
       Inr (fold (\<lambda>c. dset (js_name (jc_spec c)) c) contracts []))"

section \<open>Missions\<close>

datatype mission_origin = THE_CREATION | PROTO_INTERNAL
datatype mission_priority = LOW | NORMAL | HIGH | CRITICAL
datatype mission_state =
  ACCEPTED_MISSION | REJECTED_MISSION | BLOCKED_MISSION | RUNNING_MISSION | COMPLETED_MISSION | DEGRADED_MISSION

fun origin_value :: "mission_origin \<Rightarrow> string" where
  "origin_value THE_CREATION = ''THE_CREATION''"
| "origin_value PROTO_INTERNAL = ''PROTO_INTERNAL''"

fun priority_value :: "mission_priority \<Rightarrow> string" where
  "priority_value LOW = ''LOW''"
| "priority_value NORMAL = ''NORMAL''"
| "priority_value HIGH = ''HIGH''"
| "priority_value CRITICAL = ''CRITICAL''"

record mission =
  mi_mission_id :: string
  mi_origin :: mission_origin
  mi_objective :: string
  mi_requested_jobs :: "string list"
  mi_execution_mode :: string
  mi_priority :: mission_priority
  mi_scope :: "string list"
  mi_constraints :: "(string \<times> json) list"
  mi_deadline :: "py_datetime option"

text \<open>\<^verbatim>\<open>str.upper\<close> on the letters of ASCII. Of the other characters below 256 only the sharp s has an upper
  case in ASCII, and its two letters occur in no safe mode.\<close>

definition upper :: "string \<Rightarrow> string" where
  "upper s = map (\<lambda>c. if 97 \<le> (of_char c :: nat) \<and> (of_char c :: nat) \<le> 122 then char_of ((of_char c :: nat) - 32) else c) s"

definition validate_safe_mode :: "string \<Rightarrow> string res" where
  "validate_safe_mode v =
     (let normalized = upper (strip v)
      in if normalized \<notin> set SAFE_MODES then Inl (ValueError ''mission execution_mode must be a safe PROTO mode'')
         else Inr normalized)"

definition validate_job_names :: "string list \<Rightarrow> string list res" where
  "validate_job_names v =
     (let normalized = map strip v
      in if [] \<in> set normalized then Inl (ValueError ''requested_jobs must contain non-empty job names'')
         else if \<not> distinct normalized then Inl (ValueError ''requested_jobs must not contain duplicates'')
         else Inr normalized)"

definition validate_deadline :: "py_datetime option \<Rightarrow> unit res" where
  "validate_deadline d =
     (case d of
        None \<Rightarrow> Inr ()
      | Some (Naive _) \<Rightarrow> Inl (ValueError ''deadline must be timezone-aware'')
      | Some (Aware _) \<Rightarrow> Inr ())"

definition mission_new :: "mission \<Rightarrow> mission res" where
  "mission_new m =
     (if length (mi_objective m) < 1 \<or> 2000 < length (mi_objective m) then Inl (ValueError ''objective'')
      else if length (mi_requested_jobs m) < 1 \<or> 32 < length (mi_requested_jobs m) then Inl (ValueError ''requested_jobs'')
      else res_bind (validate_job_names (mi_requested_jobs m)) (\<lambda>jobs.
           res_bind (validate_safe_mode (mi_execution_mode m)) (\<lambda>mode.
             if 500 < length (mi_scope m) then Inl (ValueError ''scope'')
             else res_bind (validate_deadline (mi_deadline m)) (\<lambda>_.
                    Inr (m\<lparr>mi_requested_jobs := jobs, mi_execution_mode := mode\<rparr>)))))"

record mission_receipt =
  re_mission_id :: string
  re_state :: mission_state
  re_accepted_jobs :: "string list"
  re_rejected_reason :: "string option"
  re_job_run_ids :: "string list"
  re_financial_connectivity :: bool
  re_real_money_execution :: bool

definition refusal :: "mission \<Rightarrow> mission_state \<Rightarrow> string \<Rightarrow> mission_receipt" where
  "refusal m state reason =
     \<lparr>re_mission_id = mi_mission_id m, re_state = state, re_accepted_jobs = [], re_rejected_reason = Some reason,
      re_job_run_ids = [], re_financial_connectivity = False, re_real_money_execution = False\<rparr>"

definition mission_key :: "mission \<Rightarrow> string \<Rightarrow> string" where
  "mission_key m job_name = ''mission:'' @ mi_mission_id m @ '':'' @ job_name"

definition mission_payload :: "(py_datetime \<Rightarrow> string) \<Rightarrow> mission \<Rightarrow> json" where
  "mission_payload isoformat m =
     JObj [(''mission_id'', JStr (mi_mission_id m)), (''origin'', JStr (origin_value (mi_origin m))),
           (''objective'', JStr (mi_objective m)), (''scope'', JList (map JStr (mi_scope m))),
           (''constraints'', JObj (mi_constraints m)), (''priority'', JStr (priority_value (mi_priority m))),
           (''deadline'', case mi_deadline m of None \<Rightarrow> JNull | Some d \<Rightarrow> JStr (isoformat d))]"

definition enqueue_mission_job ::
    "orch_env \<Rightarrow> proto_brain \<Rightarrow> (py_datetime \<Rightarrow> string) \<Rightarrow> stamp \<Rightarrow> mission \<Rightarrow> string \<Rightarrow> (job_table, job_run) op" where
  "enqueue_mission_job env b isoformat stamp m job_name =
     (let key = mission_key m job_name; (i, now) = stamp key
      in brain_enqueue env b job_name key (mi_execution_mode m) (Some (mission_payload isoformat m)) i now)"

definition accept ::
    "orch_env \<Rightarrow> proto_brain \<Rightarrow> string list \<Rightarrow> (py_datetime \<Rightarrow> string) \<Rightarrow> stamp \<Rightarrow> mission \<Rightarrow> bool \<Rightarrow>
     (job_table, mission_receipt) op" where
  "accept env b allowed_jobs isoformat stamp m identity_verified =
     (let requested = remdups (mi_requested_jobs m);
          outside = sort (filter (\<lambda>j. j \<notin> set allowed_jobs) requested);
          unavailable = sort (filter (\<lambda>j. j \<notin> set (dkeys (pb_specs b))) requested);
          incompatible = sort (filter (\<lambda>j. case dget (pb_specs b) j of
                                              None \<Rightarrow> False
                                            | Some spec \<Rightarrow> mi_execution_mode m \<notin> set (js_allowed_modes spec)) requested)
      in if \<not> identity_verified then op_return (refusal m REJECTED_MISSION ''service identity not verified'')
         else if outside \<noteq> [] then op_return (refusal m REJECTED_MISSION
                (''mission requested jobs outside the Creation bridge allowlist: '' @ join '','' outside))
         else if unavailable \<noteq> [] then op_return (refusal m DEGRADED_MISSION
                (''requested jobs are not registered: '' @ join '','' unavailable))
         else if incompatible \<noteq> [] then op_return (refusal m BLOCKED_MISSION
                (''mission mode is not permitted for jobs: '' @ join '','' incompatible))
         else op_bind (op_iter (enqueue_mission_job env b isoformat stamp m) (mi_requested_jobs m)) (\<lambda>runs.
                op_return \<lparr>re_mission_id = mi_mission_id m, re_state = ACCEPTED_MISSION, re_accepted_jobs = mi_requested_jobs m,
                  re_rejected_reason = None, re_job_run_ids = map jr_id runs, re_financial_connectivity = False,
                  re_real_money_execution = False\<rparr>))"

section \<open>The catalog is in order\<close>

text \<open>Every contract passes the validators and is filed under its name, and exactly the paper execution needs the gate.\<close>

lemma catalog_ok:
  "returned build_job_catalog"
  "specs_ok (map (\<lambda>c. (js_name (jc_spec c), jc_spec c)) CONTRACTS)"
  "list_all (\<lambda>c. js_requires_risk_gate (jc_spec c) = (js_capability (jc_spec c) = PAPER_EXECUTION)) CONTRACTS"
  by code_simp+

section \<open>Queuing the jobs of a mission\<close>

lemma strip_nonblank: "\<not> py_space c \<Longrightarrow> strip (c # s) \<noteq> []"
  by (simp add: strip_def)

lemma mission_key_nonblank: "strip (mission_key m n) \<noteq> []"
proof -
  have "\<not> py_space (CHR ''m'')" by code_simp
  then show ?thesis unfolding mission_key_def append_Cons by (rule strip_nonblank)
qed

text \<open>The row of a mission's job.\<close>

definition mission_row :: "mission \<Rightarrow> job_table \<Rightarrow> string \<Rightarrow> job_run \<Rightarrow> bool" where
  "mission_row m t n run \<longleftrightarrow> by_key (mission_key m n) t = Some run \<and> jr_job_name run = n \<and> jr_mode run = mi_execution_mode m"

lemma by_key_append: "by_key k t = Some r \<Longrightarrow> by_key k (t @ u) = Some r"
  by (induction t) (auto simp: by_key_def)

lemma mission_row_append: "mission_row m t n run \<Longrightarrow> mission_row m (t @ u) n run"
  by (simp add: mission_row_def by_key_append)

lemma enqueue_mission_cases:
  assumes "specs_ok (pb_specs b)" "oe_between env = id" "enqueue_mission_job env b isoformat stamp m n t = (r, t')"
  shows "\<exists>u. t' = t @ u \<and> (\<forall>run. r = Inr run \<longrightarrow> mission_row m t' n run)"
proof -
  obtain i now where stamp: "stamp (mission_key m n) = (i, now)" by fastforce
  show ?thesis
  proof (cases "dget (pb_specs b) n")
    case None
    then show ?thesis using assms(3) stamp by (auto simp: enqueue_mission_job_def Let_def brain_enqueue_def)
  next
    case (Some spec)
    have name: "js_name spec = n" using specs_okD(1)[OF assms(1) Some] .
    let ?run = "new_run spec (mission_key m n) (mi_execution_mode m) (mission_payload isoformat m) i now"
    have new: "mission_row m (t @ [?run]) n ?run" if "by_key (mission_key m n) t = None"
      using that by (induction t) (auto simp: mission_row_def by_key_def new_run_def name split: if_splits)
    have old: "mission_row m t n run" if "by_key (mission_key m n) t = Some e" "same_contract spec (mi_execution_mode m) e = Inr run" for e run
      using that by (auto simp: mission_row_def same_contract_def name split: if_splits)
    show ?thesis
      using assms(3) stamp Some mission_key_nonblank[of m n] new old
      by (auto simp: enqueue_mission_job_def Let_def brain_enqueue_def assms(2) store_enqueue_serial split: if_splits option.splits)
  qed
qed

lemma enqueue_mission_again:
  assumes "dget (pb_specs b) n = Some spec" "js_name spec = n" "mi_execution_mode m \<in> set (js_allowed_modes spec)" "mission_row m t n run"
  shows "enqueue_mission_job env b isoformat stamp m n t = (Inr run, t)"
  using assms mission_key_nonblank[of m n]
  by (auto simp: enqueue_mission_job_def Let_def brain_enqueue_def store_enqueue_def mission_row_def same_contract_def split: prod.splits)

lemma enqueue_mission_iter:
  assumes "specs_ok (pb_specs b)" "oe_between env = id" "op_iter (enqueue_mission_job env b isoformat stamp m) ns t = (r, t')"
  shows "\<exists>u. t' = t @ u \<and> (\<forall>runs. r = Inr runs \<longrightarrow> list_all2 (mission_row m t') ns runs)"
  using assms(3)
proof (induction ns arbitrary: t r t')
  case (Cons n ns)
  obtain x t1 where first: "enqueue_mission_job env b isoformat stamp m n t = (x, t1)" by fastforce
  obtain u where u: "t1 = t @ u" "\<And>run. x = Inr run \<Longrightarrow> mission_row m t1 n run"
    using enqueue_mission_cases[OF assms(1,2) first] by blast
  obtain y t2 where rest: "op_iter (enqueue_mission_job env b isoformat stamp m) ns t1 = (y, t2)" by fastforce
  obtain v where v: "t2 = t1 @ v" "\<And>runs. y = Inr runs \<Longrightarrow> list_all2 (mission_row m t2) ns runs"
    using Cons.IH[OF rest] by blast
  show ?case
  proof (cases x)
    case (Inl e)
    then have "r = Inl e" "t' = t @ u" using Cons.prems first u(1) by simp_all
    then show ?thesis by simp
  next
    case (Inr run)
    then have "mission_row m t2 n run" using u(2) v(1) mission_row_append by blast
    then show ?thesis using Cons.prems first rest Inr u(1) v by (cases y) (auto simp: op_bind_def)
  qed
qed simp

lemma enqueue_mission_iter_again:
  assumes "list_all2 (mission_row m t) ns runs"
    and "\<And>n. n \<in> set ns \<Longrightarrow> \<exists>spec. dget (pb_specs b) n = Some spec \<and> js_name spec = n \<and> mi_execution_mode m \<in> set (js_allowed_modes spec)"
  shows "op_iter (enqueue_mission_job env b isoformat stamp m) ns t = (Inr runs, t)"
  using assms
proof (induction ns arbitrary: runs)
  case (Cons n ns)
  then obtain run rest where runs: "runs = run # rest" "mission_row m t n run" "list_all2 (mission_row m t) ns rest"
    by (auto simp: list_all2_Cons1)
  obtain spec where "dget (pb_specs b) n = Some spec" "js_name spec = n" "mi_execution_mode m \<in> set (js_allowed_modes spec)"
    using Cons.prems(2) by auto
  then have "enqueue_mission_job env b isoformat stamp m n t = (Inr run, t)" using enqueue_mission_again runs(2) by blast
  moreover have "op_iter (enqueue_mission_job env b isoformat stamp m) ns t = (Inr rest, t)"
    using Cons.IH[OF runs(3)] Cons.prems(2) by simp
  ultimately show ?case by (simp add: runs(1))
qed simp

section \<open>Properties\<close>

text \<open>The conditions under which a mission is mapped to jobs.\<close>

definition admitted :: "proto_brain \<Rightarrow> string list \<Rightarrow> mission \<Rightarrow> bool \<Rightarrow> bool" where
  "admitted b allowed_jobs m identity_verified \<longleftrightarrow> identity_verified
     \<and> (\<forall>n \<in> set (mi_requested_jobs m). n \<in> set allowed_jobs
          \<and> (\<exists>spec. dget (pb_specs b) n = Some spec \<and> mi_execution_mode m \<in> set (js_allowed_modes spec)))"

lemma sort_filter_empty: "sort (filter P (remdups xs)) = [] \<longleftrightarrow> (\<forall>x \<in> set xs. \<not> P x)" for xs :: "'a::linorder list"
proof -
  have "set (sort (filter P (remdups xs))) = {x \<in> set xs. P x}" by auto
  then show ?thesis by (metis (no_types, lifting) Collect_empty_eq set_empty)
qed

lemma accept_admitted:
  assumes "admitted b allowed_jobs m identity_verified"
  shows "accept env b allowed_jobs isoformat stamp m identity_verified =
    op_bind (op_iter (enqueue_mission_job env b isoformat stamp m) (mi_requested_jobs m)) (\<lambda>runs.
      op_return \<lparr>re_mission_id = mi_mission_id m, re_state = ACCEPTED_MISSION, re_accepted_jobs = mi_requested_jobs m,
        re_rejected_reason = None, re_job_run_ids = map jr_id runs, re_financial_connectivity = False,
        re_real_money_execution = False\<rparr>)"
proof -
  have "\<forall>n \<in> set (mi_requested_jobs m). n \<in> set (dkeys (pb_specs b))"
    using assms dget_None_iff[of "pb_specs b"] unfolding admitted_def by (metis option.distinct(1))
  moreover have "\<forall>n \<in> set (mi_requested_jobs m). \<not> (case dget (pb_specs b) n of None \<Rightarrow> False
      | Some spec \<Rightarrow> mi_execution_mode m \<notin> set (js_allowed_modes spec))"
    using assms by (fastforce simp: admitted_def)
  ultimately show ?thesis using assms
    by (simp add: accept_def Let_def sort_filter_empty admitted_def del: set_map)
qed

lemma accept_refused:
  assumes "\<not> admitted b allowed_jobs m identity_verified"
  shows "\<exists>state reason. state \<noteq> ACCEPTED_MISSION \<and> accept env b allowed_jobs isoformat stamp m identity_verified t = (Inr (refusal m state reason), t)"
proof -
  have "\<not> identity_verified \<or> (\<exists>n \<in> set (mi_requested_jobs m). n \<notin> set allowed_jobs)
      \<or> (\<exists>n \<in> set (mi_requested_jobs m). n \<notin> set (dkeys (pb_specs b)))
      \<or> (\<exists>n \<in> set (mi_requested_jobs m). case dget (pb_specs b) n of None \<Rightarrow> False
          | Some spec \<Rightarrow> mi_execution_mode m \<notin> set (js_allowed_modes spec))"
    using assms dget_None_iff[of "pb_specs b"] unfolding admitted_def by (metis (no_types, lifting) option.exhaust option.simps(5))
  then show ?thesis by (auto simp: accept_def Let_def sort_filter_empty simp del: set_map)
qed

text \<open>
  C35: A mission is mapped to jobs exactly when the identity of its sender was verified, every requested job
  is on the allowlist and registered, and its mode is allowed for each. Otherwise the receipt says so and
  the table is untouched. The call only adds rows at the end of the table; when it returns an acceptance,
  each requested job has its row, in the mission's mode and with the id on the receipt, and sending the
  same mission again returns the same receipt and adds nothing.
\<close>

theorem missions_enter_once:
  assumes "specs_ok (pb_specs b)" "oe_between env = id"
    "accept env b allowed_jobs isoformat stamp m identity_verified t = (r, t')"
  shows "(\<exists>u. t' = t @ u)
    \<and> (\<not> admitted b allowed_jobs m identity_verified \<longrightarrow> t' = t \<and> (\<exists>state reason. state \<noteq> ACCEPTED_MISSION \<and> r = Inr (refusal m state reason)))
    \<and> (admitted b allowed_jobs m identity_verified \<longrightarrow> (\<forall>receipt. r = Inr receipt \<longrightarrow>
         re_state receipt = ACCEPTED_MISSION \<and> re_accepted_jobs receipt = mi_requested_jobs m
         \<and> (\<exists>runs. re_job_run_ids receipt = map jr_id runs \<and> list_all2 (mission_row m t') (mi_requested_jobs m) runs)
         \<and> accept env b allowed_jobs isoformat stamp2 m identity_verified t' = (Inr receipt, t')))"
proof (cases "admitted b allowed_jobs m identity_verified")
  case False
  then show ?thesis using accept_refused[OF False, of env isoformat stamp t] assms(3) by auto
next
  case True
  obtain x t1 where iter: "op_iter (enqueue_mission_job env b isoformat stamp m) (mi_requested_jobs m) t = (x, t1)" by fastforce
  obtain u where u: "t1 = t @ u" "\<And>runs. x = Inr runs \<Longrightarrow> list_all2 (mission_row m t1) (mi_requested_jobs m) runs"
    using enqueue_mission_iter[OF assms(1,2) iter] by blast
  have specs: "\<exists>spec. dget (pb_specs b) n = Some spec \<and> js_name spec = n \<and> mi_execution_mode m \<in> set (js_allowed_modes spec)"
    if "n \<in> set (mi_requested_jobs m)" for n
    using True that specs_okD(1)[OF assms(1)] unfolding admitted_def by blast
  show ?thesis
  proof (cases x)
    case (Inl e)
    then have "r = Inl e" "t' = t @ u" using assms(3) iter u(1) by (simp_all add: accept_admitted[OF True])
    then show ?thesis using True by simp
  next
    case (Inr runs)
    note again = enqueue_mission_iter_again[OF u(2)[OF Inr] specs, where env = env and isoformat = isoformat and stamp = stamp2]
    have out: "t' = t @ u" "t' = t1" "r = Inr \<lparr>re_mission_id = mi_mission_id m, re_state = ACCEPTED_MISSION,
        re_accepted_jobs = mi_requested_jobs m, re_rejected_reason = None, re_job_run_ids = map jr_id runs,
        re_financial_connectivity = False, re_real_money_execution = False\<rparr>"
      using assms(3) iter Inr u(1) by (simp_all add: accept_admitted[OF True])
    show ?thesis using u(2)[OF Inr] True again unfolding out(2,3) by (auto simp: accept_admitted[OF True] u(1))
  qed
qed

definition ex_mission :: mission where
  "ex_mission = \<lparr>mi_mission_id = ''7'', mi_origin = THE_CREATION, mi_objective = ''observe'',
     mi_requested_jobs = [''paper-decision''], mi_execution_mode = ''PAPER_TRADING'', mi_priority = NORMAL,
     mi_scope = [], mi_constraints = [], mi_deadline = None\<rparr>"

theorem missions_enter_once_witness:
  "let out = accept ex_orch_env (ex_brain True) [''paper-decision''] (\<lambda>_. []) (\<lambda>key. (''1'', 5)) ex_mission True []
   in map jr_id (snd out) = [''1'']
     \<and> accept ex_orch_env (ex_brain True) [''paper-decision''] (\<lambda>_. []) (\<lambda>key. (''2'', 6)) ex_mission True (snd out) = out"
proof -
  let ?out = "accept ex_orch_env (ex_brain True) [''paper-decision''] (\<lambda>_. []) (\<lambda>key. (''1'', 5)) ex_mission True []"
  have specs: "specs_ok (pb_specs (ex_brain True))" using ex_specs_ok by (simp add: ex_brain_def)
  have between: "oe_between ex_orch_env = id" by (simp add: ex_orch_env_def)
  have admitted: "admitted (ex_brain True) [''paper-decision''] ex_mission True"
    by (simp add: admitted_def ex_brain_def ex_mission_def ex_spec_def)
  have "fst ?out = Inr (projr (fst ?out))" "map jr_id (snd ?out) = [''1'']" by code_simp+
  moreover have "accept ex_orch_env (ex_brain True) [''paper-decision''] (\<lambda>_. []) (\<lambda>key. (''2'', 6)) ex_mission True (snd ?out)
      = (Inr (projr (fst ?out)), snd ?out)"
    using missions_enter_once[OF specs between, of "[''paper-decision'']" "\<lambda>_. []" "\<lambda>key. (''1'', 5)" ex_mission True "[]"
      "fst ?out" "snd ?out" "\<lambda>key. (''2'', 6)"] admitted calculation(1) by simp
  ultimately show ?thesis by (simp add: Let_def prod_eq_iff)
qed

end
