(* ===== verification/Control_Plane.thy ===== *)
theory Control_Plane
  imports Governor
begin

text \<open>
  The API's control plane: the durable store with its health (\<^verbatim>\<open>apps/api/app/control_state.py\<close>) and the
  risk surface on top of it (\<^verbatim>\<open>apps/api/app/risk_surface.py\<close>, with the venue halt of
  \<^verbatim>\<open>apps/api/app/oms_surface.py\<close>): restoring and saving the governor's controls, assessing a proposal,
  kill switches and operator releases.

  The state is one process (store status, governor, what it believes is saved) and the control table,
  which outlives the process. Every access to the database takes its fate from a \<open>faults\<close> argument: the
  connection works or not, the read works or not, a write happens, does not happen, or happens and its
  acknowledgement is lost. A call runs to its end before the next one, except that a release names what
  other calls do to the process while its save is awaited. The settings object, and with it the governor
  object, is that of the process; the journal is the list of event types written.
\<close>

section \<open>The store\<close>

datatype control_status = MEMORY | PENDING | DURABLE | UNAVAILABLE

record faults =
  fa_start :: bool
  fa_get :: bool
  fa_inner :: store_fate
  fa_put :: store_fate
  fa_error :: string
  fa_clock :: instant
  fa_now :: instant

record surface =
  sf_engine :: bool
  sf_status :: control_status
  sf_error :: "string option"
  sf_generation :: nat
  sf_last_attempt :: "instant option"
  sf_governor :: governor
  sf_loaded :: "nat option"
  sf_saved :: "control_doc option"
  sf_rows :: control_table
  sf_events :: "string list"

definition RETRY_INTERVAL :: timedelta where "RETRY_INTERVAL = seconds 15"

text \<open>A process over a table, before its first call.\<close>

definition surface_new :: "bool \<Rightarrow> control_table \<Rightarrow> surface" where
  "surface_new engine rows =
     \<lparr>sf_engine = engine, sf_status = (if engine then PENDING else MEMORY), sf_error = None, sf_generation = 0,
      sf_last_attempt = None, sf_governor = governor_new, sf_loaded = None, sf_saved = None, sf_rows = rows,
      sf_events = []\<rparr>"

definition accepts_new_risk :: "surface \<Rightarrow> bool" where
  "accepts_new_risk s = (sf_status s = MEMORY \<or> sf_status s = DURABLE)"

definition mark_unavailable :: "faults \<Rightarrow> surface \<Rightarrow> surface" where
  "mark_unavailable f s =
     (if \<not> sf_engine s then s
      else s\<lparr>sf_status := UNAVAILABLE, sf_error := Some (fa_error f),
             sf_last_attempt := (case sf_last_attempt s of None \<Rightarrow> Some (fa_clock f) | Some t \<Rightarrow> Some t)\<rparr>)"

definition store_start :: "faults \<Rightarrow> surface \<Rightarrow> bool \<times> surface" where
  "store_start f s =
     (if \<not> sf_engine s then (True, s\<lparr>sf_status := MEMORY\<rparr>)
      else let s' = s\<lparr>sf_last_attempt := Some (fa_clock f)\<rparr> in
           if \<not> fa_start f then (False, mark_unavailable f s')
           else (True, s'\<lparr>sf_status := DURABLE, sf_error := None, sf_generation := sf_generation s' + 1\<rparr>))"

definition store_ensure :: "faults \<Rightarrow> surface \<Rightarrow> bool \<times> surface" where
  "store_ensure f s =
     (if sf_status s = MEMORY \<or> sf_status s = DURABLE then (True, s)
      else if sf_status s = UNAVAILABLE
            \<and> (case sf_last_attempt s of None \<Rightarrow> False | Some t \<Rightarrow> fa_clock f - t < RETRY_INTERVAL)
      then (False, s)
      else store_start f s)"

section \<open>The governor's controls\<close>

definition CONTROLS_KEY :: string where "CONTROLS_KEY = ''risk_controls''"

record surface_env =
  se_dumps :: "control_doc \<Rightarrow> string"
  se_loads :: "string \<Rightarrow> control_doc"
  se_engine :: risk_engine
  se_automatic_kill :: bool

definition saved_doc :: "surface_env \<Rightarrow> surface \<Rightarrow> control_doc option" where
  "saved_doc env s = control_get (se_loads env) CONTROLS_KEY (sf_rows s)"

definition event :: "string \<Rightarrow> surface \<Rightarrow> surface" where
  "event e s = s\<lparr>sf_events := sf_events s @ [e]\<rparr>"

text \<open>The part of \<^verbatim>\<open>persist_controls\<close> after the governor is ready.\<close>

definition save_snapshot :: "surface_env \<Rightarrow> faults \<Rightarrow> store_fate \<Rightarrow> surface \<Rightarrow> bool \<times> surface" where
  "save_snapshot env f fate s =
     (if sf_loaded s \<noteq> Some (sf_generation s) then (False, s)
      else let doc = snapshot (sf_governor s);
               written = s\<lparr>sf_rows := control_put (se_dumps env) (fa_now f) CONTROLS_KEY doc (sf_rows s)\<rparr> in
           if sf_saved s = Some doc then (True, s)
           else (case fate of
                   Saved \<Rightarrow> (True, written\<lparr>sf_saved := Some doc\<rparr>)
                 | Not_Saved \<Rightarrow> (False, mark_unavailable f s)
                 | Saved_Then_Lost \<Rightarrow> (False, mark_unavailable f written)))"

text \<open>Reading the saved controls into the governor; nothing is written before they are read.\<close>

definition governor_ready :: "surface_env \<Rightarrow> faults \<Rightarrow> (surface, unit) op" where
  "governor_ready env f s =
     (if \<not> sf_engine s then (Inr (), s)
      else (case store_ensure f s of
              (False, s1) \<Rightarrow> (Inr (), s1)
            | (True, s1) \<Rightarrow>
                if sf_loaded s1 = Some (sf_generation s1) then (Inr (), s1)
                else if \<not> fa_get f then (Inr (), mark_unavailable f s1)
                else
                  let saved = saved_doc env s1 in
                  (case (case saved of None \<Rightarrow> (Inr (), sf_governor s1) | Some doc \<Rightarrow> restore doc (sf_governor s1)) of
                     (Inl e, g) \<Rightarrow> (Inl e, s1\<lparr>sf_governor := g\<rparr>)
                   | (Inr _, g) \<Rightarrow>
                       let s2 = s1\<lparr>sf_governor := g, sf_loaded := Some (sf_generation s1), sf_saved := saved\<rparr> in
                       (Inr (), if Some (snapshot g) \<noteq> saved then snd (save_snapshot env f (fa_inner f) s2) else s2))))"

definition persist_controls :: "surface_env \<Rightarrow> faults \<Rightarrow> (surface, bool) op" where
  "persist_controls env f s =
     (if \<not> sf_engine s then (Inr True, s)
      else op_bind (governor_ready env f) (\<lambda>_ s1. case save_snapshot env f (fa_put f) s1 of (b, s2) \<Rightarrow> (Inr b, s2)) s)"

section \<open>Assessing a proposal\<close>

definition refused_unavailable :: risk_decision where
  "refused_unavailable =
     \<lparr>rd_approved = False, rd_permit = None, rd_rejections = [''control_state_available''],
      rd_checks = [(''control_state_available'', CheckFail)], rd_breach = None\<rparr>"

text \<open>\<open>rq\<close> holds what the surface gathers for the governor: the account, the quote, the stage of the scope.
  \<open>assess_ready\<close> is the part of \<^verbatim>\<open>assess\<close> after the store was found to accept new risk.\<close>

definition assess_ready :: "surface_env \<Rightarrow> faults \<Rightarrow> request \<Rightarrow> (surface, risk_decision) op" where
  "assess_ready env f rq s1 =
     (case assess (se_engine env) rq (sf_governor s1) of
        (Inl e, g) \<Rightarrow> (Inl e, s1\<lparr>sf_governor := g\<rparr>)
      | (Inr d, g) \<Rightarrow>
          let s2 = event ''RISK_DECISION'' (s1\<lparr>sf_governor := g\<rparr>) in
          if rd_breach d = None then (Inr d, s2)
          else op_bind (persist_controls env f) (\<lambda>_ s3.
                 (Inr d, event ''PROMOTION_VIOLATION'' (event ''RISK_LOCKDOWN_LATCHED'' s3))) s2)"

definition surface_assess :: "surface_env \<Rightarrow> faults \<Rightarrow> faults \<Rightarrow> request \<Rightarrow> (surface, risk_decision) op" where
  "surface_assess env f1 f2 rq =
     op_bind (governor_ready env f1) (\<lambda>_ s1.
       if \<not> accepts_new_risk s1 then (Inr refused_unavailable, event ''RISK_DECISION'' s1)
       else assess_ready env f2 rq s1)"

section \<open>Kill switches and releases\<close>

definition on_governor :: "(governor \<Rightarrow> unit res \<times> governor) \<Rightarrow> (surface, unit) op" where
  "on_governor change s = (case change (sf_governor s) of (r, g) \<Rightarrow> (r, s\<lparr>sf_governor := g\<rparr>))"

text \<open>\<open>between\<close> is what other calls do to the process while the save is awaited.\<close>

definition surface_release ::
    "surface_env \<Rightarrow> faults \<Rightarrow> (surface \<Rightarrow> surface) \<Rightarrow> (governor \<Rightarrow> unit res \<times> governor) \<Rightarrow> (surface, unit) op" where
  "surface_release env f between release s =
     (let before = snapshot (sf_governor s) in
      case on_governor release s of
        (Inl e, s1) \<Rightarrow>
          (case on_governor (replace before) s1 of (Inl e', s2) \<Rightarrow> (Inl e', s2) | (Inr _, s2) \<Rightarrow> (Inl e, s2))
      | (Inr _, s1) \<Rightarrow>
          (case persist_controls env f s1 of
             (Inl e, s2) \<Rightarrow> (Inl e, between s2)
           | (Inr True, s2) \<Rightarrow> (Inr (), between s2)
           | (Inr False, s2) \<Rightarrow>
               (case on_governor (replace before) (between s2) of
                  (Inl e, s3) \<Rightarrow> (Inl e, s3)
                | (Inr _, s3) \<Rightarrow>
                    (Inl (HTTPException 503 ''durable control store unavailable; release not applied''), s3))))"

datatype kill_action = TRIGGER | RELEASE

text \<open>A refusal of the governor becomes status 422, here and below 409.\<close>

definition as_http :: "int \<Rightarrow> exn \<Rightarrow> exn" where
  "as_http status e = (case e of GovernorError m \<Rightarrow> HTTPException status m | _ \<Rightarrow> e)"

definition change_kill_switch ::
    "surface_env \<Rightarrow> faults \<Rightarrow> faults \<Rightarrow> (surface \<Rightarrow> surface) \<Rightarrow> kill_scope \<Rightarrow> string option \<Rightarrow> kill_action \<Rightarrow> (surface, unit) op" where
  "change_kill_switch env f1 f2 between scope key action =
     op_bind (governor_ready env f1) (\<lambda>_.
     op_bind (op_try (case action of
                TRIGGER \<Rightarrow> op_bind (on_governor (trigger_kill scope key)) (\<lambda>_.
                            op_bind (persist_controls env f2) (\<lambda>_. op_return ()))
              | RELEASE \<Rightarrow> surface_release env f2 between (release_kill scope key))) (\<lambda>r.
       case r of
         Inl e \<Rightarrow> op_raise (as_http 422 e)
       | Inr _ \<Rightarrow> op_modify (event ''RISK_KILL_SWITCH_CHANGED'')))"

fun release_all :: "account_state list \<Rightarrow> governor \<Rightarrow> unit res \<times> governor" where
  "release_all [] g = (Inr (), g)"
| "release_all (a # as) g = (case release_lockdown a g of (Inl e, g') \<Rightarrow> (Inl e, g') | (Inr _, g') \<Rightarrow> release_all as g')"

definition surface_release_lockdown ::
    "surface_env \<Rightarrow> faults \<Rightarrow> faults \<Rightarrow> (surface \<Rightarrow> surface) \<Rightarrow> account_state list \<Rightarrow> (surface, unit) op" where
  "surface_release_lockdown env f1 f2 between accounts =
     op_bind (governor_ready env f1) (\<lambda>_.
     op_bind (op_try (surface_release env f2 between (release_all accounts))) (\<lambda>r.
       case r of
         Inl e \<Rightarrow> op_raise (as_http 409 e)
       | Inr _ \<Rightarrow> op_modify (event ''RISK_LOCKDOWN_RELEASED'')))"

text \<open>A divergence stops its venue, when the automatic kill is on.\<close>

definition halt_venue :: "surface_env \<Rightarrow> faults \<Rightarrow> faults \<Rightarrow> string \<Rightarrow> (surface, unit) op" where
  "halt_venue env f1 f2 venue =
     op_bind (if se_automatic_kill env
              then op_bind (governor_ready env f1) (\<lambda>_.
                   op_bind (on_governor (trigger_kill SCOPE_VENUE (Some venue))) (\<lambda>_.
                   op_bind (persist_controls env f2) (\<lambda>_. op_return ())))
              else op_return ()) (\<lambda>_.
     op_modify (event ''PROMOTION_VIOLATION'' \<circ> event ''RECONCILIATION_DIVERGENCE''))"

text \<open>The process ends and another one starts over the same table.\<close>

definition restart :: "surface \<Rightarrow> surface" where
  "restart s = surface_new (sf_engine s) (sf_rows s)"

section \<open>What the store holds, the process holds\<close>

text \<open>\<open>g'\<close> forbids everything \<open>g\<close> forbids.\<close>

definition at_least :: "governor \<Rightarrow> governor \<Rightarrow> bool" where
  "at_least g g' \<longleftrightarrow> (gv_global g \<longrightarrow> gv_global g') \<and> gv_venues g |\<subseteq>| gv_venues g'
     \<and> gv_strategies g |\<subseteq>| gv_strategies g' \<and> (gv_lockdown g \<noteq> None \<longrightarrow> gv_lockdown g' \<noteq> None)"

lemma at_least_refl [simp]: "at_least g g"
  by (simp add: at_least_def)

lemma at_least_trans: "at_least g g' \<Longrightarrow> at_least g' g'' \<Longrightarrow> at_least g g''"
  by (auto simp: at_least_def)

lemma stricter_at_least: "stricter g g' \<Longrightarrow> at_least g g'"
  by (auto simp: stricter_def at_least_def)

lemma restore_at_least: "\<exists>g'. restore (snapshot g) other = (Inr (), g') \<and> at_least g g' \<and> at_least other g'"
  using restore_snapshot_merge[of g other] by (auto simp: stricter_def at_least_def)

text \<open>JSON reads back what it wrote.\<close>

definition faithful :: "surface_env \<Rightarrow> bool" where
  "faithful env \<longleftrightarrow> (\<forall>g. se_loads env (se_dumps env (snapshot g)) = snapshot g)"

text \<open>The table holds the snapshot of a governor that covers \<open>held\<close>, and a process that has read the table
  covers what it holds.\<close>

definition holds_durably :: "surface_env \<Rightarrow> governor \<Rightarrow> surface \<Rightarrow> bool" where
  "holds_durably env held s \<longleftrightarrow> sf_engine s \<and> sf_status s \<noteq> MEMORY
     \<and> (\<exists>g. saved_doc env s = Some (snapshot g) \<and> at_least held g
          \<and> (sf_loaded s \<noteq> None \<longrightarrow> at_least g (sf_governor s)))"

lemma durable_frame:
  assumes "holds_durably env held s" "sf_engine s' = sf_engine s" "sf_status s' \<noteq> MEMORY" "sf_rows s' = sf_rows s"
    "sf_loaded s' = sf_loaded s" "at_least (sf_governor s) (sf_governor s')"
  shows "holds_durably env held s'"
proof -
  obtain g where g: "saved_doc env s = Some (snapshot g)" "at_least held g" "sf_loaded s \<noteq> None \<longrightarrow> at_least g (sf_governor s)"
    using assms(1) by (auto simp: holds_durably_def)
  have "sf_loaded s' \<noteq> None \<longrightarrow> at_least g (sf_governor s')" using g(3) assms(5,6) at_least_trans by metis
  then show ?thesis using g(1,2) assms(1-4) unfolding holds_durably_def saved_doc_def by metis
qed

lemma mark_frame:
  "sf_engine (mark_unavailable f s) = sf_engine s" "sf_rows (mark_unavailable f s) = sf_rows s"
  "sf_loaded (mark_unavailable f s) = sf_loaded s" "sf_governor (mark_unavailable f s) = sf_governor s"
  "sf_engine s \<Longrightarrow> sf_status (mark_unavailable f s) = UNAVAILABLE"
  by (simp_all add: mark_unavailable_def)

lemma holds_mark: "holds_durably env held s \<Longrightarrow> holds_durably env held (mark_unavailable f s)"
  by (rule durable_frame) (auto simp: mark_frame holds_durably_def)

lemma holds_event: "holds_durably env held s \<Longrightarrow> holds_durably env held (event e s)"
  by (rule durable_frame) (auto simp: event_def holds_durably_def)

lemma start_result:
  assumes "sf_engine s" "store_start f s = (b, s')"
  shows "sf_engine s' \<and> sf_rows s' = sf_rows s \<and> sf_loaded s' = sf_loaded s \<and> sf_governor s' = sf_governor s
    \<and> sf_status s' = (if b then DURABLE else UNAVAILABLE)"
  using assms by (auto simp: store_start_def Let_def mark_frame split: if_splits)

lemma ensure_result:
  assumes "sf_engine s" "sf_status s \<noteq> MEMORY" "store_ensure f s = (b, s')"
  shows "sf_engine s' \<and> sf_rows s' = sf_rows s \<and> sf_loaded s' = sf_loaded s \<and> sf_governor s' = sf_governor s
    \<and> sf_status s' = (if b then DURABLE else UNAVAILABLE)"
  using assms start_result[OF assms(1)] by (auto simp: store_ensure_def split: if_splits)

lemma durable_save:
  assumes "faithful env" "holds_durably env held s" "save_snapshot env f fate s = (b, s')"
  shows "holds_durably env held s' \<and> sf_governor s' = sf_governor s \<and> sf_loaded s' = sf_loaded s
    \<and> (sf_status s' = sf_status s \<or> sf_status s' = UNAVAILABLE)"
proof -
  have written: "holds_durably env held (s\<lparr>sf_rows := control_put (se_dumps env) (fa_now f) CONTROLS_KEY (snapshot (sf_governor s)) (sf_rows s)\<rparr>)"
    if loaded: "sf_loaded s \<noteq> None"
  proof -
    obtain g where "at_least held g" "at_least g (sf_governor s)" using assms(2) loaded by (auto simp: holds_durably_def)
    then have "at_least held (sf_governor s)" by (rule at_least_trans)
    then show ?thesis using assms(1,2)
      by (auto simp: holds_durably_def saved_doc_def control_get_put faithful_def intro!: exI[of _ "sf_governor s"])
  qed
  have saved: "holds_durably env held (s\<lparr>sf_rows := rows, sf_saved := x\<rparr>)" if "holds_durably env held (s\<lparr>sf_rows := rows\<rparr>)" for rows x
    using that by (simp add: holds_durably_def saved_doc_def)
  show ?thesis
  proof (cases "sf_loaded s = Some (sf_generation s) \<and> sf_saved s \<noteq> Some (snapshot (sf_governor s))")
    case False
    then show ?thesis using assms(2,3) by (auto simp: save_snapshot_def Let_def split: if_splits)
  next
    case True
    then have w: "holds_durably env held (s\<lparr>sf_rows := control_put (se_dumps env) (fa_now f) CONTROLS_KEY (snapshot (sf_governor s)) (sf_rows s)\<rparr>)"
      using written by simp
    have engine: "sf_engine s" using assms(2) by (simp add: holds_durably_def)
    show ?thesis using assms(3) True engine saved[OF w] holds_mark[OF assms(2)] holds_mark[OF w]
      by (cases fate) (auto simp: save_snapshot_def Let_def mark_frame)
  qed
qed

text \<open>After the governor is ready the process accepts new risk only if it covers what the table holds.\<close>

lemma holds_ready:
  assumes "faithful env" "holds_durably env held s" "governor_ready env f s = (r, s')"
  shows "holds_durably env held s' \<and> (accepts_new_risk s' \<and> r = Inr () \<longrightarrow> at_least held (sf_governor s'))
    \<and> at_least (sf_governor s) (sf_governor s')"
proof -
  have engine: "sf_engine s" "sf_status s \<noteq> MEMORY" using assms(2) by (simp_all add: holds_durably_def)
  obtain b s1 where ensure: "store_ensure f s = (b, s1)" by fastforce
  note e = ensure_result[OF engine ensure]
  have h1: "holds_durably env held s1" by (rule durable_frame[OF assms(2)]) (use e engine in auto)
  obtain g0 where g0: "saved_doc env s1 = Some (snapshot g0)" "at_least held g0"
      "sf_loaded s1 \<noteq> None \<longrightarrow> at_least g0 (sf_governor s1)"
    using h1 by (auto simp: holds_durably_def)
  show ?thesis
  proof (cases "b \<and> fa_get f \<and> sf_loaded s1 \<noteq> Some (sf_generation s1)")
    case False
    then have "s' = s1 \<and> (\<not> b \<or> sf_loaded s1 \<noteq> None) \<or> s' = mark_unavailable f s1"
      using assms(3) engine ensure by (cases b) (auto simp: governor_ready_def split: if_splits)
    then show ?thesis
      using h1 e g0 holds_mark[OF h1] at_least_trans[OF g0(2)]
      by (auto simp: accepts_new_risk_def mark_frame split: if_splits)
  next
    case True
    obtain g where g: "restore (snapshot g0) (sf_governor s1) = (Inr (), g)" "at_least g0 g" "at_least (sf_governor s1) g"
      using restore_at_least by blast
    define s2 where "s2 = s1\<lparr>sf_governor := g, sf_loaded := Some (sf_generation s1), sf_saved := saved_doc env s1\<rparr>"
    have h2: "holds_durably env held s2"
      using h1 g0 g(2) by (auto simp: holds_durably_def s2_def saved_doc_def)
    have "s' = (if Some (snapshot g) \<noteq> saved_doc env s1 then snd (save_snapshot env f (fa_inner f) s2) else s2)"
      using True assms(3) engine ensure g0(1) g(1) by (auto simp: governor_ready_def Let_def s2_def)
    then have "s' = s2 \<or> (\<exists>ok. save_snapshot env f (fa_inner f) s2 = (ok, s'))" by (metis prod.collapse)
    then have "holds_durably env held s'" "sf_governor s' = g"
      using h2 durable_save[OF assms(1) h2] by (auto simp: s2_def)
    then show ?thesis using g at_least_trans[OF g0(2) g(2)] e by simp
  qed
qed

lemma holds_persist:
  assumes "faithful env" "holds_durably env held s" "persist_controls env f s = (r, s')"
  shows "holds_durably env held s' \<and> at_least (sf_governor s) (sf_governor s')"
proof -
  have "sf_engine s" using assms(2) by (simp add: holds_durably_def)
  then obtain r1 s1 where ready: "governor_ready env f s = (r1, s1)"
      and rest: "r1 = Inr () \<and> (\<exists>b. save_snapshot env f (fa_put f) s1 = (b, s')) \<or> s' = s1"
    using assms(3) by (cases "governor_ready env f s")
      (auto simp: persist_controls_def op_bind_def split: sum.splits prod.splits)
  have h1: "holds_durably env held s1" "at_least (sf_governor s) (sf_governor s1)"
    using holds_ready[OF assms(1,2) ready] by blast+
  with rest durable_save[OF assms(1) h1(1)] show ?thesis by metis
qed

section \<open>Calls and restarts\<close>

text \<open>What happens to the process and its table without an operator's release: assessments, kill switches,
  venue halts, restores, and restarts at any point, with every access to the database failing or not.\<close>

inductive surface_step :: "surface_env \<Rightarrow> surface \<Rightarrow> surface \<Rightarrow> bool" for env where
  assessed: "surface_assess env f1 f2 rq s = (r, s') \<Longrightarrow> surface_step env s s'"
| triggered: "change_kill_switch env f1 f2 between scope key TRIGGER s = (r', s') \<Longrightarrow> surface_step env s s'"
| halted: "halt_venue env f1 f2 venue s = (r', s') \<Longrightarrow> surface_step env s s'"
| restored: "governor_ready env f s = (r', s') \<Longrightarrow> surface_step env s s'"
| restarted: "surface_step env s (restart s)"

abbreviation keeps_durable :: "surface_env \<Rightarrow> governor \<Rightarrow> (surface, 'a) op \<Rightarrow> bool" where
  "keeps_durable env held m \<equiv> contract (holds_durably env held) m (\<lambda>_. holds_durably env held) (holds_durably env held)"

lemma holds_govern: "holds_durably env held s \<Longrightarrow> at_least (sf_governor s) g \<Longrightarrow> holds_durably env held (s\<lparr>sf_governor := g\<rparr>)"
  by (rule durable_frame) (simp_all add: holds_durably_def)

lemma keeps_bind: "keeps_durable env held m \<Longrightarrow> (\<And>x. keeps_durable env held (f x)) \<Longrightarrow> keeps_durable env held (op_bind m f)"
  by (rule contract_bind)

lemma keeps_try: "keeps_durable env held m \<Longrightarrow> keeps_durable env held (op_try m)"
  by (rule contract_outcomeI) (auto simp: op_try_def dest: contract_outcome split: prod.splits)

lemma keeps_ready: "faithful env \<Longrightarrow> keeps_durable env held (governor_ready env f)"
  by (rule contract_outcomeI) (auto dest: holds_ready)

lemma keeps_persist: "faithful env \<Longrightarrow> keeps_durable env held (persist_controls env f)"
  by (rule contract_outcomeI) (auto dest: holds_persist)

lemma keeps_trigger: "keeps_durable env held (on_governor (trigger_kill scope key))"
proof (rule contract_outcomeI)
  fix s r s'
  assume s: "holds_durably env held s" and out: "on_governor (trigger_kill scope key) s = (r, s')"
  obtain r1 g where g: "trigger_kill scope key (sf_governor s) = (r1, g)" by fastforce
  then have "s' = s\<lparr>sf_governor := g\<rparr>" using out by (simp add: on_governor_def)
  then show "holds_durably env held s'" using holds_govern[OF s stricter_at_least[OF stricter_trigger[OF g]]] by simp
qed

lemma keeps_event: "keeps_durable env held (op_modify (event e))"
  by (intro contract_modify holds_event)

lemma keeps_return: "keeps_durable env held (op_return x)"
  by (rule contract_return)

lemma durable_raise: "keeps_durable env held (op_raise e)"
  by (rule contract_raise)

lemmas keeps_ops = keeps_ready keeps_persist keeps_trigger keeps_event keeps_return durable_raise

lemma keeps_kill:
  assumes "faithful env"
  shows "keeps_durable env held (change_kill_switch env f1 f2 between scope key TRIGGER)"
  unfolding change_kill_switch_def kill_action.case
  by (intro keeps_bind keeps_try keeps_ops assms) (auto split: sum.splits intro: keeps_ops)

lemma keeps_halt:
  assumes "faithful env"
  shows "keeps_durable env held (halt_venue env f1 f2 venue)"
proof -
  have "keeps_durable env held (op_modify (event ''PROMOTION_VIOLATION'' \<circ> event ''RECONCILIATION_DIVERGENCE''))"
    by (rule contract_modify) (simp add: holds_event)
  then show ?thesis unfolding halt_venue_def
    by (intro keeps_bind) (auto intro!: keeps_bind keeps_ops assms)
qed

text \<open>An assessment keeps the table and refuses whatever the held controls forbid.\<close>

lemma assess_held:
  assumes "faithful env" "holds_durably env held s" "surface_assess env f1 f2 rq s = (r, s')"
  shows "holds_durably env held s' \<and> (\<forall>d. r = Inr d \<and> rd_approved d \<longrightarrow>
    (\<exists>g g'. at_least held g \<and> assess (se_engine env) rq g = (Inr d, g')))"
proof -
  obtain r1 s1 where ready: "governor_ready env f1 s = (r1, s1)" by fastforce
  note h1 = holds_ready[OF assms(1,2) ready]
  show ?thesis
  proof (cases "r1 = Inr () \<and> accepts_new_risk s1")
    case False
    then have "r = Inr refused_unavailable \<and> s' = event ''RISK_DECISION'' s1 \<or> (\<exists>e. r = Inl e) \<and> s' = s1"
      using assms(3) ready by (cases r1) (auto simp: surface_assess_def assess_ready_def op_bind_def)
    then show ?thesis using h1 holds_event by (fastforce simp: refused_unavailable_def)
  next
    case True
    obtain r2 g where g: "assess (se_engine env) rq (sf_governor s1) = (r2, g)" by fastforce
    define s2 where "s2 = s1\<lparr>sf_governor := g\<rparr>"
    have h2: "holds_durably env held s2"
      unfolding s2_def using h1 stricter_at_least[OF stricter_assess[OF g]] by (intro holds_govern) simp_all
    have out: "(case r2 of Inl e \<Rightarrow> (Inl e, s2) | Inr d \<Rightarrow>
        if rd_breach d = None then (Inr d, event ''RISK_DECISION'' s2)
        else op_bind (persist_controls env f2) (\<lambda>_ s3.
               (Inr d, event ''PROMOTION_VIOLATION'' (event ''RISK_LOCKDOWN_LATCHED'' s3))) (event ''RISK_DECISION'' s2)) = (r, s')"
      using True assms(3) ready g by (auto simp: surface_assess_def assess_ready_def op_bind_def s2_def split: sum.splits)
    have "holds_durably env held s' \<and> (\<forall>d. r = Inr d \<longrightarrow> r2 = Inr d)"
      using out h2 holds_event[OF h2] holds_persist[OF assms(1) holds_event[OF h2]]
      by (auto simp: op_bind_def split: sum.splits if_splits prod.splits intro!: holds_event)
    then show ?thesis using h1 True g by blast
  qed
qed

lemma holds_restart:
  assumes "holds_durably env held s"
  shows "holds_durably env held (restart s)"
  using assms by (auto simp: holds_durably_def restart_def surface_new_def saved_doc_def)

lemma step_holds:
  assumes "surface_step env s s'" "faithful env" "holds_durably env held s"
  shows "holds_durably env held s'"
  using assms
  by (cases rule: surface_step.cases)
    (auto dest: assess_held holds_ready intro: holds_restart
      elim: contract_outcome[OF keeps_kill[OF assms(2)] assms(3)] contract_outcome[OF keeps_halt[OF assms(2)] assms(3)])

lemma steps_hold:
  assumes "(surface_step env)\<^sup>*\<^sup>* s s'" "faithful env" "holds_durably env held s"
  shows "holds_durably env held s'"
  using assms by (induction rule: rtranclp_induct) (auto intro: step_holds)

section \<open>Properties\<close>

text \<open>Does a governor's state forbid a request?\<close>

definition forbids :: "governor \<Rightarrow> request \<Rightarrow> bool" where
  "forbids g rq \<longleftrightarrow> gv_global g \<or> venue_value (in_venue (rq_intent rq)) |\<in>| gv_venues g
     \<or> in_strategy_id (rq_intent rq) |\<in>| gv_strategies g \<or> gv_lockdown g \<noteq> None \<and> in_side (rq_intent rq) = BUY"

lemma at_least_forbids: "at_least g g' \<Longrightarrow> forbids g rq \<Longrightarrow> forbids g' rq"
  by (auto simp: at_least_def forbids_def)

lemma forbidden_not_approved:
  assumes "assess (engine_of lc ins issue policy) rq g = (Inr d, g')" "forbids g rq"
  shows "\<not> rd_approved d"
  using engine.locked_refuses[OF assms(1)] engine.killed_refuses[OF assms(1)] assms(2) by (auto simp: forbids_def)

lemma new_holds:
  assumes "control_get (se_loads env) CONTROLS_KEY rows = Some (snapshot held)"
  shows "holds_durably env held (surface_new True rows)"
  using assms by (auto simp: holds_durably_def surface_new_def saved_doc_def)

text \<open>
  C3: Saved controls outlive every failure and restart. A process starts over a table that holds the
  controls \<open>held\<close>. After any sequence of assessments, kill switches, venue halts and restores, with every
  connection, read and write failing or succeeding (a write may also happen although its acknowledgement
  is lost), and with the process restarted at any point, the table still holds controls at least as
  strict, and an assessment that returns does not approve an intent that \<open>held\<close> forbids: none under the
  global switch, none of a killed venue or strategy, no buy under a lockdown. Only an operator's release
  is not among these calls. JSON reads back what it wrote.
\<close>

theorem saved_controls_outlive_restarts:
  assumes "faithful env" "se_engine env = engine_of lc ins issue policy"
    and "control_get (se_loads env) CONTROLS_KEY rows = Some (snapshot held)"
    and "(surface_step env)\<^sup>*\<^sup>* (surface_new True rows) s"
    and "surface_assess env f1 f2 rq s = (r, s')"
  shows "(\<exists>g. saved_doc env s' = Some (snapshot g) \<and> at_least held g)
    \<and> (\<forall>d. r = Inr d \<and> forbids held rq \<longrightarrow> \<not> rd_approved d)"
proof -
  have "holds_durably env held s" by (rule steps_hold[OF assms(4,1) new_holds[OF assms(3)]])
  note h = assess_held[OF assms(1) this assms(5)]
  have "\<not> rd_approved d" if "r = Inr d" "forbids held rq" for d
    using h that at_least_forbids forbidden_not_approved[of lc ins issue policy rq] assms(2) by metis
  with h show ?thesis by (auto simp: holds_durably_def)
qed

text \<open>
  While a store is configured and cannot be used, no permit is given: an assessment that does not find
  the store usable is the refusal \<^verbatim>\<open>control_state_available\<close>, carries no permit and leaves the governor
  and the table as they are; and a store that just failed is not asked again before the retry interval.
\<close>

theorem unusable_store_refuses:
  assumes "sf_engine s" "sf_status s = UNAVAILABLE"
    and "(\<exists>t. sf_last_attempt s = Some t \<and> fa_clock f1 - t < RETRY_INTERVAL) \<or> \<not> fa_start f1"
  shows "\<exists>s'. surface_assess env f1 f2 rq s = (Inr refused_unavailable, s')
    \<and> \<not> rd_approved refused_unavailable \<and> rd_permit refused_unavailable = None
    \<and> sf_governor s' = sf_governor s \<and> sf_rows s' = sf_rows s \<and> sf_status s' = UNAVAILABLE
    \<and> sf_generation s' = sf_generation s"
proof -
  obtain b s1 where ensure: "store_ensure f1 s = (b, s1)" by fastforce
  have s1: "\<not> b" "sf_generation s1 = sf_generation s"
    using assms ensure by (auto simp: store_ensure_def store_start_def mark_unavailable_def Let_def split: if_splits)
  have "governor_ready env f1 s = (Inr (), s1)" using assms(1) ensure s1(1) by (simp add: governor_ready_def)
  moreover have "sf_governor s1 = sf_governor s" "sf_rows s1 = sf_rows s" "sf_status s1 = UNAVAILABLE"
    using ensure_result[OF assms(1) _ ensure] assms(2) s1(1) by simp_all
  ultimately show ?thesis
    using s1(2) by (auto simp: surface_assess_def assess_ready_def op_bind_def accepts_new_risk_def event_def refused_unavailable_def)
qed

text \<open>
  A release that the governor refuses or the store does not save puts the controls back as they were
  before it, whatever other calls did to the process while the save was awaited. So a kill switch that
  another call set in that time is lost from memory.
\<close>

lemma unsaved_release_restores:
  assumes "surface_release env f between release s = (Inl (HTTPException status m), s')"
    "\<And>g e. fst (release g) = Inl e \<Longrightarrow> e \<noteq> HTTPException status m" "\<And>s1. fst (persist_controls env f s1) \<noteq> Inl (HTTPException status m)"
  shows "sf_governor s' = sf_governor s"
proof -
  obtain r g where g: "release (sf_governor s) = (r, g)" by fastforce
  have "r = Inr ()"
  proof (cases r)
    case (Inl e)
    then have "e = HTTPException status m" using assms(1) g by (simp add: surface_release_def on_governor_def Let_def replace_snapshot)
    then show ?thesis using assms(2)[of "sf_governor s" e] g Inl by simp
  qed simp
  obtain p s2 where p: "persist_controls env f (s\<lparr>sf_governor := g\<rparr>) = (p, s2)" by fastforce
  have "p \<noteq> Inl (HTTPException status m)" using assms(3)[of "s\<lparr>sf_governor := g\<rparr>"] p by simp
  then have "p = Inr False"
    using assms(1) g p \<open>r = Inr ()\<close>
    by (auto simp: surface_release_def on_governor_def Let_def split: sum.splits bool.splits)
  then show ?thesis using assms(1) g p \<open>r = Inr ()\<close>
    by (auto simp: surface_release_def on_governor_def Let_def replace_snapshot)
qed

subsection \<open>Examples\<close>

text \<open>A text form of control documents that can be read back.\<close>

definition enc_text :: "string \<Rightarrow> string" where
  "enc_text s = concat (map (\<lambda>c. [CHR ''c'', c]) s) @ ''.''"

fun dec_text :: "string \<Rightarrow> string \<times> string" where
  "dec_text (a # c # r) = (if a = CHR ''c'' then (case dec_text r of (s, rest) \<Rightarrow> (c # s, rest)) else ([], c # r))"
| "dec_text r = ([], [])"

lemma dec_enc_text: "dec_text (enc_text s @ rest) = (s, rest)"
proof (induction s)
  case Nil
  then show ?case by (cases rest) (simp_all add: enc_text_def)
next
  case (Cons c s)
  then show ?case by (simp add: enc_text_def)
qed

fun dec_many :: "nat \<Rightarrow> string \<Rightarrow> string list \<times> string" where
  "dec_many 0 r = ([], r)"
| "dec_many (Suc n) r = (case dec_text r of (s, r1) \<Rightarrow> (case dec_many n r1 of (ss, r2) \<Rightarrow> (s # ss, r2)))"

lemma dec_many_enc: "dec_many (length xs) (concat (map enc_text xs) @ rest) = (xs, rest)"
  by (induction xs) (simp_all add: dec_enc_text)

definition enc_texts :: "string list \<Rightarrow> string" where
  "enc_texts xs = replicate (length xs) (CHR ''n'') @ ''.'' @ concat (map enc_text xs)"

definition dec_texts :: "string \<Rightarrow> string list \<times> string" where
  "dec_texts r = (let n = length (takeWhile (\<lambda>c. c = CHR ''n'') r) in dec_many n (drop (n + 1) r))"

lemma dec_enc_texts: "dec_texts (enc_texts xs @ rest) = (xs, rest)"
proof -
  have "takeWhile (\<lambda>c. c = CHR ''n'') (replicate k (CHR ''n'') @ CHR ''.'' # r) = replicate k (CHR ''n'')" for k r
    by (induction k) simp_all
  then show ?thesis by (simp add: dec_texts_def enc_texts_def dec_many_enc)
qed

definition enc_doc :: "control_doc \<Rightarrow> string" where
  "enc_doc d = enc_texts (cd_killed_venues d) @ enc_texts (cd_killed_strategies d)
     @ enc_texts ((if cd_global_kill d then [''T''] else []) @ [''L'']) @ enc_texts (case cd_lockdown d of None \<Rightarrow> [] | Some t \<Rightarrow> [t])"

definition dec_doc :: "string \<Rightarrow> control_doc" where
  "dec_doc r =
     (case dec_texts r of (venues, r1) \<Rightarrow> case dec_texts r1 of (strategies, r2) \<Rightarrow> case dec_texts r2 of (flags, r3) \<Rightarrow>
      case dec_texts r3 of (lockdown, _) \<Rightarrow>
        \<lparr>cd_global_kill = (length flags = 2), cd_killed_venues = venues, cd_killed_strategies = strategies,
         cd_lockdown = (case lockdown of [] \<Rightarrow> None | t # _ \<Rightarrow> Some t)\<rparr>)"

lemma dec_enc_doc: "dec_doc (enc_doc d) = d"
proof -
  have last: "dec_texts (enc_texts xs) = (xs, [])" for xs using dec_enc_texts[of xs "[]"] by simp
  show ?thesis by (cases "cd_lockdown d") (simp_all add: dec_doc_def enc_doc_def dec_enc_texts last)
qed

definition ex_surface_env :: surface_env where
  "ex_surface_env = \<lparr>se_dumps = enc_doc, se_loads = dec_doc, se_engine = ex_engine, se_automatic_kill = True\<rparr>"

definition ex_faults :: faults where
  "ex_faults = \<lparr>fa_start = True, fa_get = True, fa_inner = Saved, fa_put = Saved, fa_error = ''OperationalError'',
     fa_clock = 0, fa_now = 0\<rparr>"

theorem saved_controls_outlive_restarts_witness:
  "let rows = control_put enc_doc 0 CONTROLS_KEY (snapshot ex_governor) [];
       out = surface_assess ex_surface_env ex_faults ex_faults (ex_request 10000) (restart (surface_new True rows))
   in (\<exists>g. saved_doc ex_surface_env (snd out) = Some (snapshot g) \<and> at_least ex_governor g)
      \<and> (\<forall>d. fst out = Inr d \<longrightarrow> \<not> rd_approved d)"
proof -
  let ?rows = "control_put enc_doc 0 CONTROLS_KEY (snapshot ex_governor) []"
  let ?s = "restart (surface_new True ?rows)"
  let ?out = "surface_assess ex_surface_env ex_faults ex_faults (ex_request 10000) ?s"
  have env: "faithful ex_surface_env" "se_engine ex_surface_env = ex_engine"
    by (simp_all add: faithful_def ex_surface_env_def dec_enc_doc)
  have row: "control_get (se_loads ex_surface_env) CONTROLS_KEY ?rows = Some (snapshot ex_governor)"
    by (simp add: control_get_put ex_surface_env_def dec_enc_doc)
  have "forbids ex_governor (ex_request 10000)"
    by (simp add: forbids_def ex_governor_def ex_request_def ex_buy_def ex_intent_def)
  moreover have steps: "(surface_step ex_surface_env)\<^sup>*\<^sup>* (surface_new True ?rows) ?s"
    by (rule r_into_rtranclp) (rule restarted)
  moreover note saved_controls_outlive_restarts[OF env row steps, of ex_faults ex_faults "ex_request 10000"
      "fst ?out" "snd ?out"]
  ultimately show ?thesis by (simp add: Let_def)
qed

theorem unusable_store_refuses_witness:
  "\<exists>s'. surface_assess ex_surface_env (ex_faults\<lparr>fa_start := False\<rparr>) ex_faults (ex_request 10000)
      ((surface_new True [])\<lparr>sf_status := UNAVAILABLE\<rparr>) = (Inr refused_unavailable, s') \<and> sf_status s' = UNAVAILABLE"
  using unusable_store_refuses[of "(surface_new True [])\<lparr>sf_status := UNAVAILABLE\<rparr>" "ex_faults\<lparr>fa_start := False\<rparr>"
      ex_surface_env ex_faults "ex_request 10000"]
  by (auto simp: surface_new_def ex_faults_def)

text \<open>
  A save whose acknowledgement is lost is taken for one that did not happen. A release that ends so is
  reported as not applied and undone in memory, the table keeps the released controls, and since the
  process still believes its last snapshot is saved, the next save answers yes without writing: after a
  restart the lockdown is gone.
\<close>

definition ex_locked :: surface where
  "ex_locked = (surface_new True (control_put enc_doc 0 CONTROLS_KEY (snapshot (governor_new\<lparr>gv_lockdown := Some DRAWDOWN\<rparr>)) []))
     \<lparr>sf_status := DURABLE, sf_generation := 1, sf_loaded := Some 1, sf_governor := governor_new\<lparr>gv_lockdown := Some DRAWDOWN\<rparr>,
      sf_saved := Some (snapshot (governor_new\<lparr>gv_lockdown := Some DRAWDOWN\<rparr>))\<rparr>"

lemma lost_acknowledgement_hides_release:
  defines "refused \<equiv> surface_release ex_surface_env (ex_faults\<lparr>fa_put := Saved_Then_Lost\<rparr>) id (release_all [ex_account]) ex_locked"
  defines "later \<equiv> persist_controls ex_surface_env ex_faults (snd refused)"
  shows "fst refused = Inl (HTTPException 503 ''durable control store unavailable; release not applied'')"
    and "gv_lockdown (sf_governor (snd later)) = Some DRAWDOWN" and "fst later = Inr True"
    and "saved_doc ex_surface_env (snd later) = Some (snapshot governor_new)"
proof -
  have n: "evaluate_breach ex_account = None" by code_simp
  define s2 where "s2 = snd refused"
  have rel: "release_all [ex_account] (governor_new\<lparr>gv_lockdown := Some DRAWDOWN\<rparr>) = (Inr (), governor_new)"
    by (simp add: release_lockdown_def n governor_new_def)
  have neq: "snapshot governor_new \<noteq> snapshot (governor_new\<lparr>gv_lockdown := Some DRAWDOWN\<rparr>)"
    by (simp add: snapshot_def governor_new_def)
  have refused: "fst refused = Inl (HTTPException 503 ''durable control store unavailable; release not applied'')
    \<and> sf_governor s2 = governor_new\<lparr>gv_lockdown := Some DRAWDOWN\<rparr> \<and> sf_status s2 = UNAVAILABLE \<and> sf_engine s2
    \<and> sf_last_attempt s2 = Some 0 \<and> sf_loaded s2 = Some 1 \<and> sf_generation s2 = 1
    \<and> sf_saved s2 = Some (snapshot (governor_new\<lparr>gv_lockdown := Some DRAWDOWN\<rparr>))
    \<and> saved_doc ex_surface_env s2 = Some (snapshot governor_new)"
    using neq rel
    by (simp add: s2_def refused_def surface_release_def on_governor_def ex_locked_def surface_new_def persist_controls_def
        governor_ready_def store_ensure_def op_bind_def save_snapshot_def ex_faults_def mark_unavailable_def
        replace_snapshot saved_doc_def control_get_put ex_surface_env_def dec_enc_doc Let_def)
  then have "later = (Inr True, s2)"
    by (simp add: later_def s2_def[symmetric] persist_controls_def governor_ready_def store_ensure_def op_bind_def
        save_snapshot_def ex_faults_def RETRY_INTERVAL_def Let_def)
  with refused show "fst refused = Inl (HTTPException 503 ''durable control store unavailable; release not applied'')"
    "gv_lockdown (sf_governor (snd later)) = Some DRAWDOWN" "fst later = Inr True"
    "saved_doc ex_surface_env (snd later) = Some (snapshot governor_new)" by simp_all
qed

end
