(* ===== verification/Rate_Limiter.thy ===== *)
theory Rate_Limiter
  imports Prelude
begin

text \<open>
  The sliding-window rate limiter of the API (\<^verbatim>\<open>apps/api/app/security.py\<close>) and the key it is asked for. A
  call holds the limiter's lock from the reading of the window to the end; the clock is monotonic, its
  readings are exact numbers. The specification keeps the log of all allowed calls and counts those in
  the window.
\<close>

record limiter =
  lm_limit :: nat
  lm_window :: rat
  lm_hits :: "(string, rat list) dict"

definition limiter_new :: "int \<Rightarrow> rat \<Rightarrow> limiter res" where
  "limiter_new limit window_seconds =
     (if limit < 1 then Inl (ValueError ''rate limit must be positive'')
      else if window_seconds \<le> 0 then Inl (ValueError ''rate limit window must be positive'')
      else Inr \<lparr>lm_limit = nat limit, lm_window = window_seconds, lm_hits = []\<rparr>)"

definition allow :: "rat \<Rightarrow> string \<Rightarrow> limiter \<Rightarrow> bool \<times> limiter" where
  "allow now key l =
     (let cutoff = now - lm_window l;
          hits = dropWhile (\<lambda>t. t \<le> cutoff) (dget_or (lm_hits l) key [])
      in if lm_limit l \<le> length hits then (False, l\<lparr>lm_hits := dset key hits (lm_hits l)\<rparr>)
         else (True, l\<lparr>lm_hits := dset key (hits @ [now]) (lm_hits l)\<rparr>))"

definition limiter_reset :: "limiter \<Rightarrow> limiter" where
  "limiter_reset l = l\<lparr>lm_hits := []\<rparr>"

definition request_client_key :: "string option \<Rightarrow> string" where
  "request_client_key host = (case host of None \<Rightarrow> ''unknown'' | Some h \<Rightarrow> h)"

section \<open>The window as a count over the log\<close>

fun allow_run :: "(string \<times> rat) list \<Rightarrow> limiter \<Rightarrow> bool list" where
  "allow_run [] l = []"
| "allow_run ((key, now) # calls) l = (case allow now key l of (ok, l') \<Rightarrow> ok # allow_run calls l')"

text \<open>The allowed calls of a key after an instant.\<close>

definition allowed_since :: "string \<Rightarrow> rat \<Rightarrow> (string \<times> rat) list \<Rightarrow> rat list" where
  "allowed_since key t past_calls = filter (\<lambda>u. t < u) (map snd (filter (\<lambda>c. fst c = key) past_calls))"

fun window_run :: "nat \<Rightarrow> rat \<Rightarrow> (string \<times> rat) list \<Rightarrow> (string \<times> rat) list \<Rightarrow> bool list" where
  "window_run limit window past_calls [] = []"
| "window_run limit window past_calls ((key, now) # calls) =
     (let ok = length (allowed_since key (now - window) past_calls) < limit
      in ok # window_run limit window (if ok then past_calls @ [(key, now)] else past_calls) calls)"

text \<open>The calls a run allowed.\<close>

definition allowed_calls :: "(string \<times> rat) list \<Rightarrow> bool list \<Rightarrow> (string \<times> rat) list" where
  "allowed_calls calls answers = map fst (filter snd (zip calls answers))"

lemma allowed_since_append [simp]:
  "allowed_since key t (past_calls @ [(k, u)]) = allowed_since key t past_calls @ (if k = key \<and> t < u then [u] else [])"
  by (simp add: allowed_since_def)

lemma dropWhile_le_twice:
  fixes c :: rat
  shows "c \<le> d \<Longrightarrow> dropWhile (\<lambda>t. t \<le> d) (dropWhile (\<lambda>t. t \<le> c) xs) = dropWhile (\<lambda>t. t \<le> d) xs"
  by (induction xs) auto

lemma dropWhile_snoc_le:
  fixes c :: rat
  assumes "\<And>u. u \<in> set xs \<Longrightarrow> u \<le> t"
  shows "dropWhile (\<lambda>t. t \<le> c) (xs @ [t]) = dropWhile (\<lambda>t. t \<le> c) xs @ (if c < t then [t] else [])"
proof (cases "\<forall>u \<in> set xs. u \<le> c")
  case True
  then have "dropWhile (\<lambda>t. t \<le> c) xs = []" by simp
  then show ?thesis using True by (simp only: dropWhile_append2) simp
next
  case False
  then obtain u where "u \<in> set xs" "c < u" by auto
  with assms[of u] show ?thesis by (auto simp: dropWhile_append1)
qed

text \<open>The hits of a key are its allowed calls, up to those that fell out of the window.\<close>

definition tracks :: "rat \<Rightarrow> (string \<times> rat) list \<Rightarrow> limiter \<Rightarrow> bool" where
  "tracks now past_calls l \<longleftrightarrow> (\<forall>key c. now - lm_window l \<le> c \<longrightarrow>
     dropWhile (\<lambda>t. t \<le> c) (dget_or (lm_hits l) key []) = allowed_since key c past_calls)
     \<and> (\<forall>key. \<forall>u \<in> set (dget_or (lm_hits l) key []). u \<le> now)"

lemma allow_tracks:
  assumes "tracks past past_calls l" "past \<le> now" "allow now key l = (ok, l')"
  shows "ok \<longleftrightarrow> length (allowed_since key (now - lm_window l) past_calls) < lm_limit l"
    and "tracks now (if ok then past_calls @ [(key, now)] else past_calls) l'"
    and "lm_limit l' = lm_limit l" "lm_window l' = lm_window l"
proof -
  let ?cut = "now - lm_window l"
  define hits where "hits = dropWhile (\<lambda>t. t \<le> ?cut) (dget_or (lm_hits l) key [])"
  have cut: "past - lm_window l \<le> ?cut" using assms(2) by simp
  have hits: "hits = allowed_since key ?cut past_calls" using assms(1) cut by (simp add: tracks_def hits_def)
  have l': "ok \<longleftrightarrow> length hits < lm_limit l" "l' = l\<lparr>lm_hits := dset key (if ok then hits @ [now] else hits) (lm_hits l)\<rparr>"
    using assms(3) by (auto simp: allow_def Let_def hits_def split: if_splits)
  show "ok \<longleftrightarrow> length (allowed_since key ?cut past_calls) < lm_limit l" using l' hits by simp
  show "lm_limit l' = lm_limit l" "lm_window l' = lm_window l" by (simp_all add: l'(2))
  have old: "\<And>k u. u \<in> set (dget_or (lm_hits l) k []) \<Longrightarrow> u \<le> now" using assms(1,2) by (force simp: tracks_def)
  then have le: "\<And>u. u \<in> set hits \<Longrightarrow> u \<le> now" using set_dropWhileD by (fastforce simp: hits_def)
  have "dropWhile (\<lambda>t. t \<le> c) hits = allowed_since key c past_calls" if "?cut \<le> c" for c
  proof -
    have "dropWhile (\<lambda>t. t \<le> c) hits = dropWhile (\<lambda>t. t \<le> c) (dget_or (lm_hits l) key [])"
      unfolding hits_def by (rule dropWhile_le_twice[OF that])
    also have "\<dots> = allowed_since key c past_calls"
      using assms(1) order_trans[OF cut that] unfolding tracks_def by blast
    finally show ?thesis .
  qed
  then show "tracks now (if ok then past_calls @ [(key, now)] else past_calls) l'"
    using assms(1) cut le old dropWhile_snoc_le[OF le]
    by (auto simp: tracks_def l'(2) dget_or_def)
qed

lemma allow_run_window:
  assumes "tracks past past_calls l" "sorted (past # map snd calls)"
  shows "allow_run calls l = window_run (lm_limit l) (lm_window l) past_calls calls"
  using assms
proof (induction calls l arbitrary: past past_calls rule: allow_run.induct)
  case (2 key now calls l)
  obtain ok l' where a: "allow now key l = (ok, l')" by fastforce
  have "past \<le> now" using 2(3) by simp
  note t = allow_tracks[OF 2(2) this a]
  have "allow_run calls l' = window_run (lm_limit l') (lm_window l') (if ok then past_calls @ [(key, now)] else past_calls) calls"
    by (rule 2(1)[OF a[symmetric] t(2)]) (use 2(3) in simp)
  then show ?case using a t by (simp add: Let_def)
qed simp

text \<open>A window of the specification never holds more than the limit.\<close>

lemma length_filter_imp:
  "(\<And>x. x \<in> set xs \<Longrightarrow> P x \<Longrightarrow> Q x) \<Longrightarrow> length (filter P xs) \<le> length (filter Q xs)"
  by (induction xs) auto

lemma window_run_bounded:
  assumes "sorted (map snd (past_calls @ calls))" "0 < limit"
    and "\<And>key t. length (filter (\<lambda>u. u \<le> t) (allowed_since key (t - w) past_calls)) \<le> limit"
  shows "length (filter (\<lambda>u. u \<le> t)
    (allowed_since key (t - w) (past_calls @ allowed_calls calls (window_run limit w past_calls calls)))) \<le> limit"
  using assms
proof (induction calls arbitrary: past_calls)
  case Nil
  then show ?case by (simp add: allowed_calls_def)
next
  case (Cons c calls)
  obtain k now where c: "c = (k, now)" by fastforce
  define ok where "ok \<longleftrightarrow> length (allowed_since k (now - w) past_calls) < limit"
  define next_calls where "next_calls = (if ok then past_calls @ [(k, now)] else past_calls)"
  have later: "past_calls @ allowed_calls (c # calls) (window_run limit w past_calls (c # calls))
    = next_calls @ allowed_calls calls (window_run limit w next_calls calls)"
    by (simp add: allowed_calls_def ok_def next_calls_def c Let_def)
  have "length (filter (\<lambda>u. u \<le> t) (allowed_since key (t - w) next_calls)) \<le> limit" for key t
  proof (cases "ok \<and> k = key \<and> t - w < now \<and> now \<le> t")
    case False
    then show ?thesis using Cons(4)[of t key] by (auto simp: next_calls_def)
  next
    case True
    have "length (filter (\<lambda>u. u \<le> t) (allowed_since key (t - w) past_calls)) \<le> length (allowed_since key (now - w) past_calls)"
      unfolding allowed_since_def filter_filter by (rule length_filter_imp) (use True in auto)
    also have "\<dots> < limit" using True unfolding ok_def by blast
    finally have "length (filter (\<lambda>u. u \<le> t) (allowed_since key (t - w) past_calls)) < limit" .
    then show ?thesis using True by (simp add: next_calls_def)
  qed
  moreover have "sorted (map snd (next_calls @ calls))"
    using Cons(2) by (auto simp: sorted_append c next_calls_def)
  ultimately show ?case unfolding later using Cons(1) Cons(3) by blast
qed

section \<open>Properties\<close>

text \<open>
  C40: The limiter is an exact sliding window. For a limiter as constructed and any calls in clock order,
  for any keys, a call is allowed exactly when fewer than the limit of the earlier calls of its key that
  were allowed lie less than a window back; so no window of that length ever holds more than the limit
  of allowed calls of a key.
\<close>

theorem limiter_is_sliding_window:
  assumes "limiter_new limit w = Inr l" and "sorted (map snd calls)"
  shows "allow_run calls l = window_run (nat limit) w [] calls
    \<and> length (filter (\<lambda>u. u \<le> t) (allowed_since key (t - w) (allowed_calls calls (allow_run calls l)))) \<le> nat limit"
proof -
  have l: "lm_limit l = nat limit" "lm_window l = w" "lm_hits l = []" "0 < nat limit"
    using assms(1) by (auto simp: limiter_new_def split: if_splits)
  have run: "allow_run calls l = window_run (nat limit) w [] calls"
  proof (cases calls)
    case (Cons c cs)
    have "tracks (snd c) [] l" using l by (simp add: tracks_def dget_or_def allowed_since_def)
    then show ?thesis using allow_run_window[of "snd c" "[]" l calls] assms(2) l Cons by simp
  qed simp
  moreover have "length (filter (\<lambda>u. u \<le> t) (allowed_since key (t - w) ([] @ allowed_calls calls (window_run (nat limit) w [] calls)))) \<le> nat limit"
    by (rule window_run_bounded) (use assms(2) l(4) in \<open>simp_all add: allowed_since_def\<close>)
  ultimately show ?thesis by simp
qed

theorem limiter_is_sliding_window_witness:
  "\<exists>l. limiter_new 2 60 = Inr l \<and> allow_run [(''a'', 0), (''a'', 10), (''b'', 20), (''a'', 30), (''a'', 60)] l
     = [True, True, True, False, True]"
proof -
  obtain l where l: "limiter_new 2 60 = Inr l" by (simp add: limiter_new_def)
  have "window_run (nat 2) 60 [] [(''a'', 0), (''a'', 10), (''b'', 20), (''a'', 30), (''a'', 60)] = [True, True, True, False, True]"
    by code_simp
  then show ?thesis
    using limiter_is_sliding_window[OF l, of "[(''a'', 0), (''a'', 10), (''b'', 20), (''a'', 30), (''a'', 60)]"] l by simp
qed

end
