(* ===== verification/OAuth.thy ===== *)
theory OAuth
  imports Control_Plane Rate_Limiter
begin

text \<open>
  The OAuth 2.1 authorization server of the read-only MCP endpoint (\<^verbatim>\<open>apps/api/app/mcp_oauth.py\<close>): client
  registration, the operator's consent, authorization codes, access and rotating refresh tokens,
  revocation, and the document that keeps clients and token digests across restarts.

  The state is the process (clients, codes, grants, the two rate limiters) and the control table. Every
  request names its instant, the limiter's clock, the random texts the server would draw and the fate of
  its write to the table. SHA-256, the PKCE transform, the fingerprint of the MCP token, the splitting
  of a URL and of a form, and JSON are parameters. Pages and headers are not kept, only what a response
  decides; journal entries are not kept.
\<close>

section \<open>Data\<close>

definition SCOPE :: string where "SCOPE = ''proto.read''"
definition ALLOWED_REDIRECT_HOSTS :: "string list" where "ALLOWED_REDIRECT_HOSTS = [''chatgpt.com'', ''chat.openai.com'']"
definition CODE_TTL :: timedelta where "CODE_TTL = seconds 60"
definition ACCESS_TTL :: timedelta where "ACCESS_TTL = minutes 60"
definition REFRESH_TTL :: timedelta where "REFRESH_TTL = days 30"
definition MAX_CLIENTS :: nat where "MAX_CLIENTS = 20"
definition MAX_TOKENS :: nat where "MAX_TOKENS = 200"
definition MAX_FORM_BYTES :: nat where "MAX_FORM_BYTES = 8 * 1024"
definition OAUTH_STATE_KEY :: string where "OAUTH_STATE_KEY = ''mcp_oauth''"

record oauth_client =
  cl_id :: string
  cl_redirect_uris :: "string list"
  cl_name :: string

record oauth_code =
  co_client_id :: string
  co_redirect_uri :: string
  co_challenge :: string
  co_resource :: string
  co_expires_at :: instant

record oauth_grant =
  gr_client_id :: string
  gr_kind :: string
  gr_expires_at :: instant

text \<open>The saved document as it is read back: entries whose fields may be missing or unreadable.\<close>

record raw_client =
  rc_client_id :: "string option"
  rc_redirect_uris :: "string option list"
  rc_name :: "string option"

record oauth_document =
  od_token_fingerprint :: "string option"
  od_clients :: "raw_client list"
  od_grants :: "(string, oauth_grant option) dict"

record url_parts =
  up_scheme :: string
  up_hostname :: "string option"
  up_port :: "int option"
  up_username :: "string option"
  up_password :: "string option"
  up_path :: string
  up_query :: string
  up_fragment :: string

record oauth_env =
  oe_mcp_enabled :: bool
  oe_mcp_api_token :: "string option"
  oe_public_origin :: "string option"
  oe_store :: bool
  oe_urlsplit :: "string \<Rightarrow> url_parts res"
  oe_digest :: "string \<Rightarrow> string"
  oe_s256 :: "string \<Rightarrow> string"
  oe_fingerprint :: "string \<Rightarrow> string"
  oe_parse_qsl :: "string \<Rightarrow> (string \<times> string) list option"
  oe_dumps :: "oauth_document \<Rightarrow> string"
  oe_loads :: "string \<Rightarrow> oauth_document"

record oauth =
  oa_clients :: "(string, oauth_client) dict"
  oa_codes :: "(string, oauth_code) dict"
  oa_grants :: "(string, oauth_grant) dict"
  oa_approvals :: limiter
  oa_requests :: limiter
  oa_rows :: control_table

text \<open>What a request brings from outside: clocks, client host, random texts, and the fate of a write.\<close>

record call =
  ca_now :: instant
  ca_clock :: rat
  ca_host :: "string option"
  ca_random :: "string \<times> string"
  ca_fate :: store_fate

datatype oauth_response =
    Not_Found
  | Oauth_Error int string
  | Redirected string "(string \<times> string) list"
  | Consent_Page string
  | Registered oauth_client
  | Tokens string string

section \<open>Texts\<close>

fun rstrip_slash :: "string \<Rightarrow> string" where
  "rstrip_slash s = rev (dropWhile (\<lambda>c. c = CHR ''/'') (rev s))"

definition is_space :: "char \<Rightarrow> bool" where
  "is_space c = (let n = of_char c :: nat in n = 32 \<or> (9 \<le> n \<and> n \<le> 13) \<or> (28 \<le> n \<and> n \<le> 31))"

text \<open>\<^verbatim>\<open>str.split()\<close> on ASCII text.\<close>

function (sequential) split_words :: "string \<Rightarrow> string list" where
  "split_words [] = []"
| "split_words (c # cs) =
     (if is_space c then split_words cs
      else (c # takeWhile (\<lambda>d. \<not> is_space d) cs) # split_words (dropWhile (\<lambda>d. \<not> is_space d) cs))"
  by pat_completeness auto
termination by (relation "measure length") (auto simp: less_Suc_eq_le length_dropWhile_le)

definition is_ascii :: "string \<Rightarrow> bool" where
  "is_ascii s = list_all (\<lambda>c. (of_char c :: nat) < 128) s"

definition is_digits :: "string \<Rightarrow> bool" where
  "is_digits s = (s \<noteq> [] \<and> list_all (\<lambda>c. (48 :: nat) \<le> of_char c \<and> (of_char c :: nat) \<le> 57) s)"

section \<open>Availability\<close>

definition issuer :: "oauth_env \<Rightarrow> string option res" where
  "issuer env =
     (let origin = rstrip_slash (case oe_public_origin env of None \<Rightarrow> '''' | Some o' \<Rightarrow> o') in
      if \<not> startswith origin ''https://'' then Inr None
      else res_bind (oe_urlsplit env origin) (\<lambda>parts.
             Inr (if up_path parts \<noteq> '''' \<and> up_path parts \<noteq> ''/'' then None else Some origin)))"

definition oauth_available :: "oauth_env \<Rightarrow> bool res" where
  "oauth_available env =
     (if \<not> oe_mcp_enabled env \<or> oe_mcp_api_token env = None \<or> oe_mcp_api_token env = Some '''' then Inr False
      else res_bind (issuer env) (\<lambda>i. Inr (i \<noteq> None)))"

definition resource_url :: "oauth_env \<Rightarrow> string" where
  "resource_url env = (case issuer env of Inr (Some i) \<Rightarrow> i @ ''/mcp'' | _ \<Rightarrow> ''None/mcp'')"

definition valid_access_token :: "oauth_env \<Rightarrow> instant \<Rightarrow> string \<Rightarrow> oauth \<Rightarrow> bool res" where
  "valid_access_token env now token s =
     res_bind (oauth_available env) (\<lambda>on.
       Inr (on \<and> token \<noteq> '''' \<and>
         (case dget (oa_grants s) (oe_digest env token) of
            None \<Rightarrow> False
          | Some grant \<Rightarrow> gr_kind grant = ''access'' \<and> now < gr_expires_at grant)))"

section \<open>Pruning and the saved document\<close>

definition prune :: "instant \<Rightarrow> oauth \<Rightarrow> oauth" where
  "prune now s = s\<lparr>oa_codes := filter (\<lambda>(k, v). now < co_expires_at v) (oa_codes s),
                   oa_grants := filter (\<lambda>(k, v). now < gr_expires_at v) (oa_grants s)\<rparr>"

definition token_fingerprint :: "oauth_env \<Rightarrow> string" where
  "token_fingerprint env = oe_fingerprint env (case oe_mcp_api_token env of None \<Rightarrow> '''' | Some t \<Rightarrow> t)"

definition document :: "oauth_env \<Rightarrow> oauth \<Rightarrow> oauth_document" where
  "document env s =
     \<lparr>od_token_fingerprint = Some (token_fingerprint env),
      od_clients = map (\<lambda>c. \<lparr>rc_client_id = Some (cl_id c), rc_redirect_uris = map Some (cl_redirect_uris c),
                             rc_name = Some (cl_name c)\<rparr>) (dvalues (oa_clients s)),
      od_grants = map (\<lambda>(k, g). (k, Some g)) (oa_grants s)\<rparr>"

definition persist :: "oauth_env \<Rightarrow> call \<Rightarrow> oauth \<Rightarrow> oauth" where
  "persist env ca s =
     (if \<not> oe_store env then s
      else let s1 = prune (ca_now ca) s in
           if ca_fate ca = Not_Saved then s1
           else s1\<lparr>oa_rows := control_put (oe_dumps env) (ca_now ca) OAUTH_STATE_KEY (document env s1) (oa_rows s1)\<rparr>)"

definition truth :: "string option \<Rightarrow> bool" where
  "truth s \<longleftrightarrow> s \<noteq> None \<and> s \<noteq> Some ''''"

definition allowed_redirect :: "oauth_env \<Rightarrow> string \<Rightarrow> bool res" where
  "allowed_redirect env uri =
     res_bind (oe_urlsplit env uri) (\<lambda>parts.
       Inr (up_scheme parts = ''https''
         \<and> (case up_hostname parts of None \<Rightarrow> False | Some h \<Rightarrow> h \<in> set ALLOWED_REDIRECT_HOSTS)
         \<and> up_port parts = None \<and> \<not> truth (up_username parts) \<and> \<not> truth (up_password parts)
         \<and> up_fragment parts = '''' \<and> length uri \<le> 512))"

text \<open>\<^verbatim>\<open>all(...)\<close> stops at the first URL that is not allowed.\<close>

fun all_allowed :: "oauth_env \<Rightarrow> string list \<Rightarrow> bool res" where
  "all_allowed env [] = Inr True"
| "all_allowed env (u # us) = res_bind (allowed_redirect env u) (\<lambda>ok. if ok then all_allowed env us else Inr False)"

definition restore_client :: "oauth_env \<Rightarrow> raw_client \<Rightarrow> (string, oauth_client) dict \<Rightarrow> (string, oauth_client) dict res" where
  "restore_client env raw clients =
     (let uris = List.map_filter (\<lambda>u. u) (rc_redirect_uris raw) in
      if \<not> truth (rc_client_id raw) \<or> uris = [] then Inr clients
      else res_bind (all_allowed env uris) (\<lambda>ok.
             if \<not> ok then Inr clients
             else let client = \<lparr>cl_id = the (rc_client_id raw), cl_redirect_uris = uris,
                         cl_name = take 80 (if truth (rc_name raw) then the (rc_name raw) else ''ChatGPT'')\<rparr>
                  in Inr (if dget clients (cl_id client) = None then dset (cl_id client) client clients else clients)))"

definition restore_grant ::
    "instant \<Rightarrow> (string, oauth_client) dict \<Rightarrow> string \<times> oauth_grant option \<Rightarrow> (string, oauth_grant) dict \<Rightarrow> (string, oauth_grant) dict" where
  "restore_grant now clients = (\<lambda>(key, raw) grants.
     case raw of
       None \<Rightarrow> grants
     | Some grant \<Rightarrow>
         if (gr_kind grant = ''access'' \<or> gr_kind grant = ''refresh'') \<and> dget clients (gr_client_id grant) \<noteq> None
            \<and> now < gr_expires_at grant \<and> dget grants key = None
         then dset key grant grants else grants)"

fun restore_clients :: "oauth_env \<Rightarrow> raw_client list \<Rightarrow> (oauth, unit) op" where
  "restore_clients env [] s = (Inr (), s)"
| "restore_clients env (raw # raws) s =
     (case restore_client env raw (oa_clients s) of
        Inl e \<Rightarrow> (Inl e, s)
      | Inr clients \<Rightarrow> restore_clients env raws (s\<lparr>oa_clients := clients\<rparr>))"

definition restore_oauth :: "oauth_env \<Rightarrow> instant \<Rightarrow> bool \<Rightarrow> (oauth, unit) op" where
  "restore_oauth env now readable s =
     (if \<not> oe_store env \<or> \<not> oe_mcp_enabled env \<or> \<not> readable then (Inr (), s)
      else (case control_get (oe_loads env) OAUTH_STATE_KEY (oa_rows s) of
              None \<Rightarrow> (Inr (), s)
            | Some saved \<Rightarrow>
                if od_token_fingerprint saved \<noteq> Some (token_fingerprint env) then (Inr (), s)
                else op_bind (restore_clients env (od_clients saved)) (\<lambda>_.
                       op_modify (\<lambda>s1. s1\<lparr>oa_grants := fold (restore_grant now (oa_clients s1)) (od_grants saved) (oa_grants s1)\<rparr>)) s))"

section \<open>Forms\<close>

fun read_body :: "string list \<Rightarrow> string \<Rightarrow> string option" where
  "read_body [] body = Some body"
| "read_body (chunk # chunks) body =
     (if MAX_FORM_BYTES < length (body @ chunk) then None else read_body chunks (body @ chunk))"

fun form_dict :: "(string \<times> string) list \<Rightarrow> (string, string) dict \<Rightarrow> (string, string) dict option" where
  "form_dict [] form = Some form"
| "form_dict ((key, value) # pairs) form =
     (if dget form key \<noteq> None then None else form_dict pairs (dset key value form))"

definition read_form :: "oauth_env \<Rightarrow> string option \<Rightarrow> string list \<Rightarrow> (string, string) dict option" where
  "read_form env declared chunks =
     (if (case declared of None \<Rightarrow> False | Some d \<Rightarrow> \<not> is_digits d \<or> MAX_FORM_BYTES < digits_val d) then None
      else (case read_body chunks '''' of
              None \<Rightarrow> None
            | Some body \<Rightarrow> (case oe_parse_qsl env body of None \<Rightarrow> None | Some pairs \<Rightarrow> form_dict pairs [])))"

section \<open>Registration\<close>

text \<open>The registration body: \<open>None\<close> for a missing or wrongly typed field. The method's absence counts as
  \<open>none\<close>; any other value is some other text.\<close>

record registration =
  rg_redirect_uris :: "string option list option"
  rg_auth_method :: "string option"
  rg_client_name :: "string option"

datatype registration_body = Not_Json | Not_Object | Registration registration

text \<open>\<^verbatim>\<open>all(isinstance(u, str) and ...)\<close>\<close>

fun uris_allowed :: "oauth_env \<Rightarrow> string option list \<Rightarrow> bool res" where
  "uris_allowed env [] = Inr True"
| "uris_allowed env (None # us) = Inr False"
| "uris_allowed env (Some u # us) = res_bind (allowed_redirect env u) (\<lambda>ok. if ok then uris_allowed env us else Inr False)"

definition ask_limiter :: "(oauth \<Rightarrow> limiter) \<Rightarrow> (limiter \<Rightarrow> oauth \<Rightarrow> oauth) \<Rightarrow> rat \<Rightarrow> string \<Rightarrow> (oauth, bool) op" where
  "ask_limiter get put clock key s = (case allow clock key (get s) of (ok, l) \<Rightarrow> (Inr ok, put l s))"

definition endpoint_allows :: "call \<Rightarrow> string \<Rightarrow> (oauth, bool) op" where
  "endpoint_allows ca route =
     ask_limiter oa_requests (\<lambda>l s. s\<lparr>oa_requests := l\<rparr>) (ca_clock ca) (route @ '':'' @ request_client_key (ca_host ca))"

definition approval_allows :: "call \<Rightarrow> (oauth, bool) op" where
  "approval_allows ca =
     ask_limiter oa_approvals (\<lambda>l s. s\<lparr>oa_approvals := l\<rparr>) (ca_clock ca) (''approve:'' @ request_client_key (ca_host ca))"

definition invalid_redirect :: oauth_response where "invalid_redirect = Oauth_Error 400 ''invalid_redirect_uri''"

definition add_client :: "oauth_env \<Rightarrow> call \<Rightarrow> registration \<Rightarrow> (oauth, oauth_response) op" where
  "add_client env ca rg s =
     (let uris = (case rg_redirect_uris rg of None \<Rightarrow> [] | Some us \<Rightarrow> us) in
      if length uris < 1 \<or> 5 < length uris then (Inr invalid_redirect, s)
      else (case uris_allowed env uris of
              Inl e \<Rightarrow> (Inl e, s)
            | Inr False \<Rightarrow> (Inr invalid_redirect, s)
            | Inr True \<Rightarrow>
                if rg_auth_method rg \<noteq> None \<and> rg_auth_method rg \<noteq> Some ''none''
                then (Inr (Oauth_Error 400 ''invalid_client_metadata''), s)
                else if MAX_CLIENTS \<le> length (oa_clients s) then (Inr (Oauth_Error 403 ''invalid_client_metadata''), s)
                else let client = \<lparr>cl_id = fst (ca_random ca), cl_redirect_uris = map the uris,
                           cl_name = take 80 (if truth (rg_client_name rg) then the (rg_client_name rg) else ''ChatGPT'')\<rparr>
                     in (Inr (Registered client), persist env ca (s\<lparr>oa_clients := dset (cl_id client) client (oa_clients s)\<rparr>))))"

definition register_client :: "oauth_env \<Rightarrow> call \<Rightarrow> registration_body \<Rightarrow> (oauth, oauth_response) op" where
  "register_client env ca body =
     op_bind (op_lift (oauth_available env)) (\<lambda>on.
     if \<not> on then op_return Not_Found
     else op_bind (endpoint_allows ca ''register'') (\<lambda>ok.
     if \<not> ok then op_return (Oauth_Error 429 ''slow_down'')
     else (case body of
             Registration rg \<Rightarrow> add_client env ca rg
           | _ \<Rightarrow> op_return (Oauth_Error 400 ''invalid_client_metadata''))))"

section \<open>Authorization\<close>

definition FIELDS :: "string list" where
  "FIELDS = [''response_type'', ''client_id'', ''redirect_uri'', ''code_challenge'', ''code_challenge_method'',
     ''state'', ''scope'', ''resource'']"

definition check_request :: "(string, string) dict \<Rightarrow> oauth \<Rightarrow> string + oauth_client" where
  "check_request params s =
     (case dget (oa_clients s) (dget_or params ''client_id'' '''') of
        None \<Rightarrow> Inl ''unknown client''
      | Some client \<Rightarrow>
          (case dget params ''redirect_uri'' of
             None \<Rightarrow> Inl ''redirect_uri is not registered for this client''
           | Some uri \<Rightarrow> if uri \<notin> set (cl_redirect_uris client)
                         then Inl ''redirect_uri is not registered for this client'' else Inr client))"

definition request_problem :: "oauth_env \<Rightarrow> (string, string) dict \<Rightarrow> string option" where
  "request_problem env params =
     (let challenge = dget_or params ''code_challenge'' '''' in
      if dget params ''response_type'' \<noteq> Some ''code'' then Some ''unsupported_response_type''
      else if dget params ''code_challenge_method'' \<noteq> Some ''S256'' \<or> length challenge < 43 \<or> 128 < length challenge
      then Some ''invalid_request''
      else if list_ex (\<lambda>scope. scope \<noteq> SCOPE) (split_words (dget_or params ''scope'' SCOPE)) then Some ''invalid_scope''
      else if rstrip_slash (dget_or params ''resource'' (resource_url env)) \<noteq> resource_url env then Some ''invalid_target''
      else None)"

definition authorize_page :: "oauth_env \<Rightarrow> (string, string) dict \<Rightarrow> nat \<Rightarrow> (oauth, oauth_response) op" where
  "authorize_page env query client_ids s =
     (case oauth_available env of
        Inl e \<Rightarrow> (Inl e, s)
      | Inr False \<Rightarrow> (Inr Not_Found, s)
      | Inr True \<Rightarrow>
          let params = filter (\<lambda>(k, v). k \<in> set FIELDS) query in
          if 1 < client_ids then (Inr (Oauth_Error 400 ''invalid_request''), s)
          else (case check_request params s of
                  Inl reason \<Rightarrow> (Inr (Oauth_Error 400 ''invalid_request''), s)
                | Inr client \<Rightarrow>
                    (case request_problem env params of
                       Some problem \<Rightarrow> (Inr (Redirected (the (dget params ''redirect_uri''))
                                              [(''error'', problem), (''state'', dget_or params ''state'' '''')]), s)
                     | None \<Rightarrow> (Inr (Consent_Page ''''), s))))"

text \<open>After the request was found sound and the operator chose to approve.\<close>

definition approve :: "oauth_env \<Rightarrow> call \<Rightarrow> (string, string) dict \<Rightarrow> (string, string) dict \<Rightarrow> oauth_client \<Rightarrow> (oauth, oauth_response) op" where
  "approve env ca form params client =
     op_bind (approval_allows ca) (\<lambda>ok s.
       if \<not> ok then (Inr (Consent_Page ''Muitas tentativas. Aguarde um minuto.''), s)
       else let supplied = dget_or form ''approval_token'' '''';
                expected = (case oe_mcp_api_token env of None \<Rightarrow> '''' | Some t \<Rightarrow> t) in
            if expected = '''' \<or> supplied \<noteq> expected then (Inr (Consent_Page ''Token incorreto.''), s)
            else let s1 = prune (ca_now ca) s; code = fst (ca_random ca);
                     entry = \<lparr>co_client_id = cl_id client, co_redirect_uri = the (dget params ''redirect_uri''),
                        co_challenge = the (dget params ''code_challenge''), co_resource = resource_url env,
                        co_expires_at = ca_now ca + CODE_TTL\<rparr>
                 in (Inr (Redirected (the (dget params ''redirect_uri'')) [(''code'', code), (''state'', dget_or params ''state'' '''')]),
                     s1\<lparr>oa_codes := dset (oe_digest env code) entry (oa_codes s1)\<rparr>))"

definition authorize_decision :: "oauth_env \<Rightarrow> call \<Rightarrow> (string, string) dict option \<Rightarrow> (oauth, oauth_response) op" where
  "authorize_decision env ca form_read s =
     (case oauth_available env of
        Inl e \<Rightarrow> (Inl e, s)
      | Inr False \<Rightarrow> (Inr Not_Found, s)
      | Inr True \<Rightarrow>
          (case form_read of
             None \<Rightarrow> (Inr (Oauth_Error 400 ''invalid_request''), s)
           | Some form \<Rightarrow>
               let params = filter (\<lambda>(k, v). k \<in> set FIELDS) form in
               (case check_request params s of
                  Inl reason \<Rightarrow> (Inr (Oauth_Error 400 ''invalid_request''), s)
                | Inr client \<Rightarrow>
                    (case request_problem env params of
                       Some problem \<Rightarrow> (Inr (Redirected (the (dget params ''redirect_uri''))
                                              [(''error'', problem), (''state'', dget_or params ''state'' '''')]), s)
                     | None \<Rightarrow>
                         if dget form ''decision'' \<noteq> Some ''approve''
                         then (Inr (Redirected (the (dget params ''redirect_uri''))
                                     [(''error'', ''access_denied''), (''state'', dget_or params ''state'' '''')]), s)
                         else approve env ca form params client s))))"

section \<open>Tokens\<close>

definition issue_tokens :: "oauth_env \<Rightarrow> call \<Rightarrow> string \<Rightarrow> (oauth, oauth_response) op" where
  "issue_tokens env ca client_id s =
     (let s1 = prune (ca_now ca) s in
      if MAX_TOKENS \<le> length (oa_grants s1) then (Inr (Oauth_Error 503 ''temporarily_unavailable''), s1)
      else let (access, refresh) = ca_random ca;
               g1 = dset (oe_digest env access) \<lparr>gr_client_id = client_id, gr_kind = ''access'',
                      gr_expires_at = ca_now ca + ACCESS_TTL\<rparr> (oa_grants s1);
               g2 = dset (oe_digest env refresh) \<lparr>gr_client_id = client_id, gr_kind = ''refresh'',
                      gr_expires_at = ca_now ca + REFRESH_TTL\<rparr> g1
           in (Inr (Tokens access refresh), persist env ca (s1\<lparr>oa_grants := g2\<rparr>)))"

text \<open>The conditions on a code that was found; comparing texts that are not ASCII raises.\<close>

definition code_accepted :: "oauth_env \<Rightarrow> instant \<Rightarrow> oauth_client \<Rightarrow> (string, string) dict \<Rightarrow> oauth_code \<Rightarrow> bool res" where
  "code_accepted env now client form code =
     (let verifier = dget_or form ''code_verifier'' '''' in
      if co_expires_at code \<le> now \<or> co_client_id code \<noteq> cl_id client
         \<or> Some (co_redirect_uri code) \<noteq> dget form ''redirect_uri''
         \<or> length verifier < 43 \<or> 128 < length verifier \<or> \<not> is_ascii verifier
      then Inr False
      else if \<not> is_ascii (co_challenge code)
      then Inl (TypeError ''comparing strings with non-ASCII characters is not supported'')
      else Inr (oe_s256 env verifier = co_challenge code
                \<and> rstrip_slash (dget_or form ''resource'' (co_resource code)) = co_resource code))"

definition exchange_code :: "oauth_env \<Rightarrow> call \<Rightarrow> (string, string) dict \<Rightarrow> oauth_client \<Rightarrow> (oauth, oauth_response) op" where
  "exchange_code env ca form client s =
     (let key = oe_digest env (dget_or form ''code'' '''');
          found = dget (oa_codes s) key;
          s1 = s\<lparr>oa_codes := ddel key (oa_codes s)\<rparr> in
      (case found of
         None \<Rightarrow> (Inr (Oauth_Error 400 ''invalid_grant''), s1)
       | Some code \<Rightarrow>
           (case code_accepted env (ca_now ca) client form code of
              Inl e \<Rightarrow> (Inl e, s1)
            | Inr False \<Rightarrow> (Inr (Oauth_Error 400 ''invalid_grant''), s1)
            | Inr True \<Rightarrow> issue_tokens env ca (cl_id client) s1)))"

definition refresh_grant :: "oauth_env \<Rightarrow> call \<Rightarrow> (string, string) dict \<Rightarrow> oauth_client \<Rightarrow> (oauth, oauth_response) op" where
  "refresh_grant env ca form client s =
     (let key = oe_digest env (dget_or form ''refresh_token'' '''');
          found = dget (oa_grants s) key;
          s1 = s\<lparr>oa_grants := ddel key (oa_grants s)\<rparr> in
      (case found of
         None \<Rightarrow> (Inr (Oauth_Error 400 ''invalid_grant''), s1)
       | Some grant \<Rightarrow>
           if gr_kind grant \<noteq> ''refresh'' \<or> gr_client_id grant \<noteq> cl_id client \<or> gr_expires_at grant \<le> ca_now ca
           then (Inr (Oauth_Error 400 ''invalid_grant''), s1)
           else issue_tokens env ca (cl_id client) s1))"

definition token :: "oauth_env \<Rightarrow> call \<Rightarrow> (string, string) dict option \<Rightarrow> (oauth, oauth_response) op" where
  "token env ca form_read =
     op_bind (op_lift (oauth_available env)) (\<lambda>on.
     if \<not> on then op_return Not_Found
     else op_bind (endpoint_allows ca ''token'') (\<lambda>ok.
     if \<not> ok then op_return (Oauth_Error 429 ''slow_down'')
     else (case form_read of
             None \<Rightarrow> op_return (Oauth_Error 400 ''invalid_request'')
           | Some form \<Rightarrow> (\<lambda>s.
               case dget (oa_clients s) (dget_or form ''client_id'' '''') of
                 None \<Rightarrow> (Inr (Oauth_Error 401 ''invalid_client''), s)
               | Some client \<Rightarrow>
                   if dget form ''grant_type'' = Some ''authorization_code'' then exchange_code env ca form client s
                   else if dget form ''grant_type'' = Some ''refresh_token'' then refresh_grant env ca form client s
                   else (Inr (Oauth_Error 400 ''unsupported_grant_type''), s)))))"

section \<open>Revocation, status and a new process\<close>

definition revoke_all :: "oauth_env \<Rightarrow> call \<Rightarrow> oauth \<Rightarrow> (nat \<times> nat \<times> nat) \<times> oauth" where
  "revoke_all env ca s =
     ((length (oa_clients s), length (oa_grants s), length (oa_codes s)),
      persist env ca (s\<lparr>oa_clients := [], oa_codes := [], oa_grants := []\<rparr>))"

definition oauth_status :: "instant \<Rightarrow> oauth \<Rightarrow> (nat \<times> nat) \<times> oauth" where
  "oauth_status now s = (let s1 = prune now s in
     ((length (oa_clients s1), length (filter (\<lambda>g. gr_kind g = ''access'') (dvalues (oa_grants s1)))), s1))"

definition oauth_new :: "control_table \<Rightarrow> oauth" where
  "oauth_new rows =
     \<lparr>oa_clients = [], oa_codes = [], oa_grants = [],
      oa_approvals = \<lparr>lm_limit = 5, lm_window = 60, lm_hits = []\<rparr>,
      oa_requests = \<lparr>lm_limit = 60, lm_window = 60, lm_hits = []\<rparr>, oa_rows = rows\<rparr>"

definition reset_oauth_state :: "oauth \<Rightarrow> oauth" where
  "reset_oauth_state s = s\<lparr>oa_clients := [], oa_codes := [], oa_grants := [],
     oa_approvals := limiter_reset (oa_approvals s), oa_requests := limiter_reset (oa_requests s)\<rparr>"
section \<open>Runs\<close>

datatype oauth_request =
    Register registration_body
  | Show "(string, string) dict" nat
  | Decide "(string, string) dict option"
  | Exchange "(string, string) dict option"
  | Revoke
  | Status
  | Restart bool

text \<open>What a request does to the state; a restart reads the saved document, if it can.\<close>

fun handle :: "oauth_env \<Rightarrow> call \<Rightarrow> oauth_request \<Rightarrow> oauth \<Rightarrow> oauth" where
  "handle env ca (Register body) s = snd (register_client env ca body s)"
| "handle env ca (Show query n) s = snd (authorize_page env query n s)"
| "handle env ca (Decide form) s = snd (authorize_decision env ca form s)"
| "handle env ca (Exchange form) s = snd (token env ca form s)"
| "handle env ca Revoke s = snd (revoke_all env ca s)"
| "handle env ca Status s = snd (oauth_status (ca_now ca) s)"
| "handle env ca (Restart readable) s = snd (restore_oauth env (ca_now ca) readable (oauth_new (oa_rows s)))"

text \<open>The requests so far, and the state; a random client id is never empty.\<close>

inductive oauth_reach :: "oauth_env \<Rightarrow> (call \<times> oauth_request) list \<Rightarrow> oauth \<Rightarrow> bool" for env where
  started: "dget rows OAUTH_STATE_KEY = None \<Longrightarrow> oauth_reach env [] (oauth_new rows)"
| handled: "oauth_reach env h s \<Longrightarrow> fst (ca_random ca) \<noteq> '''' \<Longrightarrow> oauth_reach env (h @ [(ca, rq)]) (handle env ca rq s)"

text \<open>The operator approved a client: typed the MCP token on its consent page.\<close>

definition operator_approved :: "oauth_env \<Rightarrow> (call \<times> oauth_request) list \<Rightarrow> string \<Rightarrow> bool" where
  "operator_approved env h client_id \<longleftrightarrow> (\<exists>ca form token. (ca, Decide (Some form)) \<in> set h
     \<and> oe_mcp_api_token env = Some token \<and> token \<noteq> '''' \<and> dget form ''approval_token'' = Some token
     \<and> dget form ''decision'' = Some ''approve'' \<and> dget form ''client_id'' = Some client_id)"

lemma approved_later: "operator_approved env h c \<Longrightarrow> operator_approved env (h @ x) c"
  by (auto simp: operator_approved_def)

section \<open>What every state keeps\<close>

definition client_ok :: "oauth_env \<Rightarrow> string \<Rightarrow> oauth_client \<Rightarrow> bool" where
  "client_ok env k c \<longleftrightarrow> cl_id c = k \<and> k \<noteq> '''' \<and> cl_redirect_uris c \<noteq> [] \<and> all_allowed env (cl_redirect_uris c) = Inr True
     \<and> cl_name c \<noteq> '''' \<and> length (cl_name c) \<le> 80"

definition grant_ok :: "oauth_env \<Rightarrow> (call \<times> oauth_request) list \<Rightarrow> oauth_grant \<Rightarrow> bool" where
  "grant_ok env h g \<longleftrightarrow> operator_approved env h (gr_client_id g) \<and> (gr_kind g = ''access'' \<or> gr_kind g = ''refresh'')"

definition document_ok :: "oauth_env \<Rightarrow> (call \<times> oauth_request) list \<Rightarrow> oauth_document \<Rightarrow> bool" where
  "document_ok env h d \<longleftrightarrow> length (od_clients d) \<le> MAX_CLIENTS \<and> length (od_grants d) \<le> MAX_TOKENS + 1
     \<and> (\<forall>k g. (k, Some g) \<in> set (od_grants d) \<longrightarrow> grant_ok env h g)"

definition oauth_ok :: "oauth_env \<Rightarrow> (call \<times> oauth_request) list \<Rightarrow> oauth \<Rightarrow> bool" where
  "oauth_ok env h s \<longleftrightarrow> dict_ok (oa_clients s) \<and> dict_ok (oa_grants s)
     \<and> (\<forall>k c. (k, c) \<in> set (oa_clients s) \<longrightarrow> client_ok env k c)
     \<and> (\<forall>k c. (k, c) \<in> set (oa_codes s) \<longrightarrow> operator_approved env h (co_client_id c))
     \<and> (\<forall>k g. (k, g) \<in> set (oa_grants s) \<longrightarrow> grant_ok env h g \<and> gr_client_id g \<in> set (dkeys (oa_clients s)))
     \<and> length (oa_clients s) \<le> MAX_CLIENTS \<and> length (oa_grants s) \<le> MAX_TOKENS + 1
     \<and> (\<forall>d. control_get (oe_loads env) OAUTH_STATE_KEY (oa_rows s) = Some d \<longrightarrow> document_ok env h d)"

text \<open>JSON reads back the documents it wrote.\<close>

definition faithful_json :: "oauth_env \<Rightarrow> bool" where
  "faithful_json env \<longleftrightarrow> (\<forall>s. oe_loads env (oe_dumps env (document env s)) = document env s)"

lemma dset_length: "length (dset k v d) \<le> length d + 1"
  by (induction d) auto

lemma dset_cases: "(k', v') \<in> set (dset k v d) \<Longrightarrow> k' = k \<and> v' = v \<or> (k', v') \<in> set d"
  by (induction d) (auto split: if_splits)

lemma ddel_subset: "x \<in> set (ddel k d) \<Longrightarrow> x \<in> set d"
  by (auto simp: AList.delete_eq)

lemma all_allowed_iff: "all_allowed env us = Inr True \<longleftrightarrow> (\<forall>u \<in> set us. allowed_redirect env u = Inr True)"
  by (induction us) (auto simp: res_bind_Inr_conv)

lemma uris_allowed_iff:
  "uris_allowed env us = Inr True \<longleftrightarrow> (\<forall>u \<in> set us. \<exists>t. u = Some t \<and> allowed_redirect env t = Inr True)"
  by (induction env us rule: uris_allowed.induct) (auto simp: res_bind_Inr_conv)

lemma ok_later: "oauth_ok env h s \<Longrightarrow> oauth_ok env (h @ x) s"
  unfolding oauth_ok_def document_ok_def grant_ok_def using approved_later by meson

lemma ok_prune: "oauth_ok env h s \<Longrightarrow> oauth_ok env h (prune now s)"
  using le_trans[OF length_filter_le] unfolding oauth_ok_def prune_def by auto

lemma document_is_ok:
  assumes "oauth_ok env h s"
  shows "document_ok env h (document env s)"
  using assms by (auto simp: document_ok_def document_def oauth_ok_def)

lemma ok_persist:
  assumes "oauth_ok env h s" "faithful_json env"
  shows "oauth_ok env h (persist env ca s)"
proof -
  let ?s1 = "prune (ca_now ca) s"
  have "oauth_ok env h ?s1" by (rule ok_prune[OF assms(1)])
  moreover from document_is_ok[OF this] assms(2)
  have "document_ok env h (oe_loads env (oe_dumps env (document env ?s1)))" by (simp add: faithful_json_def)
  ultimately show ?thesis using assms(1) by (auto simp: persist_def Let_def oauth_ok_def control_get_put)
qed
lemma oauth_okD:
  assumes "oauth_ok env h s"
  shows "dict_ok (oa_clients s)" "dict_ok (oa_grants s)" "(k, c) \<in> set (oa_clients s) \<Longrightarrow> client_ok env k c"
    "(k, code) \<in> set (oa_codes s) \<Longrightarrow> operator_approved env h (co_client_id code)"
    "(k, g) \<in> set (oa_grants s) \<Longrightarrow> grant_ok env h g"
    "(k, g) \<in> set (oa_grants s) \<Longrightarrow> gr_client_id g \<in> set (dkeys (oa_clients s))"
    "length (oa_clients s) \<le> MAX_CLIENTS" "length (oa_grants s) \<le> MAX_TOKENS + 1"
    "control_get (oe_loads env) OAUTH_STATE_KEY (oa_rows s) = Some d \<Longrightarrow> document_ok env h d"
  using assms unfolding oauth_ok_def by blast+

lemma ok_grants:
  assumes "oauth_ok env h s" "dict_ok gs" "length gs \<le> MAX_TOKENS + 1"
    and "\<And>k g. (k, g) \<in> set gs \<Longrightarrow> grant_ok env h g \<and> gr_client_id g \<in> set (dkeys (oa_clients s))"
  shows "oauth_ok env h (s\<lparr>oa_grants := gs\<rparr>)"
  using assms unfolding oauth_ok_def by simp

lemma ok_limiters [simp]:
  "oauth_ok env h (s\<lparr>oa_requests := l\<rparr>) \<longleftrightarrow> oauth_ok env h s"
  "oauth_ok env h (s\<lparr>oa_approvals := l\<rparr>) \<longleftrightarrow> oauth_ok env h s"
  by (simp_all add: oauth_ok_def)

lemma ok_new_client:
  assumes "oauth_ok env h s" "client_ok env (cl_id c) c" "length (oa_clients s) < MAX_CLIENTS"
  shows "oauth_ok env h (s\<lparr>oa_clients := dset (cl_id c) c (oa_clients s)\<rparr>)"
  using assms dset_length[of "cl_id c" c "oa_clients s"] unfolding oauth_ok_def
  by (auto dest!: dset_cases)

lemma ok_add_client:
  assumes "oauth_ok env h s" "faithful_json env" "fst (ca_random ca) \<noteq> ''''"
  shows "oauth_ok env h (snd (add_client env ca rg s))"
proof -
  let ?uris = "case rg_redirect_uris rg of None \<Rightarrow> [] | Some us \<Rightarrow> us"
  let ?c = "\<lparr>cl_id = fst (ca_random ca), cl_redirect_uris = map the ?uris,
     cl_name = take 80 (if truth (rg_client_name rg) then the (rg_client_name rg) else ''ChatGPT'')\<rparr>"
  have new: "oauth_ok env h (persist env ca (s\<lparr>oa_clients := dset (cl_id ?c) ?c (oa_clients s)\<rparr>))"
    if "\<not> length ?uris < 1" "uris_allowed env ?uris = Inr True" "\<not> MAX_CLIENTS \<le> length (oa_clients s)"
  proof (rule ok_persist[OF ok_new_client[OF assms(1)] assms(2)])
    have "all_allowed env (map the ?uris) = Inr True"
      using that(2) by (force simp: all_allowed_iff uris_allowed_iff)
    then show "client_ok env (cl_id ?c) ?c" using assms(3) that(1) by (auto simp: client_ok_def truth_def)
  qed (use that in simp)
  show ?thesis
  proof (cases "length ?uris < 1 \<or> 5 < length ?uris \<or> uris_allowed env ?uris \<noteq> Inr True
      \<or> rg_auth_method rg \<noteq> None \<and> rg_auth_method rg \<noteq> Some ''none'' \<or> MAX_CLIENTS \<le> length (oa_clients s)")
    case True
    then have "snd (add_client env ca rg s) = s"
      by (auto simp: add_client_def Let_def split: sum.splits bool.splits)
    then show ?thesis using assms(1) by simp
  next
    case False
    then have "snd (add_client env ca rg s) = persist env ca (s\<lparr>oa_clients := dset (cl_id ?c) ?c (oa_clients s)\<rparr>)"
      by (auto simp: add_client_def Let_def)
    then show ?thesis using new False by simp
  qed
qed

lemma ask_limiter_ok: "oauth_ok env h s \<Longrightarrow> oauth_ok env h (snd (endpoint_allows ca route s)) \<and> oauth_ok env h (snd (approval_allows ca s))"
  by (simp add: endpoint_allows_def approval_allows_def ask_limiter_def split: prod.split)

lemma limiter_answers: "\<exists>ok l. endpoint_allows ca route s = (Inr ok, s\<lparr>oa_requests := l\<rparr>)"
  "\<exists>ok l. approval_allows ca s = (Inr ok, s\<lparr>oa_approvals := l\<rparr>)"
  by (auto simp: endpoint_allows_def approval_allows_def ask_limiter_def split: prod.split)

lemma ok_register:
  assumes "oauth_ok env h s" "faithful_json env" "fst (ca_random ca) \<noteq> ''''"
  shows "oauth_ok env h (snd (register_client env ca body s))"
proof -
  obtain ok l where lim: "endpoint_allows ca ''register'' s = (Inr ok, s\<lparr>oa_requests := l\<rparr>)" using limiter_answers by blast
  show ?thesis
    using assms(1) ok_add_client[OF _ assms(2,3), of h "s\<lparr>oa_requests := l\<rparr>"]
    by (cases "oauth_available env") (auto simp: register_client_def op_bind_def lim split: registration_body.splits)
qed

lemma ok_issue:
  assumes "oauth_ok env h s" "faithful_json env" "operator_approved env h cid" "cid \<in> set (dkeys (oa_clients s))"
  shows "oauth_ok env h (snd (issue_tokens env ca cid s))"
proof -
  let ?s1 = "prune (ca_now ca) s"
  note s1 = ok_prune[OF assms(1), of "ca_now ca"]
  obtain access refresh where rnd: "ca_random ca = (access, refresh)" by fastforce
  let ?a = "\<lparr>gr_client_id = cid, gr_kind = ''access'', gr_expires_at = ca_now ca + ACCESS_TTL\<rparr>"
  let ?r = "\<lparr>gr_client_id = cid, gr_kind = ''refresh'', gr_expires_at = ca_now ca + REFRESH_TTL\<rparr>"
  let ?g1 = "dset (oe_digest env access) ?a (oa_grants ?s1)"
  let ?g2 = "dset (oe_digest env refresh) ?r ?g1"
  show ?thesis
  proof (cases "MAX_TOKENS \<le> length (oa_grants ?s1)")
    case True
    then show ?thesis using s1 by (simp add: issue_tokens_def Let_def)
  next
    case False
    have "length ?g2 \<le> MAX_TOKENS + 1"
      using False dset_length[of "oe_digest env refresh" ?r ?g1] dset_length[of "oe_digest env access" ?a "oa_grants ?s1"] by simp
    moreover have "grant_ok env h ?a" "grant_ok env h ?r" using assms(3) by (simp_all add: grant_ok_def)
    moreover have "cid \<in> set (dkeys (oa_clients ?s1))" using assms(4) by (simp add: prune_def)
    ultimately have "oauth_ok env h (?s1\<lparr>oa_grants := ?g2\<rparr>)"
      using oauth_okD(2,5,6)[OF s1] by (intro ok_grants[OF s1]) (auto dest!: dset_cases intro: rev_image_eqI)
    then show ?thesis using False rnd ok_persist[OF _ assms(2)] by (simp add: issue_tokens_def Let_def)
  qed
qed

lemma ok_drop_code: "oauth_ok env h s \<Longrightarrow> oauth_ok env h (s\<lparr>oa_codes := ddel key (oa_codes s)\<rparr>)"
  unfolding oauth_ok_def by (auto dest!: ddel_subset)

lemma ok_drop_grant: "oauth_ok env h s \<Longrightarrow> oauth_ok env h (s\<lparr>oa_grants := ddel key (oa_grants s)\<rparr>)"
  using oauth_okD(2,5,6,8)[of env h s] le_trans[OF length_delete_le]
  by (intro ok_grants) (auto simp: distinct_delete dest!: ddel_subset)

lemma client_found:
  "oauth_ok env h s \<Longrightarrow> dget (oa_clients s) cid = Some c \<Longrightarrow> cl_id c = cid \<and> cid \<noteq> '''' \<and> cid \<in> set (dkeys (oa_clients s))
     \<and> client_ok env cid c"
  using oauth_okD(3)[OF _ map_of_SomeD] by (force simp: client_ok_def dest: map_of_SomeD)

lemma ok_exchange:
  assumes "oauth_ok env h s" "faithful_json env" "dget (oa_clients s) cid = Some client"
  shows "oauth_ok env h (snd (exchange_code env ca form client s))"
proof -
  let ?key = "oe_digest env (dget_or form ''code'' '''')"
  let ?s1 = "s\<lparr>oa_codes := ddel ?key (oa_codes s)\<rparr>"
  have s1: "oauth_ok env h ?s1" by (rule ok_drop_code[OF assms(1)])
  note c = client_found[OF assms(1,3)]
  have "oauth_ok env h (snd (issue_tokens env ca (cl_id client) ?s1))"
    if "dget (oa_codes s) ?key = Some code" "code_accepted env (ca_now ca) client form code = Inr True" for code
  proof (rule ok_issue[OF s1 assms(2)])
    have "operator_approved env h (co_client_id code)" by (rule oauth_okD(4)[OF assms(1) map_of_SomeD[OF that(1)]])
    then show "operator_approved env h (cl_id client)"
      using that(2) by (auto simp: code_accepted_def Let_def split: if_splits)
  qed (use c in simp)
  then show ?thesis using s1
    by (cases "dget (oa_codes s) ?key") (auto simp: exchange_code_def Let_def split: sum.splits bool.splits)
qed

lemma ok_refresh:
  assumes "oauth_ok env h s" "faithful_json env" "dget (oa_clients s) cid = Some client"
  shows "oauth_ok env h (snd (refresh_grant env ca form client s))"
proof -
  let ?key = "oe_digest env (dget_or form ''refresh_token'' '''')"
  let ?s1 = "s\<lparr>oa_grants := ddel ?key (oa_grants s)\<rparr>"
  have s1: "oauth_ok env h ?s1" by (rule ok_drop_grant[OF assms(1)])
  note c = client_found[OF assms(1,3)]
  have "oauth_ok env h (snd (issue_tokens env ca (cl_id client) ?s1))"
    if "dget (oa_grants s) ?key = Some g" "gr_client_id g = cl_id client" for g
  proof (rule ok_issue[OF s1 assms(2)])
    show "operator_approved env h (cl_id client)"
      using oauth_okD(5)[OF assms(1) map_of_SomeD[OF that(1)]] that(2) by (simp add: grant_ok_def)
  qed (use c in simp)
  then show ?thesis using s1
    by (cases "dget (oa_grants s) ?key") (auto simp: refresh_grant_def Let_def)
qed

lemma ok_token:
  assumes "oauth_ok env h s" "faithful_json env"
  shows "oauth_ok env h (snd (token env ca form s))"
proof -
  obtain ok l where lim: "endpoint_allows ca ''token'' s = (Inr ok, s\<lparr>oa_requests := l\<rparr>)" using limiter_answers by blast
  have s: "oauth_ok env h (s\<lparr>oa_requests := l\<rparr>)" using assms(1) by simp
  note x = ok_exchange[OF s assms(2)] ok_refresh[OF s assms(2)]
  show ?thesis using assms(1) x
    by (cases "oauth_available env"; cases form) (auto simp: token_def op_bind_def lim split: option.splits)
qed
lemma dget_fields: "dget (filter (\<lambda>(k, v). k \<in> K) d) k = (if k \<in> K then dget d k else None)"
  by (induction d) auto

lemma fields [simp]: "''client_id'' \<in> set FIELDS" "''redirect_uri'' \<in> set FIELDS" "''code_challenge'' \<in> set FIELDS"
  by (simp_all add: FIELDS_def)

text \<open>A request that is shown or decided names a registered client and one of its redirect URLs.\<close>

lemma check_request_client:
  assumes "oauth_ok env h s" "check_request params s = Inr client"
  shows "dget params ''client_id'' = Some (cl_id client) \<and> dget (oa_clients s) (cl_id client) = Some client
    \<and> (\<exists>uri. dget params ''redirect_uri'' = Some uri \<and> allowed_redirect env uri = Inr True)"
proof -
  let ?cid = "dget_or params ''client_id'' ''''"
  obtain uri where c: "dget (oa_clients s) ?cid = Some client" "dget params ''redirect_uri'' = Some uri" "uri \<in> set (cl_redirect_uris client)"
    using assms(2) by (auto simp: check_request_def split: option.splits if_splits)
  note ok = client_found[OF assms(1) c(1)]
  then have "allowed_redirect env uri = Inr True" using c(3) by (auto simp: client_ok_def all_allowed_iff)
  moreover have "dget params ''client_id'' = Some (cl_id client)"
    using ok by (auto simp: dget_or_def split: option.splits)
  ultimately show ?thesis using c(1,2) ok by simp
qed

lemma ok_new_code:
  assumes "oauth_ok env h s" "operator_approved env h (co_client_id code)"
  shows "oauth_ok env h (s\<lparr>oa_codes := dset k code (oa_codes s)\<rparr>)"
  using assms unfolding oauth_ok_def by (auto dest!: dset_cases)

lemma ok_decide:
  assumes "oauth_ok env h s"
  shows "oauth_ok env (h @ [(ca, Decide form)]) (snd (authorize_decision env ca form s))"
proof (cases "\<exists>f client. oauth_available env = Inr True \<and> form = Some f \<and> check_request (filter (\<lambda>(k, v). k \<in> set FIELDS) f) s = Inr client
    \<and> request_problem env (filter (\<lambda>(k, v). k \<in> set FIELDS) f) = None \<and> dget f ''decision'' = Some ''approve''")
  case False
  then have "snd (authorize_decision env ca form s) = s"
    by (auto simp: authorize_decision_def Let_def split: sum.splits bool.splits option.splits)
  then show ?thesis using ok_later[OF assms] by simp
next
  case True
  then obtain f client where f: "oauth_available env = Inr True" "form = Some f"
      "check_request (filter (\<lambda>(k, v). k \<in> set FIELDS) f) s = Inr client"
      "request_problem env (filter (\<lambda>(k, v). k \<in> set FIELDS) f) = None" "dget f ''decision'' = Some ''approve''" by blast
  let ?h = "h @ [(ca, Decide form)]"
  obtain ok l where lim: "approval_allows ca s = (Inr ok, s\<lparr>oa_approvals := l\<rparr>)" using limiter_answers by blast
  have s1: "oauth_ok env ?h (s\<lparr>oa_approvals := l\<rparr>)" using ok_later[OF assms] by simp
  have cid: "dget f ''client_id'' = Some (cl_id client)"
    using check_request_client[OF assms f(3)] by (simp add: dget_fields)
  have approved: "operator_approved env ?h (cl_id client)"
    if "oe_mcp_api_token env = Some t" "t \<noteq> ''''" "dget_or f ''approval_token'' '''' = t" for t
    using that f(2,5) cid by (auto simp: operator_approved_def dget_or_def split: option.splits)
  show ?thesis
    using f lim s1 approved ok_prune[OF s1, of "ca_now ca"]
    by (auto simp: authorize_decision_def approve_def op_bind_def Let_def intro!: ok_new_code split: option.splits)
qed

lemma ok_revoke: "oauth_ok env h s \<Longrightarrow> faithful_json env \<Longrightarrow> oauth_ok env h (snd (revoke_all env ca s))"
  unfolding revoke_all_def snd_conv by (rule ok_persist) (auto simp: oauth_ok_def)

lemma ok_status: "oauth_ok env h s \<Longrightarrow> oauth_ok env h (snd (oauth_status now s))"
  by (simp add: oauth_status_def Let_def ok_prune)

section \<open>Restoring\<close>

definition clients_ok :: "oauth_env \<Rightarrow> (string, oauth_client) dict \<Rightarrow> bool" where
  "clients_ok env d \<longleftrightarrow> dict_ok d \<and> (\<forall>k c. (k, c) \<in> set d \<longrightarrow> client_ok env k c)"

lemma restore_client_ok:
  assumes "restore_client env raw d = Inr d'" "clients_ok env d"
  shows "clients_ok env d' \<and> length d' \<le> length d + 1"
proof -
  let ?uris = "List.map_filter (\<lambda>u. u) (rc_redirect_uris raw)"
  let ?c = "\<lparr>cl_id = the (rc_client_id raw), cl_redirect_uris = ?uris,
     cl_name = take 80 (if truth (rc_name raw) then the (rc_name raw) else ''ChatGPT'')\<rparr>"
  consider "d' = d" | "d' = dset (cl_id ?c) ?c d" "truth (rc_client_id raw)" "?uris \<noteq> []" "all_allowed env ?uris = Inr True"
    using assms(1) by (auto simp: restore_client_def Let_def res_bind_Inr_conv split: if_splits)
  then show ?thesis
  proof cases
    case 2
    have "client_ok env (cl_id ?c) ?c" using 2 by (auto simp: client_ok_def truth_def)
    then show ?thesis using assms(2) 2(1) dset_length[of "cl_id ?c" ?c d] by (auto simp: clients_ok_def dest!: dset_cases)
  qed (use assms(2) in simp)
qed

lemma restore_clients_ok:
  assumes "restore_clients env raws s = (r, s')" "clients_ok env (oa_clients s)"
  shows "clients_ok env (oa_clients s') \<and> length (oa_clients s') \<le> length (oa_clients s) + length raws
    \<and> s' = s\<lparr>oa_clients := oa_clients s'\<rparr>"
  using assms
proof (induction env raws s rule: restore_clients.induct)
  case (2 env raw raws s)
  show ?case
  proof (cases "restore_client env raw (oa_clients s)")
    case (Inl e)
    with 2(2,3) show ?thesis by auto
  next
    case (Inr d)
    note step = restore_client_ok[OF Inr 2(3)]
    with 2(1)[OF Inr] 2(2) Inr show ?thesis by (fastforce simp: le_Suc_eq)
  qed
qed simp

lemma restore_grants_ok:
  assumes "\<And>k g. (k, Some g) \<in> set raws \<Longrightarrow> grant_ok env h g" "dict_ok gs"
    and "\<And>k g. (k, g) \<in> set gs \<Longrightarrow> grant_ok env h g \<and> gr_client_id g \<in> set (dkeys clients)"
  shows "dict_ok (fold (restore_grant now clients) raws gs) \<and> length (fold (restore_grant now clients) raws gs) \<le> length gs + length raws
    \<and> (\<forall>k g. (k, g) \<in> set (fold (restore_grant now clients) raws gs) \<longrightarrow> grant_ok env h g \<and> gr_client_id g \<in> set (dkeys clients))"
  using assms
proof (induction raws arbitrary: gs)
  case (Cons x raws)
  let ?gs = "restore_grant now clients x gs"
  have x: "dict_ok ?gs" "length ?gs \<le> length gs + 1"
    using Cons(3) dset_length by (auto simp: restore_grant_def split: prod.splits option.splits)
  have "grant_ok env h g \<and> gr_client_id g \<in> set (dkeys clients)" if "(k, g) \<in> set ?gs" for k g
    using that Cons(2,4) by (auto simp: restore_grant_def dget_None_iff dest!: dset_cases split: prod.splits option.splits if_splits)
  then show ?case using Cons(1)[of ?gs] Cons(2) x by fastforce
qed simp
lemma ok_restart:
  assumes "oauth_ok env h s"
  shows "oauth_ok env h (snd (restore_oauth env now readable (oauth_new (oa_rows s))))"
proof -
  let ?n = "oauth_new (oa_rows s)"
  have new: "oauth_ok env h ?n" using oauth_okD(9)[OF assms] by (auto simp: oauth_ok_def oauth_new_def)
  show ?thesis
  proof (cases "\<exists>d. oe_store env \<and> oe_mcp_enabled env \<and> readable \<and> control_get (oe_loads env) OAUTH_STATE_KEY (oa_rows s) = Some d
      \<and> od_token_fingerprint d = Some (token_fingerprint env)")
    case False
    then have "snd (restore_oauth env now readable ?n) = ?n"
      by (auto simp: restore_oauth_def oauth_new_def split: option.splits)
    then show ?thesis using new by simp
  next
    case True
    then obtain d where d: "control_get (oe_loads env) OAUTH_STATE_KEY (oa_rows s) = Some d"
      and run: "restore_oauth env now readable ?n = op_bind (restore_clients env (od_clients d)) (\<lambda>_.
        op_modify (\<lambda>s1. s1\<lparr>oa_grants := fold (restore_grant now (oa_clients s1)) (od_grants d) (oa_grants s1)\<rparr>)) ?n"
      by (auto simp: restore_oauth_def oauth_new_def)
    have doc: "document_ok env h d" by (rule oauth_okD(9)[OF assms d])
    obtain r s1 where rc: "restore_clients env (od_clients d) ?n = (r, s1)" by fastforce
    have c: "clients_ok env (oa_clients s1)" "length (oa_clients s1) \<le> MAX_CLIENTS" "s1 = ?n\<lparr>oa_clients := oa_clients s1\<rparr>"
      using restore_clients_ok[OF rc] doc by (auto simp: clients_ok_def oauth_new_def document_ok_def)
    have s1: "oauth_ok env h s1"
      using new c(1,2) by (subst c(3)) (auto simp: oauth_ok_def clients_ok_def oauth_new_def)
    let ?gs = "fold (restore_grant now (oa_clients s1)) (od_grants d) []"
    have g: "dict_ok ?gs \<and> length ?gs \<le> 0 + length (od_grants d)
        \<and> (\<forall>k g. (k, g) \<in> set ?gs \<longrightarrow> grant_ok env h g \<and> gr_client_id g \<in> set (dkeys (oa_clients s1)))"
      using restore_grants_ok[of "od_grants d" env h "[]" "oa_clients s1" now] doc by (auto simp: document_ok_def)
    have empty: "oa_grants s1 = []" by (subst c(3)) (simp add: oauth_new_def)
    have "oauth_ok env h (s1\<lparr>oa_grants := ?gs\<rparr>)"
      using g doc by (intro ok_grants[OF s1]) (auto simp: document_ok_def)
    then show ?thesis using s1 rc empty by (cases r) (simp_all add: run op_bind_def)
  qed
qed

lemma reach_ok:
  assumes "oauth_reach env h s" "faithful_json env"
  shows "oauth_ok env h s"
  using assms(1)
proof (induction rule: oauth_reach.induct)
  case (started rows)
  then show ?case by (simp add: oauth_ok_def oauth_new_def control_get_def)
next
  case (handled h s ca rq)
  show ?case
  proof (cases rq)
    case (Decide form)
    then show ?thesis using ok_decide[OF handled(3)] by simp
  next
    case (Register body)
    then show ?thesis using ok_later[OF ok_register[OF handled(3) assms(2) handled(2)]] by simp
  next
    case (Show query n)
    have "snd (authorize_page env query n s) = s"
      by (simp add: authorize_page_def Let_def split: sum.split bool.split option.split)
    then show ?thesis using ok_later[OF handled(3)] Show by simp
  qed (use ok_later[OF ok_token[OF handled(3) assms(2)]] ok_later[OF ok_revoke[OF handled(3) assms(2)]]
        ok_later[OF ok_status[OF handled(3)]] ok_later[OF ok_restart[OF handled(3)]] in simp_all)
qed

text \<open>Reading a document back.\<close>

abbreviation raw_of :: "oauth_client \<Rightarrow> raw_client" where
  "raw_of c \<equiv> \<lparr>rc_client_id = Some (cl_id c), rc_redirect_uris = map Some (cl_redirect_uris c), rc_name = Some (cl_name c)\<rparr>"

lemma map_filter_Some [simp]: "List.map_filter (\<lambda>u. u) (map Some us) = us"
  by (induction us) (simp_all add: List.map_filter_simps)

lemma restore_client_back:
  assumes "client_ok env k c" "dget d k = None"
  shows "restore_client env (raw_of c) d = Inr (d @ [(k, c)])"
  using assms by (cases c) (simp add: restore_client_def client_ok_def truth_def dset_fresh Let_def)

lemma restore_clients_back:
  assumes "clients_ok env (d1 @ d2)"
  shows "restore_clients env (map raw_of (dvalues d2)) (s\<lparr>oa_clients := d1\<rparr>) = (Inr (), s\<lparr>oa_clients := d1 @ d2\<rparr>)"
  using assms
proof (induction d2 arbitrary: d1)
  case (Cons x d2)
  obtain k c where x: "x = (k, c)" by fastforce
  have "client_ok env k c" "dget d1 k = None" using Cons(2) x by (auto simp: clients_ok_def dget_None_iff)
  then show ?case using Cons(1)[of "d1 @ [x]"] Cons(2) x by (simp add: restore_client_back)
qed simp

lemma restore_grants_back:
  assumes "dict_ok (acc @ gs)"
    and "\<And>k g. (k, g) \<in> set gs \<Longrightarrow> (gr_kind g = ''access'' \<or> gr_kind g = ''refresh'') \<and> gr_client_id g \<in> set (dkeys clients)"
  shows "fold (restore_grant now clients) (map (\<lambda>(k, g). (k, Some g)) gs) acc = acc @ filter (\<lambda>(k, g). now < gr_expires_at g) gs"
  using assms
proof (induction gs arbitrary: acc)
  case (Cons x gs)
  obtain k g where x: "x = (k, g)" by fastforce
  have k: "dget acc k = None" using Cons(2) x by (auto simp: dget_None_iff)
  have g: "(gr_kind g = ''access'' \<or> gr_kind g = ''refresh'') \<and> dget clients (gr_client_id g) \<noteq> None"
    using Cons(3)[of k g] x by (auto simp: dget_None_iff)
  have step: "restore_grant now clients (k, Some g) acc = (if now < gr_expires_at g then acc @ [(k, g)] else acc)"
    using k g by (simp add: restore_grant_def dset_fresh)
  have "dict_ok ((if now < gr_expires_at g then acc @ [(k, g)] else acc) @ gs)" using Cons(2) x by auto
  moreover have "\<And>k g. (k, g) \<in> set gs \<Longrightarrow>
      (gr_kind g = ''access'' \<or> gr_kind g = ''refresh'') \<and> gr_client_id g \<in> set (dkeys clients)"
    using Cons(3) by (meson list.set_intros(2))
  ultimately show ?case using Cons(1) by (simp add: x step)
qed simp

lemma restore_persisted:
  assumes "oauth_ok env h s" "faithful_json env" "oe_store env" "oe_mcp_enabled env" "ca_fate ca \<noteq> Not_Saved"
    and "oa_rows s' = oa_rows (persist env ca s)"
  shows "restore_oauth env now True (oauth_new (oa_rows s')) = (Inr (), (oauth_new (oa_rows s'))\<lparr>oa_clients := oa_clients s,
    oa_grants := filter (\<lambda>(k, g). now < gr_expires_at g) (oa_grants (prune (ca_now ca) s))\<rparr>)"
proof -
  let ?p = "prune (ca_now ca) s"
  have p: "oauth_ok env h ?p" by (rule ok_prune[OF assms(1)])
  have doc: "control_get (oe_loads env) OAUTH_STATE_KEY (oa_rows s') = Some (document env ?p)"
    using assms(2,3,5,6) by (simp add: persist_def Let_def control_get_put faithful_json_def)
  have clients: "restore_clients env (od_clients (document env ?p)) (oauth_new (oa_rows s'))
      = (Inr (), (oauth_new (oa_rows s'))\<lparr>oa_clients := oa_clients ?p\<rparr>)"
    using restore_clients_back[of env "[]" "oa_clients ?p" "oauth_new (oa_rows s')"] oauth_okD(1,3)[OF p]
    by (simp add: document_def clients_ok_def oauth_new_def)
  have grants: "fold (restore_grant now (oa_clients ?p)) (od_grants (document env ?p)) []
      = filter (\<lambda>(k, g). now < gr_expires_at g) (oa_grants ?p)"
    using restore_grants_back[of "[]" "oa_grants ?p" "oa_clients ?p" now] oauth_okD(2,5,6)[OF p]
    by (simp add: document_def grant_ok_def)
  have same: "oa_clients ?p = oa_clients s" by (simp add: prune_def)
  have "restore_oauth env now True (oauth_new (oa_rows s')) = op_bind (restore_clients env (od_clients (document env ?p))) (\<lambda>_.
      op_modify (\<lambda>s1. s1\<lparr>oa_grants := fold (restore_grant now (oa_clients s1)) (od_grants (document env ?p)) (oa_grants s1)\<rparr>)) (oauth_new (oa_rows s'))"
    using assms(3,4) doc by (simp add: restore_oauth_def oauth_new_def) (simp add: document_def)
  then show ?thesis using clients grants same by (simp add: op_bind_def) (simp add: oauth_new_def)
qed
section \<open>Codes are used once\<close>

text \<open>Requests after a code was redeemed: the server never draws a code with its digest again.\<close>

definition later :: "oauth_env \<Rightarrow> string \<Rightarrow> oauth \<Rightarrow> oauth \<Rightarrow> bool" where
  "later env d s s' \<longleftrightarrow> (\<exists>ca rq. oe_digest env (fst (ca_random ca)) \<noteq> d \<and> s' = handle env ca rq s)"

definition code_keys :: "oauth \<Rightarrow> string set" where
  "code_keys s = set (dkeys (oa_codes s))"

lemma code_keys_frame [simp]:
  "code_keys (s\<lparr>oa_clients := c\<rparr>) = code_keys s" "code_keys (s\<lparr>oa_grants := g\<rparr>) = code_keys s"
  "code_keys (s\<lparr>oa_requests := l\<rparr>) = code_keys s" "code_keys (s\<lparr>oa_approvals := l\<rparr>) = code_keys s"
  "code_keys (s\<lparr>oa_rows := r\<rparr>) = code_keys s" "code_keys (s\<lparr>oa_codes := dset k v (oa_codes s)\<rparr>) = insert k (code_keys s)"
  "code_keys (s\<lparr>oa_codes := ddel k (oa_codes s)\<rparr>) = code_keys s - {k}" "code_keys (s\<lparr>oa_codes := []\<rparr>) = {}"
  by (auto simp: code_keys_def AList.delete_eq)

lemma code_keys_prune: "code_keys (prune now s) \<subseteq> code_keys s"
  by (auto simp: prune_def code_keys_def)

lemma code_keys_persist: "code_keys (persist env ca s) \<subseteq> code_keys s"
  using code_keys_prune[of "ca_now ca" s] by (simp add: persist_def Let_def)

lemma code_keys_register: "code_keys (snd (register_client env ca body s)) \<subseteq> code_keys s"
proof -
  have add: "code_keys (snd (add_client env ca rg t)) \<subseteq> code_keys t" for rg t
  proof -
    have "snd (add_client env ca rg t) = t \<or> (\<exists>c. snd (add_client env ca rg t) = persist env ca (t\<lparr>oa_clients := c\<rparr>))"
      unfolding add_client_def Let_def by (simp split: sum.split bool.split) blast
    then show ?thesis using code_keys_persist[of env ca "t\<lparr>oa_clients := c\<rparr>" for c] by (elim disjE exE) simp_all
  qed
  obtain ok l where lim: "endpoint_allows ca ''register'' s = (Inr ok, s\<lparr>oa_requests := l\<rparr>)" using limiter_answers by blast
  show ?thesis using add[of _ "s\<lparr>oa_requests := l\<rparr>"]
    by (cases "oauth_available env"; cases body) (simp_all add: register_client_def op_bind_def lim)
qed

lemma code_keys_issue: "code_keys (snd (issue_tokens env ca cid s)) \<subseteq> code_keys s"
proof -
  have "snd (issue_tokens env ca cid s) = prune (ca_now ca) s
      \<or> (\<exists>g. snd (issue_tokens env ca cid s) = persist env ca ((prune (ca_now ca) s)\<lparr>oa_grants := g\<rparr>))"
    unfolding issue_tokens_def Let_def by (simp split: prod.split) blast
  moreover have "code_keys (persist env ca ((prune (ca_now ca) s)\<lparr>oa_grants := g\<rparr>)) \<subseteq> code_keys s" for g
    using code_keys_persist[of env ca "(prune (ca_now ca) s)\<lparr>oa_grants := g\<rparr>"] code_keys_prune[of "ca_now ca" s] by simp
  ultimately show ?thesis using code_keys_prune[of "ca_now ca" s] by (elim disjE exE) simp_all
qed

lemma code_keys_exchange: "code_keys (snd (exchange_code env ca form client s)) \<subseteq> code_keys s - {oe_digest env (dget_or form ''code'' '''')}"
proof -
  let ?key = "oe_digest env (dget_or form ''code'' '''')"
  show ?thesis using code_keys_issue[of env ca _ "s\<lparr>oa_codes := ddel ?key (oa_codes s)\<rparr>"]
    by (simp add: exchange_code_def Let_def split: option.split sum.split bool.split)
qed

lemma code_keys_refresh: "code_keys (snd (refresh_grant env ca form client s)) \<subseteq> code_keys s"
proof -
  let ?key = "oe_digest env (dget_or form ''refresh_token'' '''')"
  have "code_keys (snd (issue_tokens env ca cid (s\<lparr>oa_grants := ddel ?key (oa_grants s)\<rparr>))) \<subseteq> code_keys s" for cid
    using code_keys_issue[of env ca cid "s\<lparr>oa_grants := ddel ?key (oa_grants s)\<rparr>"] by simp
  then show ?thesis by (simp add: refresh_grant_def Let_def split: option.split)
qed

lemma code_keys_token: "code_keys (snd (token env ca form s)) \<subseteq> code_keys s"
proof -
  obtain ok l where lim: "endpoint_allows ca ''token'' s = (Inr ok, s\<lparr>oa_requests := l\<rparr>)" using limiter_answers by blast
  show ?thesis
    using code_keys_exchange[of env ca _ _ "s\<lparr>oa_requests := l\<rparr>"] code_keys_refresh[of env ca _ _ "s\<lparr>oa_requests := l\<rparr>"]
    by (cases "oauth_available env"; cases form) (auto simp: token_def op_bind_def lim split: option.split)
qed

text \<open>A code that is exchanged was there, was bound to the request, and is gone.\<close>

lemma token_exchange:
  assumes "token env ca (Some form) s = (r, s')" "r = Inr (Tokens a t)" "dget form ''grant_type'' = Some ''authorization_code''"
  shows "\<exists>client code. dget (oa_clients s) (dget_or form ''client_id'' '''') = Some client
    \<and> dget (oa_codes s) (oe_digest env (dget_or form ''code'' '''')) = Some code
    \<and> code_accepted env (ca_now ca) client form code = Inr True
    \<and> oe_digest env (dget_or form ''code'' '''') \<notin> code_keys s'"
proof -
  obtain ok l where lim: "endpoint_allows ca ''token'' s = (Inr ok, s\<lparr>oa_requests := l\<rparr>)" using limiter_answers by blast
  obtain client where c: "dget (oa_clients s) (dget_or form ''client_id'' '''') = Some client"
    "exchange_code env ca form client (s\<lparr>oa_requests := l\<rparr>) = (r, s')"
    using assms by (cases "oauth_available env") (auto simp: token_def op_bind_def lim split: if_splits option.splits)
  moreover have "oe_digest env (dget_or form ''code'' '''') \<notin> code_keys s'"
    using code_keys_exchange[of env ca form client "s\<lparr>oa_requests := l\<rparr>"] c(2) by auto
  ultimately show ?thesis using assms(2)
    by (auto simp: exchange_code_def Let_def split: option.splits sum.splits bool.splits)
qed

lemma later_codes:
  assumes "later env d s s'" "d \<notin> code_keys s"
  shows "d \<notin> code_keys s'"
proof -
  obtain ca rq where rq: "oe_digest env (fst (ca_random ca)) \<noteq> d" "s' = handle env ca rq s"
    using assms(1) by (auto simp: later_def)
  show ?thesis
  proof (cases rq)
    case (Decide form)
    obtain ok l where lim: "approval_allows ca s = (Inr ok, s\<lparr>oa_approvals := l\<rparr>)" using limiter_answers by blast
    have "code_keys (snd (authorize_decision env ca form s)) \<subseteq> insert (oe_digest env (fst (ca_random ca))) (code_keys s)"
      using code_keys_prune[of "ca_now ca" "s\<lparr>oa_approvals := l\<rparr>"]
      by (auto simp: authorize_decision_def approve_def op_bind_def lim Let_def split: sum.splits bool.splits option.splits)
    then show ?thesis using rq assms(2) Decide by auto
  next
    case (Restart readable)
    have "oa_codes (snd (restore_oauth env (ca_now ca) readable (oauth_new (oa_rows s)))) = []"
    proof -
      have "oa_codes (snd (restore_clients env raws t)) = oa_codes t" for raws t
        by (induction env raws t rule: restore_clients.induct) (simp_all split: sum.split)
      then show ?thesis
        by (simp add: restore_oauth_def oauth_new_def op_bind_def case_prod_beta split: option.split sum.split)
    qed
    then show ?thesis using rq Restart by (simp add: code_keys_def)
  next
    case (Show query n)
    have "snd (authorize_page env query n s) = s"
      by (simp add: authorize_page_def Let_def split: sum.split bool.split option.split)
    then show ?thesis using rq Show assms(2) by simp
  next
    case Revoke
    then show ?thesis using rq code_keys_persist[of env ca "s\<lparr>oa_clients := [], oa_codes := [], oa_grants := []\<rparr>"]
      by (auto simp: revoke_all_def)
  next
    case Status
    then show ?thesis using rq assms(2) code_keys_prune[of "ca_now ca" s] by (auto simp: oauth_status_def Let_def)
  next
    case (Register body)
    then show ?thesis using rq assms(2) code_keys_register[of env ca body s] by auto
  next
    case (Exchange form)
    then show ?thesis using rq assms(2) code_keys_token[of env ca form s] by auto
  qed
qed

lemma later_star_codes: "(later env d)\<^sup>*\<^sup>* s s' \<Longrightarrow> d \<notin> code_keys s \<Longrightarrow> d \<notin> code_keys s'"
  by (induction rule: rtranclp_induct) (simp_all add: later_codes)
text \<open>A redirect goes to the URL of a checked request.\<close>

lemma page_redirect:
  assumes "authorize_page env query n s = (Inr (Redirected uri q), s')"
  shows "\<exists>p client. check_request p s = Inr client \<and> uri = the (dget p ''redirect_uri'')"
  using assms unfolding authorize_page_def Let_def
  by (auto split: sum.splits bool.splits if_splits option.splits)

lemma decision_redirect:
  assumes "authorize_decision env ca form s = (Inr (Redirected uri q), s')"
  shows "\<exists>p client. check_request p s = Inr client \<and> uri = the (dget p ''redirect_uri'')"
proof (cases "oauth_available env = Inr True \<and> form \<noteq> None")
  case False
  then show ?thesis using assms by (auto simp: authorize_decision_def split: sum.splits bool.splits option.splits)
next
  case True
  then obtain f where f: "oauth_available env = Inr True" "form = Some f" by blast
  let ?p = "filter (\<lambda>(k, v). k \<in> set FIELDS) f"
  show ?thesis
  proof (cases "check_request ?p s")
    case (Inl e)
    then show ?thesis using assms f by (simp add: authorize_decision_def Let_def)
  next
    case (Inr client)
    obtain ok l where lim: "approval_allows ca s = (Inr ok, s\<lparr>oa_approvals := l\<rparr>)" using limiter_answers by blast
    have "uri = the (dget ?p ''redirect_uri'')"
      using assms f Inr lim
      by (auto simp: authorize_decision_def approve_def op_bind_def Let_def split: if_splits option.splits)
    then show ?thesis using Inr by blast
  qed
qed

section \<open>Properties\<close>

text \<open>
  C6: Only the operator opens the door. In every run of the server, with restarts and failing saves, a
  token that is accepted as an access token belongs to a grant that has not expired and whose client the
  operator approved in that run by typing the MCP token, on a consent form of that very client. JSON
  reads back the documents it wrote, the table starts without one, and a drawn client id is not empty.
\<close>

theorem access_requires_operator_approval:
  assumes "oauth_reach env h s" and "faithful_json env" and "valid_access_token env now tok s = Inr True"
  shows "\<exists>g. dget (oa_grants s) (oe_digest env tok) = Some g \<and> gr_kind g = ''access'' \<and> now < gr_expires_at g
    \<and> operator_approved env h (gr_client_id g)"
proof -
  obtain g where g: "dget (oa_grants s) (oe_digest env tok) = Some g" "gr_kind g = ''access''" "now < gr_expires_at g"
    using assms(3) by (auto simp: valid_access_token_def res_bind_Inr_conv split: option.splits)
  have "grant_ok env h g" by (rule oauth_okD(5)[OF reach_ok[OF assms(1,2)] map_of_SomeD[OF g(1)]])
  then show ?thesis using g by (simp add: grant_ok_def)
qed

text \<open>
  C7: An authorization code works once, and only for the request it was given to. Tokens are issued on a
  code only when it is known, has not expired, and the form carries its client, its redirect URL and the
  verifier of its PKCE challenge. Afterwards, whatever requests follow, including restarts, no form with
  that code gets tokens again, as long as the server does not draw a code with the same digest anew.
\<close>

theorem code_works_once:
  assumes "token env ca (Some form) s = (Inr (Tokens access refresh), s1)"
    and "dget form ''grant_type'' = Some ''authorization_code''"
    and "(later env (oe_digest env (dget_or form ''code'' '''')))\<^sup>*\<^sup>* s1 s2"
    and "dget form' ''grant_type'' = Some ''authorization_code''" and "dget form' ''code'' = dget form ''code''"
  shows "(\<exists>client code. dget (oa_clients s) (dget_or form ''client_id'' '''') = Some client
      \<and> dget (oa_codes s) (oe_digest env (dget_or form ''code'' '''')) = Some code \<and> ca_now ca < co_expires_at code
      \<and> co_client_id code = cl_id client \<and> dget form ''redirect_uri'' = Some (co_redirect_uri code)
      \<and> oe_s256 env (dget_or form ''code_verifier'' '''') = co_challenge code)
    \<and> (\<forall>a r. fst (token env ca' (Some form') s2) \<noteq> Inr (Tokens a r))"
proof -
  let ?d = "oe_digest env (dget_or form ''code'' '''')"
  obtain client code where c: "dget (oa_clients s) (dget_or form ''client_id'' '''') = Some client"
    "dget (oa_codes s) ?d = Some code" "code_accepted env (ca_now ca) client form code = Inr True" "?d \<notin> code_keys s1"
    using token_exchange[OF assms(1) refl assms(2)] by blast
  have bound: "ca_now ca < co_expires_at code" "co_client_id code = cl_id client"
    "dget form ''redirect_uri'' = Some (co_redirect_uri code)" "oe_s256 env (dget_or form ''code_verifier'' '''') = co_challenge code"
    using c(3) by (auto simp: code_accepted_def Let_def split: if_splits)
  have gone: "?d \<notin> code_keys s2" by (rule later_star_codes[OF assms(3) c(4)])
  have same: "oe_digest env (dget_or form' ''code'' '''') = ?d" using assms(5) by (simp add: dget_or_def)
  have "fst (token env ca' (Some form') s2) \<noteq> Inr (Tokens a r)" for a r
  proof
    assume "fst (token env ca' (Some form') s2) = Inr (Tokens a r)"
    then obtain s3 where "token env ca' (Some form') s2 = (Inr (Tokens a r), s3)" by (cases "token env ca' (Some form') s2") simp
    from token_exchange[OF this refl assms(4)] obtain code' where "dget (oa_codes s2) ?d = Some code'" using same by auto
    from map_of_SomeD[OF this] have "?d \<in> code_keys s2" by (simp add: code_keys_def rev_image_eqI)
    then show False using gone by contradiction
  qed
  then show ?thesis using c bound by blast
qed

text \<open>
  Codes go only to ChatGPT. In every reachable state, whenever the consent page or the decision
  redirects the browser, with a code or with an error, the target is an HTTPS URL on one of the two
  allowed hosts, without port, credentials or fragment.
\<close>

theorem redirects_only_to_allowed_hosts:
  assumes "oauth_reach env h s" and "faithful_json env"
    and "authorize_decision env ca form s = (Inr (Redirected uri query), s')
      \<or> authorize_page env params n s = (Inr (Redirected uri query), s')"
  shows "\<exists>parts host. oe_urlsplit env uri = Inr parts \<and> up_scheme parts = ''https'' \<and> up_hostname parts = Some host
    \<and> (host = ''chatgpt.com'' \<or> host = ''chat.openai.com'') \<and> up_port parts = None \<and> up_fragment parts = ''''"
proof -
  have ok: "oauth_ok env h s" by (rule reach_ok[OF assms(1,2)])
  obtain p client where p: "check_request p s = Inr client" "uri = the (dget p ''redirect_uri'')"
    using assms(3) page_redirect decision_redirect by metis
  then have "allowed_redirect env uri = Inr True" using check_request_client[OF ok p(1)] by auto
  then show ?thesis by (auto simp: allowed_redirect_def res_bind_Inr_conv ALLOWED_REDIRECT_HOSTS_def split: option.splits)
qed

text \<open>
  C39: A restart keeps connectors signed in, a new MCP token signs them out. In every reachable state,
  saving the document and starting a process on the table brings back exactly the registered clients and
  the grants that have not expired, in order; with an MCP token of another fingerprint the process
  starts without clients and grants.
\<close>

theorem restart_restores_grants:
  assumes "oauth_reach env h s" and "faithful_json env" and "oe_store env" and "oe_mcp_enabled env" and "ca_fate ca \<noteq> Not_Saved"
  shows "(case restore_oauth env now True (oauth_new (oa_rows (persist env ca s))) of
      (Inr _, s') \<Rightarrow> oa_clients s' = oa_clients s
        \<and> oa_grants s' = filter (\<lambda>(k, g). ca_now ca < gr_expires_at g \<and> now < gr_expires_at g) (oa_grants s)
    | (Inl _, _) \<Rightarrow> False)
    \<and> (token_fingerprint (env\<lparr>oe_mcp_api_token := t\<rparr>) \<noteq> token_fingerprint env \<longrightarrow>
        restore_oauth (env\<lparr>oe_mcp_api_token := t\<rparr>) now True (oauth_new (oa_rows (persist env ca s)))
          = (Inr (), oauth_new (oa_rows (persist env ca s))))"
proof -
  have ok: "oauth_ok env h s" by (rule reach_ok[OF assms(1,2)])
  have doc: "control_get (oe_loads env) OAUTH_STATE_KEY (oa_rows (persist env ca s)) = Some (document env (prune (ca_now ca) s))"
    using assms(2,3,5) by (simp add: persist_def Let_def control_get_put faithful_json_def)
  have both: "filter (\<lambda>(k, g). now < gr_expires_at g) (oa_grants (prune (ca_now ca) s))
      = filter (\<lambda>(k, g). ca_now ca < gr_expires_at g \<and> now < gr_expires_at g) (oa_grants s)"
    by (simp add: prune_def) (rule filter_cong, auto)
  show ?thesis
    using restore_persisted[OF ok assms(2-5) refl, of now] doc both
    by (simp add: restore_oauth_def oauth_new_def) (simp add: document_def)
qed

section \<open>Two limits of the design\<close>

text \<open>A revocation whose save fails is undone by the next restart: the connectors that were signed out
  are signed in again.\<close>

lemma unsaved_revocation_returns:
  assumes "oauth_reach env h s" "faithful_json env" "oe_store env" "oe_mcp_enabled env" "ca_fate ca \<noteq> Not_Saved" "ca_fate ca' = Not_Saved"
  shows "oa_grants (snd (revoke_all env ca' (persist env ca s))) = []"
    and "oa_grants (snd (restore_oauth env now True (oauth_new (oa_rows (snd (revoke_all env ca' (persist env ca s)))))))
      = filter (\<lambda>(k, g). now < gr_expires_at g) (oa_grants (prune (ca_now ca) s))"
proof -
  show "oa_grants (snd (revoke_all env ca' (persist env ca s))) = []"
    using assms(3,6) by (simp add: revoke_all_def persist_def prune_def Let_def)
  have "oa_rows (snd (revoke_all env ca' (persist env ca s))) = oa_rows (persist env ca s)"
    using assms(3,6) by (simp add: revoke_all_def persist_def[of env ca'] prune_def Let_def)
  from restore_persisted[OF reach_ok[OF assms(1,2)] assms(2-5) this, of now]
  show "oa_grants (snd (restore_oauth env now True (oauth_new (oa_rows (snd (revoke_all env ca' (persist env ca s)))))))
      = filter (\<lambda>(k, g). now < gr_expires_at g) (oa_grants (prune (ca_now ca) s))" by simp
qed

text \<open>The registry holds at most 20 clients; the grants exceed their limit of 200 by one, since a pair of
  tokens is added when one slot is left.\<close>

lemma registry_bounds:
  assumes "oauth_reach env h s" "faithful_json env"
  shows "length (oa_clients s) \<le> 20" "length (oa_grants s) \<le> 201"
  using oauth_okD(7,8)[OF reach_ok[OF assms]] by (simp_all add: MAX_CLIENTS_def MAX_TOKENS_def)

lemma one_token_too_many:
  assumes "length (oa_grants (prune (ca_now ca) s)) = 199" "ca_random ca = (a, r)" "oe_digest env a \<noteq> oe_digest env r"
    and "dget (oa_grants (prune (ca_now ca) s)) (oe_digest env a) = None" "dget (oa_grants (prune (ca_now ca) s)) (oe_digest env r) = None"
    and "\<not> oe_store env"
  shows "length (oa_grants (snd (issue_tokens env ca cid s))) = 201"
  using assms by (simp add: issue_tokens_def persist_def dset_fresh MAX_TOKENS_def Let_def)
section \<open>Witnesses\<close>

text \<open>An encoding of documents that can be read back.\<close>

definition enc_rows :: "string list list \<Rightarrow> string" where
  "enc_rows rows = enc_texts (map enc_texts rows)"

definition dec_rows :: "string \<Rightarrow> string list list" where
  "dec_rows r = map (\<lambda>t. fst (dec_texts t)) (fst (dec_texts r))"

lemma dec_texts_enc: "dec_texts (enc_texts xs) = (xs, [])"
  using dec_enc_texts[of xs "[]"] by simp

lemma dec_enc_rows [simp]: "dec_rows (enc_rows rows) = rows"
  by (simp add: dec_rows_def enc_rows_def dec_texts_enc comp_def)

definition int_text :: "int \<Rightarrow> string" where
  "int_text i = (if i < 0 then CHR ''-'' else CHR ''+'') # nat_str (nat \<bar>i\<bar>)"

definition text_int :: "string \<Rightarrow> int" where
  "text_int s = (if hd s = CHR ''-'' then - int (digits_val (tl s)) else int (digits_val (tl s)))"

lemma text_int_text [simp]: "text_int (int_text i) = i"
  by (simp add: text_int_def int_text_def del: digits_val.simps)

definition enc_document :: "oauth_document \<Rightarrow> string" where
  "enc_document d = enc_texts [the (od_token_fingerprint d),
     enc_rows (map (\<lambda>c. the (rc_client_id c) # the (rc_name c) # map the (rc_redirect_uris c)) (od_clients d)),
     enc_rows (map (\<lambda>(k, g). [k, gr_client_id (the g), gr_kind (the g), int_text (gr_expires_at (the g))]) (od_grants d))]"

definition dec_document :: "string \<Rightarrow> oauth_document" where
  "dec_document r = (let t = fst (dec_texts r) in
     \<lparr>od_token_fingerprint = Some (t ! 0),
      od_clients = map (\<lambda>c. \<lparr>rc_client_id = Some (c ! 0), rc_redirect_uris = map Some (drop 2 c), rc_name = Some (c ! 1)\<rparr>) (dec_rows (t ! 1)),
      od_grants = map (\<lambda>g. (g ! 0, Some \<lparr>gr_client_id = g ! 1, gr_kind = g ! 2, gr_expires_at = text_int (g ! 3)\<rparr>)) (dec_rows (t ! 2))\<rparr>)"

lemma dec_enc_document: "dec_document (enc_document (document env s)) = document env s"
  by (simp add: dec_document_def enc_document_def document_def dec_texts_enc Let_def comp_def case_prod_beta)

definition ex_cb :: string where "ex_cb = ''https://chatgpt.com/cb''"

definition ex_urlsplit :: "string \<Rightarrow> url_parts res" where
  "ex_urlsplit s =
     (if s = ''https://proto.example'' then Inr \<lparr>up_scheme = ''https'', up_hostname = Some ''proto.example'', up_port = None,
        up_username = None, up_password = None, up_path = '''', up_query = '''', up_fragment = ''''\<rparr>
      else if s = ex_cb then Inr \<lparr>up_scheme = ''https'', up_hostname = Some ''chatgpt.com'', up_port = None,
        up_username = None, up_password = None, up_path = ''/cb'', up_query = '''', up_fragment = ''''\<rparr>
      else Inl (ValueError ''url''))"

definition ex_oauth_env :: "bool \<Rightarrow> oauth_env" where
  "ex_oauth_env store = \<lparr>oe_mcp_enabled = True, oe_mcp_api_token = Some ''tok'', oe_public_origin = Some ''https://proto.example'',
     oe_store = store, oe_urlsplit = ex_urlsplit, oe_digest = (\<lambda>t. t), oe_s256 = (\<lambda>t. t), oe_fingerprint = (\<lambda>t. t),
     oe_parse_qsl = (\<lambda>_. None), oe_dumps = enc_document, oe_loads = dec_document\<rparr>"

lemma ex_faithful: "faithful_json (ex_oauth_env store)"
  using dec_enc_document by (simp add: faithful_json_def ex_oauth_env_def)

definition ex_call :: "int \<Rightarrow> string \<times> string \<Rightarrow> call" where
  "ex_call t random = \<lparr>ca_now = seconds t, ca_clock = of_int t, ca_host = None, ca_random = random, ca_fate = Saved\<rparr>"

definition ex_challenge :: string where "ex_challenge = replicate 43 (CHR ''x'')"

definition ex_register :: oauth_request where
  "ex_register = Register (Registration \<lparr>rg_redirect_uris = Some [Some ex_cb], rg_auth_method = None, rg_client_name = None\<rparr>)"

definition ex_consent :: "(string, string) dict" where
  "ex_consent = [(''response_type'', ''code''), (''client_id'', ''c1''), (''redirect_uri'', ex_cb), (''code_challenge'', ex_challenge),
     (''code_challenge_method'', ''S256''), (''decision'', ''approve''), (''approval_token'', ''tok'')]"

definition ex_redeem :: "(string, string) dict" where
  "ex_redeem = [(''grant_type'', ''authorization_code''), (''client_id'', ''c1''), (''code'', ''code1''), (''redirect_uri'', ex_cb),
     (''code_verifier'', ex_challenge)]"

definition ex_registered :: "bool \<Rightarrow> oauth" where
  "ex_registered store = handle (ex_oauth_env store) (ex_call 1 (''c1'', '''')) ex_register (oauth_new [])"

definition ex_approved :: "bool \<Rightarrow> oauth" where
  "ex_approved store = handle (ex_oauth_env store) (ex_call 2 (''code1'', '''')) (Decide (Some ex_consent)) (ex_registered store)"

definition ex_history :: "(call \<times> oauth_request) list" where
  "ex_history = [(ex_call 1 (''c1'', ''''), ex_register), (ex_call 2 (''code1'', ''''), Decide (Some ex_consent))]"

lemma ex_reach: "oauth_reach (ex_oauth_env store) ex_history (ex_approved store)"
proof -
  let ?e = "ex_oauth_env store"
  have "oauth_reach ?e [] (oauth_new [])" by (rule oauth_reach.started) simp
  from oauth_reach.handled[OF this, of "ex_call 1 (''c1'', '''')" ex_register]
  have "oauth_reach ?e [(ex_call 1 (''c1'', ''''), ex_register)] (ex_registered store)" by (simp add: ex_registered_def ex_call_def)
  from oauth_reach.handled[OF this, of "ex_call 2 (''code1'', '''')" "Decide (Some ex_consent)"]
  show ?thesis by (simp add: ex_approved_def ex_history_def ex_call_def)
qed

lemma ex_redeemed:
  "case token (ex_oauth_env False) (ex_call 3 (''acc'', ''ref'')) (Some ex_redeem) (ex_approved False) of
     (Inr (Tokens a r), s) \<Rightarrow> a = ''acc'' \<and> r = ''ref'' \<and> valid_access_token (ex_oauth_env False) (seconds 10) ''acc'' s = Inr True
   | _ \<Rightarrow> False"
  by code_simp

lemma ex_tokens:
  obtains s where "token (ex_oauth_env False) (ex_call 3 (''acc'', ''ref'')) (Some ex_redeem) (ex_approved False) = (Inr (Tokens ''acc'' ''ref''), s)"
    "valid_access_token (ex_oauth_env False) (seconds 10) ''acc'' s = Inr True"
  using ex_redeemed by (auto split: prod.splits sum.splits oauth_response.splits)

theorem access_requires_operator_approval_witness:
  "\<exists>s g. oauth_reach (ex_oauth_env False) (ex_history @ [(ex_call 3 (''acc'', ''ref''), Exchange (Some ex_redeem))]) s
     \<and> dget (oa_grants s) ''acc'' = Some g
     \<and> operator_approved (ex_oauth_env False) (ex_history @ [(ex_call 3 (''acc'', ''ref''), Exchange (Some ex_redeem))]) (gr_client_id g)"
proof -
  obtain s where s: "token (ex_oauth_env False) (ex_call 3 (''acc'', ''ref'')) (Some ex_redeem) (ex_approved False) = (Inr (Tokens ''acc'' ''ref''), s)"
    "valid_access_token (ex_oauth_env False) (seconds 10) ''acc'' s = Inr True" by (rule ex_tokens)
  have reach: "oauth_reach (ex_oauth_env False) (ex_history @ [(ex_call 3 (''acc'', ''ref''), Exchange (Some ex_redeem))]) s"
    using oauth_reach.handled[OF ex_reach[of False], of "ex_call 3 (''acc'', ''ref'')" "Exchange (Some ex_redeem)"] s(1)
    by (simp add: ex_call_def)
  from access_requires_operator_approval[OF this ex_faithful s(2)] reach show ?thesis by (auto simp: ex_oauth_env_def)
qed

theorem code_works_once_witness:
  "\<exists>s. token (ex_oauth_env False) (ex_call 3 (''acc'', ''ref'')) (Some ex_redeem) (ex_approved False) = (Inr (Tokens ''acc'' ''ref''), s)
     \<and> (\<forall>a r. fst (token (ex_oauth_env False) (ex_call 4 (''acc2'', ''ref2'')) (Some ex_redeem) s) \<noteq> Inr (Tokens a r))"
proof -
  obtain s where s: "token (ex_oauth_env False) (ex_call 3 (''acc'', ''ref'')) (Some ex_redeem) (ex_approved False) = (Inr (Tokens ''acc'' ''ref''), s)"
    by (rule ex_tokens)
  have form: "dget ex_redeem ''grant_type'' = Some ''authorization_code''" by (simp add: ex_redeem_def)
  from code_works_once[OF s form rtranclp.rtrancl_refl form refl] s show ?thesis by blast
qed

theorem redirects_only_to_allowed_hosts_witness:
  "\<exists>uri q s'. authorize_decision (ex_oauth_env False) (ex_call 5 (''code2'', '''')) (Some ex_consent) (ex_approved False)
     = (Inr (Redirected uri q), s') \<and> (\<exists>parts. ex_urlsplit uri = Inr parts \<and> up_scheme parts = ''https'')"
proof -
  have "case fst (authorize_decision (ex_oauth_env False) (ex_call 5 (''code2'', '''')) (Some ex_consent) (ex_approved False)) of
      Inr (Redirected uri q) \<Rightarrow> True | _ \<Rightarrow> False" by code_simp
  then obtain uri q s' where d: "authorize_decision (ex_oauth_env False) (ex_call 5 (''code2'', '''')) (Some ex_consent) (ex_approved False)
      = (Inr (Redirected uri q), s')"
    by (cases "authorize_decision (ex_oauth_env False) (ex_call 5 (''code2'', '''')) (Some ex_consent) (ex_approved False)")
      (auto split: sum.splits oauth_response.splits)
  have "oe_urlsplit (ex_oauth_env False) = ex_urlsplit" by (simp add: ex_oauth_env_def)
  with redirects_only_to_allowed_hosts[OF ex_reach ex_faithful disjI1[OF d]] d show ?thesis by auto
qed

theorem restart_restores_grants_witness:
  "case restore_oauth (ex_oauth_env True) (seconds 9) True (oauth_new (oa_rows (persist (ex_oauth_env True) (ex_call 8 ('''', '''')) (ex_approved True)))) of
     (Inr _, s') \<Rightarrow> oa_clients s' = oa_clients (ex_approved True) | (Inl _, _) \<Rightarrow> False"
proof -
  have e: "oe_store (ex_oauth_env True)" "oe_mcp_enabled (ex_oauth_env True)" "ca_fate (ex_call 8 ('''', '''')) \<noteq> Not_Saved"
    by (simp_all add: ex_oauth_env_def ex_call_def)
  from restart_restores_grants[OF ex_reach ex_faithful e, of "seconds 9" None] show ?thesis by (auto split: prod.splits sum.splits)
qed

end
