(* ===== verification/Account.thy ===== *)
theory Account
  imports Risk_Engine Catalog Ledger
begin

text \<open>
  The account view the risk engine is given (\<^verbatim>\<open>apps/api/app/oms_surface.py\<close>): equity and exposure from the
  ledger or the executor, marked at live quotes, with the start-of-day and peak equity kept as
  checkpoints (\<^verbatim>\<open>services/oms/store.py\<close>); the active instruments (\<^verbatim>\<open>apps/api/app/instrument_registry.py\<close>)
  and the BRL rate of a quote currency with its cache (\<^verbatim>\<open>apps/api/app/fx_rates.py\<close>).

  The answers of the executor, of the market data and of the rate service are inputs; the parsing of a
  decimal text is a parameter. A read happens at one instant; its day is the number of UTC days since
  the epoch. The checkpoint table is taken to answer; what other requests do to it between a request's read and
  its write is an argument (\<open>co_between\<close>).
\<close>

section \<open>Settings and instruments\<close>

record api_settings =
  ap_executor_mode :: bool
  ap_xp_enabled :: bool
  ap_alpaca_enabled :: bool
  ap_more_pairs :: bool

text \<open>\<^verbatim>\<open>dict.update\<close>\<close>

definition dict_update :: "('k, 'v) dict \<Rightarrow> ('k, 'v) dict \<Rightarrow> ('k, 'v) dict" where
  "dict_update d e = fold (\<lambda>(k, v). dset k v) e d"

definition active_instruments :: "api_settings \<Rightarrow> (string, tradable_instrument) dict" where
  "active_instruments st =
     (if \<not> (ap_xp_enabled st \<or> ap_alpaca_enabled st \<or> ap_more_pairs st) then PAPER_INSTRUMENTS
      else let d0 = PAPER_INSTRUMENTS;
               d1 = (if ap_more_pairs st then dict_update d0 BINANCE_MORE_INSTRUMENTS else d0);
               d2 = (if ap_xp_enabled st then dict_update d1 B3_INSTRUMENTS else d1)
           in if ap_alpaca_enabled st then dict_update d2 US_INSTRUMENTS else d2)"

definition venue_for_quote :: "api_settings \<Rightarrow> string \<Rightarrow> venue_id" where
  "venue_for_quote st quote_asset =
     (if ap_xp_enabled st \<and> quote_asset = ''BRL'' then V_XP_B3
      else if ap_alpaca_enabled st \<and> quote_asset = ''USD'' then V_ALPACA_US
      else V_BINANCE_SPOT)"

definition instruments_of :: "api_settings \<Rightarrow> venue_id \<Rightarrow> (string, tradable_instrument) dict" where
  "instruments_of st venue = filter (\<lambda>(k, v). ti_venue v = venue) (active_instruments st)"

section \<open>The BRL rate\<close>

definition RATE_MAX_AGE :: timedelta where "RATE_MAX_AGE = seconds 30"
definition SANE_BRL_PER_USDT :: "rat \<times> rat" where "SANE_BRL_PER_USDT = (2, 20)"
definition USD_PROXY_MARGIN :: rat where "USD_PROXY_MARGIN = 102 / 100"

definition rate_pair :: "string \<Rightarrow> string option" where
  "rate_pair quote_asset = (if quote_asset = ''USDT'' \<or> quote_asset = ''USD'' then Some ''USDTBRL'' else None)"

text \<open>The answer of the ticker as bid and ask, \<open>None\<close> when it cannot be had or read.\<close>

definition fetch_rate :: "(rat \<times> rat) option \<Rightarrow> rat option" where
  "fetch_rate ticker =
     (case ticker of
        None \<Rightarrow> None
      | Some (bid, ask) \<Rightarrow>
          (case SANE_BRL_PER_USDT of (low, high) \<Rightarrow>
             if \<not> (0 < bid \<and> bid \<le> ask \<and> low \<le> ask \<and> ask \<le> high) then None else Some ask))"

type_synonym rate_cache = "(string, rat \<times> instant) dict"

definition brl_per :: "(rat \<times> rat) option \<Rightarrow> instant \<Rightarrow> string \<Rightarrow> rate_cache \<Rightarrow> rat option \<times> rate_cache" where
  "brl_per ticker now quote_asset cache =
     (if quote_asset = ''BRL'' then (Some 1, cache)
      else (case rate_pair quote_asset of
              None \<Rightarrow> (None, cache)
            | Some pair \<Rightarrow>
                let (rate, cache') =
                  (case dget cache pair of
                     Some (cached, taken) \<Rightarrow>
                       if now - taken \<le> RATE_MAX_AGE then (Some cached, cache)
                       else (case fetch_rate ticker of
                               Some r \<Rightarrow> (Some r, dset pair (r, now) cache) | None \<Rightarrow> (None, ddel pair cache))
                   | None \<Rightarrow>
                       (case fetch_rate ticker of
                          Some r \<Rightarrow> (Some r, dset pair (r, now) cache) | None \<Rightarrow> (None, ddel pair cache)))
                in (if quote_asset = ''USD'' then map_option (\<lambda>r. dmul r USD_PROXY_MARGIN) rate else rate, cache')))"

definition canary_capital :: "rat option \<Rightarrow> string \<Rightarrow> string \<Rightarrow> rat option res" where
  "canary_capital rate quote_asset market_source =
     (if quote_asset = ''BRL'' then Inr (Some CANARY_CAPITAL)
      else if market_source \<noteq> ''BINANCE'' then Inr None
      else (case rate of None \<Rightarrow> Inr None | Some r \<Rightarrow> res_bind (canary_capital_in r) (\<lambda>c. Inr (Some c))))"

definition reference_capital :: "rat option \<Rightarrow> rat res" where
  "reference_capital rate = (case rate of None \<Rightarrow> Inr 0 | Some r \<Rightarrow> reference_capital_in r)"

section \<open>Equity checkpoints\<close>

text \<open>The UTC day, the start-of-day equity and the peak equity.\<close>

type_synonym checkpoint = "int \<times> rat \<times> rat"

definition memory_get :: "string \<Rightarrow> (string, checkpoint) dict \<Rightarrow> checkpoint option" where
  "memory_get key values = dget values key"

definition memory_put :: "instant \<Rightarrow> string \<Rightarrow> checkpoint \<Rightarrow> (string, checkpoint) dict \<Rightarrow> (string, checkpoint) dict" where
  "memory_put now key c values = dset key c values"

text \<open>The table of all accounts; decimals are stored as their exact text.\<close>

record checkpoint_row =
  cr_account_id :: string
  cr_quote_asset :: string
  cr_checkpoint :: checkpoint
  cr_updated_at :: instant

definition is_row :: "string \<Rightarrow> string \<Rightarrow> checkpoint_row \<Rightarrow> bool" where
  "is_row account_id key r \<longleftrightarrow> cr_account_id r = account_id \<and> cr_quote_asset r = key"

definition sql_get :: "string \<Rightarrow> string \<Rightarrow> checkpoint_row list \<Rightarrow> checkpoint option" where
  "sql_get account_id key rows = map_option cr_checkpoint (List.find (is_row account_id key) rows)"

definition sql_put :: "string \<Rightarrow> instant \<Rightarrow> string \<Rightarrow> checkpoint \<Rightarrow> checkpoint_row list \<Rightarrow> checkpoint_row list" where
  "sql_put account_id now key c rows =
     (if list_ex (is_row account_id key) rows
      then map (\<lambda>r. if is_row account_id key r then r\<lparr>cr_checkpoint := c, cr_updated_at := now\<rparr> else r) rows
      else rows @ [\<lparr>cr_account_id = account_id, cr_quote_asset = key, cr_checkpoint = c, cr_updated_at = now\<rparr>])"

text \<open>The account a venue's checkpoints are kept under.\<close>

definition checkpoint_account :: "api_settings \<Rightarrow> venue_id \<Rightarrow> string" where
  "checkpoint_account st venue =
     (if venue = V_XP_B3 then ''executor-xp-b3''
      else if venue = V_ALPACA_US then ''executor-alpaca-us''
      else if ap_executor_mode st then ''executor-binance-spot'' else ''paper-binance-spot'')"

text \<open>
  The stores of all venues as the account view uses them: a dictionary per venue, or one table. A request reads a
  checkpoint and writes it back later without a lock; \<open>co_between\<close> is what other requests do to the store in between.
\<close>

record 'c checkpoint_ops =
  co_get :: "venue_id \<Rightarrow> string \<Rightarrow> 'c \<Rightarrow> checkpoint option"
  co_put :: "venue_id \<Rightarrow> instant \<Rightarrow> string \<Rightarrow> checkpoint \<Rightarrow> 'c \<Rightarrow> 'c"
  co_between :: "'c \<Rightarrow> 'c"

definition memory_ops :: "(venue_id \<Rightarrow> (string, checkpoint) dict) checkpoint_ops" where
  "memory_ops = \<lparr>co_get = (\<lambda>venue key store. memory_get key (store venue)),
     co_put = (\<lambda>venue now key c store. store(venue := memory_put now key c (store venue))), co_between = (\<lambda>store. store)\<rparr>"

definition sql_ops :: "api_settings \<Rightarrow> checkpoint_row list checkpoint_ops" where
  "sql_ops st = \<lparr>co_get = (\<lambda>venue. sql_get (checkpoint_account st venue)),
     co_put = (\<lambda>venue. sql_put (checkpoint_account st venue)), co_between = (\<lambda>store. store)\<rparr>"

section \<open>What is read\<close>

text \<open>Totals and opening balances, from the ledger or from the executor's answer (texts).\<close>

type_synonym totals = "(string, rat) dict \<times> (string, rat) dict"

definition ledger_totals :: "(string, asset_balance) dict \<Rightarrow> totals" where
  "ledger_totals balances = (map (\<lambda>(a, b). (a, ab_total b)) balances, map (\<lambda>(a, b). (a, ab_opening b)) balances)"

definition executor_totals :: "(string \<Rightarrow> rat res) \<Rightarrow> (string, string option \<times> string option) dict \<Rightarrow> totals res" where
  "executor_totals parse rows =
     res_bind (map_res (\<lambda>(a, total, opening).
        case total of None \<Rightarrow> Inl (KeyError ''total'') | Some t \<Rightarrow> res_bind (parse t) (\<lambda>x. Inr (a, x))) rows) (\<lambda>totals.
     res_bind (map_res (\<lambda>(a, total, opening).
        res_bind (parse (case opening of None \<Rightarrow> ''0'' | Some t \<Rightarrow> t)) (\<lambda>x. Inr (a, x))) rows) (\<lambda>openings.
     Inr (totals, openings)))"

text \<open>A working order as the executor or the order manager shows it; an absent field is \<open>None\<close>.\<close>

record order_view =
  ov_status :: "string option"
  ov_instrument_id :: "string option"
  ov_side :: "string option"
  ov_quantity :: "string option"
  ov_filled_quantity :: "string option"

datatype unreadable = Orders_Unreadable | Executor_Error

definition view_remaining :: "(string \<Rightarrow> rat res) \<Rightarrow> order_view \<Rightarrow> (string \<times> string \<times> rat) option" where
  "view_remaining parse v =
     (case (ov_instrument_id v, ov_side v, ov_quantity v, ov_filled_quantity v) of
        (Some i, Some side, Some q, Some f) \<Rightarrow>
          (case (parse q, parse f) of (Inr x, Inr y) \<Rightarrow> Some (i, side, dsub x y) | _ \<Rightarrow> None)
      | _ \<Rightarrow> None)"

fun add_open_buys ::
    "(string \<Rightarrow> rat res) \<Rightarrow> string list \<Rightarrow> order_view list \<Rightarrow> (string, rat) dict \<Rightarrow> unreadable + (string, rat) dict" where
  "add_open_buys parse instruments [] buys = Inr buys"
| "add_open_buys parse instruments (v # vs) buys =
     (if (case ov_status v of None \<Rightarrow> False | Some st \<Rightarrow> st \<in> set (map status_value TERMINAL_ORDER_STATUSES))
      then add_open_buys parse instruments vs buys
      else (case view_remaining parse v of
              None \<Rightarrow> Inl Orders_Unreadable
            | Some (i, side, remaining) \<Rightarrow>
                if side \<noteq> ''BUY'' \<or> i \<notin> set instruments \<or> remaining \<le> 0
                then add_open_buys parse instruments vs buys
                else add_open_buys parse instruments vs (dset i (dadd (dget_or buys i 0) remaining) buys)))"

text \<open>The executor's answer names whether it filtered to open orders; an unfiltered list of 500 is not trusted.\<close>

definition open_buys ::
    "(string \<Rightarrow> rat res) \<Rightarrow> api_settings \<Rightarrow> venue_id \<Rightarrow> string \<Rightarrow> (bool \<times> order_view list) option \<Rightarrow> unreadable + (string, rat) dict" where
  "open_buys parse st venue quote_asset answer =
     (case answer of
        None \<Rightarrow> Inl Executor_Error
      | Some (open_only, rows) \<Rightarrow>
          if ap_executor_mode st \<and> \<not> open_only \<and> 500 \<le> length rows then Inl Orders_Unreadable
          else add_open_buys parse
                 (map fst (filter (\<lambda>(k, v). ti_quote_asset v = quote_asset) (instruments_of st venue))) rows [])"

section \<open>The account view\<close>

definition book_key :: "string \<Rightarrow> string" where
  "book_key quote_asset = quote_asset @ '':own''"

definition checkpoint_key :: "api_settings \<Rightarrow> string \<Rightarrow> (string, rat) dict \<Rightarrow> venue_id \<Rightarrow> string" where
  "checkpoint_key st quote_asset openings venue =
     (if list_ex (\<lambda>(k, i). ti_quote_asset i = quote_asset \<and> 0 < dget_or openings (ti_base_asset i) 0) (instruments_of st venue)
      then book_key quote_asset else quote_asset)"

definition outage_checkpoint ::
    "'c checkpoint_ops \<Rightarrow> api_settings \<Rightarrow> string \<Rightarrow> venue_id \<Rightarrow> (string, rat) dict option \<Rightarrow> 'c \<Rightarrow> checkpoint option" where
  "outage_checkpoint ops st quote_asset venue seen store =
     (case seen of
        Some openings \<Rightarrow> co_get ops venue (checkpoint_key st quote_asset openings venue) store
      | None \<Rightarrow>
          (case (co_get ops venue (book_key quote_asset) store, co_get ops venue quote_asset store) of
             (None, None) \<Rightarrow> None
           | (Some c, None) \<Rightarrow> Some c
           | (None, Some c) \<Rightarrow> Some c
           | (Some (day, s1, p1), Some (_, s2, p2)) \<Rightarrow> Some (day, min s1 s2, max p1 p2)))"

definition marked_elsewhere ::
    "api_settings \<Rightarrow> (string \<Rightarrow> quote option) \<Rightarrow> tradable_instrument \<Rightarrow> string \<Rightarrow> venue_id \<Rightarrow> bool" where
  "marked_elsewhere st quotes i quote_asset venue =
     list_ex (\<lambda>(other_id, other). ti_base_asset other = ti_base_asset i \<and> ti_quote_asset other \<noteq> quote_asset
        \<and> quotes other_id \<noteq> None) (instruments_of st venue)"

text \<open>Positions, exposure and whether every held asset has a mark.\<close>

definition mark_instrument ::
    "api_settings \<Rightarrow> (string \<Rightarrow> quote option) \<Rightarrow> string \<Rightarrow> venue_id \<Rightarrow> totals \<Rightarrow> string \<times> tradable_instrument \<Rightarrow>
     (string, rat) dict \<times> rat \<times> bool \<Rightarrow> (string, rat) dict \<times> rat \<times> bool" where
  "mark_instrument st quotes quote_asset venue totals = (\<lambda>(instrument_id, i) (positions, exposure, marked).
     if ti_quote_asset i \<noteq> quote_asset then (positions, exposure, marked)
     else
       let quantity = max (dsub (dget_or (fst totals) (ti_base_asset i) 0) (dget_or (snd totals) (ti_base_asset i) 0)) 0;
           positions' = dset instrument_id quantity positions
       in if quantity = 0 then (positions', exposure, marked)
          else (case quotes instrument_id of
                  None \<Rightarrow> (positions', exposure, marked \<and> marked_elsewhere st quotes i quote_asset venue)
                | Some q \<Rightarrow>
                    (positions', dadd exposure (dec_fix (dmul quantity (dadd (qt_bid q) (qt_ask q)) / 2)), marked)))"

definition mark_book ::
    "api_settings \<Rightarrow> (string \<Rightarrow> quote option) \<Rightarrow> string \<Rightarrow> venue_id \<Rightarrow> totals \<Rightarrow> (string, rat) dict \<times> rat \<times> bool" where
  "mark_book st quotes quote_asset venue totals =
     fold (mark_instrument st quotes quote_asset venue totals) (instruments_of st venue) ([], 0, True)"

record 'c account_book =
  bk_store :: 'c
  bk_last_openings :: "venue_id \<Rightarrow> (string, rat) dict option"

text \<open>What a read of the account finds: the balances of the paper ledger and the executor's answer
  (\<open>None\<close>: it cannot be read), the working orders, the quotes, the rate and the instant.\<close>

record account_read =
  ar_ledger :: "(string, asset_balance) dict"
  ar_executor :: "(string, string option \<times> string option) dict option"
  ar_orders :: "(bool \<times> order_view list) option"
  ar_quotes :: "string \<Rightarrow> quote option"
  ar_rate :: "rat option"
  ar_now :: instant

definition utc_day :: "instant \<Rightarrow> int" where
  "utc_day now = now div days 1"

definition ar_today :: "account_read \<Rightarrow> int" where
  "ar_today rd = utc_day (ar_now rd)"

text \<open>\<open>None\<close>: the executor is unavailable, or the venue has none and is not the paper venue.\<close>

definition account_totals :: "(string \<Rightarrow> rat res) \<Rightarrow> api_settings \<Rightarrow> venue_id \<Rightarrow> account_read \<Rightarrow> totals option res" where
  "account_totals parse st venue rd =
     (if ap_executor_mode st
      then (case ar_executor rd of
              None \<Rightarrow> Inr None
            | Some rows \<Rightarrow> res_bind (executor_totals parse rows) (\<lambda>t. Inr (Some t)))
      else if venue \<noteq> V_BINANCE_SPOT then Inr None
      else Inr (Some (ledger_totals (ar_ledger rd))))"

definition outage_account :: "rat \<Rightarrow> checkpoint option \<Rightarrow> account_state" where
  "outage_account reference saved =
     (let baseline = (case saved of None \<Rightarrow> REFERENCE_CAPITAL | Some (_, start, _) \<Rightarrow> start)
      in \<lparr>ac_equity = baseline, ac_start_of_day_equity = baseline,
          ac_peak_equity = (case saved of None \<Rightarrow> baseline | Some (_, _, peak) \<Rightarrow> max peak baseline),
          ac_gross_exposure = None, ac_positions = [], ac_reference_capital = reference, ac_open_buys = []\<rparr>)"

definition read_account ::
    "'c checkpoint_ops \<Rightarrow> (string \<Rightarrow> rat res) \<Rightarrow> api_settings \<Rightarrow> string \<Rightarrow> account_read \<Rightarrow> ('c account_book, account_state) op" where
  "read_account ops parse st quote_asset rd bk =
     (let venue = venue_for_quote st quote_asset; store = bk_store bk in
      case reference_capital (ar_rate rd) of
        Inl e \<Rightarrow> (Inl e, bk)
      | Inr reference \<Rightarrow>
      (case account_totals parse st venue rd of
         Inl e \<Rightarrow> (Inl e, bk)
       | Inr None \<Rightarrow> (Inr (outage_account reference (outage_checkpoint ops st quote_asset venue (bk_last_openings bk venue) store)), bk)
       | Inr (Some totals) \<Rightarrow>
           let bk1 = bk\<lparr>bk_last_openings := (bk_last_openings bk)(venue := Some (snd totals))\<rparr>;
               cash = dget_or (fst totals) quote_asset 0;
               (positions, exposure, marked0) = mark_book st (ar_quotes rd) quote_asset venue totals;
               buys = open_buys parse st venue quote_asset (ar_orders rd);
               marked = (marked0 \<and> (case buys of Inl _ \<Rightarrow> False | Inr _ \<Rightarrow> True));
               pending = (case buys of Inl _ \<Rightarrow> [] | Inr b \<Rightarrow> b);
               key = checkpoint_key st quote_asset (snd totals) venue;
               saved = co_get ops venue key store;
               equity = dadd cash exposure;
               (day, start, peak) = (case saved of None \<Rightarrow> (ar_today rd, equity, equity) | Some c \<Rightarrow> c)
           in if \<not> marked
              then (Inr \<lparr>ac_equity = start, ac_start_of_day_equity = start, ac_peak_equity = max peak start,
                         ac_gross_exposure = None, ac_positions = positions, ac_reference_capital = reference,
                         ac_open_buys = pending\<rparr>, bk1)
              else
                let start' = (if day \<noteq> ar_today rd then equity else start);
                    checkpoint = (ar_today rd, start', max peak equity);
                    bk2 = (if Some checkpoint \<noteq> saved
                           then bk1\<lparr>bk_store := co_put ops venue (ar_now rd) key checkpoint (co_between ops store)\<rparr> else bk1)
                in (Inr \<lparr>ac_equity = equity, ac_start_of_day_equity = start', ac_peak_equity = max peak equity,
                         ac_gross_exposure = Some exposure, ac_positions = positions, ac_reference_capital = reference,
                         ac_open_buys = pending\<rparr>, bk2)))"

section \<open>Starting the baselines anew\<close>

text \<open>The environment the executor reports and its real-money flag; \<open>None\<close> when it cannot be read.\<close>

definition non_real_money :: "api_settings \<Rightarrow> venue_id \<Rightarrow> (string \<times> bool option) option \<Rightarrow> string res" where
  "non_real_money st venue health =
     (if \<not> ap_executor_mode st then Inr ''PAPER''
      else (case health of
              None \<Rightarrow> Inl (HTTPException 503 ''executor unavailable: environment unknown'')
            | Some (environment, real_money) \<Rightarrow>
                if environment \<noteq> ''TESTNET'' \<or> real_money \<noteq> Some False
                then Inl (HTTPException 409 (''refused: the '' @ venue_value venue @ '' account is ''
                       @ (if environment = '''' then ''unknown'' else environment)))
                else Inr environment))"

definition rebase_baseline ::
    "'c checkpoint_ops \<Rightarrow> (string \<Rightarrow> rat res) \<Rightarrow> api_settings \<Rightarrow> string \<Rightarrow> (string \<times> bool option) option \<Rightarrow> account_read \<Rightarrow>
     ('c account_book, checkpoint option \<times> checkpoint) op" where
  "rebase_baseline ops parse st quote_asset health rd =
     (let venue = venue_for_quote st quote_asset in
      op_bind (op_lift (non_real_money st venue health)) (\<lambda>_.
      op_bind (read_account ops parse st quote_asset rd) (\<lambda>account bk.
        if ac_gross_exposure account = None
        then (Inl (HTTPException 409 ''refused: exposure is unknown (unmarked or unreadable account)''), bk)
        else
          let key = checkpoint_key st quote_asset (case bk_last_openings bk venue of None \<Rightarrow> [] | Some o' \<Rightarrow> o') venue;
              store = co_between ops (bk_store bk);
              before = co_get ops venue key store;
              after = (ar_today rd, ac_equity account, ac_equity account)
          in (Inr (before, after), bk\<lparr>bk_store := co_put ops venue (ar_now rd) key after (co_between ops store)\<rparr>))))"

section \<open>The laws of a checkpoint store\<close>

text \<open>The equity baselines of a venue's account: what is saved at a key.\<close>

definition saved_at :: "'c checkpoint_ops \<Rightarrow> 'c account_book \<Rightarrow> venue_id \<Rightarrow> string \<Rightarrow> checkpoint option" where
  "saved_at ops bk v k = co_get ops v k (bk_store bk)"

text \<open>The venues \<open>venue_for_quote\<close> chooses from.\<close>

definition has_account :: "venue_id \<Rightarrow> bool" where
  "has_account v \<longleftrightarrow> v = V_BINANCE_SPOT \<or> v = V_XP_B3 \<or> v = V_ALPACA_US"

lemma venue_for_quote_has_account [simp]: "has_account (venue_for_quote st q)"
  by (simp add: has_account_def venue_for_quote_def)

locale checkpoint_store =
  fixes ops :: "'c checkpoint_ops"
  assumes get_put: "co_get ops v k (co_put ops v n k c s) = Some c"
    and get_put_other: "has_account v \<Longrightarrow> has_account v' \<Longrightarrow> v \<noteq> v' \<or> k \<noteq> k' \<Longrightarrow>
      co_get ops v' k' (co_put ops v n k c s) = co_get ops v' k' s"
begin

text \<open>No other request writes this checkpoint while one is between its read and its write.\<close>

definition undisturbed :: "venue_id \<Rightarrow> string \<Rightarrow> bool" where
  "undisturbed v k \<longleftrightarrow> (\<forall>s. co_get ops v k (co_between ops s) = co_get ops v k s)"

lemma saved_at_put:
  "has_account v \<Longrightarrow> has_account v' \<Longrightarrow> saved_at ops (bk\<lparr>bk_store := co_put ops v n k c (bk_store bk)\<rparr>) v' k'
   = (if v' = v \<and> k' = k then Some c else saved_at ops bk v' k')"
  by (auto simp: saved_at_def get_put get_put_other)

lemma saved_at_last_openings [simp]: "saved_at ops (bk\<lparr>bk_last_openings := x\<rparr>) v k = saved_at ops bk v k"
  by (simp add: saved_at_def)

text \<open>A read either fails or finds the exposure unknown, and writes nothing, or it saves today's
  baselines, ratcheted, at one key of the venue.\<close>

lemma read_account_cases:
  assumes "read_account ops parse st q rd bk = (r, bk')"
  obtains (failed) e where "r = Inl e" "bk' = bk"
  | (unknown) a where "r = Inr a" "ac_gross_exposure a = None" "bk_store bk' = bk_store bk"
      "ac_equity a \<le> ac_peak_equity a" "ac_equity a = ac_start_of_day_equity a"
  | (marked) a x openings where "r = Inr a" "ac_gross_exposure a = Some x"
      "bk_last_openings bk' (venue_for_quote st q) = Some (openings)"
      "ac_equity a \<le> ac_peak_equity a"
      "\<And>v k. has_account v \<Longrightarrow> undisturbed v k \<Longrightarrow> saved_at ops bk' v k = (if v = venue_for_quote st q \<and> k = checkpoint_key st q (openings) v
           then Some (ar_today rd, ac_start_of_day_equity a, ac_peak_equity a) else saved_at ops bk v k)"
      "case saved_at ops bk (venue_for_quote st q) (checkpoint_key st q (openings) (venue_for_quote st q)) of
         None \<Rightarrow> ac_start_of_day_equity a = ac_equity a \<and> ac_peak_equity a = ac_equity a
       | Some (day, start, peak) \<Rightarrow> ac_peak_equity a = max peak (ac_equity a)
           \<and> ac_start_of_day_equity a = (if day = ar_today rd then start else ac_equity a)"
proof (cases "reference_capital (ar_rate rd)")
  case (Inl e)
  with assms show ?thesis by (intro failed[of e]) (simp_all add: read_account_def Let_def)
next
  case ref: (Inr reference)
  let ?v = "venue_for_quote st q"
  show ?thesis
  proof (cases "account_totals parse st ?v rd")
    case (Inl e)
    with ref assms show ?thesis by (intro failed[of e]) (simp_all add: read_account_def Let_def)
  next
    case tot: (Inr t)
    show ?thesis
    proof (cases t)
      case None
      with ref tot assms show ?thesis
        by (intro unknown[of "outage_account reference
             (outage_checkpoint ops st q ?v (bk_last_openings bk ?v) (bk_store bk))"])
          (auto simp: read_account_def outage_account_def Let_def split: option.splits)
    next
      case (Some totals)
      obtain positions exposure marked0 where m: "mark_book st (ar_quotes rd) q ?v totals = (positions, exposure, marked0)"
        by (cases "mark_book st (ar_quotes rd) q ?v totals") auto
      let ?key = "checkpoint_key st q (snd totals) ?v"
      let ?saved = "co_get ops ?v ?key (bk_store bk)"
      show ?thesis
      proof (cases "ac_gross_exposure (projr r)")
        case none: None
        with assms ref tot Some m show ?thesis
          by (intro unknown[of "projr r"])
            (auto simp: read_account_def Let_def split: if_splits sum.splits option.splits prod.splits)
      next
        case x: (Some x)
        with assms ref tot Some m show ?thesis
          by (intro marked[of "projr r" x "snd totals"])
            (auto simp: read_account_def saved_at_def undisturbed_def get_put get_put_other Let_def
              split: if_splits sum.splits option.splits prod.splits)
      qed
    qed
  qed
qed

end
section \<open>Runs of reads and rebases\<close>

text \<open>One request on the account book: a read of an account, or an operator's rebase given the health the
  executor reports.\<close>

inductive book_step :: "'c checkpoint_ops \<Rightarrow> (string \<Rightarrow> rat res) \<Rightarrow> api_settings \<Rightarrow> ((string \<times> bool option) option \<Rightarrow> bool) \<Rightarrow>
    (int \<Rightarrow> bool) \<Rightarrow> 'c account_book \<Rightarrow> 'c account_book \<Rightarrow> bool"
  for ops parse st answers on_day where
  read: "read_account ops parse st q rd bk = (r, bk') \<Longrightarrow> on_day (ar_today rd) \<Longrightarrow> book_step ops parse st answers on_day bk bk'"
| rebase: "rebase_baseline ops parse st q health rd bk = (r, bk') \<Longrightarrow> answers health \<Longrightarrow> on_day (ar_today rd)
    \<Longrightarrow> book_step ops parse st answers on_day bk bk'"

text \<open>The health of an account that may hold real money.\<close>

definition may_be_real :: "(string \<times> bool option) option \<Rightarrow> bool" where
  "may_be_real health \<longleftrightarrow> (case health of None \<Rightarrow> True | Some (environment, real_money) \<Rightarrow>
     environment \<noteq> ''TESTNET'' \<or> real_money \<noteq> Some False)"

lemma rebase_refused_on_real_money:
  assumes "ap_executor_mode st" "may_be_real health" "rebase_baseline ops parse st q health rd bk = (r, bk')"
  shows "bk' = bk \<and> (\<exists>status detail. r = Inl (HTTPException status detail))"
  using assms by (auto simp: may_be_real_def rebase_baseline_def non_real_money_def op_bind_def op_lift_def Let_def split: option.splits)

text \<open>Baselines that are at least as strict: the peak no lower, and within a day the same start.\<close>

definition ratchets :: "checkpoint \<Rightarrow> checkpoint \<Rightarrow> bool" where
  "ratchets c c' \<longleftrightarrow> (case c of (day, start, peak) \<Rightarrow> case c' of (day', start', peak') \<Rightarrow>
     peak \<le> peak' \<and> (day' = day \<longrightarrow> start' = start))"

context checkpoint_store
begin

lemma read_ratchets:
  assumes "read_account ops parse st q rd bk = (r, bk')" "has_account v" "saved_at ops bk v k = Some (day, start, peak)" "undisturbed v k"
  shows "\<exists>day' start' peak'. saved_at ops bk' v k = Some (day', start', peak') \<and> peak \<le> peak'
    \<and> (ar_today rd = day \<longrightarrow> day' = day \<and> start' = start)"
  using assms(1)
proof (cases rule: read_account_cases)
  case (unknown a)
  then show ?thesis using assms(3) by (simp add: saved_at_def)
next
  case (marked a x openings)
  show ?thesis
  proof (cases "v = venue_for_quote st q \<and> k = checkpoint_key st q openings v")
    case True
    then show ?thesis using assms(3) marked(5)[OF assms(2,4)] marked(6) by (auto simp: split: if_splits)
  next
    case False
    then show ?thesis using assms(3) marked(5)[OF assms(2,4)] by auto
  qed
qed (use assms in auto)

lemma steps_ratchet:
  assumes "(book_step ops parse st may_be_real on_day)\<^sup>*\<^sup>* bk bk'" "ap_executor_mode st"
    and "has_account v" "saved_at ops bk v k = Some (day, start, peak)" "undisturbed v k"
  shows "\<exists>day' start' peak'. saved_at ops bk' v k = Some (day', start', peak') \<and> peak \<le> peak'
    \<and> (on_day = (\<lambda>d. d = day) \<longrightarrow> day' = day \<and> start' = start)"
  using assms(1)
proof (induction rule: rtranclp_induct)
  case base
  then show ?case using assms(4) by simp
next
  case (step b b')
  then obtain day' start' peak' where ih: "saved_at ops b v k = Some (day', start', peak')" "peak \<le> peak'"
    "on_day = (\<lambda>d. d = day) \<longrightarrow> day' = day \<and> start' = start" by blast
  from step(2) show ?case
  proof cases
    case (read q rd r)
    from read_ratchets[OF read(1) assms(3) ih(1) assms(5)] ih(2,3) read(2) show ?thesis by fastforce
  next
    case (rebase q health rd r)
    then have "b' = b" using rebase_refused_on_real_money[OF assms(2)] by blast
    with ih show ?thesis by blast
  qed
qed

end

interpretation memory: checkpoint_store "memory_ops\<lparr>co_between := other\<rparr>" for other
  by unfold_locales (auto simp: memory_ops_def memory_get_def memory_put_def)

lemma find_is_row_map:
  "List.find (is_row a k) (map (\<lambda>r. if is_row a' k' r then r\<lparr>cr_checkpoint := c, cr_updated_at := now\<rparr> else r) rows)
   = map_option (\<lambda>r. if is_row a' k' r then r\<lparr>cr_checkpoint := c, cr_updated_at := now\<rparr> else r) (List.find (is_row a k) rows)"
  by (induction rows) (auto simp: is_row_def)

lemma find_append: "List.find P (xs @ ys) = (case List.find P xs of None \<Rightarrow> List.find P ys | Some x \<Rightarrow> Some x)"
  by (induction xs) auto

lemma find_is_row_None: "\<not> list_ex (is_row a k) rows \<Longrightarrow> List.find (is_row a k) rows = None"
  by (induction rows) auto

lemma find_is_row_Some: "list_ex (is_row a k) rows \<Longrightarrow> \<exists>r. List.find (is_row a k) rows = Some r \<and> is_row a k r"
  by (induction rows) auto

lemma find_is_row: "List.find (is_row a k) rows = Some r \<Longrightarrow> is_row a k r"
  by (auto simp: find_Some_iff)

lemma is_row_new:
  "is_row a k \<lparr>cr_account_id = a', cr_quote_asset = k', cr_checkpoint = c, cr_updated_at = now\<rparr> \<longleftrightarrow> a' = a \<and> k' = k"
  by (simp add: is_row_def)

lemma sql_get_put: "sql_get a k (sql_put a now k c rows) = Some c"
proof (cases "list_ex (is_row a k) rows")
  case True
  then obtain r where "List.find (is_row a k) rows = Some r" "is_row a k r"
    using find_is_row_Some by blast
  with True show ?thesis by (simp add: sql_get_def sql_put_def find_is_row_map)
next
  case False
  then show ?thesis by (simp add: sql_get_def sql_put_def find_append find_is_row_None is_row_def)
qed

lemma sql_get_put_other:
  assumes "a \<noteq> a' \<or> k \<noteq> k'"
  shows "sql_get a' k' (sql_put a now k c rows) = sql_get a' k' rows"
proof -
  have no: "is_row a' k' r \<Longrightarrow> \<not> is_row a k r" for r using assms by (auto simp: is_row_def)
  show ?thesis
    using find_is_row[of a' k' rows] no
    by (cases "List.find (is_row a' k') rows")
      (use assms in \<open>auto simp: sql_get_def sql_put_def find_is_row_map find_append is_row_new\<close>)
qed

lemma checkpoint_account_inj:
  "has_account v \<Longrightarrow> has_account v' \<Longrightarrow> checkpoint_account st v = checkpoint_account st v' \<longleftrightarrow> v = v'"
  by (auto simp: has_account_def checkpoint_account_def)

interpretation sql: checkpoint_store "(sql_ops st)\<lparr>co_between := other\<rparr>" for st other
  by unfold_locales (auto simp: sql_ops_def sql_get_put checkpoint_account_inj intro!: sql_get_put_other)
section \<open>The table behaves as the dictionaries\<close>

datatype book_request =
  Read string account_read
| Rebase string "(string \<times> bool option) option" account_read

datatype book_answer = Account "account_state res" | Rebased "(checkpoint option \<times> checkpoint) res"

fun run_book :: "'c checkpoint_ops \<Rightarrow> (string \<Rightarrow> rat res) \<Rightarrow> api_settings \<Rightarrow> book_request list \<Rightarrow> 'c account_book \<Rightarrow> book_answer list" where
  "run_book ops parse st [] bk = []"
| "run_book ops parse st (Read q rd # rs) bk =
     (case read_account ops parse st q rd bk of (r, bk') \<Rightarrow> Account r # run_book ops parse st rs bk')"
| "run_book ops parse st (Rebase q health rd # rs) bk =
     (case rebase_baseline ops parse st q health rd bk of (r, bk') \<Rightarrow> Rebased r # run_book ops parse st rs bk')"

definition same_book :: "'c checkpoint_ops \<Rightarrow> 'd checkpoint_ops \<Rightarrow> 'c account_book \<Rightarrow> 'd account_book \<Rightarrow> bool" where
  "same_book ops1 ops2 b1 b2 \<longleftrightarrow> bk_last_openings b1 = bk_last_openings b2
     \<and> (\<forall>v k. has_account v \<longrightarrow> saved_at ops1 b1 v k = saved_at ops2 b2 v k)"

lemma outage_checkpoint_cong:
  assumes "\<And>k. co_get ops1 v k s1 = co_get ops2 v k s2"
  shows "outage_checkpoint ops1 st q v seen s1 = outage_checkpoint ops2 st q v seen s2"
  unfolding outage_checkpoint_def assms ..

locale two_stores = a: checkpoint_store ops1 + b: checkpoint_store ops2
  for ops1 :: "'c checkpoint_ops" and ops2 :: "'d checkpoint_ops" +
  assumes alone1: "co_between ops1 = (\<lambda>s. s)" and alone2: "co_between ops2 = (\<lambda>s. s)"
begin

lemma same_book_put:
  "has_account v \<Longrightarrow> same_book ops1 ops2 b1 b2 \<Longrightarrow>
   same_book ops1 ops2 (b1\<lparr>bk_store := co_put ops1 v n k c (bk_store b1)\<rparr>) (b2\<lparr>bk_store := co_put ops2 v n k c (bk_store b2)\<rparr>)"
  by (simp add: same_book_def a.saved_at_put b.saved_at_put)

lemma same_book_openings:
  "same_book ops1 ops2 b1 b2 \<Longrightarrow> same_book ops1 ops2 (b1\<lparr>bk_last_openings := x\<rparr>) (b2\<lparr>bk_last_openings := x\<rparr>)"
  by (simp add: same_book_def)

lemma read_same:
  assumes "same_book ops1 ops2 b1 b2"
  shows "fst (read_account ops1 parse st q rd b1) = fst (read_account ops2 parse st q rd b2)
    \<and> same_book ops1 ops2 (snd (read_account ops1 parse st q rd b1)) (snd (read_account ops2 parse st q rd b2))"
proof -
  let ?v = "venue_for_quote st q"
  have get: "co_get ops1 ?v k (bk_store b1) = co_get ops2 ?v k (bk_store b2)" for k
    using assms by (simp add: same_book_def saved_at_def)
  have seen: "bk_last_openings b1 = bk_last_openings b2" using assms by (simp add: same_book_def)
  have put: "same_book ops1 ops2
      (b1\<lparr>bk_last_openings := x, bk_store := co_put ops1 ?v n k c (bk_store b1)\<rparr>)
      (b2\<lparr>bk_last_openings := x, bk_store := co_put ops2 ?v n k c (bk_store b2)\<rparr>)" for n k c x
    using same_book_put[of ?v "b1\<lparr>bk_last_openings := x\<rparr>" "b2\<lparr>bk_last_openings := x\<rparr>" n k c] same_book_openings[OF assms]
    by simp
  show ?thesis
    unfolding read_account_def Let_def
    using assms same_book_openings[OF assms] put
    by (simp add: get seen outage_checkpoint_cong[OF get] alone1 alone2 split: sum.split option.split prod.split)
qed

lemma rebase_same:
  assumes "same_book ops1 ops2 b1 b2"
  shows "fst (rebase_baseline ops1 parse st q health rd b1) = fst (rebase_baseline ops2 parse st q health rd b2)
    \<and> same_book ops1 ops2 (snd (rebase_baseline ops1 parse st q health rd b1)) (snd (rebase_baseline ops2 parse st q health rd b2))"
proof (cases "non_real_money st (venue_for_quote st q) health")
  case (Inl e)
  then show ?thesis using assms by (simp add: rebase_baseline_def op_bind_def op_lift_def Let_def)
next
  case (Inr env)
  obtain r1 c1 where r1: "read_account ops1 parse st q rd b1 = (r1, c1)" by (cases "read_account ops1 parse st q rd b1")
  obtain r2 c2 where r2: "read_account ops2 parse st q rd b2 = (r2, c2)" by (cases "read_account ops2 parse st q rd b2")
  have same: "r1 = r2" "same_book ops1 ops2 c1 c2" using read_same[OF assms, of parse st q rd] r1 r2 by simp_all
  then have "bk_last_openings c1 = bk_last_openings c2"
    "\<And>k. co_get ops1 (venue_for_quote st q) k (bk_store c1) = co_get ops2 (venue_for_quote st q) k (bk_store c2)"
    by (simp_all add: same_book_def saved_at_def)
  with same r1 r2 Inr same_book_put[OF _ same(2)] show ?thesis
    by (simp add: rebase_baseline_def op_bind_def op_lift_def alone1 alone2 Let_def split: sum.split)
qed

lemma runs_same:
  assumes "same_book ops1 ops2 b1 b2"
  shows "run_book ops1 parse st rs b1 = run_book ops2 parse st rs b2"
  using assms
proof (induction rs arbitrary: b1 b2)
  case (Cons r rs)
  then show ?case
    by (cases r) (simp_all add: case_prod_beta read_same[OF Cons(2)] rebase_same[OF Cons(2)] Cons(1))
qed simp

end

interpretation sql_memory: two_stores "sql_ops st" memory_ops for st
  using sql.checkpoint_store_axioms[of "\<lambda>s. s" st] memory.checkpoint_store_axioms[of "\<lambda>s. s"]
  by (simp add: two_stores_def two_stores_axioms_def sql_ops_def memory_ops_def)
section \<open>When the exposure is unknown\<close>

text \<open>A holding of the quote currency's book with no mark anywhere, and working orders that cannot be
  read or may be missing.\<close>

definition unmarked :: "api_settings \<Rightarrow> (string \<Rightarrow> quote option) \<Rightarrow> string \<Rightarrow> venue_id \<Rightarrow> totals \<Rightarrow> string \<times> tradable_instrument \<Rightarrow> bool" where
  "unmarked st quotes q venue totals = (\<lambda>(instrument_id, i).
     ti_quote_asset i = q \<and> quotes instrument_id = None
     \<and> dget_or (snd totals) (ti_base_asset i) 0 < dget_or (fst totals) (ti_base_asset i) 0
     \<and> \<not> marked_elsewhere st quotes i q venue)"

definition working :: "order_view \<Rightarrow> bool" where
  "working v \<longleftrightarrow> (case ov_status v of None \<Rightarrow> True | Some s \<Rightarrow> s \<notin> set (map status_value TERMINAL_ORDER_STATUSES))"

definition orders_unknown :: "(string \<Rightarrow> rat res) \<Rightarrow> api_settings \<Rightarrow> (bool \<times> order_view list) option \<Rightarrow> bool" where
  "orders_unknown parse st answer \<longleftrightarrow> (case answer of
     None \<Rightarrow> True
   | Some (open_only, rows) \<Rightarrow> (ap_executor_mode st \<and> \<not> open_only \<and> 500 \<le> length rows)
       \<or> list_ex (\<lambda>v. working v \<and> view_remaining parse v = None) rows)"

lemma dsub_nonpos [simp]: "dsub x y \<le> 0 \<longleftrightarrow> x \<le> y"
  by (simp add: not_less[symmetric])

lemma mark_fold:
  "snd (snd (fold (mark_instrument st quotes q v totals) is acc))
   \<longleftrightarrow> snd (snd acc) \<and> \<not> list_ex (unmarked st quotes q v totals) is"
proof (induction "is" arbitrary: acc)
  case (Cons x xs)
  have "snd (snd (mark_instrument st quotes q v totals x acc)) \<longleftrightarrow> snd (snd acc) \<and> \<not> unmarked st quotes q v totals x"
    by (cases x; cases acc) (auto simp: mark_instrument_def unmarked_def Let_def max_def split: option.splits)
  with Cons show ?case by auto
qed simp

lemma add_open_buys_unreadable:
  "(\<exists>e. add_open_buys parse ins vs buys = Inl e) \<longleftrightarrow> list_ex (\<lambda>v. working v \<and> view_remaining parse v = None) vs"
proof (induction vs arbitrary: buys)
  case (Cons v vs)
  show ?case
  proof (cases "working v")
    case True
    then have "\<not> (case ov_status v of None \<Rightarrow> False | Some st \<Rightarrow> st \<in> set (map status_value TERMINAL_ORDER_STATUSES))"
      by (simp add: working_def split: option.splits)
    with True Cons show ?thesis by (cases "view_remaining parse v") (simp_all split: prod.split)
  next
    case False
    then have "case ov_status v of None \<Rightarrow> False | Some st \<Rightarrow> st \<in> set (map status_value TERMINAL_ORDER_STATUSES)"
      by (simp add: working_def split: option.splits)
    with False Cons show ?thesis by simp
  qed
qed simp

lemma open_buys_unknown: "(\<exists>e. open_buys parse st v q answer = Inl e) \<longleftrightarrow> orders_unknown parse st answer"
  by (auto simp: open_buys_def orders_unknown_def add_open_buys_unreadable split: option.splits)

lemma read_unknown:
  assumes "read_account ops parse st q rd bk = (Inr account, bk')"
    and "account_totals parse st (venue_for_quote st q) rd = Inr None \<or>
      (\<exists>totals. account_totals parse st (venue_for_quote st q) rd = Inr (Some totals) \<and>
        (list_ex (unmarked st (ar_quotes rd) q (venue_for_quote st q) totals) (instruments_of st (venue_for_quote st q))
         \<or> orders_unknown parse st (ar_orders rd)))"
  shows "ac_gross_exposure account = None"
proof -
  let ?v = "venue_for_quote st q"
  consider (outage) "account_totals parse st ?v rd = Inr None"
    | (unknown) totals where "account_totals parse st ?v rd = Inr (Some totals)"
        "\<not> snd (snd (mark_book st (ar_quotes rd) q ?v totals)) \<or> (\<exists>e. open_buys parse st ?v q (ar_orders rd) = Inl e)"
    using assms(2) by (auto simp: mark_book_def mark_fold open_buys_unknown)
  then show ?thesis
  proof cases
    case outage
    with assms(1) show ?thesis
      by (auto simp: read_account_def outage_account_def Let_def split: sum.splits)
  next
    case (unknown totals)
    with assms(1) show ?thesis
      by (auto simp: read_account_def Let_def split: sum.splits prod.splits if_splits)
  qed
qed

lemma no_buy_on_unknown_exposure:
  assumes "evaluate lc ins issue policy i account controls quote now stage cap = Inr d"
    and "in_side i = BUY" "ac_gross_exposure account = None"
  shows "\<not> rd_approved d"
proof
  assume "rd_approved d"
  with assms(1) obtain market where
      m: "market_checks lc policy (dget ins (in_instrument_id i)) quote now i = Inr market"
    and h: "\<forall>c \<in> set (halt_checks (dget ins (in_instrument_id i)) account controls stage i). snd c"
    and mk: "\<forall>c \<in> set market. snd c"
    and l: "\<forall>c \<in> set (limit_checks policy account controls quote now cap i). snd c"
    by (rule approved_checks)
  have "(''gross_leverage'', False) \<in> set (limit_checks policy account controls quote now cap i)"
    using assms(2,3) by (simp add: limit_checks_def reducing_def within_leverage_def Let_def)
  with l show False by fastforce
qed

section \<open>The rates used\<close>

text \<open>The queries answered since the process started, each with the ticker it would fetch.\<close>

fun rate_run :: "((rat \<times> rat) option \<times> instant \<times> string) list \<Rightarrow> rate_cache \<Rightarrow> rate_cache" where
  "rate_run [] cache = cache"
| "rate_run ((ticker, now, q) # qs) cache = rate_run qs (snd (brl_per ticker now q cache))"

definition fetched_at :: "((rat \<times> rat) option \<times> instant \<times> string) list \<Rightarrow> instant \<Rightarrow> rat \<Rightarrow> bool" where
  "fetched_at history t r \<longleftrightarrow> (\<exists>ticker q. (ticker, t, q) \<in> set history \<and> fetch_rate ticker = Some r)"

definition fetched :: "((rat \<times> rat) option \<times> instant \<times> string) list \<Rightarrow> rate_cache \<Rightarrow> bool" where
  "fetched history cache \<longleftrightarrow> (\<forall>pair r t. dget cache pair = Some (r, t) \<longrightarrow> fetched_at history t r)"

lemma fetched_at_grow [intro]:
  "fetched_at history t r \<Longrightarrow> fetched_at (history @ [x]) t r"
  "fetch_rate ticker = Some r \<Longrightarrow> fetched_at (history @ [(ticker, now, q)]) now r"
  by (auto simp: fetched_at_def)

text \<open>A query answers from the cache, or fetches and keeps a rate, or drops the cached one.\<close>

lemma brl_per_cases:
  assumes "brl_per ticker now q cache = (rate, cache')" "q \<noteq> ''BRL''"
  obtains (cached) pair ask t where "dget cache pair = Some (ask, t)" "now - t \<le> RATE_MAX_AGE" "cache' = cache"
      "rate = Some (if q = ''USD'' then dmul ask USD_PROXY_MARGIN else ask)"
  | (fetched) pair ask where "fetch_rate ticker = Some ask" "cache' = dset pair (ask, now) cache"
      "rate = Some (if q = ''USD'' then dmul ask USD_PROXY_MARGIN else ask)"
  | (dropped) pair where "cache' = ddel pair cache \<or> cache' = cache" "rate = None"
proof (cases "rate_pair q")
  case None
  with assms dropped show thesis by (simp add: brl_per_def)
next
  case (Some pair)
  show thesis
  proof (cases "\<exists>ask t. dget cache pair = Some (ask, t) \<and> now - t \<le> RATE_MAX_AGE")
    case True
    then obtain ask t where hit: "dget cache pair = Some (ask, t)" "now - t \<le> RATE_MAX_AGE" by blast
    then have "brl_per ticker now q cache = (Some (if q = ''USD'' then dmul ask USD_PROXY_MARGIN else ask), cache)"
      using assms(2) Some by (simp add: brl_per_def)
    then show thesis using assms(1) by (intro cached[OF hit]) simp_all
  next
    case False
    then have "brl_per ticker now q cache = (case fetch_rate ticker of
        Some r \<Rightarrow> (Some (if q = ''USD'' then dmul r USD_PROXY_MARGIN else r), dset pair (r, now) cache)
      | None \<Rightarrow> (None, ddel pair cache))"
      using assms(2) Some by (auto simp: brl_per_def split: option.splits)
    with assms(1) fetched dropped show thesis by (auto split: option.splits)
  qed
qed

lemma brl_per_fetched:
  assumes "fetched history cache" "brl_per ticker now q cache = (rate, cache')"
  shows "fetched (history @ [(ticker, now, q)]) cache'"
proof (cases "q = ''BRL''")
  case True
  with assms show ?thesis by (auto simp: brl_per_def fetched_def)
next
  case False
  from assms(2) False show ?thesis
    by (cases rule: brl_per_cases) (use assms(1) in \<open>auto simp: fetched_def split: if_splits\<close>)
qed

lemma brl_per_fresh:
  assumes "fetched history cache" "brl_per ticker now q cache = (Some r, cache')" "q \<noteq> ''BRL''"
  shows "\<exists>t ask. fetched_at (history @ [(ticker, now, q)]) t ask
      \<and> now - t \<le> RATE_MAX_AGE \<and> r = (if q = ''USD'' then dmul ask USD_PROXY_MARGIN else ask)"
  using assms(2,3)
proof (cases rule: brl_per_cases)
  case (cached pair ask t)
  then have "fetched_at history t ask" using assms(1) by (auto simp: fetched_def)
  with cached show ?thesis by blast
next
  case (fetched pair ask)
  have "now - now \<le> RATE_MAX_AGE" by (simp add: RATE_MAX_AGE_def)
  with fetched show ?thesis by blast
qed simp

lemma rate_run_fetched:
  assumes "fetched history cache"
  shows "fetched (history @ qs) (rate_run qs cache)"
  using assms
proof (induction qs cache arbitrary: history rule: rate_run.induct)
  case (2 ticker now q qs cache)
  have "fetched (history @ [(ticker, now, q)]) (snd (brl_per ticker now q cache))"
    by (rule brl_per_fetched[OF 2(2)]) (rule prod.collapse[symmetric])
  from 2(1)[OF this] show ?case by simp
qed simp

lemma fetch_rate_sane:
  "fetch_rate ticker = Some r \<Longrightarrow> \<exists>bid. ticker = Some (bid, r) \<and> 0 < bid \<and> bid \<le> r \<and> 2 \<le> r \<and> r \<le> 20"
  by (auto simp: fetch_rate_def SANE_BRL_PER_USDT_def split: option.splits prod.splits if_splits)
section \<open>Properties\<close>

text \<open>
  C4: Losses are not forgotten by requests that do not overlap on their account. Take an account traded through an
  executor that may hold real money (its health cannot be read, or names another environment than TESTNET,
  or does not deny real money) and a checkpoint that no other request writes between a request's read and
  its write; requests on other checkpoints may overlap. Then in every run of account reads and attempted
  rebases, whatever they find, a saved baseline stays saved, its peak equity never falls, and as long as
  the requests are made on the checkpoint's own UTC day its start-of-day equity does not change.
\<close>

theorem baselines_ratchet:
  assumes "ops = (sql_ops st)\<lparr>co_between := other\<rparr>" and "\<forall>rows. co_get ops v k (other rows) = co_get ops v k rows"
    and "(book_step ops parse st may_be_real on_day)\<^sup>*\<^sup>* bk bk'" and "ap_executor_mode st"
    and "has_account v" and "saved_at ops bk v k = Some (day, start, peak)"
  shows "\<exists>day' start' peak'. saved_at ops bk' v k = Some (day', start', peak') \<and> peak \<le> peak'
    \<and> (on_day = (\<lambda>d. d = day) \<longrightarrow> day' = day \<and> start' = start)"
proof -
  have "sql.undisturbed other st v k" using assms(2) unfolding sql.undisturbed_def assms(1) by simp
  from sql.steps_ratchet[OF assms(3)[unfolded assms(1)] assms(4,5) assms(6)[unfolded assms(1)] this] show ?thesis
    unfolding assms(1) .
qed

text \<open>
  C5: What cannot be read is not traded on. When the executor cannot be read, or a holding of the quote
  currency's book has no mark in any currency of the venue, or the working orders cannot be read, cannot
  be interpreted or may be cut off, the exposure is unknown and the risk engine approves no buy on that
  account, whatever the policy, the quote and the controls.
\<close>

theorem unknown_account_blocks_buys:
  assumes "read_account ops parse st q rd bk = (Inr account, bk')"
    and "account_totals parse st (venue_for_quote st q) rd = Inr None \<or>
      (\<exists>totals. account_totals parse st (venue_for_quote st q) rd = Inr (Some totals) \<and>
        (list_ex (unmarked st (ar_quotes rd) q (venue_for_quote st q) totals) (instruments_of st (venue_for_quote st q))
         \<or> orders_unknown parse st (ar_orders rd)))"
    and "evaluate local_clock instruments issue policy i account controls quote now scope_stage cap = Inr d"
    and "in_side i = BUY"
  shows "ac_gross_exposure account = None \<and> \<not> rd_approved d"
proof -
  have "ac_gross_exposure account = None" by (rule read_unknown[OF assms(1,2)])
  with no_buy_on_unknown_exposure[OF assms(3,4)] show ?thesis by simp
qed

text \<open>
  The checkpoint table is a faithful store: every run of account reads and rebases on all venues,
  started on the empty table shared by their accounts, gives the answers it gives on a dictionary per
  venue.
\<close>

theorem checkpoint_table_equals_memory:
  "run_book (sql_ops st) parse st requests \<lparr>bk_store = [], bk_last_openings = (\<lambda>_. None)\<rparr>
   = run_book memory_ops parse st requests \<lparr>bk_store = (\<lambda>_. []), bk_last_openings = (\<lambda>_. None)\<rparr>"
  by (rule sql_memory.runs_same)
    (simp add: same_book_def saved_at_def sql_ops_def sql_get_def memory_ops_def memory_get_def)

text \<open>
  A BRL rate is recent and sane. Whatever was asked since the process started, a rate returned for a
  currency other than BRL is the ask, for USD with its margin of 2 percent, of a ticker that was fetched
  by one of these queries at most 30 seconds ago and had a positive bid not above the ask and an ask
  between 2 and 20; otherwise there is no rate.
\<close>

theorem rate_is_recent_and_sane:
  assumes "brl_per ticker now q (rate_run history []) = (Some r, cache')" and "q \<noteq> ''BRL''"
  shows "\<exists>t q' bid ask. (Some (bid, ask), t, q') \<in> set (history @ [(ticker, now, q)]) \<and> now - t \<le> seconds 30
    \<and> 0 < bid \<and> bid \<le> ask \<and> 2 \<le> ask \<and> ask \<le> 20 \<and> r = (if q = ''USD'' then dmul ask (102 / 100) else ask)"
proof -
  have "fetched history (rate_run history [])"
    using rate_run_fetched[of "[]" "[]" history] by (simp add: fetched_def)
  from brl_per_fresh[OF this assms] obtain t ask where
      "fetched_at (history @ [(ticker, now, q)]) t ask" "now - t \<le> RATE_MAX_AGE"
      "r = (if q = ''USD'' then dmul ask USD_PROXY_MARGIN else ask)"
    by blast
  then show ?thesis unfolding fetched_at_def RATE_MAX_AGE_def USD_PROXY_MARGIN_def
    using fetch_rate_sane by blast
qed

section \<open>Witnesses\<close>

definition ex_settings :: api_settings where
  "ex_settings = \<lparr>ap_executor_mode = True, ap_xp_enabled = False, ap_alpaca_enabled = False, ap_more_pairs = False\<rparr>"

definition ex_parse :: "string \<Rightarrow> rat res" where
  "ex_parse s = (if s = ''9800'' then Inr 9800 else if s = ''0'' then Inr 0 else Inl (ValueError ''decimal''))"

definition ex_read :: account_read where
  "ex_read = \<lparr>ar_ledger = [], ar_executor = Some [(''USDT'', Some ''9800'', None)], ar_orders = Some (True, []),
     ar_quotes = (\<lambda>_. None), ar_rate = Some 5, ar_now = seconds 60\<rparr>"

definition ex_book :: "checkpoint_row list account_book" where
  "ex_book = \<lparr>bk_store = [\<lparr>cr_account_id = ''executor-binance-spot'', cr_quote_asset = ''USDT'',
       cr_checkpoint = (0, 9900, 10100), cr_updated_at = 0\<rparr>], bk_last_openings = (\<lambda>_. None)\<rparr>"

theorem baselines_ratchet_witness:
  "\<exists>day' start' peak'. saved_at (sql_ops ex_settings)
      (snd (read_account (sql_ops ex_settings) ex_parse ex_settings ''USDT'' ex_read ex_book)) V_BINANCE_SPOT ''USDT''
     = Some (day', start', peak') \<and> 10100 \<le> peak' \<and> day' = 0 \<and> start' = 9900"
proof -
  let ?bk = "snd (read_account (sql_ops ex_settings) ex_parse ex_settings ''USDT'' ex_read ex_book)"
  have "ar_today ex_read = 0" by (simp add: ar_today_def utc_day_def ex_read_def)
  then have "book_step (sql_ops ex_settings) ex_parse ex_settings may_be_real (\<lambda>d. d = 0) ex_book ?bk"
    by (intro book_step.read) (rule prod.collapse[symmetric], simp)
  then have steps: "(book_step (sql_ops ex_settings) ex_parse ex_settings may_be_real (\<lambda>d. d = 0))\<^sup>*\<^sup>* ex_book ?bk"
    by (rule r_into_rtranclp)
  have ops: "sql_ops ex_settings = (sql_ops ex_settings)\<lparr>co_between := (\<lambda>s. s)\<rparr>" by (simp add: sql_ops_def)
  have saved: "saved_at (sql_ops ex_settings) ex_book V_BINANCE_SPOT ''USDT'' = Some (0, 9900, 10100)" by code_simp
  show ?thesis
    using baselines_ratchet[OF ops _ steps _ _ saved] by (simp add: ex_settings_def has_account_def)
qed

text \<open>
  Without that condition a loss is forgotten: while a request that found an equity of 9,800 waits to write, another one
  saves a new peak of 12,000; the first then writes the peak of 10,100 it had read.
\<close>

definition ex_overlap :: "checkpoint_row list checkpoint_ops" where
  "ex_overlap = (sql_ops ex_settings)\<lparr>co_between := (\<lambda>rows. co_put (sql_ops ex_settings) V_BINANCE_SPOT 70 ''USDT'' (1, 12000, 12000) rows)\<rparr>"

lemma overlapping_reads_forget_the_peak:
  "saved_at ex_overlap (snd (read_account ex_overlap ex_parse ex_settings ''USDT'' (ex_read\<lparr>ar_now := days 1\<rparr>) ex_book)) V_BINANCE_SPOT ''USDT''
     = Some (1, 9800, 10100)"
  by code_simp

lemma evaluate_any_account:
  assumes "evaluate lc ins (\<lambda>_ _. Inr p) policy i a c q now stage cap = Inr d"
  shows "\<exists>d'. evaluate lc ins (\<lambda>_ _. Inr p) policy i a' c' q now stage' cap' = Inr d'"
proof (cases "market_checks lc policy (dget ins (in_instrument_id i)) q now i")
  case (Inl e)
  with assms show ?thesis by (simp add: evaluate_def Let_def)
next
  case (Inr market)
  then show ?thesis by (rule evaluate_returns) simp
qed

theorem unknown_account_blocks_buys_witness:
  "\<exists>account bk'. read_account (sql_ops ex_settings) ex_parse ex_settings ''USDT'' (ex_read\<lparr>ar_orders := None\<rparr>) ex_book
      = (Inr account, bk') \<and> ac_gross_exposure account = None
    \<and> (\<exists>d. ex_evaluate ex_buy account ex_controls = Inr d \<and> \<not> rd_approved d)"
proof -
  let ?rd = "ex_read\<lparr>ar_orders := None\<rparr>"
  have totals: "account_totals ex_parse ex_settings (venue_for_quote ex_settings ''USDT'') ?rd
      = Inr (Some ([(''USDT'', 9800)], [(''USDT'', 0)]))" by code_simp
  have unknown: "orders_unknown ex_parse ex_settings (ar_orders ?rd)" by (simp add: orders_unknown_def)
  have "case fst (read_account (sql_ops ex_settings) ex_parse ex_settings ''USDT'' ?rd ex_book) of Inl _ \<Rightarrow> False | Inr _ \<Rightarrow> True"
    by code_simp
  then obtain account bk' where read: "read_account (sql_ops ex_settings) ex_parse ex_settings ''USDT'' ?rd ex_book = (Inr account, bk')"
    by (cases "read_account (sql_ops ex_settings) ex_parse ex_settings ''USDT'' ?rd ex_book") (auto split: sum.splits)
  have buy: "in_side ex_buy = BUY" by (simp add: ex_buy_def ex_intent_def)
  obtain d where d: "ex_evaluate ex_buy account ex_controls = Inr d"
    using ex_evaluate_buy evaluate_any_account by blast
  show ?thesis
    using read unknown_account_blocks_buys[OF read _ d buy] totals unknown d by blast
qed

theorem rate_is_recent_and_sane_witness:
  "\<exists>t q' bid ask. (Some (bid, ask), t, q') \<in> set ([(Some (5, 51 / 10), 0, ''USDT'')] @ [(None, seconds 20, ''USD'')])
    \<and> seconds 20 - t \<le> seconds 30 \<and> 0 < bid \<and> bid \<le> ask \<and> 2 \<le> ask \<and> ask \<le> 20 \<and> (5202 / 1000 :: rat) = dmul ask (102 / 100)"
proof -
  have run: "brl_per None (seconds 20) ''USD'' (rate_run [(Some (5, 51 / 10), 0, ''USDT'')] [])
      = (Some (5202 / 1000), [(''USDTBRL'', 51 / 10, 0)])" by code_simp
  show ?thesis using rate_is_recent_and_sane[OF run] by simp
qed

end
