(* ===== verification/Order_Surface.thy ===== *)
theory Order_Surface
  imports Account Control_Plane OMS
begin

text \<open>
  The order surface of the API (\<^verbatim>\<open>apps/api/app/oms_surface.py\<close>) and the path of a proposal through it:
  the account is read, the risk surface assesses the intent (\<^verbatim>\<open>apps/api/app/risk_surface.py\<close>), an approved
  one is executed by the paper order manager or dispatched to the executor of its venue
  (\<^verbatim>\<open>apps/api/app/executor_client.py\<close>), and the ledger is reconciled with the venue, which halts the venue
  on a divergence (\<^verbatim>\<open>apps/api/app/agent_surface.py\<close> for the chain). Quotes come from
  \<^verbatim>\<open>apps/api/app/market_quotes.py\<close>.

  The state joins the order manager, the account book and the control plane. The executor's HTTP answers
  are inputs. A reply that is read carries the fields the surface uses.
\<close>

section \<open>Quotes\<close>

text \<open>\<^verbatim>\<open>str.partition(":")\<close>, \<^verbatim>\<open>removesuffix\<close> and \<^verbatim>\<open>upper().startswith\<close> on ASCII text.\<close>

definition split_id :: "string \<Rightarrow> string \<times> string" where
  "split_id s = (takeWhile (\<lambda>c. c \<noteq> CHR '':'') s, tl (dropWhile (\<lambda>c. c \<noteq> CHR '':'') s))"

definition ends_with :: "string \<Rightarrow> string \<Rightarrow> bool" where
  "ends_with s ending \<longleftrightarrow> length ending \<le> length s \<and> drop (length s - length ending) s = ending"

definition remove_suffix :: "string \<Rightarrow> string \<Rightarrow> string" where
  "remove_suffix s ending = (if ends_with s ending then take (length s - length ending) s else s)"

definition upper_char :: "char \<Rightarrow> char" where
  "upper_char c = (let n = of_char c :: nat in if 97 \<le> n \<and> n \<le> 122 then char_of (n - 32) else c)"

text \<open>A frame of the live monitor: the feed's label and its quote, \<open>None\<close> when a field is missing or unreadable.\<close>

type_synonym feed_frame = "string \<times> quote option"

definition live_quote ::
    "(string \<Rightarrow> quote option) \<Rightarrow> (string \<Rightarrow> quote option) \<Rightarrow> (string \<Rightarrow> feed_frame option) \<Rightarrow> string \<Rightarrow> string \<Rightarrow> quote option" where
  "live_quote b3_quote us_quote frames market_source instrument_id =
     (case split_id instrument_id of (venue, symbol) \<Rightarrow>
        if venue = ''XP_B3'' then b3_quote symbol
        else if venue = ''ALPACA_US'' then us_quote symbol
        else if venue \<noteq> ''BINANCE_SPOT'' \<or> \<not> ends_with symbol ''USDT'' \<or> market_source \<noteq> ''BINANCE'' then None
        else (case frames (remove_suffix symbol ''USDT'') of
                None \<Rightarrow> None
              | Some (feed, frame_quote) \<Rightarrow>
                  if take 7 (map upper_char feed) \<noteq> ''BINANCE'' then None else frame_quote))"

section \<open>The executor's answers\<close>

datatype 'b http_reply = Transport_Error string | Reply (reply_status: int) (reply_body: "'b option") (reply_detail: string)

datatype 'b client_answer = Answer 'b | Refused int string | Unavailable string

definition client_call :: "'b http_reply \<Rightarrow> 'b client_answer" where
  "client_call reply =
     (case reply of
        Transport_Error e \<Rightarrow> Unavailable e
      | Reply status body detail \<Rightarrow>
          if 500 \<le> status then Unavailable ''HTTP''
          else (case body of
                  None \<Rightarrow> Unavailable ''unreadable response''
                | Some b \<Rightarrow> if 400 \<le> status then Refused status detail else Answer b))"

definition from_executor :: "'b client_answer \<Rightarrow> 'b res" where
  "from_executor a =
     (case a of
        Answer b \<Rightarrow> Inr b
      | Refused status detail \<Rightarrow> Inl (HTTPException (if status < 500 then status else 502) detail)
      | Unavailable _ \<Rightarrow> Inl (HTTPException 503 ''executor unavailable''))"

section \<open>The joint state\<close>

record ('v, 'l, 'p, 'c) desk =
  dk_oms :: "('v, 'l, 'p) oms"
  dk_book :: "'c account_book"
  dk_surface :: surface

record ('v, 'l, 'p, 'c) desk_env =
  de_oms :: "('v, 'l, 'p) oms_env"
  de_balances :: "'l \<Rightarrow> (string, asset_balance) dict"
  de_surface :: surface_env
  de_checkpoints :: "'c checkpoint_ops"
  de_settings :: api_settings
  de_paper_execution :: bool
  de_parse :: "string \<Rightarrow> rat res"

definition desk_oms :: "(('v, 'l, 'p) oms, 'a) op \<Rightarrow> (('v, 'l, 'p, 'c) desk, 'a) op" where
  "desk_oms m s = (case m (dk_oms s) of (r, x) \<Rightarrow> (r, s\<lparr>dk_oms := x\<rparr>))"

definition on_surface :: "(surface, 'a) op \<Rightarrow> (('v, 'l, 'p, 'c) desk, 'a) op" where
  "on_surface m s = (case m (dk_surface s) of (r, x) \<Rightarrow> (r, s\<lparr>dk_surface := x\<rparr>))"

definition on_book :: "('c account_book, 'a) op \<Rightarrow> (('v, 'l, 'p, 'c) desk, 'a) op" where
  "on_book m s = (case m (dk_book s) of (r, x) \<Rightarrow> (r, s\<lparr>dk_book := x\<rparr>))"

section \<open>Reconciliation\<close>

definition routed :: "api_settings \<Rightarrow> venue_id \<Rightarrow> bool" where
  "routed st venue =
     (if venue = V_XP_B3 then ap_xp_enabled st
      else if venue = V_ALPACA_US then ap_alpaca_enabled st
      else venue = V_BINANCE_SPOT)"

text \<open>The answer carries \<^verbatim>\<open>consistent\<close>, absent read as false.\<close>

definition surface_reconcile ::
    "('v, 'l, 'p, 'c) desk_env \<Rightarrow> faults \<Rightarrow> faults \<Rightarrow> bool option client_answer \<Rightarrow> venue_id \<Rightarrow>
     (('v, 'l, 'p, 'c) desk, bool client_answer) op" where
  "surface_reconcile env f1 f2 answer venue =
     (if ap_executor_mode (de_settings env)
      then (case answer of
              Answer consistent \<Rightarrow>
                if consistent \<noteq> Some True
                then op_bind (on_surface (halt_venue (de_surface env) f1 f2 (venue_value venue))) (\<lambda>_. op_return (Answer False))
                else op_return (Answer True)
            | Refused status detail \<Rightarrow> op_return (Refused status detail)
            | Unavailable e \<Rightarrow> op_return (Unavailable e))
      else if venue \<noteq> V_BINANCE_SPOT
      then op_return (Unavailable (venue_value venue @ '' runs on its own executor only''))
      else op_bind (op_read (\<lambda>s. de_balances env (om_ledger (dk_oms s)))) (\<lambda>ledger.
           op_bind (op_read (\<lambda>s. va_balances (env_adapter (de_oms env)) (om_venue (dk_oms s)))) (\<lambda>venue_read.
           op_bind (op_lift venue_read) (\<lambda>theirs.
             if reconcile_balances ledger theirs [] \<noteq> []
             then op_bind (on_surface (halt_venue (de_surface env) f1 f2 (venue_value V_BINANCE_SPOT))) (\<lambda>_. op_return (Answer False))
             else op_return (Answer True)))))"

section \<open>Execution\<close>

text \<open>What the executor answers to an order: its status, and whether it halted the venue.\<close>

record order_answer =
  oa_status :: string
  oa_venue_halted :: bool

datatype execution = Not_Executed | Dispatched string | Managed managed_order

definition dispatch_venue :: "trade_intent \<Rightarrow> venue_id" where
  "dispatch_venue i = (if in_venue i = V_XP_B3 \<or> in_venue i = V_ALPACA_US then in_venue i else V_BINANCE_SPOT)"

definition surface_dispatch ::
    "('v, 'l, 'p, 'c) desk_env \<Rightarrow> faults \<Rightarrow> faults \<Rightarrow> order_answer client_answer \<Rightarrow> trade_intent \<Rightarrow> (('v, 'l, 'p, 'c) desk, execution) op" where
  "surface_dispatch env f1 f2 answer i =
     (let venue = dispatch_venue i in
      if venue \<noteq> V_BINANCE_SPOT \<and> \<not> routed (de_settings env) venue
      then op_bind (on_surface (op_modify (event ''ORDER_REFUSED''))) (\<lambda>_. op_return Not_Executed)
      else (case answer of
              Refused _ _ \<Rightarrow> op_bind (on_surface (op_modify (event ''ORDER_REFUSED''))) (\<lambda>_. op_return Not_Executed)
            | Unavailable _ \<Rightarrow> op_bind (on_surface (op_modify (event ''ORDER_DISPATCH_UNKNOWN''))) (\<lambda>_. op_return Not_Executed)
            | Answer body \<Rightarrow>
                op_bind (on_surface (op_modify (event (''ORDER_'' @ oa_status body)))) (\<lambda>_.
                op_bind (if oa_venue_halted body
                         then on_surface (halt_venue (de_surface env) f1 f2 (venue_value venue)) else op_return ()) (\<lambda>_.
                op_return (Dispatched (oa_status body))))))"

definition surface_execute ::
    "('v, 'l, 'p, 'c) desk_env \<Rightarrow> faults \<Rightarrow> faults \<Rightarrow> order_answer client_answer \<Rightarrow> instant \<Rightarrow> trade_intent \<Rightarrow> risk_permit \<Rightarrow>
     (('v, 'l, 'p, 'c) desk, execution) op" where
  "surface_execute env f1 f2 answer now i permit =
     (if ap_executor_mode (de_settings env) then surface_dispatch env f1 f2 answer i
      else if in_venue i \<noteq> V_BINANCE_SPOT then op_return Not_Executed
      else if \<not> de_paper_execution env then op_return Not_Executed
      else op_bind (op_try (desk_oms (submit (de_oms env) now i permit))) (\<lambda>outcome.
             case outcome of
               Inl (OrderRejected code) \<Rightarrow> op_return Not_Executed
             | Inl e \<Rightarrow> op_raise e
             | Inr order \<Rightarrow>
                 op_bind (surface_reconcile env f1 f2 (Unavailable '''') V_BINANCE_SPOT) (\<lambda>_. op_return (Managed order))))"

section \<open>The operator's routes\<close>

definition venue_of :: "string \<Rightarrow> venue_id option" where
  "venue_of text = List.find (\<lambda>v. venue_value v = text) [V_PAPER, V_BINANCE_SPOT, V_XP_B3, V_ALPACA_US]"

definition venue_param :: "api_settings \<Rightarrow> string \<Rightarrow> venue_id res" where
  "venue_param st venue =
     (case venue_of (map upper_char venue) of
        None \<Rightarrow> Inl (HTTPException 422 ''unknown venue'')
      | Some chosen \<Rightarrow>
          if chosen \<noteq> V_BINANCE_SPOT \<and> chosen \<noteq> V_XP_B3 \<and> chosen \<noteq> V_ALPACA_US
          then Inl (HTTPException 422 ''venue must be BINANCE_SPOT, XP_B3 or ALPACA_US'')
          else if chosen = V_XP_B3 \<and> \<not> ap_xp_enabled st then Inl (HTTPException 409 ''XP routing is not configured'')
          else if chosen = V_ALPACA_US \<and> \<not> ap_alpaca_enabled st then Inl (HTTPException 409 ''Alpaca routing is not configured'')
          else Inr chosen)"

text \<open>The pattern of an order id; anything else is refused before a request is made.\<close>

definition order_id_ok :: "string \<Rightarrow> bool" where
  "order_id_ok s = (1 \<le> length s \<and> length s \<le> 36 \<and> list_all (\<lambda>c. let n = of_char c :: nat in
     (48 \<le> n \<and> n \<le> 57) \<or> (65 \<le> n \<and> n \<le> 90) \<or> (97 \<le> n \<and> n \<le> 122) \<or> n = 95 \<or> n = 45) s)"

definition order_action :: "string \<Rightarrow> 'b client_answer \<Rightarrow> 'b client_answer" where
  "order_action cid answer = (if order_id_ok cid then answer else Refused 404 ''unknown order'')"

definition order_route ::
    "('v, 'l, 'p, 'c) desk_env \<Rightarrow> (string \<Rightarrow> (('v, 'l, 'p) oms, managed_order) op) \<Rightarrow> string client_answer \<Rightarrow> string \<Rightarrow> string \<Rightarrow>
     (('v, 'l, 'p, 'c) desk, execution) op" where
  "order_route env action answer cid venue =
     op_bind (op_lift (venue_param (de_settings env) venue)) (\<lambda>_.
       if ap_executor_mode (de_settings env)
       then op_bind (op_lift (from_executor (order_action cid answer))) (\<lambda>status. op_return (Dispatched status))
       else op_bind (op_read (\<lambda>s. dget (om_orders (dk_oms s)) cid)) (\<lambda>found.
              case found of
                None \<Rightarrow> op_raise (HTTPException 404 ''unknown order'')
              | Some _ \<Rightarrow> op_bind (desk_oms (action cid)) (\<lambda>order. op_return (Managed order))))"

definition resolve_order ::
    "('v, 'l, 'p, 'c) desk_env \<Rightarrow> instant \<Rightarrow> string client_answer \<Rightarrow> string \<Rightarrow> string \<Rightarrow> (('v, 'l, 'p, 'c) desk, execution) op" where
  "resolve_order env now = order_route env (resolve_unknown (de_oms env) now)"

definition cancel_order ::
    "('v, 'l, 'p, 'c) desk_env \<Rightarrow> instant \<Rightarrow> string client_answer \<Rightarrow> string \<Rightarrow> string \<Rightarrow> (('v, 'l, 'p, 'c) desk, execution) op" where
  "cancel_order env now = order_route env (cancel (de_oms env) now)"

definition release_executor_halt ::
    "('v, 'l, 'p, 'c) desk_env \<Rightarrow> bool option client_answer \<Rightarrow> string \<Rightarrow> (('v, 'l, 'p, 'c) desk, bool option) op" where
  "release_executor_halt env answer venue =
     (if \<not> ap_executor_mode (de_settings env) then op_raise (HTTPException 409 ''no executor backend is configured'')
      else op_bind (op_lift (venue_param (de_settings env) venue)) (\<lambda>_.
           op_bind (op_lift (from_executor answer)) (\<lambda>consistent.
           op_bind (on_surface (op_modify (event ''EXECUTOR_HALT_RELEASED''))) (\<lambda>_. op_return consistent))))"

definition recent_orders ::
    "('v, 'l, 'p, 'c) desk_env \<Rightarrow> int \<Rightarrow> venue_id \<Rightarrow> 'o list client_answer \<Rightarrow> (managed_order \<Rightarrow> 'o) \<Rightarrow> (('v, 'l, 'p, 'c) desk, 'o list client_answer) op" where
  "recent_orders env limit venue answer view =
     (if ap_executor_mode (de_settings env)
      then op_return (if routed (de_settings env) venue then answer else Answer [])
      else if venue \<noteq> V_BINANCE_SPOT then op_return (Answer [])
      else op_read (\<lambda>s. let orders = dvalues (om_orders (dk_oms s)); n = nat (max 1 (min limit 500))
                        in Answer (map view (drop (length orders - n) orders))))"

text \<open>An id the order manager does not hold, or a venue that is not routed, leaves everything as it is.\<close>

lemma order_route_unknown:
  assumes "\<not> ap_executor_mode (de_settings env)" "dget (om_orders (dk_oms s)) cid = None"
  shows "\<exists>e. order_route env action answer cid venue s = (Inl e, s)"
  using assms by (cases "venue_param (de_settings env) venue") (simp_all add: order_route_def op_bind_def)

section \<open>A proposal\<close>

definition quote_asset_of :: "api_settings \<Rightarrow> trade_intent \<Rightarrow> string" where
  "quote_asset_of st i = (case dget (active_instruments st) (in_instrument_id i) of None \<Rightarrow> ''BRL'' | Some inst \<Rightarrow> ti_quote_asset inst)"

text \<open>What the surface gathers: the account read, the quote, the external kill, the stage of the scope and
  the rate for a canary.\<close>

record gathered =
  ga_read :: account_read
  ga_quote :: "quote option"
  ga_external_kill :: bool
  ga_scope_stage :: "release_stage option"
  ga_market_source :: string
  ga_now :: instant

definition proposal_canary :: "api_settings \<Rightarrow> gathered \<Rightarrow> trade_intent \<Rightarrow> rat option res" where
  "proposal_canary st ga i =
     (if in_stage i = CANARY then canary_capital (ar_rate (ga_read ga)) (quote_asset_of st i) (ga_market_source ga) else Inr None)"

definition assess_proposal ::
    "('v, 'l, 'p, 'c) desk_env \<Rightarrow> faults \<Rightarrow> faults \<Rightarrow> gathered \<Rightarrow> trade_intent \<Rightarrow> (('v, 'l, 'p, 'c) desk, risk_decision) op" where
  "assess_proposal env f1 f2 ga i =
     op_bind (on_surface (governor_ready (de_surface env) f1)) (\<lambda>_ s1.
       if \<not> accepts_new_risk (dk_surface s1)
       then (Inr refused_unavailable, s1\<lparr>dk_surface := event ''RISK_DECISION'' (dk_surface s1)\<rparr>)
       else op_bind (on_book (read_account (de_checkpoints env) (de_parse env) (de_settings env)
                                (quote_asset_of (de_settings env) i) (ga_read ga))) (\<lambda>account.
            op_bind (op_lift (proposal_canary (de_settings env) ga i)) (\<lambda>canary.
            on_surface (assess_ready (de_surface env) f2
              \<lparr>rq_intent = i, rq_account = account, rq_quote = ga_quote ga, rq_now = ga_now ga,
               rq_external_global_kill = ga_external_kill ga, rq_scope_stage = ga_scope_stage ga,
               rq_canary_capital = canary\<rparr>))) s1)"

text \<open>The faults of the four store accesses on the way.\<close>

record chain_faults =
  cf_ready :: faults
  cf_latch :: faults
  cf_halt_ready :: faults
  cf_halt_save :: faults

definition trade ::
    "('v, 'l, 'p, 'c) desk_env \<Rightarrow> chain_faults \<Rightarrow> gathered \<Rightarrow> order_answer client_answer \<Rightarrow> instant \<Rightarrow> trade_intent \<Rightarrow>
     (('v, 'l, 'p, 'c) desk, risk_decision \<times> execution) op" where
  "trade env cf ga answer now i =
     op_bind (assess_proposal env (cf_ready cf) (cf_latch cf) ga i) (\<lambda>risk.
       case (rd_approved risk, rd_permit risk) of
         (True, Some permit) \<Rightarrow>
           op_bind (surface_execute env (cf_halt_ready cf) (cf_halt_save cf) answer now i permit) (\<lambda>order. op_return (risk, order))
       | _ \<Rightarrow> op_return (risk, Not_Executed))"

section \<open>The controls only tighten\<close>

abbreviation tightens :: "governor \<Rightarrow> (surface, 'a) op \<Rightarrow> bool" where
  "tightens g m \<equiv> contract (\<lambda>s. stricter g (sf_governor s)) m (\<lambda>_ s. stricter g (sf_governor s)) (\<lambda>s. stricter g (sf_governor s))"

lemma ensure_governor: "store_ensure f s = (b, s') \<Longrightarrow> sf_governor s' = sf_governor s"
  by (auto simp: store_ensure_def store_start_def mark_unavailable_def Let_def split: if_splits)

lemma save_governor: "sf_governor (snd (save_snapshot env f fate s)) = sf_governor s"
  by (simp add: save_snapshot_def mark_unavailable_def Let_def split: store_fate.split)

lemma ready_stricter:
  assumes "governor_ready env f s = (r, s')"
  shows "stricter (sf_governor s) (sf_governor s')"
proof (cases "sf_engine s")
  case False
  with assms show ?thesis by (auto simp: governor_ready_def)
next
  case True
  obtain b s1 where ensure: "store_ensure f s = (b, s1)" by fastforce
  note g1 = ensure_governor[OF ensure]
  obtain r2 g2 where read: "(case saved_doc env s1 of None \<Rightarrow> (Inr (), sf_governor s1) | Some doc \<Rightarrow> restore doc (sf_governor s1)) = (r2, g2)"
    by fastforce
  then have g2: "stricter (sf_governor s1) g2" using stricter_restore by (auto split: option.splits)
  have "sf_governor s' = sf_governor s1 \<or> sf_governor s' = g2"
  proof (cases "b \<and> sf_loaded s1 \<noteq> Some (sf_generation s1) \<and> fa_get f")
    case False
    with assms True ensure show ?thesis
      by (auto simp: governor_ready_def mark_frame split: if_splits bool.splits)
  next
    case reads: True
    show ?thesis
    proof (cases r2)
      case (Inl e)
      with assms True ensure reads read show ?thesis by (auto simp: governor_ready_def Let_def)
    next
      case (Inr u)
      define s2 where "s2 = s1\<lparr>sf_governor := g2, sf_loaded := Some (sf_generation s1), sf_saved := saved_doc env s1\<rparr>"
      have "s' = snd (save_snapshot env f (fa_inner f) s2) \<or> s' = s2"
        using assms True ensure reads read Inr by (auto simp: governor_ready_def Let_def s2_def split: if_splits)
      then have "sf_governor s' = sf_governor s2" using save_governor by metis
      then show ?thesis by (simp add: s2_def)
    qed
  qed
  then show ?thesis using g1 g2 by auto
qed

lemma persist_stricter:
  assumes "persist_controls env f s = (r, s')"
  shows "stricter (sf_governor s) (sf_governor s')"
proof (cases "sf_engine s")
  case False
  with assms show ?thesis by (auto simp: persist_controls_def)
next
  case True
  with assms have "op_bind (governor_ready env f) (\<lambda>_ s1. case save_snapshot env f (fa_put f) s1 of (b, s2) \<Rightarrow> (Inr b, s2)) s = (r, s')"
    by (simp add: persist_controls_def)
  then show ?thesis
  proof (cases rule: op_bind_cases)
    case (raised e)
    then show ?thesis using ready_stricter by blast
  next
    case (returned x s1)
    then have "s' = snd (save_snapshot env f (fa_put f) s1)" by (simp add: case_prod_beta)
    then show ?thesis using ready_stricter[OF returned(1)] save_governor by simp
  qed
qed

lemma tightens_ready: "tightens g (governor_ready env f)"
  by (rule contract_outcomeI) (metis ready_stricter stricter_trans)

lemma tightens_persist: "tightens g (persist_controls env f)"
  by (rule contract_outcomeI) (metis persist_stricter stricter_trans)

lemma tightens_trigger: "tightens g (on_governor (trigger_kill scope key))"
proof (rule contract_outcomeI)
  fix s r s'
  assume s: "stricter g (sf_governor s)" and out: "on_governor (trigger_kill scope key) s = (r, s')"
  obtain r1 g1 where t: "trigger_kill scope key (sf_governor s) = (r1, g1)" by fastforce
  with out have "sf_governor s' = g1" by (auto simp: on_governor_def)
  then show "stricter g (sf_governor s')" using stricter_trans[OF s stricter_trigger[OF t]] by simp
qed

lemma tightens_event: "tightens g (op_modify (event e))"
  by (rule contract_modify) (simp add: event_def)

lemma tightens_event2: "tightens g (op_modify (event e \<circ> event e'))"
  by (rule contract_modify) (simp add: event_def)

lemma tightens_return: "tightens g (op_return x)"
  by (rule contract_return)

lemma tightens_raise: "tightens g (op_raise e)"
  by (rule contract_raise)

lemma tightens_try: "tightens g m \<Longrightarrow> tightens g (op_try m)"
  by (rule contract_outcomeI) (auto simp: op_try_def dest: contract_outcome split: prod.splits)

lemmas tightens_ops = tightens_ready tightens_persist tightens_trigger tightens_event tightens_event2 tightens_return tightens_raise

lemma tightens_bind: "tightens g m \<Longrightarrow> (\<And>x. tightens g (f x)) \<Longrightarrow> tightens g (op_bind m f)"
  by (rule contract_bind)

lemma tightens_halt: "tightens g (halt_venue env f1 f2 venue)"
  unfolding halt_venue_def by (auto intro!: tightens_bind tightens_ops)

lemma tightens_kill: "tightens g (change_kill_switch env f1 f2 between scope key TRIGGER)"
  unfolding change_kill_switch_def kill_action.case
  by (intro tightens_bind tightens_try tightens_ops) (auto split: sum.splits intro: tightens_ops)

lemma tightens_assess_ready: "tightens g (assess_ready env f rq)"
proof (rule contract_outcomeI)
  fix s r s'
  assume s: "stricter g (sf_governor s)" and out: "assess_ready env f rq s = (r, s')"
  obtain r1 g1 where a: "assess (se_engine env) rq (sf_governor s) = (r1, g1)" by fastforce
  have g1: "stricter g g1" by (rule stricter_trans[OF s stricter_assess[OF a]])
  show "stricter g (sf_governor s')"
  proof (cases r1)
    case (Inl e)
    with a out g1 show ?thesis by (auto simp: assess_ready_def)
  next
    case (Inr d)
    define s2 where "s2 = event ''RISK_DECISION'' (s\<lparr>sf_governor := g1\<rparr>)"
    have s2: "stricter g (sf_governor s2)" using g1 by (simp add: s2_def event_def)
    have later: "tightens g (op_bind (persist_controls env f) (\<lambda>_ s3.
        (Inr d, event ''PROMOTION_VIOLATION'' (event ''RISK_LOCKDOWN_LATCHED'' s3))))"
      by (intro tightens_bind tightens_persist contract_outcomeI) (auto simp: event_def)
    from a out Inr have "rd_breach d = None \<and> s' = s2 \<or> rd_breach d \<noteq> None \<and> op_bind (persist_controls env f) (\<lambda>_ s3.
        (Inr d, event ''PROMOTION_VIOLATION'' (event ''RISK_LOCKDOWN_LATCHED'' s3))) s2 = (r, s')"
      by (auto simp: assess_ready_def s2_def Let_def split: if_splits)
    then show ?thesis using s2 contract_outcome[OF later s2] by blast
  qed
qed

lemma tightens_assess: "tightens g (surface_assess env f1 f2 rq)"
  unfolding surface_assess_def
proof (intro tightens_bind tightens_ready contract_outcomeI)
  fix s r s'
  assume "stricter g (sf_governor s)"
    "(if \<not> accepts_new_risk s then (Inr refused_unavailable, event ''RISK_DECISION'' s) else assess_ready env f2 rq s) = (r, s')"
  then show "stricter g (sf_governor s')"
    using contract_outcome[OF tightens_assess_ready] by (auto simp: event_def split: if_splits)
qed

text \<open>The process running on: any call but a restart (or an operator's release).\<close>

definition running :: "surface_env \<Rightarrow> surface \<Rightarrow> surface \<Rightarrow> bool" where
  "running env s s' \<longleftrightarrow> surface_step env s s' \<and> s' \<noteq> restart s"

lemma running_stricter: "running env s s' \<Longrightarrow> stricter (sf_governor s) (sf_governor s')"
  unfolding running_def
  by (elim conjE surface_step.cases)
    (auto dest: contract_outcome[OF tightens_assess stricter_refl] contract_outcome[OF tightens_kill stricter_refl]
      contract_outcome[OF tightens_halt stricter_refl] ready_stricter)

lemma running_star_stricter: "(running env)\<^sup>*\<^sup>* s s' \<Longrightarrow> stricter (sf_governor s) (sf_governor s')"
  by (induction rule: rtranclp_induct) (auto intro: stricter_trans running_stricter)
section \<open>What a proposal goes through\<close>

lemma on_surface_frame: "on_surface m s = (r, s') \<Longrightarrow> dk_oms s' = dk_oms s \<and> dk_book s' = dk_book s"
  by (auto simp: on_surface_def split: prod.splits)

lemma on_book_frame: "on_book m s = (r, s') \<Longrightarrow> dk_oms s' = dk_oms s \<and> dk_surface s' = dk_surface s"
  by (auto simp: on_book_def split: prod.splits)

lemma on_surface_outcome: "on_surface m s = (r, s') \<Longrightarrow> m (dk_surface s) = (r, dk_surface s')"
  by (auto simp: on_surface_def split: prod.splits)

lemma on_book_outcome: "on_book m s = (r, s') \<Longrightarrow> m (dk_book s) = (r, dk_book s')"
  by (auto simp: on_book_def split: prod.splits)

lemma assess_ready_decides:
  assumes "assess_ready env f rq s = (Inr d, s')"
  shows "\<exists>g'. assess (se_engine env) rq (sf_governor s) = (Inr d, g')"
  using assms
  by (auto simp: assess_ready_def op_bind_def Let_def split: prod.splits sum.splits if_splits)

abbreviation proposal_request :: "trade_intent \<Rightarrow> account_state \<Rightarrow> gathered \<Rightarrow> rat option \<Rightarrow> request" where
  "proposal_request i account ga canary \<equiv>
     \<lparr>rq_intent = i, rq_account = account, rq_quote = ga_quote ga, rq_now = ga_now ga,
      rq_external_global_kill = ga_external_kill ga, rq_scope_stage = ga_scope_stage ga, rq_canary_capital = canary\<rparr>"

text \<open>An approval was given by the governor, as it stood with the saved controls restored, on the account
  that was read.\<close>

lemma assess_on_account:
  assumes "op_bind (op_lift canary_read) (\<lambda>canary. on_surface (assess_ready env f (proposal_request i account ga canary))) s = (r, s')"
  shows "dk_oms s' = dk_oms s"
    and "r = Inr d \<Longrightarrow> \<exists>canary g'. assess (se_engine env) (proposal_request i account ga canary) (sf_governor (dk_surface s)) = (Inr d, g')"
proof -
  have "dk_oms s' = dk_oms s \<and> (r = Inr d \<longrightarrow>
    (\<exists>canary g'. assess (se_engine env) (proposal_request i account ga canary) (sf_governor (dk_surface s)) = (Inr d, g')))"
    using assms
  proof (cases rule: op_bind_cases)
    case (returned canary s1)
    then have final: "on_surface (assess_ready env f (proposal_request i account ga canary)) s = (r, s')" by simp
    show ?thesis using on_surface_frame[OF final] assess_ready_decides on_surface_outcome[OF final] by blast
  qed simp
  then show "dk_oms s' = dk_oms s" "r = Inr d \<Longrightarrow> \<exists>canary g'. assess (se_engine env) (proposal_request i account ga canary) (sf_governor (dk_surface s)) = (Inr d, g')"
    by auto
qed

lemma assess_proposal_cases:
  assumes "assess_proposal env f1 f2 ga i s = (r, s')"
  obtains (refused) "dk_oms s' = dk_oms s" "\<And>d. r = Inr d \<Longrightarrow> \<not> rd_approved d"
  | (assessed) account bk canary g g' d where "dk_oms s' = dk_oms s" "r = Inr d"
      "read_account (de_checkpoints env) (de_parse env) (de_settings env)
         (quote_asset_of (de_settings env) i) (ga_read ga) (dk_book s) = (Inr account, bk)"
      "stricter (sf_governor (dk_surface s)) g"
      "assess (se_engine (de_surface env)) (proposal_request i account ga canary) g = (Inr d, g')"
  using assms[unfolded assess_proposal_def]
proof (cases rule: op_bind_cases)
  case (raised e)
  then show thesis using on_surface_frame by (intro refused) auto
next
  case ready: (returned x s1)
  have frame1: "dk_oms s1 = dk_oms s" "dk_book s1 = dk_book s" using on_surface_frame[OF ready(1)] by auto
  have strict: "stricter (sf_governor (dk_surface s)) (sf_governor (dk_surface s1))"
    by (rule ready_stricter[OF on_surface_outcome[OF ready(1)]])
  show thesis
  proof (cases "accepts_new_risk (dk_surface s1)")
    case False
    then show thesis using ready(2) frame1 by (intro refused) (auto simp: refused_unavailable_def)
  next
    case True
    with ready(2) have rest: "op_bind (on_book (read_account (de_checkpoints env) (de_parse env) (de_settings env)
          (quote_asset_of (de_settings env) i) (ga_read ga))) (\<lambda>account.
        op_bind (op_lift (proposal_canary (de_settings env) ga i)) (\<lambda>canary.
          on_surface (assess_ready (de_surface env) f2 (proposal_request i account ga canary)))) s1 = (r, s')"
      by simp
    then show thesis
    proof (cases rule: op_bind_cases)
      case (raised e)
      then show thesis using on_book_frame[OF raised(1)] frame1 by (intro refused) auto
    next
      case read: (returned account s2)
      have frame2: "dk_oms s2 = dk_oms s" "dk_surface s2 = dk_surface s1" using on_book_frame[OF read(1)] frame1 by auto
      note final = assess_on_account[OF read(2)]
      show thesis
      proof (cases r)
        case (Inl e)
        then show thesis using final(1) frame2 by (intro refused) auto
      next
        case (Inr d)
        from final(2)[OF this] frame2(2) obtain canary g' where
          "assess (se_engine (de_surface env)) (proposal_request i account ga canary) (sf_governor (dk_surface s1)) = (Inr d, g')"
          by auto
        then show thesis
          using assessed[OF _ Inr _ strict] final(1) frame2(1) on_book_outcome[OF read(1)] frame1(2) by simp
      qed
    qed
  qed
qed
lemma assess_proposal_oms: "assess_proposal env f1 f2 ga i s = (r, s') \<Longrightarrow> dk_oms s' = dk_oms s"
  by (erule assess_proposal_cases)

lemma surface_reconcile_oms:
  assumes "surface_reconcile env f1 f2 answer venue s = (r, s')"
  shows "dk_oms s' = dk_oms s"
  using assms on_surface_frame
  by (auto simp: surface_reconcile_def op_bind_def split: if_splits client_answer.splits prod.splits sum.splits)

lemma execute_oms:
  assumes "surface_execute env f1 f2 answer now i permit s = (r, s')" "\<not> ap_executor_mode (de_settings env)"
    and "in_venue i = V_BINANCE_SPOT" "de_paper_execution env"
  shows "dk_oms s' = snd (submit (de_oms env) now i permit (dk_oms s))"
proof -
  obtain out oms where sub: "submit (de_oms env) now i permit (dk_oms s) = (out, oms)" by fastforce
  show ?thesis
  proof (cases out)
    case (Inl e)
    then show ?thesis using assms sub
      by (cases e) (auto simp: surface_execute_def op_bind_def op_try_def desk_oms_def)
  next
    case (Inr order)
    then have "op_bind (surface_reconcile env f1 f2 (Unavailable '''') V_BINANCE_SPOT) (\<lambda>_. op_return (Managed order)) (s\<lparr>dk_oms := oms\<rparr>) = (r, s')"
      using assms sub by (simp add: surface_execute_def op_bind_def op_try_def desk_oms_def)
    then show ?thesis using sub by (cases rule: op_bind_cases) (auto dest: surface_reconcile_oms)
  qed
qed

lemma execute_venue:
  assumes "surface_execute env f1 f2 answer now i permit s = (r, s')" "\<not> ap_executor_mode (de_settings env)"
    and "om_venue (dk_oms s') \<noteq> om_venue (dk_oms s)"
  shows "in_venue i = V_BINANCE_SPOT \<and> de_paper_execution env \<and> cleared (de_oms env) now i permit (dk_oms s)"
proof -
  have on: "in_venue i = V_BINANCE_SPOT" "de_paper_execution env"
    using assms by (auto simp: surface_execute_def split: if_splits)
  obtain out oms where sub: "submit (de_oms env) now i permit (dk_oms s) = (out, oms)" by fastforce
  then have "dk_oms s' = oms" using execute_oms[OF assms(1,2) on] by simp
  then show ?thesis using on submit_cleared[OF sub] assms(3) by simp
qed

text \<open>A trade touches nothing unless the governor approved it.\<close>

lemma trade_cases:
  assumes "trade env cf ga answer now i s = (r, s')"
  obtains (nothing) "dk_oms s' = dk_oms s" "\<And>risk order. r = Inr (risk, order) \<Longrightarrow> order = Not_Executed"
  | (executed) risk permit s1 r1 where "rd_approved risk" "rd_permit risk = Some permit"
      "assess_proposal env (cf_ready cf) (cf_latch cf) ga i s = (Inr risk, s1)"
      "surface_execute env (cf_halt_ready cf) (cf_halt_save cf) answer now i permit s1 = (r1, s')"
      "\<And>risk' order. r = Inr (risk', order) \<Longrightarrow> risk' = risk"
  using assms[unfolded trade_def]
proof (cases rule: op_bind_cases)
  case (raised e)
  show thesis by (rule nothing) (use assess_proposal_oms[OF raised(1)] raised(2) in auto)
next
  case (returned risk s1)
  have frame: "dk_oms s1 = dk_oms s" by (rule assess_proposal_oms[OF returned(1)])
  show thesis
  proof (cases "rd_approved risk \<and> rd_permit risk \<noteq> None")
    case False
    show thesis by (rule nothing) (use returned(2) frame False in \<open>auto split: option.splits bool.splits\<close>)
  next
    case True
    then obtain permit where p: "rd_approved risk" "rd_permit risk = Some permit" by auto
    with returned(2) have "op_bind (surface_execute env (cf_halt_ready cf) (cf_halt_save cf) answer now i permit)
        (\<lambda>order. op_return (risk, order)) s1 = (r, s')" by simp
    then show thesis by (cases rule: op_bind_cases) (use executed[OF p returned(1)] in auto)
  qed
qed

text \<open>A killed venue gets no approval, and a refused proposal touches nothing.\<close>

lemma killed_venue_refused:
  assumes "se_engine (de_surface env) = engine_of lc ins issue policy"
    and "venue_value (in_venue i) |\<in>| gv_venues (sf_governor (dk_surface s))"
    and "assess_proposal env f1 f2 ga i s = (Inr d, s')"
  shows "\<not> rd_approved d"
  using assms(3)
proof (cases rule: assess_proposal_cases)
  case (assessed account bk canary g g' d')
  then have "forbids g (proposal_request i account ga canary)"
    using assms(2) by (auto simp: forbids_def stricter_def)
  then show ?thesis using forbidden_not_approved assessed(2,5) assms(1) by (metis sum.inject(2))
qed simp

lemma trade_refused:
  assumes "trade env cf ga answer now i s = (r, s')"
    and "\<And>d s1. assess_proposal env (cf_ready cf) (cf_latch cf) ga i s = (Inr d, s1) \<Longrightarrow> \<not> rd_approved d"
  shows "dk_oms s' = dk_oms s \<and> (\<forall>risk order. r = Inr (risk, order) \<longrightarrow> \<not> rd_approved risk \<and> order = Not_Executed)"
  using assms(1)[unfolded trade_def]
proof (cases rule: op_bind_cases)
  case (raised e)
  then show ?thesis using assess_proposal_oms by auto
next
  case (returned d s1)
  with assms(2)[OF returned(1)] assess_proposal_oms[OF returned(1)] show ?thesis by auto
qed

lemma halt_kills:
  assumes "se_automatic_kill env" "halt_venue env f1 f2 v s = (Inr u, s')"
  shows "v |\<in>| gv_venues (sf_governor s')"
proof -
  have "op_bind (op_bind (governor_ready env f1) (\<lambda>_.
          op_bind (on_governor (trigger_kill SCOPE_VENUE (Some v))) (\<lambda>_.
          op_bind (persist_controls env f2) (\<lambda>_. op_return ())))) (\<lambda>_.
        op_modify (event ''PROMOTION_VIOLATION'' \<circ> event ''RECONCILIATION_DIVERGENCE'')) s = (Inr u, s')"
    using assms by (simp add: halt_venue_def)
  then obtain s1 s2 s3 b where t: "on_governor (trigger_kill SCOPE_VENUE (Some v)) s1 = (Inr (), s2)"
    and p: "persist_controls env f2 s2 = (Inr b, s3)" and e: "sf_governor s' = sf_governor s3"
    by (auto elim!: op_bind_cases simp: event_def)
  have "v |\<in>| gv_venues (sf_governor s2)"
    using t by (auto simp: on_governor_def trigger_kill_def target_def Let_def split: prod.splits if_splits option.splits)
  then show ?thesis using persist_stricter[OF p] e by (auto simp: stricter_def)
qed

lemma surface_reconcile_halts:
  assumes "surface_reconcile env f1 f2 answer venue s = (Inr (Answer False), s')"
  shows "halt_venue (de_surface env) f1 f2 (venue_value venue) (dk_surface s) = (Inr (), dk_surface s')"
  using assms
  by (auto simp: surface_reconcile_def elim!: op_bind_cases dest!: on_surface_outcome split: if_splits client_answer.splits)
section \<open>Properties\<close>

text \<open>
  C1: From a proposal to the venue. When a proposal makes the paper venue change, however the run ends
  and whatever store accesses failed on the way, then the intent is for the venue the desk trades, the
  permit ledger and the cash ledger had cleared the order, the permit is the one the risk engine issued
  for this intent, and neither the external kill nor the controls in force when it arrived forbade it.
  For a buy moreover the account that was read had a known exposure, the position's notional times the
  stop distance was at most 25 and the exposure with this order at most 10,000, in the quote currency.
\<close>

theorem trades_stay_within_limits:
  assumes "se_engine (de_surface env) = engine_of lc ins issue policy" and "\<not> ap_executor_mode (de_settings env)"
    and "trade env cf ga answer now i s = (r, s')" and "om_venue (dk_oms s') \<noteq> om_venue (dk_oms s)"
  shows "\<exists>permit account bk. in_venue i = V_BINANCE_SPOT \<and> issue i (ga_now ga) = Inr permit
    \<and> cleared (de_oms env) now i permit (dk_oms s)
    \<and> read_account (de_checkpoints env) (de_parse env) (de_settings env) (quote_asset_of (de_settings env) i) (ga_read ga)
        (dk_book s) = (Inr account, bk)
    \<and> \<not> ga_external_kill ga \<and> \<not> forbids (sf_governor (dk_surface s)) (proposal_request i account ga None)
    \<and> (in_side i = BUY \<longrightarrow> (\<exists>price x. check_price policy (ga_quote ga) (ga_now ga) i = Some price
        \<and> ac_gross_exposure account = Some x
        \<and> dmul (position_notional account i price) (po_stop_distance policy) \<le> 25
        \<and> dadd x (dmul (in_quantity i) price) \<le> 10000))"
  using assms(3)
proof (cases rule: trade_cases)
  case nothing
  then show ?thesis using assms(4) by simp
next
  case (executed risk permit s1 r1)
  have frame: "dk_oms s1 = dk_oms s" by (rule assess_proposal_oms[OF executed(3)])
  from executed(3) show ?thesis
  proof (cases rule: assess_proposal_cases)
    case refused
    then show ?thesis using executed(1) by simp
  next
    case (assessed account bk canary g g' d)
    let ?rq = "proposal_request i account ga canary"
    note a = assessed(5)[unfolded assms(1)] and d = assessed(2)
    have "\<not> forbids g ?rq" using forbidden_not_approved[OF a] executed(1) d by auto
    then have "\<not> forbids (sf_governor (dk_surface s)) ?rq"
      using at_least_forbids[OF stricter_at_least[OF assessed(4)]] by blast
    then have free: "\<not> forbids (sf_governor (dk_surface s)) (proposal_request i account ga None)"
      by (simp add: forbids_def)
    have ev: "evaluate lc ins issue policy i account (governor_controls (ga_external_kill ga) g) (ga_quote ga)
        (ga_now ga) (ga_scope_stage ga) canary = Inr risk"
      using engine.assess_Inr(1)[OF a] d by (simp add: engine_of_def)
    have kill: "\<not> ga_external_kill ga"
      using engine.no_kill[OF engine.assess_Inr(1)[OF a]] executed(1) d by (auto simp: governor_controls_def)
    have issued: "issue i (ga_now ga) = Inr permit"
      using evaluate_conv[OF ev] executed(1,2) by auto
    have limits: "\<exists>price x. check_price policy (ga_quote ga) (ga_now ga) i = Some price \<and> ac_gross_exposure account = Some x
        \<and> dmul (position_notional account i price) (po_stop_distance policy) \<le> 25
        \<and> dadd x (dmul (in_quantity i) price) \<le> 10000" if "in_side i = BUY"
      using approved_buy_within_limits[OF ev executed(1) that] order_trans by blast
    show ?thesis
      using execute_venue[OF executed(4) assms(2)] assms(4) frame issued free kill limits assessed(3) by auto
  qed
qed

text \<open>
  C2: A divergence stops its venue. Suppose the automatic kill is on, and a reconciliation, of the paper
  ledger or relayed from an executor, reports a divergence. Then as long as the process runs on
  (assessments, kill switches, halts, restores, but no restart and no operator's release), whether or not
  the kill could be saved, every decision on a proposal for that venue is a refusal, the proposal is not
  executed and the order manager is not touched. With the automatic kill off, as the container image
  ships it, a divergence is only recorded.
\<close>

theorem divergence_stops_venue:
  assumes "se_engine (de_surface env) = engine_of lc ins issue policy" and "se_automatic_kill (de_surface env)"
    and "surface_reconcile env f1 f2 answer venue s = (Inr (Answer False), s1)"
    and "(running (de_surface env))\<^sup>*\<^sup>* (dk_surface s1) (dk_surface s2)" and "in_venue i = venue"
    and "trade env cf ga answer' now i s2 = (r, s3)"
  shows "dk_oms s3 = dk_oms s2 \<and> (\<forall>risk order. r = Inr (risk, order) \<longrightarrow> \<not> rd_approved risk \<and> order = Not_Executed)"
proof -
  have "venue_value venue |\<in>| gv_venues (sf_governor (dk_surface s1))"
    by (rule halt_kills[OF assms(2) surface_reconcile_halts[OF assms(3)]])
  then have "venue_value venue |\<in>| gv_venues (sf_governor (dk_surface s2))"
    using running_star_stricter[OF assms(4)] by (auto simp: stricter_def)
  then have "\<not> rd_approved d" if "assess_proposal env (cf_ready cf) (cf_latch cf) ga i s2 = (Inr d, s4)" for d s4
    using killed_venue_refused[OF assms(1) _ that] assms(5) by simp
  then show ?thesis using trade_refused[OF assms(6)] by blast
qed

section \<open>Witnesses\<close>

definition ex_desk_env :: "(nat, memory_ledger, spent, checkpoint_row list) desk_env" where
  "ex_desk_env = \<lparr>de_oms = ex_env, de_balances = memory_balances,
     de_surface = ex_surface_env\<lparr>se_engine := engine_of (\<lambda>_ _. (0, 0)) [(''BINANCE_SPOT:BTCUSDT'', ex_instrument)]
        (\<lambda>_ _. Inr ex_permit) default_policy\<rparr>,
     de_checkpoints = sql_ops (ex_settings\<lparr>ap_executor_mode := False\<rparr>), de_settings = ex_settings\<lparr>ap_executor_mode := False\<rparr>,
     de_paper_execution = True, de_parse = ex_parse\<rparr>"

definition ex_desk :: "(nat, memory_ledger, spent, checkpoint_row list) desk" where
  "ex_desk = \<lparr>dk_oms = ex_oms, dk_book = \<lparr>bk_store = [], bk_last_openings = (\<lambda>_. None)\<rparr>, dk_surface = surface_new False []\<rparr>"

definition ex_gathered :: gathered where
  "ex_gathered = \<lparr>ga_read = \<lparr>ar_ledger = memory_balances ex_ledger, ar_executor = None, ar_orders = Some (True, []),
        ar_quotes = (\<lambda>_. None), ar_rate = Some 5, ar_now = 0\<rparr>,
     ga_quote = ex_quotes ''BINANCE_SPOT:BTCUSDT'', ga_external_kill = False, ga_scope_stage = None,
     ga_market_source = ''BINANCE'', ga_now = 0\<rparr>"

definition ex_chain :: chain_faults where
  "ex_chain = \<lparr>cf_ready = ex_faults, cf_latch = ex_faults, cf_halt_ready = ex_faults, cf_halt_save = ex_faults\<rparr>"

lemma ex_submit_buy: "om_venue (snd (submit ex_env 1 ex_buy ex_permit ex_oms)) = 1"
  by code_simp

definition ex_marked :: account_state where
  "ex_marked = \<lparr>ac_equity = 1000, ac_start_of_day_equity = 1000, ac_peak_equity = 1000, ac_gross_exposure = Some 0,
     ac_positions = [(''BINANCE_SPOT:BTCUSDT'', 0), (''BINANCE_SPOT:ETHUSDT'', 0), (''BINANCE_SPOT:SOLUSDT'', 0)], ac_reference_capital = 2000, ac_open_buys = []\<rparr>"

lemma ex_read_run: "fst (read_account (sql_ops (ex_settings\<lparr>ap_executor_mode := False\<rparr>)) ex_parse (ex_settings\<lparr>ap_executor_mode := False\<rparr>)
    ''USDT'' (ga_read ex_gathered) (dk_book ex_desk)) = Inr ex_marked"
  by code_simp

lemma ex_assess_buy:
  "\<exists>d s'. assess_proposal ex_desk_env ex_faults ex_faults ex_gathered ex_buy ex_desk = (Inr d, s') \<and> rd_approved d
     \<and> rd_permit d = Some ex_permit"
proof -
  have "\<exists>d. ex_evaluate ex_buy ex_marked ex_controls = Inr d \<and> rd_approved d"
  proof (rule ex_evaluate_account)
    show "account_breach ex_marked = (None, 0, 0)" by code_simp
    show "dmul (position_notional ex_marked ex_buy 64320) (2 / 100)
        \<le> dmul (sizing_equity ex_marked None ex_buy) MAX_RISK_PER_POSITION" by code_simp
    show "within_leverage (ac_gross_exposure ex_marked) (dmul (in_quantity ex_buy) 64320)
        (dmul (sizing_equity ex_marked None ex_buy) MAX_GROSS_LEVERAGE)" by code_simp
  qed
  then obtain d where d: "ex_evaluate ex_buy ex_marked ex_controls = Inr d" "rd_approved d" by blast
  have permit: "rd_permit d = Some ex_permit" and breach: "rd_breach d = evaluate_breach ex_marked"
    using evaluate_conv[OF d(1)] d(2) by auto
  have none: "evaluate_breach ex_marked = None" by code_simp
  obtain bk where read: "read_account (de_checkpoints ex_desk_env) (de_parse ex_desk_env) (de_settings ex_desk_env)
      ''USDT'' (ga_read ex_gathered) (dk_book ex_desk) = (Inr ex_marked, bk)"
    using ex_read_run by (metis ex_desk_env_def desk_env.select_convs(4,5,7) prod.collapse)
  have quote: "quote_asset_of (de_settings ex_desk_env) ex_buy = ''USDT''" by code_simp
  have stage: "in_stage ex_buy \<noteq> CANARY" by (simp add: ex_buy_def ex_intent_def)
  have controls: "governor_controls False governor_new = ex_controls"
    by (simp add: governor_controls_def governor_new_def ex_controls_def)
  show ?thesis
    using d permit breach none read stage controls quote
    by (simp add: assess_proposal_def op_bind_def on_surface_def on_book_def governor_ready_def ex_desk_def surface_new_def
        accepts_new_risk_def proposal_canary_def assess_ready_def assess_def engine_of_def ex_desk_env_def ex_gathered_def Let_def)
qed

theorem trades_stay_within_limits_witness: "cleared ex_env 1 ex_buy ex_permit ex_oms"
proof -
  obtain d s1 where a: "assess_proposal ex_desk_env ex_faults ex_faults ex_gathered ex_buy ex_desk = (Inr d, s1)"
    "rd_approved d" "rd_permit d = Some ex_permit" using ex_assess_buy by blast
  obtain r1 s2 where x: "surface_execute ex_desk_env ex_faults ex_faults (Unavailable '''') 1 ex_buy ex_permit s1 = (r1, s2)" by fastforce
  obtain r s' where t: "trade ex_desk_env ex_chain ex_gathered (Unavailable '''') 1 ex_buy ex_desk = (r, s')" by fastforce
  have "s' = s2" using t a x by (cases r1) (auto simp: trade_def ex_chain_def op_bind_def)
  moreover have paper: "\<not> ap_executor_mode (de_settings ex_desk_env)" "in_venue ex_buy = V_BINANCE_SPOT" "de_paper_execution ex_desk_env"
    by (simp_all add: ex_desk_env_def ex_settings_def ex_buy_def ex_intent_def)
  moreover have "dk_oms s1 = ex_oms" using assess_proposal_oms[OF a(1)] by (simp add: ex_desk_def)
  ultimately have "om_venue (dk_oms s') = 1"
    using execute_oms[OF x paper] ex_submit_buy by (simp add: ex_desk_env_def)
  then have touched: "om_venue (dk_oms s') \<noteq> om_venue (dk_oms ex_desk)" by (simp add: ex_desk_def ex_oms_def)
  have engine: "se_engine (de_surface ex_desk_env) = engine_of (\<lambda>_ _. (0, 0)) [(''BINANCE_SPOT:BTCUSDT'', ex_instrument)]
      (\<lambda>_ _. Inr ex_permit) default_policy" by (simp add: ex_desk_env_def)
  from trades_stay_within_limits[OF engine paper(1) t touched] show ?thesis by (auto simp: ex_desk_env_def ex_desk_def)
qed

theorem divergence_stops_venue_witness:
  "\<exists>s1. surface_reconcile ex_desk_env ex_faults ex_faults (Unavailable '''') V_BINANCE_SPOT ex_desk = (Inr (Answer False), s1)
     \<and> dk_oms (snd (trade ex_desk_env ex_chain ex_gathered (Unavailable '''') 1 ex_buy s1)) = dk_oms s1"
proof -
  have diverged: "reconcile_balances (memory_balances ex_ledger) [] [] \<noteq> []" by code_simp
  have "\<exists>s. halt_venue (de_surface ex_desk_env) ex_faults ex_faults ''BINANCE_SPOT'' (surface_new False []) = (Inr (), s)"
    by (simp add: halt_venue_def op_bind_def governor_ready_def surface_new_def on_governor_def trigger_kill_def target_def
        persist_controls_def ex_desk_env_def ex_surface_env_def Let_def)
  then obtain s1 where rec: "surface_reconcile ex_desk_env ex_faults ex_faults (Unavailable '''') V_BINANCE_SPOT ex_desk = (Inr (Answer False), s1)"
    using diverged
    by (auto simp: surface_reconcile_def op_bind_def on_surface_def ex_desk_env_def ex_settings_def ex_desk_def ex_oms_def ex_env_def ex_adapter_def)
  have engine: "se_engine (de_surface ex_desk_env) = engine_of (\<lambda>_ _. (0, 0)) [(''BINANCE_SPOT:BTCUSDT'', ex_instrument)]
      (\<lambda>_ _. Inr ex_permit) default_policy" and kill: "se_automatic_kill (de_surface ex_desk_env)"
    by (simp_all add: ex_desk_env_def ex_surface_env_def)
  have venue: "in_venue ex_buy = V_BINANCE_SPOT" by (simp add: ex_buy_def ex_intent_def)
  obtain r s3 where t: "trade ex_desk_env ex_chain ex_gathered (Unavailable '''') 1 ex_buy s1 = (r, s3)" by fastforce
  from divergence_stops_venue[OF engine kill rec rtranclp.rtrancl_refl venue t] show ?thesis using rec t by auto
qed

section \<open>Lockdowns and unreadable accounts\<close>

text \<open>
  An account that cannot be read or marked is shown at its last start of day, so its daily loss reads
  as none: a lockdown latched for the daily loss is released on it although the loss is not known to
  have gone. The documentation says a lockdown cannot be released while its breach still holds.
\<close>

lemma unreadable_account_releases_lockdown:
  assumes "0 < start"
  shows "release_all [outage_account reference (Some (day, start, start))] g = (Inr (), g\<lparr>gv_lockdown := None\<rparr>)"
proof -
  have "evaluate_breach (outage_account reference (Some (day, start, start))) = None"
    using assms by (simp add: evaluate_breach_def account_breach_def outage_account_def loss_fraction_def dsub_def
        MAX_DAILY_LOSS_def MAX_DRAWDOWN_def Let_def)
  then show ?thesis by (simp add: release_lockdown_def)
qed

text \<open>The accounts a release looks at: the quote currencies of the paper venue, so never the USD account
  that is traded when Alpaca routing is on.\<close>

definition QUOTE_ASSETS :: "string list" where
  "QUOTE_ASSETS = sort (remdups (map (ti_quote_asset \<circ> snd) (filter (\<lambda>(k, v). ti_venue v = V_BINANCE_SPOT) PAPER_INSTRUMENTS)))"

lemma released_without_usd:
  "''USD'' \<notin> set QUOTE_ASSETS \<and> venue_for_quote \<lparr>ap_executor_mode = True, ap_xp_enabled = False, ap_alpaca_enabled = True,
     ap_more_pairs = False\<rparr> ''USD'' = V_ALPACA_US"
  by code_simp

end
