(* ===== verification/Fusion.thy ===== *)
theory Fusion
  imports Risk_Engine Json Catalog
begin

text \<open>
  The decision pipeline of the agents: signals are fused into a direction and a score and sized into a
  candidate intent (\<^verbatim>\<open>services/agents/fusion.py\<close>), a reviewer may shrink or stop it
  (\<^verbatim>\<open>services/agents/review.py\<close>), and the pipeline (\<^verbatim>\<open>services/agents/pipeline.py\<close>) composes the two.

  Scores are doubles. What the code uses of double arithmetic is an argument: the nearest double of an exact
  result, the sum of a list and the decimal that \<^verbatim>\<open>str\<close> prints. Quantities and prices are decimals. The
  sizing texts that go along with a candidate for the record are left out, and so is the content of the prompt.
\<close>

section \<open>Doubles\<close>

record float_ops =
  fl :: "rat \<Rightarrow> rat"
  fl_sum :: "rat list \<Rightarrow> rat"
  fl_repr :: "rat \<Rightarrow> rat"

text \<open>Rounding is monotone and keeps what it printed; the printed decimal is monotone and exact on 0 and 1.\<close>

definition float_laws :: "float_ops \<Rightarrow> bool" where
  "float_laws fo \<longleftrightarrow> (\<forall>x y. x \<le> y \<longrightarrow> fl fo x \<le> fl fo y) \<and> (\<forall>x y. x \<le> y \<longrightarrow> fl_repr fo x \<le> fl_repr fo y)
     \<and> (\<forall>x. fl fo (fl_repr fo (fl fo x)) = fl fo x) \<and> fl_repr fo 0 = 0 \<and> fl_repr fo 1 = 1"

definition exact_floats :: float_ops where
  "exact_floats = \<lparr>fl = (\<lambda>x. x), fl_sum = sum_list, fl_repr = (\<lambda>x. x)\<rparr>"

lemma exact_floats_laws: "float_laws exact_floats"
  by (simp add: float_laws_def exact_floats_def)

section \<open>Fusion\<close>

definition DEFAULT_SOURCE_WEIGHTS :: "(signal_source, rat) dict" where
  "DEFAULT_SOURCE_WEIGHTS = [(TRADINGVIEW, 1), (PROTO_STRATEGY, 1), (PROTO_AGENT, 1 / 2)]"

record fusion_policy =
  fp_window :: timedelta
  fp_min_score :: rat
  fp_exit_min_score :: rat
  fp_min_signals :: int
  fp_conflict_strength :: rat
  fp_source_weights :: "(signal_source, rat) dict"

definition fusion_policy_new :: "fusion_policy \<Rightarrow> fusion_policy res" where
  "fusion_policy_new p =
     (if \<not> (0 < fp_min_score p \<and> fp_min_score p \<le> 1) \<or> fp_min_signals p < 1
      then Inl (ValueError ''min_score must be in (0, 1] and min_signals >= 1'')
      else if \<not> (0 < fp_exit_min_score p \<and> fp_exit_min_score p \<le> fp_min_score p)
      then Inl (ValueError ''exit_min_score must be in (0, min_score]'')
      else if fp_window p \<le> 0 then Inl (ValueError ''window must be positive'')
      else Inr p)"

definition DEFAULT_FUSION_POLICY :: fusion_policy where
  "DEFAULT_FUSION_POLICY = \<lparr>fp_window = minutes 5, fp_min_score = 6 / 10, fp_exit_min_score = 2 / 10, fp_min_signals = 1,
     fp_conflict_strength = 5 / 10, fp_source_weights = DEFAULT_SOURCE_WEIGHTS\<rparr>"

record fusion_decision =
  fd_instrument_id :: string
  fd_direction :: signal_direction
  fd_score :: rat
  fd_signal_ids :: "string list"
  fd_reason :: string

fun direction_sign :: "signal_direction \<Rightarrow> rat" where
  "direction_sign LONG = 1"
| "direction_sign SHORT = - 1"
| "direction_sign FLAT = 0"

text \<open>The latest live signal of each source and strategy.\<close>

definition in_window :: "fusion_policy \<Rightarrow> string \<Rightarrow> instant \<Rightarrow> signal \<Rightarrow> bool" where
  "in_window policy instrument_id now s \<longleftrightarrow> sg_instrument_id s = instrument_id
     \<and> \<not> (now < sg_observed_at s \<or> sg_received_at s < now - fp_window policy)"

definition signal_key :: "signal \<Rightarrow> signal_source \<times> string" where
  "signal_key s = (sg_source s, sg_strategy_id s)"

definition keep_latest :: "fusion_policy \<Rightarrow> string \<Rightarrow> instant \<Rightarrow> (signal_source \<times> string, signal) dict \<Rightarrow> signal \<Rightarrow>
     (signal_source \<times> string, signal) dict" where
  "keep_latest policy instrument_id now latest s =
     (if \<not> in_window policy instrument_id now s then latest
      else (case dget latest (signal_key s) of
              None \<Rightarrow> dset (signal_key s) s latest
            | Some current \<Rightarrow> if sg_observed_at current < sg_observed_at s then dset (signal_key s) s latest else latest))"

definition latest_signals :: "fusion_policy \<Rightarrow> string \<Rightarrow> instant \<Rightarrow> signal list \<Rightarrow> (signal_source \<times> string, signal) dict" where
  "latest_signals policy instrument_id now signals = foldl (keep_latest policy instrument_id now) [] signals"

definition source_weight :: "fusion_policy \<Rightarrow> signal \<Rightarrow> rat" where
  "source_weight policy s = dget_or (fp_source_weights policy) (sg_source s) 0"

definition live_signals :: "fusion_policy \<Rightarrow> string \<Rightarrow> instant \<Rightarrow> signal list \<Rightarrow> signal list" where
  "live_signals policy instrument_id now signals =
     filter (\<lambda>s. 0 < source_weight policy s) (dvalues (latest_signals policy instrument_id now signals))"

definition strong :: "fusion_policy \<Rightarrow> signal_direction \<Rightarrow> signal list \<Rightarrow> bool" where
  "strong policy d live = list_ex (\<lambda>s. sg_direction s = d \<and> fp_conflict_strength policy \<le> sg_strength s) live"

definition vote_score :: "float_ops \<Rightarrow> fusion_policy \<Rightarrow> signal list \<Rightarrow> rat res" where
  "vote_score fo policy live =
     (let total_weight = fl_sum fo (map (source_weight policy) live);
          votes = fl_sum fo (map (\<lambda>s. fl fo (fl fo (direction_sign (sg_direction s) * sg_strength s) * source_weight policy s)) live)
      in if total_weight = 0 then Inl DivisionByZero else Inr (fl fo (votes / total_weight)))"

definition fuse :: "float_ops \<Rightarrow> fusion_policy \<Rightarrow> string \<Rightarrow> instant \<Rightarrow> signal list \<Rightarrow> fusion_decision res" where
  "fuse fo policy instrument_id now signals =
     (let live = live_signals policy instrument_id now signals;
          ids = sort (map sg_signal_id live);
          decide = (\<lambda>d score reason. \<lparr>fd_instrument_id = instrument_id, fd_direction = d, fd_score = score,
                     fd_signal_ids = ids, fd_reason = reason\<rparr>)
      in if int (length live) < fp_min_signals policy then Inr (decide FLAT 0 ''not enough signals'')
         else if strong policy LONG live \<and> strong policy SHORT live then Inr (decide FLAT 0 ''conflicting signals'')
         else res_bind (vote_score fo policy live) (\<lambda>score. Inr (
           if fp_min_score policy \<le> score then decide LONG score ''consensus long''
           else if score \<le> - fp_exit_min_score policy then decide SHORT score ''consensus short''
           else decide FLAT score ''below min_score'')))"

section \<open>Sizing\<close>

record sizing_policy =
  sz_stop_distance :: rat
  sz_max_quote_age :: timedelta
  sz_strategy_id :: string
  sz_model_version :: string

definition sizing_policy_new :: "sizing_policy \<Rightarrow> sizing_policy res" where
  "sizing_policy_new p = (if \<not> (0 < sz_stop_distance p \<and> sz_stop_distance p < 1)
     then Inl (ValueError ''stop_distance must be in (0, 1)'') else Inr p)"

definition DEFAULT_SIZING_POLICY :: sizing_policy where
  "DEFAULT_SIZING_POLICY = \<lparr>sz_stop_distance = 2 / 100, sz_max_quote_age = seconds 10,
     sz_strategy_id = ''hybrid-fusion-v1'', sz_model_version = ''fusion-v1''\<rparr>"

record candidate =
  cd_intent :: "trade_intent option"
  cd_abstain_reason :: "string option"

definition abstain :: "string \<Rightarrow> candidate" where
  "abstain reason = \<lparr>cd_intent = None, cd_abstain_reason = Some reason\<rparr>"

definition floor_to_lot :: "rat \<Rightarrow> tradable_instrument \<Rightarrow> rat res" where
  "floor_to_lot quantity i = res_bind (ddiv quantity (ti_lot_size i)) (\<lambda>lots. Inr (dmul (of_int (dtrunc lots)) (ti_lot_size i)))"

text \<open>\<^verbatim>\<open>(price / tick).to_integral_value(rounding) * tick\<close>, the rounding being a function to the integers.\<close>

definition to_tick :: "(rat \<Rightarrow> int) \<Rightarrow> rat \<Rightarrow> tradable_instrument \<Rightarrow> rat res" where
  "to_tick rounding price i = res_bind (ddiv price (ti_tick_size i)) (\<lambda>ticks. Inr (dmul (of_int (rounding ticks)) (ti_tick_size i)))"

definition quote_problem :: "quote option \<Rightarrow> instant \<Rightarrow> sizing_policy \<Rightarrow> string option" where
  "quote_problem quote now policy =
     (case quote of
        None \<Rightarrow> Some ''no market data''
      | Some q \<Rightarrow>
          if sz_max_quote_age policy < now - qt_observed_at q then Some ''stale market data''
          else if \<not> (0 < qt_bid q \<and> qt_bid q < qt_ask q) then Some ''crossed or invalid quote''
          else None)"

datatype sized = Abstain string | Size rat

definition size_buy :: "sizing_policy \<Rightarrow> tradable_instrument \<Rightarrow> rat \<Rightarrow> rat \<Rightarrow> rat \<Rightarrow> rat \<Rightarrow> sized res" where
  "size_buy policy i price conviction equity position_quantity =
     res_bind (to_tick ceiling price i) (\<lambda>priced.
     let sizing_equity = conservative_equity equity REFERENCE_CAPITAL;
         held = max position_quantity 0;
         risk_budget = dmul (dmul sizing_equity MAX_RISK_PER_POSITION) conviction;
         risk_unit = dmul priced (sz_stop_distance policy)
     in res_bind (ddiv risk_budget risk_unit) (\<lambda>risk_quantity.
        res_bind (ddiv (dmul sizing_equity MAX_RISK_PER_POSITION) risk_unit) (\<lambda>full_quantity.
        let position_room = dsub full_quantity held;
            headroom = dsub (dmul sizing_equity MAX_GROSS_LEVERAGE) (dmul held price)
        in if headroom \<le> 0 then Inr (Abstain ''gross leverage limit reached'')
           else if position_room \<le> 0 then Inr (Abstain ''risk per position limit reached'')
           else res_bind (ddiv headroom price) (\<lambda>leverage_quantity.
                res_bind (floor_to_lot (min (min risk_quantity position_room) leverage_quantity) i) (\<lambda>q. Inr (Size q))))))"

definition size_sell :: "tradable_instrument \<Rightarrow> rat \<Rightarrow> sized res" where
  "size_sell i position_quantity =
     (if position_quantity \<le> 0 then Inr (Abstain ''spot venue cannot open a short'')
      else res_bind (floor_to_lot position_quantity i) (\<lambda>q. Inr (Size q)))"

definition spot_intent :: "sizing_policy \<Rightarrow> release_stage \<Rightarrow> string \<Rightarrow> instant \<Rightarrow> string list \<Rightarrow> tradable_instrument \<Rightarrow> side \<Rightarrow> rat \<Rightarrow> rat \<Rightarrow>
     trade_intent" where
  "spot_intent policy stage uuid now signal_ids i sd quantity limit_price =
     \<lparr>in_intent_id = uuid, in_instrument_id = ti_instrument_id i, in_venue = ti_venue i, in_side = sd, in_quantity = quantity,
      in_order_type = LIMIT, in_limit_price = Some limit_price, in_time_in_force = IOC, in_reduce_only = (sd = SELL),
      in_strategy_id = sz_strategy_id policy, in_model_version = sz_model_version policy, in_signal_ids = signal_ids,
      in_stage = stage, in_created_at = now\<rparr>"

text \<open>The end of \<^verbatim>\<open>build_candidate\<close>: the limit price on the grid, the venue's own rules and the intent.\<close>

definition price_candidate ::
    "sizing_policy \<Rightarrow> release_stage \<Rightarrow> string \<Rightarrow> instant \<Rightarrow> string list \<Rightarrow> tradable_instrument \<Rightarrow> side \<Rightarrow> rat \<Rightarrow> rat \<Rightarrow> candidate res" where
  "price_candidate policy stage uuid now signal_ids i sd price quantity =
     res_bind (to_tick (if sd = BUY then ceiling else floor) price i) (\<lambda>limit_price.
     res_bind (order_violation i quantity limit_price) (\<lambda>violation.
       case violation of
         Some v \<Rightarrow> Inr (abstain v)
       | None \<Rightarrow> res_bind (trade_intent_new (spot_intent policy stage uuid now signal_ids i sd quantity limit_price))
                   (\<lambda>intent. Inr \<lparr>cd_intent = Some intent, cd_abstain_reason = None\<rparr>)))"

definition build_candidate ::
    "float_ops \<Rightarrow> sizing_policy \<Rightarrow> release_stage \<Rightarrow> string \<Rightarrow> fusion_decision \<Rightarrow> tradable_instrument \<Rightarrow> quote option \<Rightarrow> rat \<Rightarrow> rat \<Rightarrow>
     instant \<Rightarrow> candidate res" where
  "build_candidate fo policy stage uuid decision i quote equity position_quantity now =
     (if fd_direction decision = FLAT then Inr (abstain (fd_reason decision))
      else (case (quote_problem quote now policy, quote) of
              (Some problem, _) \<Rightarrow> Inr (abstain problem)
            | (None, None) \<Rightarrow> Inl AssertionError
            | (None, Some q) \<Rightarrow>
                let conviction = fl_repr fo (min \<bar>fd_score decision\<bar> 1);
                    sd = (if fd_direction decision = SHORT then SELL else BUY);
                    price = (if sd = SELL then qt_bid q else qt_ask q)
                in res_bind (if sd = SELL then size_sell i position_quantity
                             else size_buy policy i price conviction equity position_quantity) (\<lambda>size.
                   case size of
                     Abstain reason \<Rightarrow> Inr (abstain reason)
                   | Size quantity \<Rightarrow> price_candidate policy stage uuid now (fd_signal_ids decision) i sd price quantity)))"

definition MAX_EXIT_SLIPPAGE_BPS :: rat where "MAX_EXIT_SLIPPAGE_BPS = 40"

definition build_exit ::
    "sizing_policy \<Rightarrow> release_stage \<Rightarrow> string \<Rightarrow> tradable_instrument \<Rightarrow> quote option \<Rightarrow> rat \<Rightarrow> rat \<Rightarrow> instant \<Rightarrow> string list \<Rightarrow> rat \<Rightarrow>
     candidate res" where
  "build_exit policy stage uuid i quote quantity position_quantity now signal_ids slippage_bps =
     (if \<not> (0 \<le> slippage_bps \<and> slippage_bps \<le> MAX_EXIT_SLIPPAGE_BPS) then Inl (ValueError ''slippage_bps must be in [0, 40]'')
      else let requested = max quantity 0; held = max position_quantity 0
      in if requested = 0 then Inr (abstain ''nothing to close'')
         else if held = 0 then Inr (abstain ''no position to close'')
         else (case (quote_problem quote now policy, quote) of
                 (Some problem, _) \<Rightarrow> Inr (abstain problem)
               | (None, None) \<Rightarrow> Inl AssertionError
               | (None, Some q) \<Rightarrow>
                   res_bind (floor_to_lot (min requested held) i) (\<lambda>exit_quantity.
                   res_bind (ddiv slippage_bps 10000) (\<lambda>slip.
                   res_bind (to_tick floor (dmul (qt_bid q) (dsub 1 slip)) i) (\<lambda>limit_price.
                   res_bind (order_violation i exit_quantity limit_price) (\<lambda>violation.
                     if exit_quantity \<le> 0 \<or> violation \<noteq> None
                     then Inr (abstain (case violation of Some v \<Rightarrow> v | None \<Rightarrow> ''below one lot''))
                     else res_bind (trade_intent_new (spot_intent policy stage uuid now signal_ids i SELL exit_quantity limit_price))
                            (\<lambda>intent. Inr \<lparr>cd_intent = Some intent, cd_abstain_reason = None\<rparr>)))))))"

section \<open>Review\<close>

datatype verdict = APPROVE | REDUCE | DEFER | VETO

definition verdict_of :: "json \<Rightarrow> verdict option" where
  "verdict_of j = (case j of JStr s \<Rightarrow> map_of [(''APPROVE'', APPROVE), (''REDUCE'', REDUCE), (''DEFER'', DEFER), (''VETO'', VETO)] s
     | _ \<Rightarrow> None)"

record agent_review =
  rw_verdict :: verdict
  rw_size_factor :: rat
  rw_rationale :: string
  rw_reviewer :: string
  rw_model :: "string option"

definition validate_factor :: "agent_review \<Rightarrow> agent_review res" where
  "validate_factor r =
     (if rw_verdict r = APPROVE \<and> rw_size_factor r \<noteq> 1 then Inl (ValueError ''APPROVE keeps the full size (size_factor 1)'')
      else if rw_verdict r = REDUCE \<and> \<not> (0 < rw_size_factor r \<and> rw_size_factor r < 1)
      then Inl (ValueError ''REDUCE needs 0 < size_factor < 1'')
      else if rw_verdict r \<in> {DEFER, VETO} \<and> rw_size_factor r \<noteq> 0
      then Inl (ValueError ''DEFER and VETO trade nothing (size_factor 0)'')
      else Inr r)"

definition agent_review_new :: "agent_review \<Rightarrow> agent_review res" where
  "agent_review_new r =
     (if \<not> (0 \<le> rw_size_factor r \<and> rw_size_factor r \<le> 1 \<and> len_in 1 2000 (rw_rationale r) \<and> len_in 1 80 (rw_reviewer r)
            \<and> (case rw_model r of None \<Rightarrow> True | Some m \<Rightarrow> length m \<le> 80))
      then Inl field_error else validate_factor r)"

definition defer_review :: "string \<Rightarrow> string option \<Rightarrow> string \<Rightarrow> agent_review res" where
  "defer_review reviewer model reason =
     agent_review_new \<lparr>rw_verdict = DEFER, rw_size_factor = 0, rw_rationale = reason, rw_reviewer = reviewer, rw_model = model\<rparr>"

definition apply_review :: "float_ops \<Rightarrow> trade_intent \<Rightarrow> agent_review \<Rightarrow> tradable_instrument \<Rightarrow> trade_intent option res" where
  "apply_review fo intent review i =
     (if rw_verdict review = APPROVE then Inr (Some intent)
      else if rw_verdict review \<noteq> REDUCE then Inr None
      else let factor = fl_repr fo (rw_size_factor review)
      in res_bind (ddiv (dmul (in_quantity intent) factor) (ti_lot_size i)) (\<lambda>lots.
         let quantity = dmul (of_int (dtrunc lots)) (ti_lot_size i)
         in case in_limit_price intent of
              None \<Rightarrow> Inr None
            | Some price \<Rightarrow>
                if quantity \<le> 0 then Inr None
                else res_bind (order_violation i quantity price) (\<lambda>violation.
                  if violation \<noteq> None then Inr None
                  else if in_quantity intent \<le> quantity then Inr None
                  else res_bind (trade_intent_new (intent\<lparr>in_quantity := quantity\<rparr>)) (\<lambda>shrunk. Inr (Some shrunk)))))"

definition deterministic_review :: "agent_review res" where
  "deterministic_review = agent_review_new \<lparr>rw_verdict = APPROVE, rw_size_factor = 1,
     rw_rationale = ''deterministic pipeline; no AI review configured'', rw_reviewer = ''deterministic'', rw_model = None\<rparr>"

text \<open>What the language model answers: nothing in time, an error, or a response with the reason it stopped, the
  first text block and the name of the model that wrote it.\<close>

datatype model_reply = Model_Timeout | Model_Error string | Model_Response "string option" "string option" "string option"

record reviewer_env =
  rv_fl :: "rat \<Rightarrow> rat"
  rv_loads :: "string \<Rightarrow> json option"
  rv_float :: "string \<Rightarrow> rat option"
  rv_str :: "json \<Rightarrow> string"
  rv_model_name :: string

text \<open>\<^verbatim>\<open>float(value)\<close> of a JSON value: \<open>None\<close> when it raises a TypeError or ValueError or is not finite; an
  integer beyond the range of doubles raises an OverflowError.\<close>

definition float_of_json :: "reviewer_env \<Rightarrow> json \<Rightarrow> rat option res" where
  "float_of_json env j =
     (case j of
        JInt n \<Rightarrow> if 2 ^ 1024 - 2 ^ 970 \<le> \<bar>n\<bar> then Inl OverflowError else Inr (Some (rv_fl env (of_int n)))
      | JFloat (Some t) \<Rightarrow> Inr (rv_float env t)
      | JBool b \<Rightarrow> Inr (Some (if b then 1 else 0))
      | JStr t \<Rightarrow> Inr (rv_float env t)
      | _ \<Rightarrow> Inr None)"

text \<open>The review the text of the model states, \<open>None\<close> when it violates the contract.\<close>

definition validated :: "agent_review \<Rightarrow> agent_review option" where
  "validated r = (case agent_review_new r of Inr r' \<Rightarrow> Some r' | Inl _ \<Rightarrow> None)"

definition review_of_fields :: "reviewer_env \<Rightarrow> string \<Rightarrow> (string, json) dict \<Rightarrow> json \<Rightarrow> rat option \<Rightarrow> agent_review option" where
  "review_of_fields env model d v factor =
     (case (verdict_of v, factor, dget d ''rationale'') of
        (Some verdict, Some x, Some j) \<Rightarrow>
          let rationale = take 2000 (rv_str env j)
          in validated \<lparr>rw_verdict = verdict, rw_size_factor = x,
               rw_rationale = (if rationale = [] then ''no rationale'' else rationale),
               rw_reviewer = ''claude'', rw_model = Some model\<rparr>
      | _ \<Rightarrow> None)"

definition stated_review :: "reviewer_env \<Rightarrow> string \<Rightarrow> string \<Rightarrow> agent_review option res" where
  "stated_review env model text =
     (case rv_loads env text of
        Some (JObj d) \<Rightarrow>
          (case (dget d ''verdict'', dget d ''size_factor'') of
             (Some v, Some f) \<Rightarrow> res_bind (float_of_json env f) (\<lambda>factor. Inr (review_of_fields env model d v factor))
           | _ \<Rightarrow> Inr None)
      | _ \<Rightarrow> Inr None)"

definition claude_review :: "reviewer_env \<Rightarrow> model_reply \<Rightarrow> agent_review res" where
  "claude_review env reply =
     (case reply of
        Model_Timeout \<Rightarrow> defer_review ''claude'' (Some (rv_model_name env)) ''reviewer timed out''
      | Model_Error name \<Rightarrow> defer_review ''claude'' (Some (rv_model_name env)) (''reviewer unavailable: '' @ name)
      | Model_Response stop_reason text model \<Rightarrow>
          if stop_reason \<noteq> Some ''end_turn''
          then defer_review ''claude'' (Some (rv_model_name env))
                 (''reviewer stopped: '' @ (case stop_reason of None \<Rightarrow> ''None'' | Some s \<Rightarrow> s))
          else (case text of
                  None \<Rightarrow> defer_review ''claude'' (Some (rv_model_name env)) ''reviewer returned no text''
                | Some t \<Rightarrow>
                    let name = (case model of None \<Rightarrow> rv_model_name env | Some m \<Rightarrow> if m = [] then rv_model_name env else m)
                    in res_bind (stated_review env name t) (\<lambda>stated.
                       case stated of
                         Some r \<Rightarrow> Inr r
                       | None \<Rightarrow> defer_review ''claude'' (Some name) ''reviewer output violated the review contract'')))"

section \<open>The pipeline\<close>

datatype decision_outcome = NO_TRADE | ABSTAINED | APPROVED | REDUCED | DEFERRED | VETOED

record portfolio_view =
  pv_equity :: rat
  pv_position_quantity :: rat

record agent_decision =
  dn_instrument_id :: string
  dn_decided_at :: instant
  dn_outcome :: decision_outcome
  dn_fusion :: fusion_decision
  dn_candidate :: "trade_intent option"
  dn_abstain_reason :: "string option"
  dn_review :: "agent_review option"
  dn_proposal :: "trade_intent option"

fun outcome_by_verdict :: "verdict \<Rightarrow> decision_outcome" where
  "outcome_by_verdict APPROVE = APPROVED"
| "outcome_by_verdict REDUCE = REDUCED"
| "outcome_by_verdict DEFER = DEFERRED"
| "outcome_by_verdict VETO = VETOED"

text \<open>The reviewer answers for a candidate; quotes and portfolio are looked up by instrument.\<close>

record pipeline =
  pl_instruments :: "(string, tradable_instrument) dict"
  pl_reviewer :: "trade_intent \<Rightarrow> agent_review res"
  pl_quotes :: "string \<Rightarrow> quote option"
  pl_portfolio :: "string \<Rightarrow> portfolio_view"
  pl_fusion_policy :: fusion_policy
  pl_sizing_policy :: sizing_policy
  pl_stage :: release_stage

definition pipeline_new :: "pipeline \<Rightarrow> pipeline res" where
  "pipeline_new p = (if pl_stage p \<in> {CANARY, LIVE}
     then Inl (ValueError ''the decision pipeline is not certified for real-money stages'') else Inr p)"

definition derive :: "fusion_policy option \<Rightarrow> pipeline \<Rightarrow> pipeline res" where
  "derive policy p = pipeline_new (case policy of None \<Rightarrow> p | Some f \<Rightarrow> p\<lparr>pl_fusion_policy := f\<rparr>)"

definition decided :: "string \<Rightarrow> instant \<Rightarrow> fusion_decision \<Rightarrow> decision_outcome \<Rightarrow> string option \<Rightarrow> agent_decision" where
  "decided instrument_id now fusion outcome reason =
     \<lparr>dn_instrument_id = instrument_id, dn_decided_at = now, dn_outcome = outcome, dn_fusion = fusion, dn_candidate = None,
      dn_abstain_reason = reason, dn_review = None, dn_proposal = None\<rparr>"

definition reviewed :: "float_ops \<Rightarrow> pipeline \<Rightarrow> string \<Rightarrow> instant \<Rightarrow> fusion_decision \<Rightarrow> tradable_instrument \<Rightarrow> trade_intent \<Rightarrow> agent_decision res" where
  "reviewed fo p instrument_id now fusion i intent =
     res_bind (pl_reviewer p intent) (\<lambda>review.
     res_bind (apply_review fo intent review i) (\<lambda>proposal.
     let outcome = (if outcome_by_verdict (rw_verdict review) = REDUCED \<and> proposal = None then ABSTAINED
                    else outcome_by_verdict (rw_verdict review))
     in Inr ((decided instrument_id now fusion outcome
                (if outcome = ABSTAINED then Some ''reduced below venue minimum'' else None))
              \<lparr>dn_candidate := Some intent, dn_review := Some review, dn_proposal := proposal\<rparr>)))"

definition pipeline_evaluate :: "float_ops \<Rightarrow> pipeline \<Rightarrow> string \<Rightarrow> string \<Rightarrow> instant \<Rightarrow> signal list \<Rightarrow> agent_decision res" where
  "pipeline_evaluate fo p uuid instrument_id now signals =
     res_bind (fuse fo (pl_fusion_policy p) instrument_id now signals) (\<lambda>fusion.
       case dget (pl_instruments p) instrument_id of
         None \<Rightarrow> Inr (decided instrument_id now fusion ABSTAINED (Some ''unknown instrument''))
       | Some i \<Rightarrow>
           if fd_direction fusion = FLAT then Inr (decided instrument_id now fusion NO_TRADE (Some (fd_reason fusion)))
           else let view = pl_portfolio p instrument_id
           in res_bind (build_candidate fo (pl_sizing_policy p) (pl_stage p) uuid fusion i (pl_quotes p instrument_id)
                          (pv_equity view) (pv_position_quantity view) now) (\<lambda>c.
              case cd_intent c of
                None \<Rightarrow> Inr (decided instrument_id now fusion ABSTAINED (cd_abstain_reason c))
              | Some intent \<Rightarrow> reviewed fo p instrument_id now fusion i intent))"

section \<open>Grids\<close>

text \<open>Lots and ticks are powers of ten, as in every instrument of the catalog; then dividing by them is exact.\<close>

definition decimal_grid :: "tradable_instrument \<Rightarrow> bool" where
  "decimal_grid i \<longleftrightarrow> (\<exists>k. ti_lot_size i = 1 / 10 ^ k) \<and> (\<exists>k. ti_tick_size i = 1 / 10 ^ k)"

lemma catalog_decimal_grid:
  "i \<in> set (dvalues (PAPER_INSTRUMENTS @ BINANCE_MORE_INSTRUMENTS @ B3_INSTRUMENTS @ US_INSTRUMENTS)) \<Longrightarrow> decimal_grid i"
proof -
  have "list_all (\<lambda>i. ti_lot_size i \<in> set (map (\<lambda>k. 1 / 10 ^ k) [0..<6]) \<and> ti_tick_size i \<in> set (map (\<lambda>k. 1 / 10 ^ k) [0..<6]))
    (dvalues (PAPER_INSTRUMENTS @ BINANCE_MORE_INSTRUMENTS @ B3_INSTRUMENTS @ US_INSTRUMENTS))" by code_simp
  then show "i \<in> set (dvalues (PAPER_INSTRUMENTS @ BINANCE_MORE_INSTRUMENTS @ B3_INSTRUMENTS @ US_INSTRUMENTS)) \<Longrightarrow> decimal_grid i"
    unfolding list_all_iff decimal_grid_def set_map by blast
qed

lemma dec_fix_scale:
  assumes "dec_fix x = x"
  shows "dec_fix (x * 10 ^ k) = x * 10 ^ k"
proof -
  have "representable x" using representable_dec_fix[of x] assms by simp
  then obtain m e where x: "x = of_int m * 10 powi e" and m: "\<bar>m\<bar> \<le> 10 ^ 28" by (auto simp: representable_def)
  have "x * 10 ^ k = of_int m * 10 powi (e + int k)" by (simp add: x power_int_add)
  then show ?thesis using m by (intro dec_fix_representable) (auto simp: representable_def)
qed

lemma dec_fix_min: "dec_fix x = x \<Longrightarrow> dec_fix y = y \<Longrightarrow> dec_fix (min x y) = min x y"
  "dec_fix x = x \<Longrightarrow> dec_fix y = y \<Longrightarrow> dec_fix (max x y) = max x y"
  by (auto simp: min_def max_def)

lemma ddiv_representable: "ddiv x y = Inr z \<Longrightarrow> dec_fix z = z"
  by (auto simp: ddiv_def dec.rnd_idem split: if_splits)

lemma grid_down:
  assumes "grid = 1 / 10 ^ k" "dec_fix x = x" "of_int n \<le> x * 10 ^ k"
  shows "dmul (of_int n) grid \<le> x"
proof -
  have "of_int n * grid \<le> x" using assms(3) by (simp add: assms(1) pos_divide_le_eq)
  then show ?thesis unfolding dmul_def by (rule dec.rnd_le_fixed[OF _ assms(2)])
qed

lemma grid_up:
  assumes "grid = 1 / 10 ^ k" "dec_fix x = x" "x * 10 ^ k \<le> of_int n"
  shows "x \<le> dmul (of_int n) grid"
proof -
  have "x \<le> of_int n * grid" using assms(3) by (simp add: assms(1) pos_le_divide_eq)
  then show ?thesis unfolding dmul_def using dec_fix_mono[of x] assms(2) by metis
qed

lemma grid_quotient: "grid = 1 / 10 ^ k \<Longrightarrow> dec_fix x = x \<Longrightarrow> ddiv x grid = Inr (x * 10 ^ k)"
  by (simp add: ddiv_def dec_fix_scale)

lemma dtrunc_le: "0 \<le> x \<Longrightarrow> of_int (dtrunc x) \<le> x" "0 \<le> x \<Longrightarrow> 0 \<le> dtrunc x"
  by (simp_all add: dtrunc_def)

lemma floor_to_lot_le:
  assumes "decimal_grid i" "dec_fix x = x" "0 \<le> x" "floor_to_lot x i = Inr q"
  shows "q \<le> x" "0 \<le> q"
proof -
  obtain k where k: "ti_lot_size i = 1 / 10 ^ k" using assms(1) by (auto simp: decimal_grid_def)
  have q: "q = dmul (of_int (dtrunc (x * 10 ^ k))) (ti_lot_size i)"
    using assms(4) by (simp add: floor_to_lot_def grid_quotient[OF k assms(2)])
  show "q \<le> x" unfolding q by (rule grid_down[OF k assms(2)]) (use assms(3) in \<open>simp add: dtrunc_le\<close>)
  show "0 \<le> q" unfolding q by (rule dmul_nonneg) (use assms(3) k dtrunc_le(2)[of "x * 10 ^ k"] in simp_all)
qed

lemma to_tick_bounds:
  assumes "decimal_grid i" "dec_fix x = x"
  shows "to_tick floor x i = Inr p \<Longrightarrow> p \<le> x" and "to_tick ceiling x i = Inr p \<Longrightarrow> x \<le> p"
proof -
  obtain k where k: "ti_tick_size i = 1 / 10 ^ k" using assms(1) by (auto simp: decimal_grid_def)
  show "p \<le> x" if "to_tick floor x i = Inr p"
    using that grid_down[OF k assms(2), of "\<lfloor>x * 10 ^ k\<rfloor>"] by (simp add: to_tick_def grid_quotient[OF k assms(2)])
  show "x \<le> p" if "to_tick ceiling x i = Inr p"
    using that grid_up[OF k assms(2), of "\<lceil>x * 10 ^ k\<rceil>"] by (simp add: to_tick_def grid_quotient[OF k assms(2)])
qed

section \<open>What is fused\<close>

text \<open>A signal is the newest of its source and strategy among those in the window.\<close>

definition newest :: "fusion_policy \<Rightarrow> string \<Rightarrow> instant \<Rightarrow> signal list \<Rightarrow> signal \<Rightarrow> bool" where
  "newest policy instrument_id now signals s \<longleftrightarrow> s \<in> set signals \<and> in_window policy instrument_id now s
     \<and> list_all (\<lambda>t. in_window policy instrument_id now t \<and> signal_key t = signal_key s \<longrightarrow> sg_observed_at t \<le> sg_observed_at s) signals"

lemma latest_signals_snoc:
  "latest_signals policy iid now (xs @ [s]) = keep_latest policy iid now (latest_signals policy iid now xs) s"
  by (simp add: latest_signals_def)

lemma latest_signals_ok: "dict_ok (latest_signals policy iid now signals)"
  by (induction signals rule: rev_induct)
    (simp_all add: latest_signals_snoc keep_latest_def latest_signals_def [of _ _ _ "[]"] split: option.split)

lemma newest_snoc:
  "newest policy iid now (xs @ [x]) s \<longleftrightarrow>
     (if s = x then in_window policy iid now x
         \<and> list_all (\<lambda>t. in_window policy iid now t \<and> signal_key t = signal_key x \<longrightarrow> sg_observed_at t \<le> sg_observed_at x) xs
      else newest policy iid now xs s
         \<and> (in_window policy iid now x \<and> signal_key x = signal_key s \<longrightarrow> sg_observed_at x \<le> sg_observed_at s))"
  by (auto simp: newest_def)

lemma latest_signals_get:
  "case dget (latest_signals policy iid now signals) k of
     Some s \<Rightarrow> newest policy iid now signals s \<and> signal_key s = k
   | None \<Rightarrow> list_all (\<lambda>s. in_window policy iid now s \<longrightarrow> signal_key s \<noteq> k) signals"
proof (induction signals rule: rev_induct)
  case Nil
  show ?case by (simp add: latest_signals_def)
next
  case (snoc x xs)
  let ?old = "dget (latest_signals policy iid now xs) k"
  show ?case
  proof (cases "in_window policy iid now x \<and> signal_key x = k")
    case False
    then have same: "dget (latest_signals policy iid now (xs @ [x])) k = ?old"
      by (auto simp: latest_signals_snoc keep_latest_def split: option.split)
    show ?thesis
    proof (cases ?old)
      case (Some s)
      then show ?thesis using snoc False same by (auto simp: newest_snoc list_all_iff newest_def)
    qed (use snoc False same in auto)
  next
    case True
    show ?thesis
    proof (cases ?old)
      case None
      then have "dget (latest_signals policy iid now (xs @ [x])) k = Some x"
        using True by (auto simp: latest_signals_snoc keep_latest_def)
      then show ?thesis using snoc None True by (auto simp: newest_snoc list_all_iff)
    next
      case (Some s)
      then have s: "newest policy iid now xs s" "signal_key s = k" using snoc by simp_all
      show ?thesis
      proof (cases "sg_observed_at s < sg_observed_at x")
        case older: True
        then have "dget (latest_signals policy iid now (xs @ [x])) k = Some x"
          using True Some by (auto simp: latest_signals_snoc keep_latest_def)
        then show ?thesis using s older True by (fastforce simp: newest_snoc list_all_iff newest_def)
      next
        case False
        then have "dget (latest_signals policy iid now (xs @ [x])) k = Some s"
          using True Some by (auto simp: latest_signals_snoc keep_latest_def)
        then show ?thesis using s False True by (auto simp: newest_snoc list_all_iff newest_def)
      qed
    qed
  qed
qed

lemma live_signals_newest:
  "s \<in> set (live_signals policy iid now signals) \<longleftrightarrow> 0 < source_weight policy s \<and> dget (latest_signals policy iid now signals) (signal_key s) = Some s"
proof -
  note ok = latest_signals_ok[of policy iid now signals]
  have "signal_key s = k" if "(k, s) \<in> set (latest_signals policy iid now signals)" for k
    using map_of_is_SomeI[OF ok that] latest_signals_get[of policy iid now k signals] by simp
  then show ?thesis using map_of_is_SomeI[OF ok] by (force simp: live_signals_def dest: map_of_SomeD)
qed

lemma live_newest: "s \<in> set (live_signals policy iid now signals) \<Longrightarrow> newest policy iid now signals s"
  using latest_signals_get[of policy iid now "signal_key s" signals] by (simp add: live_signals_newest)

text \<open>A direction has the score for it and counts newest signals only.\<close>

lemma fuse_direction:
  assumes "fuse fo policy iid now signals = Inr d" "fd_direction d \<noteq> FLAT"
  shows "fd_direction d = LONG \<Longrightarrow> fp_min_score policy \<le> fd_score d"
    and "fd_direction d = SHORT \<Longrightarrow> fd_score d \<le> - fp_exit_min_score policy"
    and "x \<in> set (fd_signal_ids d) \<Longrightarrow> \<exists>s. sg_signal_id s = x \<and> newest policy iid now signals s"
    and "fp_min_signals policy \<le> int (length (fd_signal_ids d))"
  using assms live_newest by (auto simp: fuse_def Let_def res_bind_Inr_conv split: if_splits) blast+

lemma floor_to_lot_pos:
  assumes "decimal_grid i" "dec_fix x = x" "floor_to_lot x i = Inr q" "0 < q"
  shows "q \<le> x"
proof -
  obtain k where k: "ti_lot_size i = 1 / 10 ^ k" using assms(1) by (auto simp: decimal_grid_def)
  have "q = dmul (of_int (dtrunc (x * 10 ^ k))) (1 / 10 ^ k)"
    using assms(3) by (simp add: floor_to_lot_def grid_quotient[OF refl assms(2)] k)
  then have "0 < of_int (dtrunc (x * 10 ^ k)) * (1 / 10 ^ k :: rat)" using assms(4) by (simp only: dmul_def dec_signs)
  then have "0 < dtrunc (x * 10 ^ k)" by (simp add: zero_less_divide_iff)
  moreover have "dtrunc (x * 10 ^ k) \<le> 0" if "x < 0"
    using that mult_neg_pos[of x "10 ^ k"] by (simp add: dtrunc_def ceiling_le_iff)
  ultimately have "0 \<le> x" by (meson not_le)
  then show ?thesis using floor_to_lot_le(1)[OF assms(1,2) _ assms(3)] by simp
qed

section \<open>What a candidate may be\<close>

lemma trade_intent_new_Inr: "trade_intent_new i = Inr j \<Longrightarrow> j = i \<and> 0 < in_quantity i"
  by (auto simp: contract_simps res_bind_Inr_conv split: if_splits)

text \<open>A buy within the risk budget at its conviction, the room of its position and the leverage.\<close>

definition buy_within :: "sizing_policy \<Rightarrow> rat \<Rightarrow> rat \<Rightarrow> rat \<Rightarrow> rat \<Rightarrow> rat \<Rightarrow> rat \<Rightarrow> bool" where
  "buy_within policy ask limit_price conviction equity position_quantity quantity \<longleftrightarrow>
     (let budget = dmul (conservative_equity equity REFERENCE_CAPITAL) MAX_RISK_PER_POSITION;
          risk_unit = dmul limit_price (sz_stop_distance policy); held = max position_quantity 0;
          headroom = dsub (dmul (conservative_equity equity REFERENCE_CAPITAL) MAX_GROSS_LEVERAGE) (dmul held ask)
      in (case (ddiv (dmul budget conviction) risk_unit, ddiv budget risk_unit, ddiv headroom ask) of
            (Inr risk_quantity, Inr full_quantity, Inr leverage_quantity) \<Rightarrow>
               quantity \<le> risk_quantity \<and> quantity \<le> dsub full_quantity held \<and> quantity \<le> leverage_quantity
          | _ \<Rightarrow> False))"

lemma size_buy_within:
  assumes "size_buy policy i ask conviction equity position = Inr (Size quantity)" "to_tick ceiling ask i = Inr limit_price"
    and "decimal_grid i" "0 < quantity"
  shows "buy_within policy ask limit_price conviction equity position quantity"
proof -
  let ?budget = "dmul (conservative_equity equity REFERENCE_CAPITAL) MAX_RISK_PER_POSITION"
  let ?unit = "dmul limit_price (sz_stop_distance policy)" and ?held = "max position 0"
  let ?headroom = "dsub (dmul (conservative_equity equity REFERENCE_CAPITAL) MAX_GROSS_LEVERAGE) (dmul ?held ask)"
  from assms(1,2) obtain rq fq lq where d: "ddiv (dmul ?budget conviction) ?unit = Inr rq" "ddiv ?budget ?unit = Inr fq"
      "ddiv ?headroom ask = Inr lq" and q: "floor_to_lot (min (min rq (dsub fq ?held)) lq) i = Inr quantity"
    by (auto simp: size_buy_def Let_def res_bind_Inr_conv split: if_splits)
  have "dec_fix (min (min rq (dsub fq ?held)) lq) = min (min rq (dsub fq ?held)) lq"
    using ddiv_representable[OF d(1)] ddiv_representable[OF d(3)] by (intro dec_fix_min) simp_all
  from floor_to_lot_pos[OF assms(3) this q assms(4)] show ?thesis by (simp add: buy_within_def Let_def d)
qed

lemma size_sell_within:
  assumes "size_sell i position = Inr (Size quantity)" "decimal_grid i" "dec_fix position = position" "0 < quantity"
  shows "quantity \<le> position"
  using assms floor_to_lot_pos[OF assms(2,3) _ assms(4)] by (auto simp: size_sell_def res_bind_Inr_conv split: if_splits)

text \<open>A candidate follows the direction of the fusion on a fresh quote, on the grid of its instrument.\<close>

lemma abstain_intent [simp]: "cd_intent (abstain reason) = None"
  by (simp add: abstain_def)

lemma price_candidate_Inr:
  assumes "price_candidate policy stage uuid now ids i sd price quantity = Inr c" "cd_intent c = Some intent"
  obtains limit_price where "to_tick (if sd = BUY then ceiling else floor) price i = Inr limit_price" "0 < quantity"
    "order_violation i quantity limit_price = Inr None" "intent = spot_intent policy stage uuid now ids i sd quantity limit_price"
proof -
  from assms obtain limit_price v where t: "to_tick (if sd = BUY then ceiling else floor) price i = Inr limit_price"
    and v: "order_violation i quantity limit_price = Inr v"
    and c: "(case v of Some v \<Rightarrow> Inr (abstain v)
       | None \<Rightarrow> res_bind (trade_intent_new (spot_intent policy stage uuid now ids i sd quantity limit_price))
                   (\<lambda>intent. Inr \<lparr>cd_intent = Some intent, cd_abstain_reason = None\<rparr>)) = Inr c"
    unfolding price_candidate_def res_bind_Inr_conv by blast
  have "v = None" using c assms(2) by (cases v) (auto simp: abstain_def)
  then obtain x where x: "trade_intent_new (spot_intent policy stage uuid now ids i sd quantity limit_price) = Inr x"
    "c = \<lparr>cd_intent = Some x, cd_abstain_reason = None\<rparr>" using c by (auto simp: res_bind_Inr_conv)
  show thesis
    using that[OF t _ v[unfolded \<open>v = None\<close>]] trade_intent_new_Inr[OF x(1)] x(2) assms(2) by (simp add: spot_intent_def)
qed

lemma build_candidate_cases:
  assumes "build_candidate fo policy stage uuid d i quote equity position now = Inr c" "cd_intent c = Some intent"
  obtains q quantity limit_price where "quote = Some q" "quote_problem quote now policy = None" "fd_direction d \<noteq> FLAT"
    "intent = spot_intent policy stage uuid now (fd_signal_ids d) i (if fd_direction d = SHORT then SELL else BUY) quantity limit_price"
    "0 < quantity" "order_violation i quantity limit_price = Inr None"
    "fd_direction d = SHORT \<Longrightarrow> size_sell i position = Inr (Size quantity) \<and> to_tick floor (qt_bid q) i = Inr limit_price"
    "fd_direction d = LONG \<Longrightarrow> to_tick ceiling (qt_ask q) i = Inr limit_price
      \<and> size_buy policy i (qt_ask q) (fl_repr fo (min \<bar>fd_score d\<bar> 1)) equity position = Inr (Size quantity)"
proof -
  let ?sd = "if fd_direction d = SHORT then SELL else BUY"
  from assms obtain q size where q: "quote = Some q" "quote_problem quote now policy = None" "fd_direction d \<noteq> FLAT"
    and size: "(if ?sd = SELL then size_sell i position
        else size_buy policy i (qt_ask q) (fl_repr fo (min \<bar>fd_score d\<bar> 1)) equity position) = Inr size"
    and rest: "(case size of Abstain reason \<Rightarrow> Inr (abstain reason)
      | Size quantity \<Rightarrow> price_candidate policy stage uuid now (fd_signal_ids d) i ?sd (if ?sd = SELL then qt_bid q else qt_ask q) quantity) = Inr c"
    by (auto simp: build_candidate_def Let_def res_bind_Inr_conv split: if_splits option.splits)
  then obtain quantity where s: "size = Size quantity" using assms(2) by (cases size) (auto simp: abstain_def)
  then have "price_candidate policy stage uuid now (fd_signal_ids d) i ?sd (if ?sd = SELL then qt_bid q else qt_ask q) quantity = Inr c"
    using rest by simp
  from this assms(2) show thesis
  proof (cases rule: price_candidate_Inr)
    case (1 limit_price)
    show thesis by (rule that[OF q 1(4,2,3)]) (use 1(1) size s q(3) in \<open>auto split: if_splits\<close>)
  qed
qed

lemma apply_review_shrinks:
  assumes "apply_review fo intent review i = Inr (Some p)"
  shows "p = intent\<lparr>in_quantity := in_quantity p\<rparr>" "in_quantity p \<le> in_quantity intent"
    and "rw_verdict review = APPROVE \<and> p = intent \<or> rw_verdict review = REDUCE \<and> in_quantity p < in_quantity intent"
  using assms
  by (auto simp: apply_review_def Let_def res_bind_Inr_conv split: if_splits option.splits dest!: trade_intent_new_Inr)

lemma outcome_not_abstained [simp]: "outcome_by_verdict v \<noteq> ABSTAINED"
  by (cases v) simp_all

lemma reviewed_proposal:
  assumes "reviewed fo p iid now fusion i intent = Inr d" "dn_proposal d = Some proposal"
  obtains review where "pl_reviewer p intent = Inr review" "apply_review fo intent review i = Inr (Some proposal)" "dn_fusion d = fusion" "dn_candidate d = Some intent"
    "dn_review d = Some review" "dn_outcome d = outcome_by_verdict (rw_verdict review)"
  using assms by (auto simp: reviewed_def decided_def Let_def res_bind_Inr_conv split: if_splits)

lemma pipeline_proposal_cases:
  assumes "pipeline_evaluate fo p uuid iid now signals = Inr d" "dn_proposal d = Some proposal"
  obtains i c intent review where "dget (pl_instruments p) iid = Some i"
    "fuse fo (pl_fusion_policy p) iid now signals = Inr (dn_fusion d)"
    "build_candidate fo (pl_sizing_policy p) (pl_stage p) uuid (dn_fusion d) i (pl_quotes p iid)
       (pv_equity (pl_portfolio p iid)) (pv_position_quantity (pl_portfolio p iid)) now = Inr c"
    "cd_intent c = Some intent" "dn_candidate d = Some intent" "apply_review fo intent review i = Inr (Some proposal)"
    "pl_reviewer p intent = Inr review" "dn_review d = Some review" "dn_outcome d = outcome_by_verdict (rw_verdict review)"
proof -
  from assms obtain fusion i c intent where "fuse fo (pl_fusion_policy p) iid now signals = Inr fusion" "dget (pl_instruments p) iid = Some i"
    "build_candidate fo (pl_sizing_policy p) (pl_stage p) uuid fusion i (pl_quotes p iid)
       (pv_equity (pl_portfolio p iid)) (pv_position_quantity (pl_portfolio p iid)) now = Inr c" "cd_intent c = Some intent"
    and r: "reviewed fo p iid now fusion i intent = Inr d"
    by (auto simp: pipeline_evaluate_def decided_def Let_def res_bind_Inr_conv split: option.splits if_splits)
  with reviewed_proposal[OF r assms(2)] show thesis by (metis that)
qed

section \<open>Properties\<close>

text \<open>
  C10: What the pipeline may propose. When an evaluation ends with a proposal, the fusion gave a direction with
  the score the policy asks for and counted only the newest signals of their source and strategy inside the
  window; the quote was there, fresh and not crossed; and the proposal is the candidate, unchanged on approval and
  otherwise strictly smaller, at a limit price on the grid of the instrument. A sale is reduce-only, of at most the position
  and not above the bid; a buy is not below the ask and within the risk budget, the room of the position and
  the leverage, whatever the reviewer answered. Prices and position are decimals and the grid is one of powers of ten.
\<close>

theorem proposals_only_shrink:
  assumes "pipeline_evaluate fo p uuid iid now signals = Inr d" "dn_proposal d = Some proposal"
    and "dget (pl_instruments p) iid = Some i" "decimal_grid i" "pl_portfolio p iid = view" "dec_fix (pv_position_quantity view) = pv_position_quantity view"
    and "case pl_quotes p iid of None \<Rightarrow> True | Some q \<Rightarrow> dec_fix (qt_bid q) = qt_bid q \<and> dec_fix (qt_ask q) = qt_ask q"
  shows "\<exists>candidate limit_price. pl_quotes p iid \<noteq> None \<and> quote_problem (pl_quotes p iid) now (pl_sizing_policy p) = None
    \<and> dn_candidate d = Some candidate \<and> proposal = candidate\<lparr>in_quantity := in_quantity proposal\<rparr>
    \<and> (dn_outcome d = APPROVED \<and> proposal = candidate \<or> dn_outcome d = REDUCED \<and> in_quantity proposal < in_quantity candidate)
    \<and> (\<forall>x. x \<in> set (in_signal_ids proposal) \<longrightarrow> (\<exists>s. sg_signal_id s = x \<and> newest (pl_fusion_policy p) iid now signals s))
    \<and> in_limit_price proposal = Some limit_price \<and> order_violation i (in_quantity candidate) limit_price = Inr None
    \<and> (in_side proposal = SELL \<longrightarrow> fd_score (dn_fusion d) \<le> - fp_exit_min_score (pl_fusion_policy p) \<and> in_reduce_only proposal
        \<and> in_quantity proposal \<le> pv_position_quantity view \<and> limit_price \<le> qt_bid (the (pl_quotes p iid)))
    \<and> (in_side proposal = BUY \<longrightarrow> fp_min_score (pl_fusion_policy p) \<le> fd_score (dn_fusion d)
        \<and> qt_ask (the (pl_quotes p iid)) \<le> limit_price
        \<and> buy_within (pl_sizing_policy p) (qt_ask (the (pl_quotes p iid))) limit_price (fl_repr fo (min \<bar>fd_score (dn_fusion d)\<bar> 1))
            (pv_equity view) (pv_position_quantity view) (in_quantity proposal))"
proof -
  from assms(1,2) show ?thesis
  proof (cases rule: pipeline_proposal_cases)
    case (1 i' c intent review)
    have i': "i' = i" using 1(1) assms(3) by simp
    note build = 1(3)[unfolded i' assms(5)] and fusion = 1(2)
    note shrink = apply_review_shrinks[OF 1(6)]
    from build 1(4) show ?thesis
    proof (cases rule: build_candidate_cases)
      case cand: (1 q quantity limit_price)
      have frame: "in_side proposal = in_side intent" "in_limit_price proposal = in_limit_price intent"
        "in_reduce_only proposal = in_reduce_only intent" "in_signal_ids proposal = in_signal_ids intent"
        using arg_cong[OF shrink(1), of in_side] arg_cong[OF shrink(1), of in_limit_price]
          arg_cong[OF shrink(1), of in_reduce_only] arg_cong[OF shrink(1), of in_signal_ids] by simp_all
      have q: "dec_fix (qt_bid q) = qt_bid q" "dec_fix (qt_ask q) = qt_ask q" using assms(7) cand(1) by simp_all
      note dir = fuse_direction[OF fusion cand(3)]
      have sell: "quantity \<le> pv_position_quantity view \<and> limit_price \<le> qt_bid q" if "fd_direction (dn_fusion d) = SHORT"
        using cand(7)[OF that] size_sell_within[OF _ assms(4,6) cand(5)] to_tick_bounds(1)[OF assms(4)] q by blast
      have buy: "qt_ask q \<le> limit_price \<and> buy_within (pl_sizing_policy p) (qt_ask q) limit_price (fl_repr fo (min \<bar>fd_score (dn_fusion d)\<bar> 1))
            (pv_equity view) (pv_position_quantity view) quantity" if "fd_direction (dn_fusion d) = LONG"
        using cand(8)[OF that] size_buy_within[OF _ _ assms(4) cand(5)] to_tick_bounds(2)[OF assms(4)] q by blast
      have smaller: "buy_within pol a l cv e ps (in_quantity proposal)" if "buy_within pol a l cv e ps quantity" for pol a l cv e ps
        using that shrink(2) cand(4) by (auto simp: buy_within_def spot_intent_def Let_def split: sum.splits)
      have out: "dn_outcome d = APPROVED \<and> proposal = intent \<or> dn_outcome d = REDUCED \<and> in_quantity proposal < in_quantity intent"
        using shrink(3) 1(9) by auto
      show ?thesis
        using cand 1(5) shrink(1,2) out frame sell buy smaller dir(1,2,3)
        by (intro exI[of _ intent] exI[of _ limit_price]) (cases "fd_direction (dn_fusion d)"; auto simp: spot_intent_def)
    qed
  qed
qed

text \<open>
  C11: Exits only close. An exit that is built is a reduce-only sale of at most the quantity asked for and at most
  the position, at a price on the venue's grid that is not above the bid, from a fresh quote; a slippage
  outside 0 to 40 basis points is refused.
\<close>

theorem exits_only_close:
  assumes "build_exit policy stage uuid i quote quantity position now ids slippage = Inr c" "cd_intent c = Some intent"
    and "decimal_grid i" "dec_fix quantity = quantity" "dec_fix position = position"
    and "case quote of None \<Rightarrow> True | Some q \<Rightarrow> dec_fix (qt_bid q) = qt_bid q"
  shows "\<exists>q limit_price. quote = Some q \<and> quote_problem quote now policy = None \<and> 0 \<le> slippage \<and> slippage \<le> 40
    \<and> in_side intent = SELL \<and> in_reduce_only intent \<and> in_stage intent = stage \<and> in_limit_price intent = Some limit_price
    \<and> 0 < in_quantity intent \<and> in_quantity intent \<le> quantity \<and> in_quantity intent \<le> position \<and> limit_price \<le> qt_bid q
    \<and> order_violation i (in_quantity intent) limit_price = Inr None"
proof -
  from assms(1,2) obtain q amount slip limit_price where
    q: "quote = Some q" "quote_problem quote now policy = None" and slippage: "0 \<le> slippage" "slippage \<le> 40"
    and amount: "floor_to_lot (min (max quantity 0) (max position 0)) i = Inr amount" "0 < amount"
    and slip: "ddiv slippage 10000 = Inr slip" and limit_price: "to_tick floor (dmul (qt_bid q) (dsub 1 slip)) i = Inr limit_price"
    and ok: "order_violation i amount limit_price = Inr None"
    and intent: "trade_intent_new (spot_intent policy stage uuid now ids i SELL amount limit_price) = Inr intent"
    by (auto simp: build_exit_def MAX_EXIT_SLIPPAGE_BPS_def abstain_def Let_def res_bind_Inr_conv split: if_splits option.splits)
  have "dec_fix (min (max quantity 0) (max position 0)) = min (max quantity 0) (max position 0)"
    by (intro dec_fix_min assms(4,5)) simp_all
  from floor_to_lot_pos[OF assms(3) this amount] amount(2) have bounds: "amount \<le> quantity" "amount \<le> position"
    by (auto simp: min_def max_def split: if_splits)
  have "0 < qt_bid q" using q by (auto simp: quote_problem_def split: if_splits)
  have "0 \<le> slip" using slip slippage by (auto simp: ddiv_def dec_signs)
  moreover have "dec_fix 1 = 1" by code_simp
  ultimately have "dsub 1 slip \<le> 1" unfolding dsub_def by (intro dec.rnd_le_fixed) simp_all
  then have "dmul (qt_bid q) (dsub 1 slip) \<le> qt_bid q"
    unfolding dmul_def using assms(6) q(1) \<open>0 < qt_bid q\<close> by (intro dec.rnd_le_fixed) (simp_all add: mult_left_le)
  moreover have "limit_price \<le> dmul (qt_bid q) (dsub 1 slip)" by (rule to_tick_bounds(1)[OF assms(3) _ limit_price]) simp
  ultimately show ?thesis
    using q slippage bounds amount(2) ok trade_intent_new_Inr[OF intent] by (auto simp: spot_intent_def)
qed

text \<open>Every reply other than a well-formed review is a deferral, and a deferral proposes nothing.\<close>

lemma defer_review_verdict: "defer_review reviewer model reason = Inr r \<Longrightarrow> rw_verdict r = DEFER"
  by (auto simp: defer_review_def agent_review_new_def validate_factor_def split: if_splits)

lemma agent_review_new_Inr:
  "agent_review_new r = Inr r' \<Longrightarrow> r' = r \<and> 0 \<le> rw_size_factor r \<and> rw_size_factor r \<le> 1
     \<and> (rw_verdict r = APPROVE \<longrightarrow> rw_size_factor r = 1) \<and> (rw_verdict r = REDUCE \<longrightarrow> 0 < rw_size_factor r \<and> rw_size_factor r < 1)
     \<and> (rw_verdict r \<in> {DEFER, VETO} \<longrightarrow> rw_size_factor r = 0)"
  by (auto simp: agent_review_new_def validate_factor_def split: if_splits)

lemma validated_Some: "validated r = Some r' \<Longrightarrow> agent_review_new r' = Inr r'"
  using agent_review_new_Inr[of r] by (auto simp: validated_def split: sum.splits)

lemma stated_review_valid:
  assumes "stated_review env model text = Inr (Some r)"
  shows "agent_review_new r = Inr r"
proof -
  from assms obtain d v factor where "review_of_fields env model d v factor = Some r"
    by (auto simp: stated_review_def res_bind_Inr_conv split: option.splits json.splits)
  then show ?thesis
    by (auto simp: review_of_fields_def Let_def split: option.splits dest: validated_Some)
qed

definition states_review :: "reviewer_env \<Rightarrow> model_reply \<Rightarrow> agent_review \<Rightarrow> bool" where
  "states_review env reply r \<longleftrightarrow> (case reply of
     Model_Response (Some stop) (Some text) model \<Rightarrow> stop = ''end_turn''
       \<and> stated_review env (case model of None \<Rightarrow> rv_model_name env | Some m \<Rightarrow> if m = [] then rv_model_name env else m) text = Inr (Some r)
   | _ \<Rightarrow> False)"

lemma claude_review_cases:
  assumes "claude_review env reply = Inr r"
  shows "rw_verdict r = DEFER \<or> states_review env reply r"
  using assms
  by (auto simp: claude_review_def states_review_def Let_def res_bind_Inr_conv
      split: model_reply.splits option.splits if_splits dest: defer_review_verdict)

text \<open>
  C12: A failing reviewer stops the trade. With the language model as reviewer an evaluation ends with a
  proposal only when the model's reply ended its turn with a text that states, in the form the contract asks for, APPROVE
  with factor 1 or REDUCE with a factor strictly between 0 and 1; a timeout, an error, a refusal, another stop
  reason, no text, no JSON object, a missing or unknown field or a factor out of range leaves no proposal.
\<close>

theorem failing_reviewer_stops_trade:
  assumes "\<And>intent. pl_reviewer p intent = claude_review env (reply intent)"
    and "pipeline_evaluate fo p uuid iid now signals = Inr d" "dn_proposal d = Some proposal"
  shows "\<exists>candidate r. dn_candidate d = Some candidate \<and> states_review env (reply candidate) r
    \<and> (rw_verdict r = APPROVE \<and> rw_size_factor r = 1 \<and> proposal = candidate
       \<or> rw_verdict r = REDUCE \<and> 0 < rw_size_factor r \<and> rw_size_factor r < 1 \<and> in_quantity proposal < in_quantity candidate)"
proof -
  from assms(2,3) show ?thesis
  proof (cases rule: pipeline_proposal_cases)
    case (1 i c intent review)
    note shrink = apply_review_shrinks(3)[OF 1(6)]
    have "claude_review env (reply intent) = Inr review"
      using 1(7) by (simp add: assms(1))
    from claude_review_cases[OF this] shrink have states: "states_review env (reply intent) review" by auto
    then have "agent_review_new review = Inr review"
      by (auto simp: states_review_def split: model_reply.splits option.splits dest: stated_review_valid)
    from agent_review_new_Inr[OF this] shrink states 1(5) show ?thesis by auto
  qed
qed

section \<open>Witnesses\<close>

definition ex_reviewer_env :: reviewer_env where
  "ex_reviewer_env = \<lparr>rv_fl = (\<lambda>x. x), rv_loads = (\<lambda>t. if t = ''{...}'' then Some (JObj [(''verdict'', JStr ''REDUCE''),
     (''size_factor'', JFloat (Some ''0.5'')), (''rationale'', JStr ''thin agreement'')]) else None),
     rv_float = (\<lambda>t. if t = ''0.5'' then Some (1 / 2) else None), rv_str = (\<lambda>j. ''thin agreement''), rv_model_name = ''model''\<rparr>"

definition ex_reply :: "trade_intent \<Rightarrow> model_reply" where
  "ex_reply intent = Model_Response (Some ''end_turn'') (Some ''{...}'') None"

definition ex_signal :: signal where
  "ex_signal = \<lparr>sg_signal_id = ''s1'', sg_source = PROTO_STRATEGY, sg_strategy_id = ''proto-ema-cross-1m'',
     sg_instrument_id = ''BINANCE_SPOT:BTCUSDT'', sg_direction = LONG, sg_strength = 1, sg_timeframe = ''1m'',
     sg_observed_at = 0, sg_received_at = 0\<rparr>"

definition ex_pipeline :: pipeline where
  "ex_pipeline = \<lparr>pl_instruments = [(''BINANCE_SPOT:BTCUSDT'', ex_instrument)],
     pl_reviewer = (\<lambda>intent. claude_review ex_reviewer_env (ex_reply intent)),
     pl_quotes = (\<lambda>_. Some \<lparr>qt_bid = 49999, qt_ask = 50000, qt_observed_at = 0\<rparr>),
     pl_portfolio = (\<lambda>_. \<lparr>pv_equity = 10000, pv_position_quantity = 0\<rparr>), pl_fusion_policy = DEFAULT_FUSION_POLICY,
     pl_sizing_policy = DEFAULT_SIZING_POLICY, pl_stage = STAGE_PAPER\<rparr>"

lemma ex_values [simp]: "dec_fix 50000 = 50000" "dec_fix 49999 = 49999" "dec_fix 5000000 = 5000000" "dec_fix 1000 = 1000"
    "dec_fix (1 / 40) = 1 / 40" "dec_fix (1 / 5) = 1 / 5" "dec_fix 2500 = 2500" "dec_fix (1 / 80) = 1 / 80" "dec_fix 1250 = 1250"
    "dec_fix (1 / 500) = 1 / 500" "dec_fix 200 = 200" "dec_fix 4999900 = 4999900"
  by code_simp+

lemma ex_orders_ok: "order_violation ex_instrument (1 / 40) 50000 = Inr None" "order_violation ex_instrument (1 / 80) 50000 = Inr None"
    "order_violation ex_instrument (1 / 500) 49999 = Inr None"
  by code_simp+

lemma ex_size: "size_buy DEFAULT_SIZING_POLICY ex_instrument 50000 1 10000 0 = Inr (Size (1 / 40))"
  by (simp add: size_buy_def to_tick_def floor_to_lot_def ddiv_def dmul_def dsub_def conservative_equity_def constitution
      DEFAULT_SIZING_POLICY_def ex_instrument_def dtrunc_def Let_def)

lemma ex_tick: "to_tick ceiling 50000 ex_instrument = Inr 50000"
  by (simp add: to_tick_def ddiv_def dmul_def ex_instrument_def)

definition ex_proposal :: trade_intent where
  "ex_proposal = spot_intent DEFAULT_SIZING_POLICY STAGE_PAPER ''u1'' 1 [''s1''] ex_instrument BUY (1 / 80) 50000"

lemma ex_intent_ok: "trade_intent_new (spot_intent DEFAULT_SIZING_POLICY STAGE_PAPER ''u1'' 1 [''s1''] ex_instrument BUY (1 / 40) 50000)
    = Inr (ex_proposal\<lparr>in_quantity := 1 / 40\<rparr>)" "trade_intent_new ex_proposal = Inr ex_proposal"
  by code_simp+

lemma ex_review: "claude_review ex_reviewer_env (ex_reply intent) = Inr \<lparr>rw_verdict = REDUCE, rw_size_factor = 1 / 2,
    rw_rationale = ''thin agreement'', rw_reviewer = ''claude'', rw_model = Some ''model''\<rparr>"
  by (simp add: claude_review_def ex_reply_def ex_reviewer_env_def stated_review_def review_of_fields_def float_of_json_def verdict_of_def
      validated_def agent_review_new_def validate_factor_def Let_def)

lemma ex_fuse: "fuse exact_floats DEFAULT_FUSION_POLICY ''BINANCE_SPOT:BTCUSDT'' 1 [ex_signal]
    = Inr \<lparr>fd_instrument_id = ''BINANCE_SPOT:BTCUSDT'', fd_direction = LONG, fd_score = 1, fd_signal_ids = [''s1''], fd_reason = ''consensus long''\<rparr>"
  by code_simp

lemma ex_shrink: "apply_review exact_floats (ex_proposal\<lparr>in_quantity := 1 / 40\<rparr>) \<lparr>rw_verdict = REDUCE, rw_size_factor = 1 / 2,
    rw_rationale = ''thin agreement'', rw_reviewer = ''claude'', rw_model = Some ''model''\<rparr> ex_instrument = Inr (Some ex_proposal)"
  using ex_orders_ok(2) ex_intent_ok(2)
  by (simp add: apply_review_def exact_floats_def ddiv_def dmul_def ex_instrument_def dtrunc_def ex_proposal_def spot_intent_def Let_def)

lemma ex_quote: "quote_problem (Some \<lparr>qt_bid = 49999, qt_ask = 50000, qt_observed_at = 0\<rparr>) 1 DEFAULT_SIZING_POLICY = None"
  by (simp add: quote_problem_def DEFAULT_SIZING_POLICY_def)

lemma ex_candidate:
  "build_candidate exact_floats DEFAULT_SIZING_POLICY STAGE_PAPER ''u1''
     \<lparr>fd_instrument_id = ''BINANCE_SPOT:BTCUSDT'', fd_direction = LONG, fd_score = 1, fd_signal_ids = [''s1''], fd_reason = ''consensus long''\<rparr>
     ex_instrument (Some \<lparr>qt_bid = 49999, qt_ask = 50000, qt_observed_at = 0\<rparr>) 10000 0 1
   = Inr \<lparr>cd_intent = Some (ex_proposal\<lparr>in_quantity := 1 / 40\<rparr>), cd_abstain_reason = None\<rparr>"
proof -
  have "fl_repr exact_floats 1 = 1" by (simp add: exact_floats_def)
  then show ?thesis
    by (simp add: build_candidate_def price_candidate_def ex_quote ex_size ex_tick ex_orders_ok ex_intent_ok Let_def)
qed

lemma ex_evaluate:
  obtains d where "pipeline_evaluate exact_floats ex_pipeline ''u1'' ''BINANCE_SPOT:BTCUSDT'' 1 [ex_signal] = Inr d"
    "dn_proposal d = Some ex_proposal"
  using that ex_candidate
  by (simp add: pipeline_evaluate_def ex_pipeline_def ex_fuse reviewed_def ex_review ex_shrink decided_def Let_def)

lemma ex_instrument_grid: "decimal_grid ex_instrument"
  unfolding decimal_grid_def ex_instrument_def
  by (rule conjI, rule exI[of _ 5], simp, rule exI[of _ 2], simp)

theorem proposals_only_shrink_witness:
  "\<exists>d candidate. pipeline_evaluate exact_floats ex_pipeline ''u1'' ''BINANCE_SPOT:BTCUSDT'' 1 [ex_signal] = Inr d
    \<and> dn_candidate d = Some candidate \<and> ex_proposal = candidate\<lparr>in_quantity := in_quantity ex_proposal\<rparr>"
proof -
  obtain d where e: "pipeline_evaluate exact_floats ex_pipeline ''u1'' ''BINANCE_SPOT:BTCUSDT'' 1 [ex_signal] = Inr d"
    "dn_proposal d = Some ex_proposal" by (rule ex_evaluate)
  show ?thesis
    using proposals_only_shrink[OF e _ ex_instrument_grid refl] e by (auto simp: ex_pipeline_def)
qed

theorem failing_reviewer_stops_trade_witness:
  "\<exists>d candidate r. pipeline_evaluate exact_floats ex_pipeline ''u1'' ''BINANCE_SPOT:BTCUSDT'' 1 [ex_signal] = Inr d
    \<and> dn_candidate d = Some candidate \<and> states_review ex_reviewer_env (ex_reply candidate) r"
proof -
  obtain d where e: "pipeline_evaluate exact_floats ex_pipeline ''u1'' ''BINANCE_SPOT:BTCUSDT'' 1 [ex_signal] = Inr d"
    "dn_proposal d = Some ex_proposal" by (rule ex_evaluate)
  have "pl_reviewer ex_pipeline intent = claude_review ex_reviewer_env (ex_reply intent)" for intent by (simp add: ex_pipeline_def)
  from failing_reviewer_stops_trade[OF this e] e show ?thesis by blast
qed

theorem exits_only_close_witness:
  "\<exists>c intent. build_exit DEFAULT_SIZING_POLICY STAGE_PAPER ''u2'' ex_instrument (Some \<lparr>qt_bid = 49999, qt_ask = 50000, qt_observed_at = 0\<rparr>)
      (1 / 40) (1 / 500) 1 [''s1''] 0 = Inr c \<and> cd_intent c = Some intent \<and> in_quantity intent \<le> 1 / 500"
proof -
  let ?run = "build_exit DEFAULT_SIZING_POLICY STAGE_PAPER ''u2'' ex_instrument (Some \<lparr>qt_bid = 49999, qt_ask = 50000, qt_observed_at = 0\<rparr>)
      (1 / 40) (1 / 500) 1 [''s1''] 0"
  have "trade_intent_new (spot_intent DEFAULT_SIZING_POLICY STAGE_PAPER ''u2'' 1 [''s1''] ex_instrument SELL (1 / 500) 49999)
    = Inr (spot_intent DEFAULT_SIZING_POLICY STAGE_PAPER ''u2'' 1 [''s1''] ex_instrument SELL (1 / 500) 49999)" by code_simp
  moreover have "floor_to_lot (1 / 500) ex_instrument = Inr (1 / 500)" "to_tick floor 49999 ex_instrument = Inr 49999"
    by (simp_all add: floor_to_lot_def to_tick_def ddiv_def dmul_def ex_instrument_def dtrunc_def)
  moreover have "dec_fix 1 = 1" by code_simp
  ultimately obtain c intent where c: "?run = Inr c" "cd_intent c = Some intent"
    using ex_orders_ok(3)
    by (simp add: build_exit_def quote_problem_def ddiv_def dmul_def dsub_def MAX_EXIT_SLIPPAGE_BPS_def DEFAULT_SIZING_POLICY_def Let_def)
  from exits_only_close[OF c ex_instrument_grid] c show ?thesis by auto
qed

section \<open>Where the code departs from its comments\<close>

text \<open>
  The comment in \<^verbatim>\<open>build_candidate\<close> says room is measured at the limit price; the leverage is measured at the ask. With a
  stop distance of 0.2 percent and an ask between two ticks the order at its limit price exceeds the equity, so the
  risk engine will refuse what was sized to fit.
\<close>

definition xrp :: tradable_instrument where
  "xrp = binance_spot ''XRP'' ''USDT'' (1 / 10000) (1 / 10) 5"

lemma leverage_measured_at_ask:
  assumes "policy = DEFAULT_SIZING_POLICY\<lparr>sz_stop_distance := 2 / 1000\<rparr>"
  shows "to_tick ceiling (9999 / 25000) xrp = Inr (2 / 5)" "size_buy policy xrp (9999 / 25000) 1 (9999 / 10) 0 = Inr (Size 2500)"
    "9999 / 10 < dmul 2500 (2 / 5)"
proof -
  have v: "dec_fix (19998 / 5) = 19998 / 5" "dec_fix (2 / 5) = 2 / 5" "dec_fix (9999 / 4000) = 9999 / 4000" "dec_fix (1 / 1250) = 1 / 1250"
    "dec_fix (49995 / 16) = 49995 / 16" "dec_fix (9999 / 10) = 9999 / 10" "dec_fix 25000 = 25000" by code_simp+
  have grid: "ti_lot_size xrp = 1 / 10" by (simp add: xrp_def binance_spot_def)
  have "\<lceil>19998 / 5 :: rat\<rceil> = 4000" by (simp add: ceiling_eq_iff)
  then show tick: "to_tick ceiling (9999 / 25000) xrp = Inr (2 / 5)"
    by (simp add: to_tick_def xrp_def binance_spot_def ddiv_def dmul_def v)
  show "size_buy policy xrp (9999 / 25000) 1 (9999 / 10) 0 = Inr (Size 2500)"
    by (simp add: size_buy_def tick assms floor_to_lot_def grid ddiv_def dmul_def dsub_def conservative_equity_def
        constitution DEFAULT_SIZING_POLICY_def dtrunc_def v Let_def)
  show "9999 / 10 < dmul 2500 (2 / 5)" by (simp add: dmul_def)
qed

text \<open>
  The module says that whatever goes wrong in a review becomes a deferral. A factor written as an integer beyond the range of
  doubles makes \<^verbatim>\<open>float\<close> raise an OverflowError, which is not among the exceptions that are caught.
\<close>

lemma huge_factor_escapes:
  assumes "rv_loads env text = Some (JObj [(''verdict'', JStr ''VETO''), (''size_factor'', JInt (2 ^ 1024)), (''rationale'', JStr ''no'')])"
  shows "claude_review env (Model_Response (Some ''end_turn'') (Some text) model) = Inl OverflowError"
  using assms by (simp add: claude_review_def stated_review_def float_of_json_def Let_def)

end
