(* ===== verification/Roster.thy ===== *)
theory Roster
  imports Fusion Control_Plane
begin

text \<open>
  The roster of trader agents (\<^verbatim>\<open>services/agents/roster.py\<close>): slots and their parameters, the virtual book of an
  agent, the survival rules that only tighten, the sizing of a proposal to its agent, and the durable roster
  with its two tables.

  A row of a table is the record it stores; decimals and parameters are stored as exact text, so the text is kept as the
  value. A transaction is saved, fails, or is saved and not acknowledged. The roster holds a lock during every
  operation, so an operation is one step. The journal is told after the fact and its failures are swallowed:
  it has no effect on the roster and is left out, as are the columns that say when a row was written.
\<close>

section \<open>Slots and parameters\<close>

definition AGENT_STARTING_CAPITAL :: rat where "AGENT_STARTING_CAPITAL = 200"
definition ELIMINATION_FLOOR_BRL :: rat where "ELIMINATION_FLOOR_BRL = 30"
definition MIN_SCORE_SURVIVAL_SLOPE :: rat where "MIN_SCORE_SURVIVAL_SLOPE = 3 / 10"
definition AGENT_MAX_LEVERAGE :: rat where "AGENT_MAX_LEVERAGE = min 1 MAX_GROSS_LEVERAGE"
definition EMA_STRATEGY_ID :: string where "EMA_STRATEGY_ID = ''proto-ema-cross-1m''"
definition LAB_STRATEGY_PREFIX :: string where "LAB_STRATEGY_PREFIX = ''proto-lab-''"

definition NAMES :: "string list" where
  "NAMES = [''ORION'', ''VEGA'', ''LYRA'', ''ATLAS'', ''NOVA'', ''RIGEL'', ''SIRIUS'', ''ALTAIR'', ''DENEB'', ''CASTOR'', ''POLLUX'',
     ''ANTARES'', ''CAPELLA'', ''MIRA'', ''ELARA'', ''CORVUS'', ''DRACO'', ''AQUILA'', ''CYGNUS'', ''PERSEUS'']"

definition EMA_PARAM_LADDER :: "(int \<times> int) list" where
  "EMA_PARAM_LADDER = [(5, 20), (8, 21), (12, 26), (3, 13), (10, 30), (6, 18), (4, 16), (15, 40)]"

definition LAB_HOURLY_TS_MOMENTUM :: json_dict where
  "LAB_HOURLY_TS_MOMENTUM = [(''strategy'', JStr ''regime''),
     (''inner'', JObj [(''strategy'', JStr ''ts_momentum''), (''lookback'', JInt 168), (''confirm_lookback'', JInt 720),
        (''vol_period'', JInt 72), (''target_vol'', JFloat (Some ''0.5'')), (''bars_per_year'', JFloat (Some ''8760.0'')),
        (''atr_period'', JInt 14), (''stop_atr'', JFloat (Some ''3.0'')), (''target_atr'', JFloat (Some ''12.0''))]),
     (''atr_period'', JInt 14), (''window'', JInt 720), (''low'', JFloat (Some ''0.5'')), (''high'', JFloat (Some ''1.0''))]"

definition LAB_PARAM_LADDER :: "(string, (json_dict \<times> int) list) dict" where
  "LAB_PARAM_LADDER = map (\<lambda>symbol. (''BINANCE_SPOT:'' @ symbol, [(LAB_HOURLY_TS_MOMENTUM, 60)])) [''BTCUSDT'', ''ETHUSDT'', ''SOLUSDT'']"

definition TRADINGVIEW_MIN_STRENGTH_LADDER :: "string list" where
  "TRADINGVIEW_MIN_STRENGTH_LADDER = [''0'', ''0.2'', ''0.4'', ''0.5'', ''0.6'', ''0.7'']"

datatype slot_kind = EMA_SLOT | TRADINGVIEW_SLOT

fun slot_kind_value :: "slot_kind \<Rightarrow> string" where
  "slot_kind_value EMA_SLOT = EMA_STRATEGY_ID"
| "slot_kind_value TRADINGVIEW_SLOT = ''tradingview''"

datatype agent_status = ACTIVE | ELIMINATED

record slot =
  sl_kind :: slot_kind
  sl_instrument_id :: string

definition slot_key :: "slot \<Rightarrow> string" where
  "slot_key s = slot_kind_value (sl_kind s) @ ''|'' @ sl_instrument_id s"

abbreviation ema_slot :: "string \<Rightarrow> slot" where
  "ema_slot iid \<equiv> \<lparr>sl_kind = EMA_SLOT, sl_instrument_id = iid\<rparr>"

definition INITIAL_SLOTS :: "slot list" where
  "INITIAL_SLOTS = concat (map (\<lambda>symbol. map (\<lambda>k. \<lparr>sl_kind = k, sl_instrument_id = ''BINANCE_SPOT:'' @ symbol\<rparr>) [EMA_SLOT, TRADINGVIEW_SLOT])
     [''BTCUSDT'', ''ETHUSDT'', ''SOLUSDT''])"

definition MORE_SLOTS :: "slot list" where
  "MORE_SLOTS = map (\<lambda>symbol. ema_slot (''BINANCE_SPOT:'' @ symbol)) [''BNBUSDT'', ''XRPUSDT'', ''DOGEUSDT'', ''ADAUSDT'', ''AVAXUSDT'',
     ''LINKUSDT'', ''LTCUSDT'', ''DOTUSDT'', ''TRXUSDT'', ''BCHUSDT'']"

definition B3_SLOTS :: "slot list" where
  "B3_SLOTS = map (\<lambda>symbol. ema_slot (''XP_B3:'' @ symbol)) [''PETR4F'', ''VALE3F'']"

definition US_SLOTS :: "slot list" where
  "US_SLOTS = map (\<lambda>symbol. ema_slot (''ALPACA_US:'' @ symbol)) [''SPY'', ''QQQ'']"

definition slot_of :: "signal \<Rightarrow> slot option" where
  "slot_of s =
     (if sg_source s = PROTO_STRATEGY \<and> (sg_strategy_id s = EMA_STRATEGY_ID \<or> startswith (sg_strategy_id s) LAB_STRATEGY_PREFIX)
      then Some (ema_slot (sg_instrument_id s))
      else if sg_source s = TRADINGVIEW then Some \<lparr>sl_kind = TRADINGVIEW_SLOT, sl_instrument_id = sg_instrument_id s\<rparr>
      else None)"

text \<open>The digest of a strategy's text, the decimal a text stands for, the text of other JSON values and the decimal a
  double is printed as are arguments.\<close>

record roster_env =
  re_uuid5_hex :: "string \<Rightarrow> string"
  re_decimal :: "string \<Rightarrow> rat option"
  re_str :: "json \<Rightarrow> string"
  re_floats :: float_ops

definition text_field :: "json_dict \<Rightarrow> string \<Rightarrow> string res" where
  "text_field d k = (case dget d k of Some (JStr s) \<Rightarrow> Inr s | None \<Rightarrow> Inl (KeyError k) | Some _ \<Rightarrow> Inl AttributeError)"

definition lab_strategy_id :: "roster_env \<Rightarrow> json_dict \<Rightarrow> string res" where
  "lab_strategy_id env spec =
     res_bind (text_field spec ''strategy'') (\<lambda>kind.
     res_bind (if kind = ''regime''
               then (case dget spec ''inner'' of
                       Some (JObj inner) \<Rightarrow> res_bind (text_field inner ''strategy'') (\<lambda>k. Inr (''regime-'' @ k))
                     | None \<Rightarrow> Inl (KeyError ''inner'') | Some _ \<Rightarrow> Inl (TypeError ''inner''))
               else Inr kind) (\<lambda>name.
       Inr (LAB_STRATEGY_PREFIX @ map (\<lambda>c. if c = CHR ''_'' then CHR ''-'' else c) name @ ''-'' @ take 8 (re_uuid5_hex env (json_text (JObj spec))))))"

definition params_for :: "roster_env \<Rightarrow> bool \<Rightarrow> slot \<Rightarrow> nat \<Rightarrow> json_dict res" where
  "params_for env lab_strategies s generation =
     (case (sl_kind s, if lab_strategies then dget LAB_PARAM_LADDER (sl_instrument_id s) else None) of
        (EMA_SLOT, Some ladder) \<Rightarrow>
          (case ladder ! (generation mod length ladder) of
             (spec, timeframe) \<Rightarrow> res_bind (lab_strategy_id env spec) (\<lambda>lab.
               Inr [(''lab_strategy'', JStr lab), (''timeframe_minutes'', JInt timeframe), (''spec'', JObj spec)]))
      | (EMA_SLOT, None) \<Rightarrow>
          (case EMA_PARAM_LADDER ! (generation mod length EMA_PARAM_LADDER) of
             (fast, slow) \<Rightarrow> Inr [(''fast'', JInt fast), (''slow'', JInt slow)])
      | (TRADINGVIEW_SLOT, _) \<Rightarrow>
          Inr [(''min_strength'', JStr (TRADINGVIEW_MIN_STRENGTH_LADDER ! (generation mod length TRADINGVIEW_MIN_STRENGTH_LADDER)))])"

section \<open>Survival\<close>

definition survival_ratio :: "rat \<Rightarrow> rat" where
  "survival_ratio equity_brl = min (max (dquot equity_brl AGENT_STARTING_CAPITAL) 0) 1"

definition size_multiplier :: "rat \<Rightarrow> rat" where
  "size_multiplier equity_brl = dmul (survival_ratio equity_brl) (survival_ratio equity_brl)"

definition entry_min_score :: "float_ops \<Rightarrow> rat \<Rightarrow> rat \<Rightarrow> rat" where
  "entry_min_score fo base_min_score equity_brl =
     (let base = fl_repr fo base_min_score;
          raised = dadd base (dmul MIN_SCORE_SURVIVAL_SLOPE (dsub 1 (survival_ratio equity_brl)))
      in fl fo (min (max raised base) 1))"

definition elimination_floor :: "rat \<Rightarrow> rat \<Rightarrow> rat" where
  "elimination_floor min_notional_quote brl_per_quote = max ELIMINATION_FLOOR_BRL (dmul min_notional_quote brl_per_quote)"

section \<open>The book of an agent\<close>

record agent_book =
  ab_quantity :: rat
  ab_cost :: rat
  ab_realized_pnl :: rat
  ab_fees :: rat

definition book_new :: agent_book where
  "book_new = \<lparr>ab_quantity = 0, ab_cost = 0, ab_realized_pnl = 0, ab_fees = 0\<rparr>"

definition book_empty :: "agent_book \<Rightarrow> bool" where
  "book_empty b \<longleftrightarrow> ab_quantity b = 0 \<and> ab_cost b = 0 \<and> ab_realized_pnl b = 0 \<and> ab_fees b = 0"

text \<open>\<^verbatim>\<open>_release\<close>: the cost that leaves with a quantity, and the book without it.\<close>

definition book_release :: "rat \<Rightarrow> agent_book \<Rightarrow> rat \<times> agent_book" where
  "book_release quantity b =
     (let q = min quantity (ab_quantity b) in
      if q \<le> 0 then (0, b)
      else let released = (if q = ab_quantity b then ab_cost b else dquot (dmul (ab_cost b) q) (ab_quantity b))
           in (released, b\<lparr>ab_quantity := dsub (ab_quantity b) q, ab_cost := dsub (ab_cost b) released\<rparr>))"

definition apply_sale :: "rat \<Rightarrow> rat \<Rightarrow> agent_book \<Rightarrow> rat \<times> agent_book" where
  "apply_sale quantity notional b =
     (let sold = min quantity (ab_quantity b);
          proceeds = (if sold = quantity then notional else dquot (dmul notional sold) quantity);
          (released, b') = book_release sold b;
          realized = dsub proceeds released
      in (realized, b'\<lparr>ab_realized_pnl := dadd (ab_realized_pnl b') realized\<rparr>))"

definition apply_fill :: "string \<Rightarrow> rat \<Rightarrow> rat \<Rightarrow> rat \<Rightarrow> rat \<Rightarrow> agent_book \<Rightarrow> rat \<times> agent_book" where
  "apply_fill sd quantity notional fee_quote fee_base b =
     (let (realized, b1) = (if sd = ''BUY''
            then (0, b\<lparr>ab_quantity := dadd (ab_quantity b) quantity, ab_cost := dadd (ab_cost b) notional\<rparr>)
            else apply_sale quantity notional b);
          b2 = b1\<lparr>ab_fees := dadd (ab_fees b1) fee_quote\<rparr>
      in if 0 < fee_base
         then (case book_release fee_base b2 of (released, b3) \<Rightarrow> (realized, b3\<lparr>ab_fees := dadd (ab_fees b3) released\<rparr>))
         else (realized, b2))"

definition book_unrealized :: "rat option \<Rightarrow> agent_book \<Rightarrow> rat option" where
  "book_unrealized mark b =
     (if ab_quantity b = 0 then Some (if ab_cost b \<noteq> 0 then dneg (ab_cost b) else 0)
      else map_option (\<lambda>m. dsub (dmul (ab_quantity b) m) (ab_cost b)) mark)"

definition book_pnl :: "rat option \<Rightarrow> agent_book \<Rightarrow> rat option" where
  "book_pnl mark b = map_option (\<lambda>unrealized. dadd (dsub (ab_realized_pnl b) (ab_fees b)) unrealized) (book_unrealized mark b)"

record trader_agent =
  ta_agent_id :: string
  ta_sequence :: nat
  ta_name :: string
  ta_slot :: slot
  ta_params :: json_dict
  ta_capital_brl :: rat
  ta_status :: agent_status
  ta_generation :: nat
  ta_created_at :: instant
  ta_eliminated_at :: "instant option"
  ta_elimination_reason :: "string option"
  ta_book :: agent_book

abbreviation agent_active :: "trader_agent \<Rightarrow> bool" where
  "agent_active a \<equiv> ta_status a = ACTIVE"

definition equity_brl :: "rat option \<Rightarrow> rat option \<Rightarrow> trader_agent \<Rightarrow> rat option" where
  "equity_brl mark brl_per_quote a =
     (if book_empty (ta_book a) then Some (ta_capital_brl a)
      else (case book_pnl mark (ta_book a) of
              None \<Rightarrow> None
            | Some pnl \<Rightarrow> if pnl = 0 then Some (ta_capital_brl a)
                          else map_option (\<lambda>rate. dadd (ta_capital_brl a) (dmul pnl rate)) brl_per_quote))"

text \<open>\<^verbatim>\<open>Decimal(str(floor))\<close> of a parameter.\<close>

definition decimal_of_param :: "roster_env \<Rightarrow> json \<Rightarrow> rat res" where
  "decimal_of_param env j =
     (case (case j of JStr t \<Rightarrow> re_decimal env t | JFloat (Some t) \<Rightarrow> re_decimal env t | JInt n \<Rightarrow> Some (of_int n) | _ \<Rightarrow> None) of
        None \<Rightarrow> Inl InvalidOperation | Some x \<Rightarrow> Inr x)"

definition accepts :: "roster_env \<Rightarrow> trader_agent \<Rightarrow> signal \<Rightarrow> bool res" where
  "accepts env a s =
     (if slot_of s \<noteq> Some (ta_slot a) then Inr False
      else if sg_source s = PROTO_STRATEGY
              \<and> JStr (sg_strategy_id s) \<noteq> dget_or (ta_params a) ''lab_strategy'' (JStr EMA_STRATEGY_ID) then Inr False
      else if jget (ta_params a) ''min_strength'' = JNull then Inr True
      else res_bind (decimal_of_param env (jget (ta_params a) ''min_strength''))
             (\<lambda>bar. Inr (bar \<le> fl_repr (re_floats env) (sg_strength s))))"

text \<open>\<^verbatim>\<open>f"AG-{sequence:04d}-{name}"\<close>\<close>

definition agent_code :: "nat \<Rightarrow> string \<times> string" where
  "agent_code sequence =
     (let name = NAMES ! ((sequence - 1) mod length NAMES); digits = nat_str sequence
      in (''AG-'' @ replicate (4 - length digits) CHR ''0'' @ digits @ ''-'' @ name, name))"

section \<open>Sizing to the agent\<close>

record agent_sizing =
  az_intent :: "trade_intent option"
  az_reason :: "string option"

definition refuse_size :: "string \<Rightarrow> agent_sizing" where
  "refuse_size reason = \<lparr>az_intent = None, az_reason = Some reason\<rparr>"

definition agent_quantity :: "trade_intent \<Rightarrow> trader_agent \<Rightarrow> tradable_instrument \<Rightarrow> rat \<Rightarrow> rat \<Rightarrow> rat \<Rightarrow> sized res" where
  "agent_quantity intent a i equity brl_per_quote price =
     (let held = ab_quantity (ta_book a) in
      if in_side intent = SELL
      then res_bind (floor_to_lot (min (in_quantity intent) held) i) (\<lambda>quantity.
             Inr (if quantity \<le> 0 then Abstain ''agent holds no position to sell'' else Size quantity))
      else res_bind (ddiv (dmul equity AGENT_MAX_LEVERAGE) brl_per_quote) (\<lambda>budget.
           let headroom = dsub budget (dmul held price)
           in if headroom \<le> 0 then Inr (Abstain ''agent exposure cap reached'')
              else res_bind (ddiv headroom price) (\<lambda>room.
                   res_bind (floor_to_lot (min (dmul (in_quantity intent) (size_multiplier equity)) room) i) (\<lambda>quantity.
                   Inr (if quantity \<le> 0 then Abstain ''agent size rounds to zero'' else Size quantity)))))"

definition shape_for_agent :: "trade_intent \<Rightarrow> trader_agent \<Rightarrow> tradable_instrument \<Rightarrow> rat \<Rightarrow> rat \<Rightarrow> agent_sizing res" where
  "shape_for_agent intent a i equity brl_per_quote =
     (case in_limit_price intent of
        None \<Rightarrow> Inr (refuse_size ''agent needs a limit price and a BRL rate'')
      | Some price \<Rightarrow>
          if brl_per_quote \<le> 0 then Inr (refuse_size ''agent needs a limit price and a BRL rate'')
          else res_bind (agent_quantity intent a i equity brl_per_quote price) (\<lambda>size.
               case size of
                 Abstain reason \<Rightarrow> Inr (refuse_size reason)
               | Size q \<Rightarrow>
                   let quantity = min q (in_quantity intent)
                   in res_bind (order_violation i quantity price) (\<lambda>violation.
                      Inr (case violation of
                             Some v \<Rightarrow> refuse_size (''agent size: '' @ v)
                           | None \<Rightarrow> \<lparr>az_intent = Some (intent\<lparr>in_quantity := quantity\<rparr>), az_reason = None\<rparr>))))"

section \<open>The durable roster\<close>

record attribution =
  an_intent_id :: string
  an_agent_id :: string
  an_instrument_id :: string
  an_side :: string
  an_client_order_id :: "string option"
  an_applied_quantity :: rat
  an_applied_notional :: rat
  an_applied_fee :: rat

record roster =
  ro_durable :: bool
  ro_loaded :: bool
  ro_slots :: "slot list"
  ro_lab_strategies :: bool
  ro_agents :: "(string, trader_agent) dict"
  ro_attributions :: "(string, attribution) dict"
  ro_agent_rows :: "trader_agent list"
  ro_order_rows :: "attribution list"

definition roster_new :: "bool \<Rightarrow> slot list \<Rightarrow> bool \<Rightarrow> trader_agent list \<Rightarrow> attribution list \<Rightarrow> roster" where
  "roster_new durable slots lab agent_rows order_rows =
     \<lparr>ro_durable = durable, ro_loaded = (\<not> durable), ro_slots = slots, ro_lab_strategies = lab, ro_agents = [], ro_attributions = [],
      ro_agent_rows = agent_rows, ro_order_rows = order_rows\<rparr>"

definition active_for :: "slot \<Rightarrow> roster \<Rightarrow> trader_agent option" where
  "active_for s r = List.find (\<lambda>a. agent_active a \<and> ta_slot a = s) (dvalues (ro_agents r))"

definition admit :: "string \<Rightarrow> roster \<Rightarrow> bool" where
  "admit agent_id r = (case dget (ro_agents r) agent_id of None \<Rightarrow> False | Some a \<Rightarrow> agent_active a)"

definition allocated :: "roster \<Rightarrow> rat" where
  "allocated r = foldl dadd 0 (map ta_capital_brl (filter agent_active (dvalues (ro_agents r))))"

definition agent_for_intent :: "string \<Rightarrow> roster \<Rightarrow> string option" where
  "agent_for_intent intent_id r = map_option an_agent_id (dget (ro_attributions r) intent_id)"

text \<open>Loading: both tables are read in one transaction, which can fail.\<close>

definition roster_load :: "bool \<Rightarrow> (roster, unit) op" where
  "roster_load readable r =
     (if ro_loaded r \<or> \<not> ro_durable r then (Inr (), r)
      else if \<not> readable then (Inl DatabaseError, r)
      else (Inr (), r\<lparr>ro_agents := foldl (\<lambda>d a. dset (ta_agent_id a) a d) (ro_agents r) (ro_agent_rows r),
                      ro_attributions := foldl (\<lambda>d x. dset (an_intent_id x) x d) (ro_attributions r) (ro_order_rows r),
                      ro_loaded := True\<rparr>))"

text \<open>One transaction; a violated key leaves the tables alone, whatever its fate.\<close>

definition roster_commit :: "store_fate \<Rightarrow> bool \<Rightarrow> (roster \<Rightarrow> roster) \<Rightarrow> (roster, unit) op" where
  "roster_commit fate keys_ok change r =
     (if \<not> ro_durable r then (Inr (), r)
      else if \<not> keys_ok then (Inl DatabaseError, r)
      else (case fate of Saved \<Rightarrow> (Inr (), change r) | Not_Saved \<Rightarrow> (Inl DatabaseError, r) | Saved_Then_Lost \<Rightarrow> (Inl DatabaseError, change r)))"

definition insert_agent :: "store_fate \<Rightarrow> trader_agent \<Rightarrow> (roster, unit) op" where
  "insert_agent fate a r =
     roster_commit fate (\<not> list_ex (\<lambda>b. ta_agent_id b = ta_agent_id a \<or> ta_sequence b = ta_sequence a) (ro_agent_rows r))
       (\<lambda>r. r\<lparr>ro_agent_rows := ro_agent_rows r @ [a]\<rparr>) r"

definition update_agent_row :: "trader_agent \<Rightarrow> roster \<Rightarrow> roster" where
  "update_agent_row a r = r\<lparr>ro_agent_rows := map (\<lambda>b. if ta_agent_id b = ta_agent_id a then a else b) (ro_agent_rows r)\<rparr>"

definition insert_order :: "store_fate \<Rightarrow> attribution \<Rightarrow> (roster, unit) op" where
  "insert_order fate x r =
     roster_commit fate (\<not> list_ex (\<lambda>y. an_intent_id y = an_intent_id x) (ro_order_rows r)) (\<lambda>r. r\<lparr>ro_order_rows := ro_order_rows r @ [x]\<rparr>) r"

definition update_order_row :: "attribution \<Rightarrow> roster \<Rightarrow> roster" where
  "update_order_row x r = r\<lparr>ro_order_rows := map (\<lambda>y. if an_intent_id y = an_intent_id x then x else y) (ro_order_rows r)\<rparr>"

definition put_agent :: "trader_agent \<Rightarrow> roster \<Rightarrow> roster" where
  "put_agent a r = r\<lparr>ro_agents := dset (ta_agent_id a) a (ro_agents r)\<rparr>"

section \<open>Life of an agent\<close>

definition next_sequence :: "roster \<Rightarrow> nat" where
  "next_sequence r = foldl max 0 (map ta_sequence (dvalues (ro_agents r))) + 1"

definition slot_generation :: "slot \<Rightarrow> roster \<Rightarrow> nat" where
  "slot_generation s r = length (filter (\<lambda>a. ta_slot a = s) (dvalues (ro_agents r)))"

definition new_agent :: "roster_env \<Rightarrow> instant \<Rightarrow> slot \<Rightarrow> roster \<Rightarrow> trader_agent res" where
  "new_agent env now s r =
     res_bind (params_for env (ro_lab_strategies r) s (slot_generation s r)) (\<lambda>params.
       let sequence = next_sequence r in
       Inr \<lparr>ta_agent_id = fst (agent_code sequence), ta_sequence = sequence, ta_name = snd (agent_code sequence), ta_slot = s,
        ta_params = params, ta_capital_brl = AGENT_STARTING_CAPITAL, ta_status = ACTIVE, ta_generation = slot_generation s r,
        ta_created_at = now, ta_eliminated_at = None, ta_elimination_reason = None, ta_book = book_new\<rparr>)"

definition spawn_agent :: "roster_env \<Rightarrow> instant \<Rightarrow> store_fate \<Rightarrow> slot \<Rightarrow> (roster, trader_agent) op" where
  "spawn_agent env now fate s r =
     (if REFERENCE_CAPITAL < dadd (allocated r) AGENT_STARTING_CAPITAL then (Inl AllocationRefused, r)
      else op_bind (op_lift (new_agent env now s r)) (\<lambda>a.
           op_bind (insert_agent fate a) (\<lambda>_.
           op_bind (op_modify (put_agent a)) (\<lambda>_. op_return a))) r)"

text \<open>The caller of \<^verbatim>\<open>_spawn\<close> that takes a refused allocation for no agent.\<close>

definition spawn_if_capital :: "roster_env \<Rightarrow> instant \<Rightarrow> store_fate \<Rightarrow> slot \<Rightarrow> (roster, trader_agent option) op" where
  "spawn_if_capital env now fate s =
     op_bind (op_try (spawn_agent env now fate s)) (\<lambda>outcome.
       case outcome of
         Inr a \<Rightarrow> op_return (Some a)
       | Inl AllocationRefused \<Rightarrow> op_return None
       | Inl e \<Rightarrow> op_raise e)"

definition seed_slot :: "roster_env \<Rightarrow> instant \<Rightarrow> (slot \<Rightarrow> store_fate) \<Rightarrow> slot \<Rightarrow> (roster, trader_agent option) op" where
  "seed_slot env now fates s r = (if active_for s r = None then spawn_if_capital env now (fates s) s r else (Inr None, r))"

definition seed :: "roster_env \<Rightarrow> instant \<Rightarrow> bool \<Rightarrow> (slot \<Rightarrow> store_fate) \<Rightarrow> (roster, trader_agent list) op" where
  "seed env now readable fates =
     op_bind (roster_load readable) (\<lambda>_.
     op_bind (op_read ro_slots) (\<lambda>slots.
     op_bind (op_iter (seed_slot env now fates) slots) (\<lambda>spawned. op_return (List.map_filter (\<lambda>x. x) spawned))))"

definition spawn :: "roster_env \<Rightarrow> instant \<Rightarrow> bool \<Rightarrow> store_fate \<Rightarrow> slot \<Rightarrow> (roster, trader_agent) op" where
  "spawn env now readable fate s =
     op_bind (roster_load readable) (\<lambda>_ r.
       if active_for s r \<noteq> None then (Inl (ValueError (''slot '' @ slot_key s @ '' already has an ACTIVE agent'')), r)
       else spawn_agent env now fate s r)"

definition retired :: "instant \<Rightarrow> string \<Rightarrow> trader_agent \<Rightarrow> trader_agent" where
  "retired now reason a = a\<lparr>ta_status := ELIMINATED, ta_eliminated_at := Some now, ta_elimination_reason := Some (take 200 reason)\<rparr>"

definition revived :: "trader_agent \<Rightarrow> trader_agent" where
  "revived a = a\<lparr>ta_status := ACTIVE, ta_eliminated_at := None, ta_elimination_reason := None\<rparr>"

definition retire_agent :: "instant \<Rightarrow> store_fate \<Rightarrow> string \<Rightarrow> trader_agent \<Rightarrow> (roster, trader_agent) op" where
  "retire_agent now fate reason a =
     (let dead = retired now reason a in
      op_bind (op_modify (put_agent dead)) (\<lambda>_.
      op_bind (op_try (roster_commit fate True (update_agent_row dead))) (\<lambda>outcome.
        case outcome of
          Inr _ \<Rightarrow> op_return dead
        | Inl e \<Rightarrow> op_bind (op_modify (put_agent (revived dead))) (\<lambda>_. op_raise e))))"

definition eliminate :: "roster_env \<Rightarrow> instant \<Rightarrow> bool \<Rightarrow> store_fate \<Rightarrow> store_fate \<Rightarrow> string \<Rightarrow> string \<Rightarrow>
     (roster, trader_agent \<times> trader_agent option) op" where
  "eliminate env now readable fate fate' agent_id reason =
     op_bind (roster_load readable) (\<lambda>_.
     op_bind (op_read (\<lambda>r. dget (ro_agents r) agent_id)) (\<lambda>found.
       case found of
         None \<Rightarrow> op_raise (AgentEliminated agent_id)
       | Some a \<Rightarrow>
           if \<not> agent_active a then op_raise (AgentEliminated agent_id)
           else op_bind (retire_agent now fate reason a) (\<lambda>dead.
                op_bind (spawn_if_capital env now fate' (ta_slot dead)) (\<lambda>replacement. op_return (dead, replacement)))))"

section \<open>Attribution\<close>

definition attribute :: "bool \<Rightarrow> store_fate \<Rightarrow> string \<Rightarrow> string \<Rightarrow> string \<Rightarrow> string \<Rightarrow> string option \<Rightarrow> (roster, unit) op" where
  "attribute readable fate intent_id agent_id instrument_id sd cid =
     op_bind (roster_load readable) (\<lambda>_ r.
       if \<not> admit agent_id r then (Inl (AgentEliminated agent_id), r)
       else if dget (ro_attributions r) intent_id \<noteq> None then (Inr (), r)
       else let x = \<lparr>an_intent_id = intent_id, an_agent_id = agent_id, an_instrument_id = instrument_id, an_side = sd,
                     an_client_order_id = cid, an_applied_quantity = 0, an_applied_notional = 0, an_applied_fee = 0\<rparr>
            in op_bind (insert_order fate x) (\<lambda>_. op_modify (\<lambda>r. r\<lparr>ro_attributions := dset intent_id x (ro_attributions r)\<rparr>)) r)"

text \<open>
  \<^verbatim>\<open>_dec\<close> of a field of an order: what cannot be read as a decimal counts as zero. A finite decimal is assumed: the texts of
  infinities and of not-a-number, on which the comparisons of \<^verbatim>\<open>apply_order\<close> would raise, have no value here.
\<close>

definition order_decimal :: "roster_env \<Rightarrow> json \<Rightarrow> rat" where
  "order_decimal env j =
     (case (case j of JStr t \<Rightarrow> if t = [] then None else re_decimal env t | JFloat (Some t) \<Rightarrow> re_decimal env t
              | JInt n \<Rightarrow> Some (of_int n) | _ \<Rightarrow> None) of
        None \<Rightarrow> 0 | Some x \<Rightarrow> x)"

definition text_or :: "roster_env \<Rightarrow> json \<Rightarrow> string \<Rightarrow> string" where
  "text_or env j other = (if json_true j then (case j of JStr t \<Rightarrow> t | _ \<Rightarrow> re_str env j) else other)"

record fill_state =
  fs_filled :: rat
  fs_notional :: rat
  fs_fee :: rat

definition order_fills :: "roster_env \<Rightarrow> json_dict \<Rightarrow> fill_state" where
  "order_fills env order =
     (let filled = order_decimal env (jget order ''filled_quantity'') in
      \<lparr>fs_filled = filled,
       fs_notional = (if jget order ''filled_notional'' \<notin> {JNull, JStr []} then order_decimal env (jget order ''filled_notional'')
                      else if filled \<noteq> 0 then dmul filled (order_decimal env (jget order ''average_price'')) else 0),
       fs_fee = order_decimal env (jget order ''fee'')\<rparr>)"

text \<open>The book with the part of the order that was not applied yet, and the attribution that says so.\<close>

definition fold_order :: "roster_env \<Rightarrow> tradable_instrument option \<Rightarrow> json_dict \<Rightarrow> attribution \<Rightarrow> trader_agent \<Rightarrow> attribution \<times> trader_agent" where
  "fold_order env instrument order x a =
     (let f = order_fills env order;
          delta_q = dsub (fs_filled f) (an_applied_quantity x);
          delta_n = dsub (fs_notional f) (an_applied_notional x);
          delta_f = dsub (fs_fee f) (an_applied_fee x);
          in_base = (case instrument of None \<Rightarrow> False | Some i \<Rightarrow> jget order ''fee_asset'' = JStr (ti_base_asset i));
          sd = text_or env (jget order ''side'') (an_side x)
      in (x\<lparr>an_client_order_id := (if json_true (jget order ''client_order_id'') then Some (text_or env (jget order ''client_order_id'') [])
                                   else an_client_order_id x),
            an_applied_quantity := fs_filled f, an_applied_notional := fs_notional f, an_applied_fee := fs_fee f\<rparr>,
          a\<lparr>ta_book := snd (apply_fill sd delta_q delta_n (if in_base then 0 else delta_f) (if in_base then delta_f else 0) (ta_book a))\<rparr>))"

definition moves_book :: "roster_env \<Rightarrow> json_dict \<Rightarrow> attribution \<Rightarrow> bool" where
  "moves_book env order x \<longleftrightarrow>
     (let f = order_fills env order; delta_q = dsub (fs_filled f) (an_applied_quantity x); delta_f = dsub (fs_fee f) (an_applied_fee x)
      in \<not> (delta_q < 0 \<or> delta_f < 0) \<and> \<not> (delta_q = 0 \<and> delta_f = 0))"

definition save_fold :: "store_fate \<Rightarrow> attribution \<Rightarrow> trader_agent \<Rightarrow> trader_agent \<Rightarrow> (roster, unit) op" where
  "save_fold fate x before after =
     op_bind (op_modify (put_agent after)) (\<lambda>_.
     op_bind (op_try (roster_commit fate True (\<lambda>r. update_order_row x (update_agent_row after r)))) (\<lambda>outcome.
       case outcome of
         Inl e \<Rightarrow> op_bind (op_modify (put_agent (after\<lparr>ta_book := ta_book before\<rparr>))) (\<lambda>_. op_raise e)
       | Inr _ \<Rightarrow> op_modify (\<lambda>r. r\<lparr>ro_attributions := dset (an_intent_id x) x (ro_attributions r)\<rparr>)))"

text \<open>Whether a fill was applied.\<close>

definition apply_order :: "roster_env \<Rightarrow> bool \<Rightarrow> store_fate \<Rightarrow> tradable_instrument option \<Rightarrow> json_dict \<Rightarrow> (roster, bool) op" where
  "apply_order env readable fate instrument order =
     op_bind (roster_load readable) (\<lambda>_ r.
       case dget (ro_attributions r) (text_or env (jget order ''intent_id'') []) of
         None \<Rightarrow> (Inr False, r)
       | Some x \<Rightarrow>
           (case dget (ro_agents r) (an_agent_id x) of
              None \<Rightarrow> (Inr False, r)
            | Some a \<Rightarrow>
                if \<not> moves_book env order x then (Inr False, r)
                else (case fold_order env instrument order x a of
                        (x', a') \<Rightarrow> op_bind (save_fold fate x' a a') (\<lambda>_. op_return True) r)))"

text \<open>A new process over the same tables.\<close>

definition roster_restart :: "roster \<Rightarrow> roster" where
  "roster_restart r = roster_new (ro_durable r) (ro_slots r) (ro_lab_strategies r)
     (if ro_durable r then ro_agent_rows r else []) (if ro_durable r then ro_order_rows r else [])"

datatype roster_step =
    Seed instant bool "slot \<Rightarrow> store_fate"
  | Spawn instant bool store_fate slot
  | Eliminate instant bool store_fate store_fate string string
  | Attribute bool store_fate string string string string "string option"
  | Apply_Order bool store_fate "tradable_instrument option" json_dict
  | Roster_Load bool
  | Roster_Restart

fun roster_next :: "roster_env \<Rightarrow> roster_step \<Rightarrow> roster \<Rightarrow> roster" where
  "roster_next env (Seed now readable fates) r = snd (seed env now readable fates r)"
| "roster_next env (Spawn now readable fate s) r = snd (spawn env now readable fate s r)"
| "roster_next env (Eliminate now readable fate fate' agent_id reason) r = snd (eliminate env now readable fate fate' agent_id reason r)"
| "roster_next env (Attribute readable fate intent_id agent_id instrument_id sd cid) r =
     snd (attribute readable fate intent_id agent_id instrument_id sd cid r)"
| "roster_next env (Apply_Order readable fate instrument order) r = snd (apply_order env readable fate instrument order r)"
| "roster_next env (Roster_Load readable) r = snd (roster_load readable r)"
| "roster_next env Roster_Restart r = roster_restart r"

definition roster_run :: "roster_env \<Rightarrow> roster_step list \<Rightarrow> roster \<Rightarrow> roster" where
  "roster_run env steps r = foldl (\<lambda>r s. roster_next env s r) r steps"

section \<open>Codes are never reused\<close>

lemma digits_val_zeros: "digits_val (replicate n CHR ''0'' @ s) = digits_val s"
  by (induction n) simp_all

lemma agent_code_inj: "fst (agent_code m) = fst (agent_code n) \<Longrightarrow> m = n"
proof -
  have read: "digits_val (takeWhile (\<lambda>c. c \<noteq> CHR ''-'') (drop 3 (fst (agent_code k)))) = k" for k
  proof -
    have "takeWhile (\<lambda>c. c \<noteq> CHR ''-'') ((replicate (4 - length (nat_str k)) CHR ''0'' @ nat_str k) @ CHR ''-'' # rest)
        = replicate (4 - length (nat_str k)) CHR ''0'' @ nat_str k" for rest
      using nat_str_chars(2)[of k] by (subst takeWhile_append2) auto
    then show ?thesis by (simp add: agent_code_def Let_def digits_val_zeros del: digits_val.simps)
  qed
  show "fst (agent_code m) = fst (agent_code n) \<Longrightarrow> m = n" using read[of m] read[of n] by simp
qed

section \<open>What every roster keeps\<close>

definition agents_of :: "roster \<Rightarrow> trader_agent set" where
  "agents_of r = set (dvalues (ro_agents r))"

lemma agents_of_finite [simp]: "finite (agents_of r)"
  by (simp add: agents_of_def)

abbreviation rows_of :: "roster \<Rightarrow> trader_agent set" where
  "rows_of r \<equiv> set (ro_agent_rows r)"

definition actives :: "trader_agent set \<Rightarrow> trader_agent set" where
  "actives A = {a \<in> A. agent_active a}"

text \<open>At most one active agent per slot, and at most as many as the reference capital pays for.\<close>

definition within_capital :: "trader_agent set \<Rightarrow> bool" where
  "within_capital A \<longleftrightarrow> inj_on ta_slot (actives A) \<and> card (actives A) \<le> 50"

definition agent_ok :: "trader_agent \<Rightarrow> bool" where
  "agent_ok a \<longleftrightarrow> ta_agent_id a = fst (agent_code (ta_sequence a)) \<and> ta_capital_brl a = AGENT_STARTING_CAPITAL \<and> 0 \<le> ab_quantity (ta_book a)"

text \<open>
  The memory is keyed by code and every agent of it has its row; a row that is active stands for an active agent in memory
  or for the one agent whose insertion was not acknowledged, which has the next sequence number.
\<close>

definition linked :: "roster \<Rightarrow> bool" where
  "linked r \<longleftrightarrow> (\<forall>a\<in>agents_of r. \<forall>b\<in>rows_of r. ta_agent_id b = ta_agent_id a \<longrightarrow> ta_slot b = ta_slot a \<and> (agent_active b \<longrightarrow> agent_active a))
     \<and> (\<forall>g\<in>rows_of r. ta_agent_id g \<notin> ta_agent_id ` agents_of r \<longrightarrow>
          ta_sequence g = next_sequence r \<and> ta_slot g \<notin> ta_slot ` actives (agents_of r) \<and> card (actives (agents_of r)) < 50)"

definition roster_ok :: "roster \<Rightarrow> bool" where
  "roster_ok r \<longleftrightarrow> ro_durable r \<and> dict_ok (ro_agents r) \<and> list_all (\<lambda>(k, a). ta_agent_id a = k) (ro_agents r)
     \<and> (\<forall>a \<in> agents_of r \<union> rows_of r. agent_ok a) \<and> distinct (map ta_agent_id (ro_agent_rows r))
     \<and> ta_agent_id ` agents_of r \<subseteq> ta_agent_id ` rows_of r
     \<and> (if ro_loaded r then within_capital (agents_of r) \<and> linked r else ro_agents r = [] \<and> within_capital (rows_of r))"

lemma roster_okD:
  assumes "roster_ok r"
  shows "ro_durable r" "dict_ok (ro_agents r)" "\<And>k a. dget (ro_agents r) k = Some a \<Longrightarrow> ta_agent_id a = k \<and> a \<in> agents_of r"
    "\<And>a. a \<in> agents_of r \<Longrightarrow> dget (ro_agents r) (ta_agent_id a) = Some a"
    "\<And>a. a \<in> agents_of r \<union> rows_of r \<Longrightarrow> agent_ok a" "distinct (map ta_agent_id (ro_agent_rows r))"
    "ta_agent_id ` agents_of r \<subseteq> ta_agent_id ` rows_of r"
    "ro_loaded r \<Longrightarrow> within_capital (agents_of r)" "ro_loaded r \<Longrightarrow> linked r"
    "\<not> ro_loaded r \<Longrightarrow> ro_agents r = []" "\<not> ro_loaded r \<Longrightarrow> within_capital (rows_of r)"
  using assms unfolding roster_ok_def
  by (auto simp: agents_of_def list_all_iff dest!: map_of_SomeD intro!: map_of_is_SomeI intro: rev_image_eqI)

lemma actives_finite [simp]: "finite A \<Longrightarrow> finite (actives A)"
  by (simp add: actives_def)

lemma same_code: "agent_ok a \<Longrightarrow> agent_ok b \<Longrightarrow> ta_agent_id a = ta_agent_id b \<longleftrightarrow> ta_sequence a = ta_sequence b"
  using agent_code_inj by (auto simp: agent_ok_def)

lemma foldl_max: "foldl max m xs = Max (insert m (set xs))" for m :: nat
proof (induction xs arbitrary: m)
  case (Cons x xs)
  have "Max (insert m (insert x (set xs))) = max m (Max (insert x (set xs)))" by (subst Max_insert) simp_all
  also have "\<dots> = Max (insert (max m x) (set xs))"
    by (cases "xs = []") (simp_all add: Max_insert max.assoc)
  finally show ?case using Cons by simp
qed simp

lemma next_sequence_eq: "next_sequence r = Max (insert 0 (ta_sequence ` agents_of r)) + 1"
  by (simp add: next_sequence_def foldl_max agents_of_def image_image)

lemma next_sequence_fresh: "a \<in> agents_of r \<Longrightarrow> ta_sequence a < next_sequence r"
  unfolding next_sequence_eq by (simp add: less_Suc_eq_le Max_ge_iff)

text \<open>Bounds carry over along an injection that keeps the slots.\<close>

lemma within_capital_transfer:
  assumes "within_capital A" "finite A" "inj_on \<phi> (actives B)"
    and \<phi>: "\<And>x. x \<in> actives B \<Longrightarrow> \<phi> x \<in> actives A \<and> ta_slot (\<phi> x) = ta_slot x"
  shows "inj_on ta_slot (actives B)" "card (actives B) \<le> card (actives A)" "ta_slot ` actives B \<subseteq> ta_slot ` actives A"
    "within_capital B"
proof -
  have inj: "inj_on ta_slot (actives A)" and le: "card (actives A) \<le> 50" using assms(1) by (simp_all add: within_capital_def)
  show slots: "inj_on ta_slot (actives B)"
  proof (rule inj_onI)
    fix x y assume xy: "x \<in> actives B" "y \<in> actives B" "ta_slot x = ta_slot y"
    have "\<phi> x = \<phi> y" using inj_onD[OF inj, of "\<phi> x" "\<phi> y"] \<phi>[OF xy(1)] \<phi>[OF xy(2)] xy(3) by simp
    then show "x = y" using inj_onD[OF assms(3)] xy by blast
  qed
  show card: "card (actives B) \<le> card (actives A)" using \<phi> assms(2,3) by (intro card_inj_on_le[of \<phi>]) auto
  show "ta_slot ` actives B \<subseteq> ta_slot ` actives A" using \<phi> by (metis image_subsetI imageI)
  show "within_capital B" using slots card le by (simp add: within_capital_def)
qed

text \<open>The table is within the capital too, whether or not it was loaded.\<close>

lemma rows_within_capital:
  assumes "roster_ok r"
  shows "within_capital (rows_of r)"
proof (cases "ro_loaded r")
  case False
  then show ?thesis using roster_okD(11)[OF assms] by simp
next
  case True
  note d = roster_okD[OF assms]
  note cap = d(8)[OF True] and link = d(9)[OF True]
  define known where "known = {b \<in> rows_of r. ta_agent_id b \<in> ta_agent_id ` agents_of r}"
  define twin where "twin b = the (dget (ro_agents r) (ta_agent_id b))" for b :: trader_agent
  have rows_inj: "inj_on ta_agent_id (rows_of r)" using d(6) by (simp add: distinct_map)
  have twin: "twin b \<in> actives (agents_of r) \<and> ta_agent_id (twin b) = ta_agent_id b \<and> ta_slot (twin b) = ta_slot b" if "b \<in> actives known" for b
  proof -
    from that obtain a where a: "a \<in> agents_of r" "ta_agent_id b = ta_agent_id a" "b \<in> rows_of r" "agent_active b"
      by (auto simp: known_def actives_def)
    then have "twin b = a" using d(4)[OF a(1)] by (simp add: twin_def)
    then show ?thesis using a link by (auto simp: linked_def actives_def)
  qed
  have "inj_on twin (actives known)"
  proof (rule inj_onI)
    fix b c assume bc: "b \<in> actives known" "c \<in> actives known" "twin b = twin c"
    then have "ta_agent_id b = ta_agent_id c" using twin by metis
    then show "b = c" using inj_onD[OF rows_inj] bc by (auto simp: actives_def known_def)
  qed
  note known = within_capital_transfer[OF cap agents_of_finite this conjI[OF conjunct1[OF twin] conjunct2[OF conjunct2[OF twin]]]]
  have ghost: "ta_sequence g = next_sequence r \<and> ta_slot g \<notin> ta_slot ` actives (agents_of r) \<and> card (actives (agents_of r)) < 50"
    if "g \<in> rows_of r" "g \<notin> known" for g using that link by (auto simp: known_def linked_def)
  have one_ghost: "g = h" if "g \<in> rows_of r" "g \<notin> known" "h \<in> rows_of r" "h \<notin> known" for g h
    using inj_onD[OF rows_inj] same_code[of g h] ghost[OF that(1,2)] ghost[OF that(3,4)] d(5) that by simp
  show ?thesis
  proof (cases "actives (rows_of r) \<subseteq> known")
    case True
    then have "actives (rows_of r) = actives known" by (auto simp: known_def actives_def)
    then show ?thesis using known(4) by (simp add: within_capital_def)
  next
    case False
    then obtain g where g: "g \<in> rows_of r" "g \<notin> known" "agent_active g" by (auto simp: actives_def)
    then have "actives (rows_of r) = insert g (actives known)" using one_ghost by (auto simp: known_def actives_def)
    moreover have "ta_slot g \<notin> ta_slot ` actives known" "card (actives known) < 50" "finite (actives known)"
      using ghost[OF g(1,2)] known(2,3) by (auto simp: known_def)
    ultimately show ?thesis using known(1) by (auto simp: within_capital_def card_insert_if)
  qed
qed

section \<open>Every operation keeps it\<close>

lemma put_agents_of:
  assumes "roster_ok r"
  shows "set (dvalues (dset (ta_agent_id a) a (ro_agents r))) = insert a {b \<in> agents_of r. ta_agent_id b \<noteq> ta_agent_id a}"
proof -
  note d = roster_okD[OF assms]
  have ok: "dict_ok (dset (ta_agent_id a) a (ro_agents r))" using d(2) by simp
  have "b \<in> set (dvalues (dset (ta_agent_id a) a (ro_agents r))) \<longleftrightarrow> (\<exists>k. dget (dset (ta_agent_id a) a (ro_agents r)) k = Some b)" for b
    unfolding map_of_eq_Some_iff[OF ok] set_map by force
  then have "set (dvalues (dset (ta_agent_id a) a (ro_agents r))) = {b. \<exists>k. (if k = ta_agent_id a then Some a else dget (ro_agents r) k) = Some b}"
    by (simp only: dget_dset set_eq_iff mem_Collect_eq) simp
  also have "\<dots> = insert a {b \<in> agents_of r. ta_agent_id b \<noteq> ta_agent_id a}"
    using d(3,4) by (auto split: if_splits)
  finally show ?thesis .
qed

lemma put_keyed:
  "list_all (\<lambda>(k, a). ta_agent_id a = k) d \<Longrightarrow> list_all (\<lambda>(k, a). ta_agent_id a = k) (dset (ta_agent_id a) a d)"
  by (induction d) auto

text \<open>An agent is replaced in memory, and its row by another one, by one of the same code, slot and capital.\<close>

definition same_agent :: "trader_agent \<Rightarrow> trader_agent \<Rightarrow> bool" where
  "same_agent a b \<longleftrightarrow> ta_agent_id b = ta_agent_id a \<and> ta_sequence b = ta_sequence a \<and> ta_slot b = ta_slot a \<and> agent_ok b"

definition replaced :: "trader_agent \<Rightarrow> (trader_agent \<Rightarrow> trader_agent) \<Rightarrow> roster \<Rightarrow> roster" where
  "replaced a f r = r\<lparr>ro_agents := dset (ta_agent_id a) a (ro_agents r),
     ro_agent_rows := map (\<lambda>b. if ta_agent_id b = ta_agent_id a then f b else b) (ro_agent_rows r)\<rparr>"

lemma replaced_bounds:
  assumes ok: "roster_ok r" "ro_loaded r" and a: "a \<in> agents_of r" "same_agent a a'" "agent_active a' \<longrightarrow> agent_active a"
  shows "within_capital (agents_of (replaced a' f r))" "ta_slot ` actives (agents_of (replaced a' f r)) \<subseteq> ta_slot ` actives (agents_of r)"
    "card (actives (agents_of (replaced a' f r))) \<le> card (actives (agents_of r))"
    "ta_agent_id ` agents_of (replaced a' f r) = ta_agent_id ` agents_of r" "next_sequence (replaced a' f r) = next_sequence r"
proof -
  let ?B = "agents_of (replaced a' f r)"
  have B: "?B = insert a' {b \<in> agents_of r. ta_agent_id b \<noteq> ta_agent_id a}"
    using put_agents_of[OF ok(1), of a'] a(2) by (simp add: replaced_def agents_of_def same_agent_def)
  define \<phi> where "\<phi> x = (if x = a' then a else x)" for x
  have \<phi>: "\<phi> x \<in> actives (agents_of r) \<and> ta_slot (\<phi> x) = ta_slot x" if "x \<in> actives ?B" for x
    using that a by (auto simp: \<phi>_def actives_def B same_agent_def)
  have fresh: "x = a' \<or> x \<noteq> a" if "x \<in> actives ?B" for x using that by (auto simp: B actives_def)
  have inj: "inj_on \<phi> (actives ?B)"
  proof (rule inj_onI)
    fix x y assume "x \<in> actives ?B" "y \<in> actives ?B" "\<phi> x = \<phi> y"
    then show "x = y" using fresh[of x] fresh[of y] by (simp add: \<phi>_def split: if_splits)
  qed
  note t = within_capital_transfer[OF roster_okD(8)[OF ok] agents_of_finite inj \<phi>]
  show "within_capital ?B" by (rule t(4))
  show "ta_slot ` actives ?B \<subseteq> ta_slot ` actives (agents_of r)" by (rule t(3))
  show "card (actives ?B) \<le> card (actives (agents_of r))" by (rule t(2))
  have other: "x = a" if "x \<in> agents_of r" "ta_agent_id x = ta_agent_id a" for x
    using roster_okD(4)[OF ok(1) that(1), unfolded that(2)] roster_okD(4)[OF ok(1) a(1)] by (simp only: option.inject)
  have A: "insert a {b \<in> agents_of r. ta_agent_id b \<noteq> ta_agent_id a} = agents_of r"
    by (rule set_eqI) (use other a(1) in blast)
  have ids: "ta_agent_id a' = ta_agent_id a" "ta_sequence a' = ta_sequence a" using a(2) by (simp_all add: same_agent_def)
  show "ta_agent_id ` ?B = ta_agent_id ` agents_of r"
    unfolding B image_insert ids using arg_cong[OF A, of "image ta_agent_id"] by (simp only: image_insert)
  have "ta_sequence ` ?B = ta_sequence ` agents_of r"
    unfolding B image_insert ids using arg_cong[OF A, of "image ta_sequence"] by (simp only: image_insert)
  then show "next_sequence (replaced a' f r) = next_sequence r" by (simp add: next_sequence_eq)
qed


lemma replaced_rows:
  assumes "roster_ok r" "ro_loaded r" "a \<in> agents_of r" "same_agent a a'"
    and f: "\<forall>b\<in>rows_of r. ta_agent_id b = ta_agent_id a \<longrightarrow> same_agent b (f b)"
  shows "map ta_agent_id (ro_agent_rows (replaced a' f r)) = map ta_agent_id (ro_agent_rows r)"
    "\<And>b. b \<in> rows_of (replaced a' f r) \<Longrightarrow> agent_ok b"
    "\<And>b. b \<in> rows_of (replaced a' f r) \<Longrightarrow> ta_agent_id b \<noteq> ta_agent_id a \<Longrightarrow> b \<in> rows_of r"
    "\<And>b. b \<in> rows_of (replaced a' f r) \<Longrightarrow> ta_agent_id b = ta_agent_id a \<Longrightarrow> \<exists>c\<in>rows_of r. ta_agent_id c = ta_agent_id a \<and> b = f c"
  using assms roster_okD(5)[OF assms(1)] by (auto simp: replaced_def same_agent_def)

lemma roster_ok_replaced:
  assumes ok: "roster_ok r" "ro_loaded r" and a: "a \<in> agents_of r" "same_agent a a'" "agent_active a' \<longrightarrow> agent_active a"
    and f: "\<And>b. b \<in> rows_of r \<Longrightarrow> ta_agent_id b = ta_agent_id a \<Longrightarrow> same_agent b (f b) \<and> (agent_active (f b) \<longrightarrow> agent_active a')"
  shows "roster_ok (replaced a' f r)"
proof -
  let ?r = "replaced a' f r"
  note b = replaced_bounds[OF ok a, of f] and d = roster_okD[OF ok(1)]
  have same: "\<forall>b\<in>rows_of r. ta_agent_id b = ta_agent_id a \<longrightarrow> same_agent b (f b)" using f by blast
  note rows = replaced_rows[OF ok a(1,2) same]
  have B: "agents_of ?r = insert a' {b \<in> agents_of r. ta_agent_id b \<noteq> ta_agent_id a}"
    using put_agents_of[OF ok(1), of a'] a(2) by (simp add: replaced_def agents_of_def same_agent_def)
  have link: "linked r" by (rule d(9)[OF ok(2)])
  have slots: "ta_slot c = ta_slot x" "agent_active c \<Longrightarrow> agent_active x"
    if xc: "x \<in> agents_of ?r" "c \<in> rows_of ?r" "ta_agent_id c = ta_agent_id x" for x c
  proof -
    have "ta_slot c = ta_slot x \<and> (agent_active c \<longrightarrow> agent_active x)"
    proof (cases "x = a'")
      case True
      then obtain c' where c': "c' \<in> rows_of r" "ta_agent_id c' = ta_agent_id a" "c = f c'"
        using rows(4)[OF xc(2)] xc(3) a(2) by (auto simp: same_agent_def)
      then show ?thesis using f[OF c'(1,2)] link a True by (auto simp: same_agent_def linked_def)
    next
      case False
      then have "x \<in> agents_of r" "ta_agent_id x \<noteq> ta_agent_id a" using xc(1) B by auto
      then show ?thesis using rows(3)[OF xc(2)] xc(3) link by (auto simp: linked_def)
    qed
    then show "ta_slot c = ta_slot x" "agent_active c \<Longrightarrow> agent_active x" by auto
  qed
  have ghosts: "ta_sequence g = next_sequence ?r \<and> ta_slot g \<notin> ta_slot ` actives (agents_of ?r) \<and> card (actives (agents_of ?r)) < 50"
    if "g \<in> rows_of ?r" "ta_agent_id g \<notin> ta_agent_id ` agents_of ?r" for g
  proof -
    have "ta_agent_id g \<notin> ta_agent_id ` agents_of r" using that(2) b(4) by simp
    then have "g \<in> rows_of r" using rows(3)[OF that(1)] a(1) by auto
    then have "ta_sequence g = next_sequence r" "ta_slot g \<notin> ta_slot ` actives (agents_of r)" "card (actives (agents_of r)) < 50"
      using \<open>ta_agent_id g \<notin> ta_agent_id ` agents_of r\<close> link by (auto simp: linked_def)
    then show ?thesis using b(2,3) unfolding b(5) by (meson le_less_trans subsetD)
  qed
  have "linked ?r" unfolding linked_def using slots ghosts by blast
  moreover have "list_all (\<lambda>(k, a). ta_agent_id a = k) (ro_agents ?r)" "dict_ok (ro_agents ?r)" "ro_durable ?r" "ro_loaded ?r"
    using ok put_keyed[of "ro_agents r" a'] by (simp_all add: replaced_def roster_ok_def)
  moreover have "agent_ok x" if "x \<in> agents_of ?r \<union> rows_of ?r" for x
    using that rows(2) a(2) d(5) B by (auto simp: same_agent_def)
  moreover have "ta_agent_id ` agents_of ?r \<subseteq> ta_agent_id ` rows_of ?r"
    using d(7) b(4) arg_cong[OF rows(1), of set] by (simp add: image_image)
  ultimately show ?thesis unfolding roster_ok_def using b(1) rows(1) d(6) by simp
qed


text \<open>Loading takes the table over; it is the only way into memory.\<close>

lemma foldl_rows:
  assumes "distinct (map ta_agent_id rows)"
  shows "foldl (\<lambda>d a. dset (ta_agent_id a) a d) [] rows = map (\<lambda>a. (ta_agent_id a, a)) rows"
  using assms
proof (induction rows rule: rev_induct)
  case (snoc a rows)
  then have "dget (map (\<lambda>a. (ta_agent_id a, a)) rows) (ta_agent_id a) = None" by (auto simp: map_of_eq_None_iff image_image)
  then show ?case using snoc by (simp add: dset_fresh)
qed simp

lemma roster_ok_load:
  assumes "roster_ok r" "roster_load readable r = (out, r')"
  shows "roster_ok r'" "out = Inr () \<Longrightarrow> ro_loaded r'"
proof -
  note d = roster_okD[OF assms(1)]
  have "roster_ok r' \<and> (out = Inr () \<longrightarrow> ro_loaded r')"
  proof (cases "ro_loaded r \<or> \<not> readable")
    case True
    then show ?thesis using assms d(1) by (auto simp: roster_load_def split: if_splits)
  next
    case False
    then have r': "r' = r\<lparr>ro_agents := map (\<lambda>a. (ta_agent_id a, a)) (ro_agent_rows r),
        ro_attributions := foldl (\<lambda>d x. dset (an_intent_id x) x d) (ro_attributions r) (ro_order_rows r), ro_loaded := True\<rparr>"
      using assms(2) d(1) d(10) foldl_rows[OF d(6)] by (auto simp: roster_load_def split: if_splits)
    have A: "agents_of r' = rows_of r" by (simp add: r' agents_of_def image_image)
    have rows: "rows_of r' = rows_of r" by (simp add: r')
    have "linked r'"
      unfolding linked_def A rows using d(6) by (auto simp: distinct_map dest: inj_onD)
    then show ?thesis using d rows_within_capital[OF assms(1)] False
      by (auto simp: roster_ok_def A r' list_all_iff comp_def agents_of_def image_image)
  qed
  then show "roster_ok r'" "out = Inr () \<Longrightarrow> ro_loaded r'" by auto
qed

text \<open>The capital that is allocated counts the active agents.\<close>

lemma sum_capital: "n \<le> 1000 \<Longrightarrow> foldl dadd 0 (replicate n AGENT_STARTING_CAPITAL) = 200 * of_nat n"
proof (induction n)
  case (Suc n)
  have "on_grid 0 (200 * of_nat n + 200 :: rat)" by (simp add: on_grid_def)
  moreover have "\<bar>200 * of_nat n + 200 :: rat\<bar> * 10 ^ 0 \<le> 10 ^ 28" using Suc.prems by (simp add: abs_if)
  ultimately have "dadd (200 * of_nat n) 200 = 200 * of_nat n + 200" unfolding dadd_def by (rule dec_fix_grid)
  moreover have "foldl dadd 0 (replicate (Suc n) AGENT_STARTING_CAPITAL) = dadd (foldl dadd 0 (replicate n AGENT_STARTING_CAPITAL)) 200"
    unfolding replicate_append_same [symmetric] replicate_Suc by (simp add: AGENT_STARTING_CAPITAL_def)
  ultimately show ?case using Suc by simp
qed simp

lemma allocated_eq:
  assumes "roster_ok r" "ro_loaded r"
  shows "allocated r = 200 * of_nat (card (actives (agents_of r)))"
proof -
  note d = roster_okD[OF assms(1)]
  have "distinct (map ta_agent_id (dvalues (ro_agents r)))"
  proof -
    have "map ta_agent_id (dvalues (ro_agents r)) = dkeys (ro_agents r)"
      using assms(1) by (auto simp: roster_ok_def list_all_iff)
    then show ?thesis using d(2) by (simp only:)
  qed
  then have "distinct (dvalues (ro_agents r))" by (rule conjunct1[OF iffD1[OF distinct_map]])
  then have dist: "distinct (filter agent_active (dvalues (ro_agents r)))" by (rule distinct_filter)
  have card: "card (actives (agents_of r)) = length (filter agent_active (dvalues (ro_agents r)))"
    unfolding distinct_card[OF dist, symmetric] actives_def agents_of_def by (simp only: set_filter)
  have "map ta_capital_brl (filter agent_active (dvalues (ro_agents r))) = replicate (card (actives (agents_of r))) AGENT_STARTING_CAPITAL"
  proof -
    have "x = AGENT_STARTING_CAPITAL" if x: "x \<in> set (map ta_capital_brl (filter agent_active (dvalues (ro_agents r))))" for x
    proof -
      obtain a where "a \<in> agents_of r" "x = ta_capital_brl a" using x by (auto simp: agents_of_def)
      then show ?thesis using d(5)[of a] by (simp add: agent_ok_def)
    qed
    then show ?thesis unfolding card by (metis length_map replicate_length_same)
  qed
  then show ?thesis
    using sum_capital[of "card (actives (agents_of r))"] d(8)[OF assms(2)] by (simp add: allocated_def within_capital_def)
qed


text \<open>A new agent: inserted and acknowledged, or inserted without the process knowing.\<close>

definition newcomer :: "slot \<Rightarrow> roster \<Rightarrow> trader_agent \<Rightarrow> bool" where
  "newcomer s r a \<longleftrightarrow> agent_ok a \<and> ta_sequence a = next_sequence r \<and> ta_slot a = s \<and> agent_active a"

lemma new_agent_newcomer: "new_agent env now s r = Inr a \<Longrightarrow> newcomer s r a"
  by (auto simp: new_agent_def newcomer_def agent_ok_def book_new_def Let_def res_bind_Inr_conv)

lemma roster_ok_inserted:
  assumes ok: "roster_ok r" "ro_loaded r" and a: "newcomer s r a" "s \<notin> ta_slot ` actives (agents_of r)" "card (actives (agents_of r)) < 50"
    and fresh: "\<And>b. b \<in> rows_of r \<Longrightarrow> ta_sequence b \<noteq> ta_sequence a"
  shows "roster_ok (r\<lparr>ro_agent_rows := ro_agent_rows r @ [a]\<rparr>)" (is "roster_ok ?g")
    and "roster_ok (put_agent a (r\<lparr>ro_agent_rows := ro_agent_rows r @ [a]\<rparr>))" (is "roster_ok ?p")
proof -
  note d = roster_okD[OF ok(1)]
  note link = d(9)[OF ok(2)] and cap = d(8)[OF ok(2)]
  have a_ok: "agent_ok a" "ta_sequence a = next_sequence r" "ta_slot a = s" "agent_active a" using a(1) by (simp_all add: newcomer_def)
  have ids: "ta_agent_id b \<noteq> ta_agent_id a" if "b \<in> rows_of r" for b using same_code[of b a] fresh[OF that] d(5) that a_ok(1) by simp
  have mem_ids: "ta_agent_id b \<noteq> ta_agent_id a" if "b \<in> agents_of r" for b
    using same_code[of b a] next_sequence_fresh[OF that] d(5) that a_ok(1,2) by simp
  have no_ghost: "ta_agent_id b \<in> ta_agent_id ` agents_of r" if "b \<in> rows_of r" for b
    using link fresh[OF that] that a_ok(2) unfolding linked_def by metis
  have "agents_of ?g = agents_of r" "next_sequence ?g = next_sequence r" by (simp_all add: agents_of_def next_sequence_def)
  moreover have new: "ta_agent_id a \<notin> ta_agent_id ` agents_of r" "ta_agent_id a \<notin> ta_agent_id ` rows_of r" using ids mem_ids by (metis imageE)+
  ultimately have "linked ?g" using link a(2,3) a_ok(2,3) no_ghost unfolding linked_def by (simp add: image_iff)
  then show "roster_ok ?g"
    using ok d(5,6,7) cap new(2) a_ok(1) \<open>agents_of ?g = agents_of r\<close> by (auto simp: roster_ok_def)
  have P: "agents_of ?p = insert a (agents_of r)"
    using put_agents_of[OF ok(1), of a] mem_ids by (auto simp: put_agent_def agents_of_def)
  have act: "actives (agents_of ?p) = insert a (actives (agents_of r))" using a_ok(4) by (auto simp: P actives_def)
  have "a \<notin> agents_of r" using mem_ids by blast
  then have "within_capital (agents_of ?p)"
    using cap a a_ok(3) unfolding within_capital_def act by (auto simp: card_insert_if)
  moreover have "linked ?p"
    using link ids new(1) no_ghost unfolding linked_def P by (auto simp: put_agent_def)
  moreover have "list_all (\<lambda>(k, a). ta_agent_id a = k) (ro_agents ?p)" "dict_ok (ro_agents ?p)" "ro_durable ?p" "ro_loaded ?p"
    using ok put_keyed[of "ro_agents r" a] by (simp_all add: put_agent_def roster_ok_def)
  moreover have rows: "rows_of ?p = insert a (rows_of r)" by (simp add: put_agent_def)
  moreover have "\<forall>x \<in> agents_of ?p \<union> rows_of ?p. agent_ok x" unfolding P rows using d(5) a_ok(1) by blast
  moreover have "distinct (map ta_agent_id (ro_agent_rows ?p))" "ta_agent_id ` agents_of ?p \<subseteq> ta_agent_id ` rows_of ?p"
    unfolding P rows using d(6,7) new(2) by (auto simp: put_agent_def)
  ultimately show "roster_ok ?p" unfolding roster_ok_def by simp
qed

text \<open>A code that is gone: its row is there, and nothing with that code is active.\<close>

definition gone :: "string \<Rightarrow> roster \<Rightarrow> bool" where
  "gone code r \<longleftrightarrow> code \<in> ta_agent_id ` rows_of r \<and> (\<forall>b \<in> agents_of r \<union> rows_of r. ta_agent_id b = code \<longrightarrow> \<not> agent_active b)"

lemma gone_replaced:
  assumes "roster_ok r" "gone code r" "a \<in> agents_of r" "ta_agent_id a' = ta_agent_id a" "agent_active a' \<longrightarrow> agent_active a"
    and "\<And>b. b \<in> rows_of r \<Longrightarrow> ta_agent_id b = ta_agent_id a \<Longrightarrow> ta_agent_id (f b) = ta_agent_id b \<and> (agent_active (f b) \<longrightarrow> agent_active a)"
  shows "gone code (replaced a' f r)"
proof -
  have B: "agents_of (replaced a' f r) = insert a' {b \<in> agents_of r. ta_agent_id b \<noteq> ta_agent_id a'}"
    using put_agents_of[OF assms(1), of a'] by (simp add: replaced_def agents_of_def)
  have R: "rows_of (replaced a' f r) = (\<lambda>b. if ta_agent_id b = ta_agent_id a' then f b else b) ` rows_of r" by (simp add: replaced_def)
  have ids: "ta_agent_id (if ta_agent_id b = ta_agent_id a' then f b else b) = ta_agent_id b" if "b \<in> rows_of r" for b
    using assms(4) assms(6)[OF that] by simp
  have "ta_agent_id ` rows_of (replaced a' f r) = ta_agent_id ` rows_of r" unfolding R image_image by (rule image_cong) (use ids in simp_all)
  moreover have "\<not> agent_active b" if "b \<in> agents_of (replaced a' f r) \<union> rows_of (replaced a' f r)" "ta_agent_id b = code" for b
  proof (cases "code = ta_agent_id a")
    case True
    then have "\<not> agent_active a" using assms(2,3) by (auto simp: gone_def)
    then show ?thesis using that True assms(2,4,5,6) unfolding B R by (auto simp: gone_def)
  next
    case False
    have row: "b \<in> rows_of r" if row: "b \<in> rows_of (replaced a' f r)"
    proof -
      obtain c where c: "c \<in> rows_of r" "b = (if ta_agent_id c = ta_agent_id a' then f c else c)" using row unfolding R by blast
      then have "ta_agent_id c = code" using ids[OF c(1)] \<open>ta_agent_id b = code\<close> by simp
      then show ?thesis using c False assms(4) by simp
    qed
    from that(1) consider "b = a'" | "b \<in> agents_of r" | "b \<in> rows_of r" unfolding B using row by blast
    then show ?thesis using that(2) False assms(2,4) by cases (auto simp: gone_def)
  qed
  ultimately show ?thesis using assms(2) by (auto simp: gone_def)
qed

lemma gone_load:
  assumes "roster_ok r" "gone code r" "roster_load readable r = (out, r')"
  shows "gone code r'"
  using assms roster_okD(10)[OF assms(1)] foldl_rows[OF roster_okD(6)[OF assms(1)]]
  by (auto simp: roster_load_def gone_def agents_of_def image_image split: if_splits)

lemma gone_spawn:
  assumes "roster_ok r" "gone code r" "spawn_agent env now fate s r = (out, r')"
  shows "gone code r'"
proof (cases "r' = r")
  case False
  have durable: "ro_durable r" by (rule roster_okD(1)[OF assms(1)])
  with False assms(3) obtain a where fresh: "\<forall>b\<in>rows_of r. ta_agent_id b \<noteq> ta_agent_id a"
    and r': "r' = r\<lparr>ro_agent_rows := ro_agent_rows r @ [a]\<rparr> \<or> r' = put_agent a (r\<lparr>ro_agent_rows := ro_agent_rows r @ [a]\<rparr>)"
    by (auto simp: spawn_agent_def insert_agent_def roster_commit_def op_bind_def list_ex_iff split: if_splits prod.splits sum.splits store_fate.splits)
  have "agents_of (r\<lparr>ro_agent_rows := ro_agent_rows r @ [a]\<rparr>) = agents_of r" by (simp add: agents_of_def)
  moreover have "agents_of (put_agent a (r\<lparr>ro_agent_rows := ro_agent_rows r @ [a]\<rparr>)) = insert a {b \<in> agents_of r. ta_agent_id b \<noteq> ta_agent_id a}"
    using put_agents_of[OF assms(1), of a] by (simp add: put_agent_def agents_of_def)
  ultimately have A: "agents_of r' \<subseteq> insert a (agents_of r)" using r' by auto
  have R: "rows_of r' = insert a (rows_of r)" using r' by (auto simp: put_agent_def)
  have "ta_agent_id a \<noteq> code" using assms(2) fresh by (auto simp: gone_def)
  then show ?thesis using assms(2) A unfolding gone_def R by auto
qed (use assms in simp)

definition roster_safe :: "string set \<Rightarrow> roster \<Rightarrow> bool" where
  "roster_safe codes r \<longleftrightarrow> roster_ok r \<and> (\<forall>code\<in>codes. gone code r)"

abbreviation roster_ready :: "string set \<Rightarrow> roster \<Rightarrow> bool" where
  "roster_ready codes r \<equiv> roster_safe codes r \<and> ro_loaded r"

abbreviation keeps_roster :: "string set \<Rightarrow> (roster, 'a) op \<Rightarrow> bool" where
  "keeps_roster codes m \<equiv> contract (roster_safe codes) m (\<lambda>_. roster_ready codes) (roster_safe codes)"

lemma roster_safeD: "roster_safe codes r \<Longrightarrow> roster_ok r" "roster_safe codes r \<Longrightarrow> code \<in> codes \<Longrightarrow> gone code r"
  by (simp_all add: roster_safe_def)

lemma spawn_agent_ok:
  assumes "roster_ok r \<and> ro_loaded r" "s \<notin> ta_slot ` actives (agents_of r)" "spawn_agent env now fate s r = (out, r')"
  shows "roster_ok r' \<and> ro_loaded r'"
proof (cases "out = Inl AllocationRefused \<and> r' = r")
  case False
  with assms(3) have room: "\<not> REFERENCE_CAPITAL < dadd (allocated r) AGENT_STARTING_CAPITAL" by (auto simp: spawn_agent_def)
  let ?n = "card (actives (agents_of r))"
  have small: "?n < 50"
  proof (rule ccontr)
    assume "\<not> ?n < 50"
    then have "?n = 50" using roster_okD(8)[of r] assms(1) by (simp add: within_capital_def)
    moreover have "dec_fix 10200 = 10200" by code_simp
    ultimately show False
      using room allocated_eq assms(1) by (simp add: dadd_def REFERENCE_CAPITAL_def AGENT_STARTING_CAPITAL_def)
  qed
  show ?thesis
  proof (cases "new_agent env now s r")
    case (Inl e)
    then show ?thesis using assms(1,3) room by (simp add: spawn_agent_def)
  next
    case (Inr a)
    have durable: "ro_durable r" using assms(1) roster_okD(1) by blast
    note new = new_agent_newcomer[OF Inr]
    show ?thesis
    proof (cases "list_ex (\<lambda>b. ta_agent_id b = ta_agent_id a \<or> ta_sequence b = ta_sequence a) (ro_agent_rows r)")
      case True
      then show ?thesis using assms(1,3) room Inr durable by (simp add: spawn_agent_def insert_agent_def roster_commit_def)
    next
      case fresh: False
      then have "ta_sequence b \<noteq> ta_sequence a" if "b \<in> rows_of r" for b using that by (auto simp: list_ex_iff)
      from roster_ok_inserted[OF _ _ new assms(2) small this] assms(1)
      have "roster_ok (r\<lparr>ro_agent_rows := ro_agent_rows r @ [a]\<rparr>)" "roster_ok (put_agent a (r\<lparr>ro_agent_rows := ro_agent_rows r @ [a]\<rparr>))"
        by simp_all
      then show ?thesis using assms(1,3) room Inr durable fresh
        by (cases fate) (auto simp: spawn_agent_def insert_agent_def roster_commit_def op_bind_def put_agent_def)
    qed
  qed
qed (use assms in simp)

lemma contract_if_state:
  assumes "contract (\<lambda>s. P s \<and> b s) m Q E" "contract (\<lambda>s. P s \<and> \<not> b s) n Q E"
  shows "contract P (\<lambda>s. if b s then m s else n s) Q E"
  using assms by (auto simp: contract_def)

lemma contract_pure: "(\<And>s. P s \<Longrightarrow> Q x s) \<Longrightarrow> contract P (\<lambda>s. (Inr x, s)) Q E" "(\<And>s. P s \<Longrightarrow> E s) \<Longrightarrow> contract P (\<lambda>s. (Inl e, s)) Q E"
  by (simp_all add: contract_def)

lemma active_for_None: "active_for s r = None \<longleftrightarrow> s \<notin> ta_slot ` actives (agents_of r)"
  by (auto simp: active_for_def find_None_iff agents_of_def actives_def)

lemma load_keeps: "keeps_roster codes (roster_load readable)"
  by (rule contractI) (auto simp: roster_safe_def dest: roster_ok_load gone_load)

lemma spawn_agent_keeps:
  "contract (\<lambda>r. roster_ready codes r \<and> active_for s r = None) (spawn_agent env now fate s) (\<lambda>_. roster_ready codes) (roster_ready codes)"
proof (rule contract_outcomeI)
  fix r out r' assume "roster_ready codes r \<and> active_for s r = None" "spawn_agent env now fate s r = (out, r')"
  then show "roster_ready codes r'"
    using spawn_agent_ok[of r s env now fate out r'] gone_spawn[of r _ env now fate s out r'] by (auto simp: roster_safe_def active_for_None)
qed

lemma spawn_if_capital_keeps:
  "contract (\<lambda>r. roster_ready codes r \<and> active_for s r = None) (spawn_if_capital env now fate s) (\<lambda>_. roster_ready codes) (roster_safe codes)"
  unfolding spawn_if_capital_def
  by (rule contract_bind[OF contract_try[OF spawn_agent_keeps]])
    (auto intro!: contract_return contract_raise split: sum.split exn.split)

lemma seed_slot_keeps: "contract (roster_ready codes) (seed_slot env now fates s) (\<lambda>_. roster_ready codes) (roster_safe codes)"
  unfolding seed_slot_def[abs_def] by (intro contract_if_state spawn_if_capital_keeps contract_pure(1)) simp

lemma seed_keeps: "keeps_roster codes (seed env now readable fates)"
  unfolding seed_def
  by (intro contract_bind[OF load_keeps] contract_bind[OF contract_read[where Q = "\<lambda>_. roster_ready codes"]]
      contract_bind[OF contract_iter[OF seed_slot_keeps]] contract_return)

lemma spawn_keeps: "keeps_roster codes (spawn env now readable fate s)"
  unfolding spawn_def
proof (rule contract_bind[OF load_keeps], rule contract_if_state)
  show "contract (\<lambda>r. roster_ready codes r \<and> \<not> active_for s r \<noteq> None) (spawn_agent env now fate s) (\<lambda>_. roster_ready codes) (roster_safe codes)"
    by (rule contract_weaken[OF spawn_agent_keeps]) auto
qed (rule contract_pure(2), simp)

lemma retired_same: "agent_ok a \<Longrightarrow> same_agent a (retired now reason a)" "agent_ok a \<Longrightarrow> same_agent a (revived (retired now reason a))"
    "ta_status (retired now reason a) = ELIMINATED" "agent_active (revived a)"
  by (simp_all add: same_agent_def retired_def revived_def agent_ok_def)

text \<open>The row of an agent in memory is of the same agent; replacing both keeps the roster.\<close>

lemma row_same:
  assumes "roster_ok r" "ro_loaded r" "a \<in> agents_of r" "b \<in> rows_of r" "ta_agent_id b = ta_agent_id a"
  shows "same_agent b a" "same_agent b b" "same_agent a a" "agent_active b \<Longrightarrow> agent_active a"
proof -
  have "agent_ok b" "agent_ok a" using roster_okD(5)[OF assms(1)] assms(3,4) by blast+
  moreover have "ta_slot b = ta_slot a" "agent_active b \<Longrightarrow> agent_active a"
    using roster_okD(9)[OF assms(1,2)] assms(3-5) by (auto simp: linked_def)
  ultimately show "same_agent b a" "same_agent b b" "same_agent a a" "agent_active b \<Longrightarrow> agent_active a"
    using same_code[of b a] assms(5) by (auto simp: same_agent_def)
qed

lemma same_agent_trans: "same_agent a b \<Longrightarrow> same_agent b c \<Longrightarrow> same_agent a c"
  by (simp add: same_agent_def)

lemma roster_ready_replaced:
  assumes r: "roster_ready codes r" and a: "a \<in> agents_of r" "same_agent a a'" "agent_active a' \<longrightarrow> agent_active a"
    and f: "(f = (\<lambda>b. b) \<and> ta_status a' = ta_status a) \<or> (\<exists>b'. f = (\<lambda>_. b') \<and> same_agent a b' \<and> (agent_active b' \<longrightarrow> agent_active a'))"
  shows "roster_ready codes (replaced a' f r)"
proof -
  have ok: "roster_ok r" "ro_loaded r" using r by (simp_all add: roster_safe_def)
  have rows: "same_agent b (f b) \<and> (agent_active (f b) \<longrightarrow> agent_active a')" if "b \<in> rows_of r" "ta_agent_id b = ta_agent_id a" for b
    using f row_same[OF ok a(1) that] same_agent_trans[of b a] by auto
  have "gone code (replaced a' f r)" if "code \<in> codes" for code
  proof (rule gone_replaced[OF ok(1) _ a(1)])
    show "gone code r" using r that by (simp add: roster_safe_def)
    show "ta_agent_id a' = ta_agent_id a" "agent_active a' \<longrightarrow> agent_active a" using a by (simp_all add: same_agent_def)
    show "ta_agent_id (f b) = ta_agent_id b \<and> (agent_active (f b) \<longrightarrow> agent_active a)" if "b \<in> rows_of r" "ta_agent_id b = ta_agent_id a" for b
      using rows[OF that] a(3) by (simp add: same_agent_def)
  qed
  then show ?thesis using roster_ok_replaced[OF ok a rows] ok by (simp add: roster_safe_def replaced_def)
qed

lemma retire_outcome:
  assumes "ro_durable r" "retire_agent now fate reason a r = (out, r')"
  shows "out = Inr x \<Longrightarrow> x = retired now reason a \<and> r' = replaced x (\<lambda>_. x) r"
    and "out = Inl e \<Longrightarrow> r' = replaced (revived (retired now reason a)) (\<lambda>b. b) r
      \<or> r' = replaced (revived (retired now reason a)) (\<lambda>_. retired now reason a) r"
  using assms
  by (auto simp: retire_agent_def op_bind_def op_try_def roster_commit_def put_agent_def update_agent_row_def replaced_def retired_def revived_def Let_def
      split: store_fate.splits)

lemma retired_slot_free:
  assumes "roster_ok r" "ro_loaded r" "a \<in> agents_of r" "agent_active a"
  shows "active_for (ta_slot a) (replaced (retired now reason a) f r) = None"
proof -
  let ?x = "retired now reason a" and ?r = "replaced (retired now reason a) f r"
  have inj: "inj_on ta_slot (actives (agents_of r))" using roster_okD(8)[OF assms(1,2)] by (simp add: within_capital_def)
  have B: "agents_of ?r = insert ?x {b \<in> agents_of r. ta_agent_id b \<noteq> ta_agent_id a}"
    using put_agents_of[OF assms(1), of ?x] by (simp add: replaced_def agents_of_def retired_def)
  have "b = a" if "b \<in> actives (agents_of r)" "ta_slot b = ta_slot a" for b
    using inj_onD[OF inj that(2) that(1)] assms(3,4) by (simp add: actives_def)
  moreover have "actives (agents_of ?r) = {b \<in> actives (agents_of r). ta_agent_id b \<noteq> ta_agent_id a}"
    unfolding B using retired_same(3)[of now reason a] by (auto simp: actives_def)
  ultimately show ?thesis unfolding active_for_None by (metis (mono_tags, lifting) image_iff mem_Collect_eq)
qed

lemma retire_keeps:
  "contract (\<lambda>r. roster_ready codes r \<and> a \<in> agents_of r \<and> agent_active a) (retire_agent now fate reason a)
     (\<lambda>dead r. roster_ready (insert (ta_agent_id a) codes) r \<and> active_for (ta_slot dead) r = None \<and> dead = retired now reason a) (roster_safe codes)"
proof (rule contractI)
  fix r x r' e assume r: "roster_ready codes r \<and> a \<in> agents_of r \<and> agent_active a"
  have ok: "roster_ok r" "ro_loaded r" "ro_durable r" "agent_ok a" using r roster_okD(1,5)[of r] by (auto simp: roster_safe_def)
  note same = retired_same(1,2)[OF ok(4)]
  {
    assume "retire_agent now fate reason a r = (Inr x, r')"
    from retire_outcome(1)[OF ok(3) this] have x: "x = retired now reason a" "r' = replaced x (\<lambda>_. x) r" by blast+
    have "roster_ready codes r'"
      unfolding x by (rule roster_ready_replaced[of codes r a]) (use r same retired_same(3)[of now reason a] in auto)
    moreover have "gone (ta_agent_id a) r'"
    proof -
      have "ta_agent_id a \<in> ta_agent_id ` rows_of r" using roster_okD(7)[OF ok(1)] r by blast
      then obtain c where c: "c \<in> rows_of r" "ta_agent_id c = ta_agent_id a" by (metis imageE)
      have x_id: "ta_agent_id x = ta_agent_id a" "\<not> agent_active x" by (simp_all add: x(1) retired_def)
      have A: "agents_of r' = insert x {b \<in> agents_of r. ta_agent_id b \<noteq> ta_agent_id a}"
        using put_agents_of[OF ok(1), of x] x_id(1) by (simp add: x(2) replaced_def agents_of_def)
      have R: "rows_of r' = (\<lambda>b. if ta_agent_id b = ta_agent_id a then x else b) ` rows_of r" by (simp add: x(2) replaced_def x_id(1))
      have "x \<in> rows_of r'" unfolding R by (rule image_eqI[OF _ c(1)]) (simp add: c(2))
      moreover have "b = x \<or> ta_agent_id b \<noteq> ta_agent_id a" if "b \<in> agents_of r' \<union> rows_of r'" for b using that unfolding A R by auto
      ultimately show ?thesis unfolding gone_def using x_id by (metis imageI)
    qed
    moreover have "active_for (ta_slot x) r' = None" using retired_slot_free[OF ok(1,2)] r by (simp add: x retired_def)
    ultimately show "roster_ready (insert (ta_agent_id a) codes) r' \<and> active_for (ta_slot x) r' = None \<and> x = retired now reason a"
      using x by (simp add: roster_safe_def)
  next
    assume "retire_agent now fate reason a r = (Inl e, r')"
    from retire_outcome(2)[OF ok(3) this] consider "r' = replaced (revived (retired now reason a)) (\<lambda>b. b) r"
      | "r' = replaced (revived (retired now reason a)) (\<lambda>_. retired now reason a) r" by auto
    then have "roster_ready codes r'"
    proof cases
      case 1
      then show ?thesis by (simp only:) (rule roster_ready_replaced[of codes r a], use r same retired_same(4) in auto)
    next
      case 2
      then show ?thesis by (simp only:) (rule roster_ready_replaced[of codes r a], use r same retired_same(4) in auto)
    qed
    then show "roster_safe codes r'" by (rule conjunct1)
  }
qed

lemma eliminate_keeps:
  "contract (roster_safe codes) (eliminate env now readable fate fate' agent_id reason)
     (\<lambda>_. roster_ready (insert agent_id codes)) (roster_safe codes)"
  unfolding eliminate_def
proof (rule contract_bind[OF load_keeps], rule contract_bind)
  show "contract (roster_ready codes) (op_read (\<lambda>r. dget (ro_agents r) agent_id))
    (\<lambda>found r. roster_ready codes r \<and> found = dget (ro_agents r) agent_id) (roster_safe codes)"
    by (rule contract_read) simp
next
  fix found
  let ?rest = "\<lambda>a. op_bind (retire_agent now fate reason a) (\<lambda>dead.
      op_bind (spawn_if_capital env now fate' (ta_slot dead)) (\<lambda>replacement. op_return (dead, replacement)))"
  have rest: "contract (\<lambda>r. roster_ready codes r \<and> a \<in> agents_of r \<and> agent_active a) (?rest a)
      (\<lambda>_. roster_ready (insert (ta_agent_id a) codes)) (roster_safe codes)" for a
  proof (rule contract_bind[OF retire_keeps], rule contract_bind)
    show "contract (\<lambda>r. roster_ready (insert (ta_agent_id a) codes) r \<and> active_for (ta_slot dead) r = None \<and> dead = retired now reason a)
      (spawn_if_capital env now fate' (ta_slot dead)) (\<lambda>_. roster_ready (insert (ta_agent_id a) codes)) (roster_safe codes)" for dead
      by (rule contract_weaken[OF spawn_if_capital_keeps[of "insert (ta_agent_id a) codes"]]) (auto simp: roster_safe_def)
  qed (rule contract_return)
  show "contract (\<lambda>r. roster_ready codes r \<and> found = dget (ro_agents r) agent_id)
    (case found of None \<Rightarrow> op_raise (AgentEliminated agent_id)
     | Some a \<Rightarrow> if \<not> agent_active a then op_raise (AgentEliminated agent_id) else ?rest a)
    (\<lambda>_. roster_ready (insert agent_id codes)) (roster_safe codes)"
  proof (cases found)
    case None
    then show ?thesis by (auto intro!: contract_raise)
  next
    case (Some a)
    show ?thesis
    proof (cases "agent_active a")
      case True
      have "contract (\<lambda>r. roster_ready codes r \<and> found = dget (ro_agents r) agent_id) (?rest a)
          (\<lambda>_. roster_ready (insert agent_id codes)) (roster_safe codes)"
      proof (cases "ta_agent_id a = agent_id")
        case id: True
        show ?thesis by (rule contract_weaken[OF rest]) (use Some True id roster_okD(3) roster_safeD(1) in auto)
      next
        case False
        then have "\<not> (roster_ready codes r \<and> found = dget (ro_agents r) agent_id)" for r
          using Some roster_okD(3)[of r agent_id a] roster_safeD(1)[of codes r] by auto
        then show ?thesis unfolding contract_def by blast
      qed
      then show ?thesis using Some True by simp
    qed (use Some in \<open>auto intro!: contract_raise\<close>)
  qed
qed

lemma roster_ok_frame [simp]:
  "roster_ok (r\<lparr>ro_attributions := d\<rparr>) = roster_ok r" "roster_ok (r\<lparr>ro_order_rows := xs\<rparr>) = roster_ok r"
  by (simp_all add: roster_ok_def linked_def agents_of_def next_sequence_def)

lemma roster_safe_frame [simp]:
  "roster_safe codes (r\<lparr>ro_attributions := d\<rparr>) = roster_safe codes r" "roster_safe codes (r\<lparr>ro_order_rows := xs\<rparr>) = roster_safe codes r"
  by (simp_all add: roster_safe_def gone_def agents_of_def)

lemma attribute_keeps: "keeps_roster codes (attribute readable fate intent_id agent_id instrument_id sd cid)"
  unfolding attribute_def
  by (rule contract_bind[OF load_keeps], rule contractI)
    (auto simp: Let_def op_bind_def insert_order_def roster_commit_def split: if_splits store_fate.splits)

lemma release_quantity: "0 \<le> ab_quantity b \<Longrightarrow> 0 \<le> ab_quantity (snd (book_release q b))"
  by (auto simp: book_release_def Let_def)

lemma sale_quantity: "0 \<le> ab_quantity b \<Longrightarrow> 0 \<le> ab_quantity (snd (apply_sale quantity notional b))"
  by (simp add: apply_sale_def Let_def split_beta release_quantity)

lemma fill_quantity:
  assumes "0 \<le> ab_quantity b" "0 \<le> quantity"
  shows "0 \<le> ab_quantity (snd (apply_fill sd quantity notional fq fb b))"
  using assms sale_quantity[OF assms(1), of quantity notional]
  by (simp add: apply_fill_def Let_def split_beta dadd_nonneg release_quantity)

text \<open>An order that moves the book keeps its agent the same agent, with its status.\<close>

lemma fold_order_same:
  assumes "agent_ok a" "moves_book env order x" "fold_order env instrument order x a = (x', a')"
  shows "same_agent a a'" "ta_status a' = ta_status a" "an_intent_id x' = an_intent_id x" "an_agent_id x' = an_agent_id x"
    "a'\<lparr>ta_book := ta_book a\<rparr> = a"
proof -
  have "0 \<le> dsub (fs_filled (order_fills env order)) (an_applied_quantity x)"
    using assms(2) by (auto simp: moves_book_def Let_def simp del: dsub_nonneg dsub_neg dsub_zero)
  then show "same_agent a a'" "ta_status a' = ta_status a" "an_intent_id x' = an_intent_id x" "an_agent_id x' = an_agent_id x"
    "a'\<lparr>ta_book := ta_book a\<rparr> = a"
    using assms(1,3) fill_quantity by (auto simp: fold_order_def same_agent_def agent_ok_def Let_def)
qed

lemma save_fold_outcome:
  assumes "ro_durable r" "save_fold fate x a a' r = (out, r')" "ta_agent_id a' = ta_agent_id a" "a'\<lparr>ta_book := ta_book a\<rparr> = a"
  shows "out = Inr y \<Longrightarrow> r' = (replaced a' (\<lambda>_. a') r)\<lparr>ro_order_rows := ro_order_rows (update_order_row x r),
      ro_attributions := dset (an_intent_id x) x (ro_attributions r)\<rparr>"
    and "out = Inl e \<Longrightarrow> r' = replaced a (\<lambda>b. b) r
      \<or> r' = (replaced a (\<lambda>_. a') r)\<lparr>ro_order_rows := ro_order_rows (update_order_row x r)\<rparr>"
  using assms
  by (auto simp: save_fold_def op_bind_def op_try_def roster_commit_def put_agent_def update_agent_row_def update_order_row_def replaced_def
      split: store_fate.splits)

lemma apply_order_keeps: "keeps_roster codes (apply_order env readable fate instrument order)"
  unfolding apply_order_def
proof (rule contract_bind[OF load_keeps], rule contractI)
  fix r e r'
  let ?op = "\<lambda>r. case dget (ro_attributions r) (text_or env (jget order ''intent_id'') []) of None \<Rightarrow> (Inr False, r)
    | Some x \<Rightarrow> (case dget (ro_agents r) (an_agent_id x) of None \<Rightarrow> (Inr False, r)
       | Some a \<Rightarrow> if \<not> moves_book env order x then (Inr False, r)
          else (case fold_order env instrument order x a of (x', a') \<Rightarrow> op_bind (save_fold fate x' a a') (\<lambda>_. op_return True) r))"
  have "roster_ready codes s'" if run: "roster_ready codes s" "?op s = (out, s')" for s out s'
  proof (cases "s' = s")
    case False
    with run obtain x a x' a' where a: "dget (ro_agents s) (an_agent_id x) = Some a" "moves_book env order x"
        "fold_order env instrument order x a = (x', a')" "op_bind (save_fold fate x' a a') (\<lambda>_. op_return True) s = (out, s')"
      by (auto split: option.splits if_splits prod.splits)
    then obtain out' where save: "save_fold fate x' a a' s = (out', s')" by (auto simp: op_bind_def split: prod.splits sum.splits)
    have s: "roster_ok s" "ro_durable s" using run(1) roster_okD(1) by (auto simp: roster_safe_def)
    have mem: "a \<in> agents_of s" "agent_ok a" using roster_okD(3)[OF s(1) a(1)] roster_okD(5)[OF s(1)] by blast+
    note same = fold_order_same[OF mem(2) a(2,3)]
    have refl: "same_agent a a" using mem(2) by (simp add: same_agent_def)
    have "roster_ready codes (replaced b f s)" if "b = a \<and> f = (\<lambda>b. b) \<or> (b = a \<or> b = a') \<and> f = (\<lambda>_. a')" for b f
      by (rule roster_ready_replaced[of codes s a]) (use run(1) mem(1) same(1,2) refl that in auto)
    then have ok: "roster_ready codes (replaced a' (\<lambda>_. a') s)" "roster_ready codes (replaced a (\<lambda>b. b) s)" "roster_ready codes (replaced a (\<lambda>_. a') s)"
      by blast+
    have ids: "ta_agent_id a' = ta_agent_id a" using same(1) by (simp add: same_agent_def)
    show ?thesis using save_fold_outcome[OF s(2) save ids same(5)] ok by (cases out') auto
  qed (use run in simp)
  then show "roster_ready codes r \<Longrightarrow> ?op r = (Inl e, r') \<Longrightarrow> roster_safe codes r'" "\<And>x. roster_ready codes r \<Longrightarrow> ?op r = (Inr x, r') \<Longrightarrow> roster_ready codes r'"
    by blast+
qed

section \<open>Runs\<close>

lemma keeps_outcome:
  assumes "contract (roster_safe codes) m (\<lambda>_. roster_ready codes2) (roster_safe codes)" "codes \<subseteq> codes2" "roster_safe codes r"
  shows "roster_safe codes (snd (m r))"
proof -
  obtain out r' where m: "m r = (out, r')" by fastforce
  show ?thesis using contractD[OF assms(1,3)] m assms(2) by (cases out) (auto simp: roster_safe_def)
qed

lemma keeps_restart: "roster_safe codes r \<Longrightarrow> roster_safe codes (roster_restart r)"
proof -
  assume r: "roster_safe codes r"
  note ok = roster_safeD(1)[OF r]
  have "roster_ok (roster_restart r)"
    using ok rows_within_capital[OF ok] by (auto simp: roster_restart_def roster_new_def roster_ok_def agents_of_def)
  moreover have "gone code (roster_restart r)" if "code \<in> codes" for code
    using roster_safeD(2)[OF r that] roster_okD(1)[OF ok] by (simp add: roster_restart_def roster_new_def gone_def agents_of_def)
  ultimately show ?thesis by (simp add: roster_safe_def)
qed

lemma keeps_next: "roster_safe codes r \<Longrightarrow> roster_safe codes (roster_next env step r)"
  by (cases step)
    (simp_all add: keeps_restart keeps_outcome[OF seed_keeps subset_refl] keeps_outcome[OF spawn_keeps subset_refl]
      keeps_outcome[OF eliminate_keeps subset_insertI] keeps_outcome[OF attribute_keeps subset_refl]
      keeps_outcome[OF apply_order_keeps subset_refl] keeps_outcome[OF load_keeps subset_refl])

lemma keeps_run: "roster_safe codes r \<Longrightarrow> roster_safe codes (roster_run env steps r)"
  unfolding roster_run_def by (induction steps arbitrary: r) (auto intro: keeps_next)

lemma roster_new_safe: "roster_safe {} (roster_new True slots lab [] [])"
  by (simp add: roster_safe_def roster_ok_def roster_new_def agents_of_def within_capital_def actives_def)

section \<open>Properties\<close>

text \<open>
  C13: The roster stays within its capital. After every run of seeding, spawning, eliminating, attributing, applying orders and
  restarting, whatever transactions failed or were not acknowledged, each slot has at most one active agent and at most 50
  agents are active, in memory and in the table; so the allocated capital never exceeds the reference
  capital. Codes are distinct, each is the code of its sequence number, every agent has the starting
  capital and no book is short.
\<close>

theorem roster_within_capital:
  "let r = roster_run env steps (roster_new True slots lab [] []) in
     within_capital (set (dvalues (ro_agents r))) \<and> within_capital (set (ro_agent_rows r)) \<and> allocated r \<le> REFERENCE_CAPITAL
     \<and> inj_on ta_agent_id (set (dvalues (ro_agents r))) \<and> distinct (map ta_agent_id (ro_agent_rows r))
     \<and> list_all agent_ok (dvalues (ro_agents r) @ ro_agent_rows r)"
proof -
  define r where "r = roster_run env steps (roster_new True slots lab [] [])"
  have ok: "roster_ok r" unfolding r_def by (rule roster_safeD(1)[OF keeps_run[OF roster_new_safe]])
  note d = roster_okD[OF ok]
  have cap: "within_capital (agents_of r)"
    using d(8,10) by (cases "ro_loaded r") (simp_all add: agents_of_def within_capital_def actives_def)
  have "allocated r \<le> REFERENCE_CAPITAL"
  proof (cases "ro_loaded r")
    case True
    then show ?thesis using allocated_eq[OF ok True] cap by (simp add: within_capital_def REFERENCE_CAPITAL_def)
  next
    case False
    then show ?thesis using d(10) by (simp add: allocated_def REFERENCE_CAPITAL_def)
  qed
  moreover have "inj_on ta_agent_id (agents_of r)" by (rule inj_onI) (metis d(4) option.inject)
  moreover have "list_all agent_ok (dvalues (ro_agents r) @ ro_agent_rows r)" using d(5) by (auto simp: list_all_iff agents_of_def)
  ultimately show ?thesis
    using cap rows_within_capital[OF ok] d(6) unfolding Let_def r_def [symmetric] agents_of_def by blast
qed

text \<open>
  C14: An eliminated code never trades again. Once an elimination has returned, then after every further run, with failures
  and restarts, the code is not admitted, every record and row of it is ELIMINATED and its row is still there, no
  intent can be attributed to it, and no spawned agent gets it.
\<close>

theorem eliminated_code_is_final:
  assumes "eliminate env now readable fate fate' code reason (roster_run env steps (roster_new True slots lab [] [])) = (Inr x, r1)"
    and "roster_run env steps' r1 = r2"
  shows "\<not> admit code r2 \<and> gone code r2 \<and> fst (attribute readable' f intent_id code iid sd cid r2) \<noteq> Inr ()
    \<and> ro_order_rows (snd (attribute readable' f intent_id code iid sd cid r2)) = ro_order_rows r2
    \<and> (fst (spawn env now' readable' f s r2) = Inr a \<longrightarrow> ta_agent_id a \<noteq> code)"
proof -
  have "roster_ready {code} r1"
    using contractD(1)[OF eliminate_keeps keeps_run[OF roster_new_safe] assms(1)] by simp
  then have r2: "roster_safe {code} r2" using keeps_run assms(2) by blast
  have not_admitted: "\<not> admit code r" if "roster_safe {code} r" for r
    using roster_safeD[OF that] roster_okD(3)[of r code] by (auto simp: admit_def gone_def split: option.splits)
  have att: "fst (attribute readable' f intent_id code iid sd cid r2) \<noteq> Inr ()
    \<and> ro_order_rows (snd (attribute readable' f intent_id code iid sd cid r2)) = ro_order_rows r2"
  proof -
    obtain out r3 where l: "roster_load readable' r2 = (out, r3)" by fastforce
    have "roster_safe {code} r3" using keeps_outcome[OF load_keeps subset_refl r2, of readable'] l by simp
    moreover have "ro_order_rows r3 = ro_order_rows r2" using l by (auto simp: roster_load_def split: if_splits)
    ultimately show ?thesis using l not_admitted[of r3] by (cases out) (auto simp: attribute_def op_bind_def)
  qed
  have "ta_agent_id a \<noteq> code" if new: "fst (spawn env now' readable' f s r2) = Inr a"
  proof -
    obtain r3 where sp: "spawn env now' readable' f s r2 = (Inr a, r3)" using new by (metis prod.collapse)
    have safe: "roster_ready {code} r3" using contractD(1)[OF spawn_keeps r2 sp] .
    have "dget (ro_agents r3) (ta_agent_id a) = Some a \<and> agent_active a"
      using sp by (auto simp: spawn_def spawn_agent_def op_bind_def put_agent_def insert_agent_def roster_commit_def
          dest!: new_agent_newcomer simp: newcomer_def split: prod.splits sum.splits if_splits store_fate.splits)
    then show ?thesis using roster_okD(3)[of r3] safe unfolding roster_safe_def gone_def by blast
  qed
  then show ?thesis using not_admitted[OF r2] roster_safeD(2)[OF r2] att by blast
qed

end
