(* ===== verification/Roster_Orders.thy ===== *)
theory Roster_Orders
  imports Roster
begin

text \<open>
  What the roster does with orders (\<^verbatim>\<open>AgentRoster.apply_order\<close> and \<^verbatim>\<open>shape_for_agent\<close> of
  \<^verbatim>\<open>services/agents/roster.py\<close>): a fill that reached the book of its agent is never counted again, whatever transactions
  fail and whenever the process restarts, and a proposal sized to its agent is a smaller one.
\<close>

section \<open>What the attributions keep\<close>

text \<open>The memory is keyed by intent, every attribution in it has its row with the same agent, no intent has two rows, and
  the pairs of intent and agent in the table satisfy \<open>P\<close>.\<close>

definition order_keys :: "roster \<Rightarrow> (string \<times> string) list" where
  "order_keys r = map (\<lambda>y. (an_intent_id y, an_agent_id y)) (ro_order_rows r)"

definition attributions_ok :: "((string \<times> string) set \<Rightarrow> bool) \<Rightarrow> roster \<Rightarrow> bool" where
  "attributions_ok P r \<longleftrightarrow> ro_durable r \<and> P (set (order_keys r)) \<and> distinct (map fst (order_keys r))
     \<and> (\<not> ro_loaded r \<longrightarrow> ro_attributions r = [])
     \<and> (\<forall>k x. dget (ro_attributions r) k = Some x \<longrightarrow> an_intent_id x = k \<and> (k, an_agent_id x) \<in> set (order_keys r))"

abbreviation keeps_orders :: "((string \<times> string) set \<Rightarrow> bool) \<Rightarrow> (roster, 'a) op \<Rightarrow> bool" where
  "keeps_orders P m \<equiv> contract (attributions_ok P) m (\<lambda>_. attributions_ok P) (attributions_ok P)"

lemma attributions_ok_frame [simp]:
  "attributions_ok P (put_agent a r) = attributions_ok P r" "attributions_ok P (update_agent_row a r) = attributions_ok P r"
  "attributions_ok P (r\<lparr>ro_agents := d\<rparr>) = attributions_ok P r" "attributions_ok P (r\<lparr>ro_agent_rows := rows\<rparr>) = attributions_ok P r"
  by (simp_all add: attributions_ok_def order_keys_def put_agent_def update_agent_row_def)

lemma load_attributions:
  assumes "distinct (map an_intent_id rows)"
  shows "foldl (\<lambda>d x. dset (an_intent_id x) x d) [] rows = map (\<lambda>x. (an_intent_id x, x)) rows"
  using assms
proof (induction rows rule: rev_induct)
  case (snoc x rows)
  then have "dget (map (\<lambda>x. (an_intent_id x, x)) rows) (an_intent_id x) = None" by (auto simp: map_of_eq_None_iff image_image)
  then show ?case using snoc by (simp add: dset_fresh)
qed simp

lemma load_orders_loaded: "contract (attributions_ok P) (roster_load readable) (\<lambda>_ r. attributions_ok P r \<and> ro_loaded r) (attributions_ok P)"
  by (rule contractI)
    (auto simp: roster_load_def attributions_ok_def order_keys_def load_attributions comp_def dest!: map_of_SomeD split: if_splits)

lemma load_orders: "keeps_orders P (roster_load readable)"
  by (rule contract_weaken[OF load_orders_loaded]) auto

lemma attribute_orders:
  assumes "\<And>K. P K \<Longrightarrow> P (insert (intent_id, agent_id) K)"
  shows "keeps_orders P (attribute readable fate intent_id agent_id instrument_id sd cid)"
  unfolding attribute_def
  by (rule contract_bind[OF load_orders_loaded], rule contractI)
    (auto simp: assms Let_def op_bind_def insert_order_def roster_commit_def attributions_ok_def order_keys_def comp_def list_ex_iff admit_def
       split: if_splits store_fate.splits)

lemma update_order_row_frame [simp]:
  "ro_durable (update_order_row x r) = ro_durable r" "ro_loaded (update_order_row x r) = ro_loaded r"
  "ro_attributions (update_order_row x r) = ro_attributions r" "ro_agents (update_order_row x r) = ro_agents r"
  "ro_agent_rows (update_order_row x r) = ro_agent_rows r"
  by (simp_all add: update_order_row_def)

lemma agent_frame [simp]:
  "ro_durable (put_agent a r) = ro_durable r" "ro_loaded (put_agent a r) = ro_loaded r"
  "ro_attributions (put_agent a r) = ro_attributions r" "ro_order_rows (put_agent a r) = ro_order_rows r" "ro_agent_rows (put_agent a r) = ro_agent_rows r"
  "ro_durable (update_agent_row a r) = ro_durable r" "ro_loaded (update_agent_row a r) = ro_loaded r"
  "ro_attributions (update_agent_row a r) = ro_attributions r" "ro_order_rows (update_agent_row a r) = ro_order_rows r"
  "ro_agents (update_agent_row a r) = ro_agents r"
  by (simp_all add: put_agent_def update_agent_row_def)

text \<open>Writing the row of an attribution that is in memory keeps the keys.\<close>

lemma update_order_row_keys:
  assumes "attributions_ok P r" "dget (ro_attributions r) (an_intent_id x) = Some y" "an_agent_id x = an_agent_id y"
  shows "order_keys (update_order_row x r) = order_keys r"
proof -
  have key: "(an_intent_id x, an_agent_id x) \<in> set (order_keys r)" "distinct (map fst (order_keys r))"
    using assms unfolding attributions_ok_def by force+
  have "an_agent_id z = an_agent_id x" if z: "z \<in> set (ro_order_rows r)" "an_intent_id z = an_intent_id x" for z
  proof -
    have "(an_intent_id x, an_agent_id z) \<in> set (order_keys r)" using z by (auto simp: order_keys_def rev_image_eqI)
    then show ?thesis using key(1) eq_key_imp_eq_value[OF key(2)] by blast
  qed
  then show ?thesis by (simp add: order_keys_def update_order_row_def)
qed

lemma save_fold_orders:
  assumes "attributions_ok P r" "ro_loaded r" "dget (ro_attributions r) (an_intent_id x) = Some y" "an_agent_id x = an_agent_id y"
    and "save_fold fate x a a' r = (out, r')"
  shows "attributions_ok P r'"
proof -
  have row: "attributions_ok P (update_order_row x s)" "(an_intent_id x, an_agent_id x) \<in> set (order_keys (update_order_row x s))"
    if s: "attributions_ok P s" "ro_attributions s = ro_attributions r" for s
  proof -
    have "order_keys (update_order_row x s) = order_keys s" using update_order_row_keys[OF s(1)] s(2) assms(3,4) by simp
    then show "attributions_ok P (update_order_row x s)" "(an_intent_id x, an_agent_id x) \<in> set (order_keys (update_order_row x s))"
      using s assms(3,4) unfolding attributions_ok_def by auto
  qed
  have put: "attributions_ok P (s\<lparr>ro_attributions := dset (an_intent_id x) x (ro_attributions s)\<rparr>)"
    if "attributions_ok P s" "ro_loaded s" "(an_intent_id x, an_agent_id x) \<in> set (order_keys s)" for s
    using that unfolding attributions_ok_def by (auto simp: order_keys_def split: if_splits)
  show ?thesis
    using assms(1,2,5) row[of "update_agent_row a' (put_agent a' r)"] put[of "update_order_row x (update_agent_row a' (put_agent a' r))"]
    by (cases fate) (auto simp: save_fold_def op_bind_def op_try_def roster_commit_def attributions_ok_def[of P r])
qed

text \<open>An order that moves no book leaves the roster alone; one that does is folded into its attribution and its agent and saved.\<close>

lemma apply_order_loaded:
  assumes "(case dget (ro_attributions r) (text_or env (jget order ''intent_id'') []) of None \<Rightarrow> (Inr False, r)
      | Some x \<Rightarrow> (case dget (ro_agents r) (an_agent_id x) of None \<Rightarrow> (Inr False, r)
         | Some a \<Rightarrow> if \<not> moves_book env order x then (Inr False, r)
            else (case fold_order env instrument order x a of (x', a') \<Rightarrow> op_bind (save_fold fate x' a a') (\<lambda>_. op_return True) r)))
     = (out, r')"
  obtains (same) "r' = r"
  | (moved) x a x' a' out' where "dget (ro_attributions r) (text_or env (jget order ''intent_id'') []) = Some x" "moves_book env order x"
      "fold_order env instrument order x a = (x', a')" "save_fold fate x' a a' r = (out', r')"
      "an_intent_id x' = an_intent_id x" "an_agent_id x' = an_agent_id x"
proof (cases "r' = r")
  case False
  with assms obtain x a x' a' where x: "dget (ro_attributions r) (text_or env (jget order ''intent_id'') []) = Some x" "moves_book env order x"
      "fold_order env instrument order x a = (x', a')" "op_bind (save_fold fate x' a a') (\<lambda>_. op_return True) r = (out, r')"
    by (auto split: option.splits if_splits prod.splits)
  then obtain out' where "save_fold fate x' a a' r = (out', r')" by (auto simp: op_bind_def split: prod.splits sum.splits)
  moreover have "an_intent_id x' = an_intent_id x" "an_agent_id x' = an_agent_id x" using x(3) by (auto simp: fold_order_def Let_def)
  ultimately show thesis using moved x by blast
qed (rule same)

lemma apply_order_orders: "keeps_orders P (apply_order env readable fate instrument order)"
  unfolding apply_order_def
proof (rule contract_bind[OF load_orders_loaded], rule contract_outcomeI, elim conjE)
  fix r out r'
  assume r: "attributions_ok P r" "ro_loaded r" and run:
    "(case dget (ro_attributions r) (text_or env (jget order ''intent_id'') []) of None \<Rightarrow> (Inr False, r)
      | Some x \<Rightarrow> (case dget (ro_agents r) (an_agent_id x) of None \<Rightarrow> (Inr False, r)
         | Some a \<Rightarrow> if \<not> moves_book env order x then (Inr False, r)
            else (case fold_order env instrument order x a of (x', a') \<Rightarrow> op_bind (save_fold fate x' a a') (\<lambda>_. op_return True) r)))
     = (out, r')"
  from run show "attributions_ok P r'"
  proof (cases rule: apply_order_loaded)
    case (moved x a x' a' out')
    moreover have "an_intent_id x = text_or env (jget order ''intent_id'') []" using r moved(1) unfolding attributions_ok_def by blast
    ultimately show ?thesis using save_fold_orders[OF r _ _ moved(4)] by simp
  qed (use r in simp)
qed

lemma orders_restart: "attributions_ok P r \<Longrightarrow> attributions_ok P (roster_restart r)"
  by (simp add: attributions_ok_def order_keys_def roster_restart_def roster_new_def)

subsection \<open>Views of the orders\<close>

text \<open>
  A view of the orders: what it says does not depend on the agents, and loading, restarting and folding an order keep it. Then
  every step keeps it but an attribution, which has to be looked at.
\<close>

locale order_view =
  fixes I :: "roster \<Rightarrow> bool"
  assumes agents_frame: "I (r\<lparr>ro_agents := d\<rparr>) \<longleftrightarrow> I r" and agent_rows_frame: "I (r\<lparr>ro_agent_rows := rows\<rparr>) \<longleftrightarrow> I r"
    and load: "contract I (roster_load readable) (\<lambda>_. I) I"
    and restart: "I r \<Longrightarrow> I (roster_restart r)"
    and apply_order: "contract I (apply_order env readable fate instrument order) (\<lambda>_. I) I"
begin

lemma frame: "I (put_agent a r) \<longleftrightarrow> I r" "I (update_agent_row a r) \<longleftrightarrow> I r"
  by (simp_all add: put_agent_def update_agent_row_def agents_frame agent_rows_frame)

lemma spawn_agent_holds: "contract I (spawn_agent env now fate s) (\<lambda>_. I) I"
  unfolding spawn_agent_def[abs_def]
  by (rule contractI)
    (auto simp: op_bind_def insert_agent_def roster_commit_def frame agent_rows_frame split: if_splits sum.splits prod.splits store_fate.splits)

lemma spawn_if_capital_holds: "contract I (spawn_if_capital env now fate s) (\<lambda>_. I) I"
  unfolding spawn_if_capital_def
  by (rule contract_bind[OF contract_try[OF spawn_agent_holds]])
    (auto intro!: contract_return contract_raise split: sum.split exn.split)

lemma seed_holds: "contract I (seed env now readable fates) (\<lambda>_. I) I"
proof -
  have "contract I (seed_slot env now fates s) (\<lambda>_. I) I" for s
    unfolding seed_slot_def[abs_def]
    by (intro contract_if_state contract_pure(1) contract_weaken[OF spawn_if_capital_holds]) auto
  then show ?thesis unfolding seed_def
    by (intro contract_bind[OF load] contract_bind[OF contract_read[where Q = "\<lambda>_. I"]] contract_bind[OF contract_iter] contract_return)
qed

lemma spawn_holds: "contract I (spawn env now readable fate s) (\<lambda>_. I) I"
  unfolding spawn_def
  by (intro contract_bind[OF load] contract_if_state contract_pure(2) contract_weaken[OF spawn_agent_holds]) auto

lemma retire_holds: "contract I (retire_agent now fate reason a) (\<lambda>_. I) I"
  unfolding retire_agent_def Let_def
  by (rule contractI) (auto simp: op_bind_def op_try_def roster_commit_def frame split: if_splits store_fate.splits)

lemma eliminate_holds: "contract I (eliminate env now readable fate fate' agent_id reason) (\<lambda>_. I) I"
  unfolding eliminate_def
  by (rule contract_bind[OF load], rule contract_bind[OF contract_read[where Q = "\<lambda>_. I"]])
    (auto intro!: contract_raise contract_return contract_bind[OF retire_holds] contract_bind[OF spawn_if_capital_holds] split: option.split)

lemma outcome: "contract I m (\<lambda>_. I) I \<Longrightarrow> I r \<Longrightarrow> I (snd (m r))"
  using contract_outcome[of I m I r "fst (m r)" "snd (m r)"] by simp

lemma next_keeps:
  assumes "I r" "\<And>readable fate intent_id agent_id instrument_id sd cid. step = Attribute readable fate intent_id agent_id instrument_id sd cid \<Longrightarrow>
    contract I (attribute readable fate intent_id agent_id instrument_id sd cid) (\<lambda>_. I) I"
  shows "I (roster_next env step r)"
  using assms
  by (cases step) (simp_all add: restart outcome[OF seed_holds] outcome[OF spawn_holds] outcome[OF eliminate_holds] outcome[OF apply_order]
      outcome[OF load] outcome)

lemma run_keeps:
  assumes "I r" "\<And>readable fate intent_id agent_id instrument_id sd cid. Attribute readable fate intent_id agent_id instrument_id sd cid \<in> set steps \<Longrightarrow>
    contract I (attribute readable fate intent_id agent_id instrument_id sd cid) (\<lambda>_. I) I"
  shows "I (roster_run env steps r)"
  using assms unfolding roster_run_def
proof (induction steps arbitrary: r)
  case (Cons step steps)
  have "I (roster_next env step r)" by (rule next_keeps[OF Cons.prems(1)]) (use Cons.prems(2) in auto)
  then have "I (foldl (\<lambda>r s. roster_next env s r) (roster_next env step r) steps)"
    by (rule Cons.IH) (use Cons.prems(2) in auto)
  then show ?case by simp
qed simp

end

interpretation att: order_view "attributions_ok P" for P
  by unfold_locales (simp_all add: load_orders orders_restart apply_order_orders)

text \<open>Whatever a roster step adds to the table, an attribution adds it.\<close>

definition adds_order :: "roster_step \<Rightarrow> (string \<times> string) set" where
  "adds_order step = (case step of Attribute _ _ intent_id agent_id _ _ _ \<Rightarrow> {(intent_id, agent_id)} | _ \<Rightarrow> {})"

lemma orders_run:
  assumes "attributions_ok P r" "\<And>K x step. P K \<Longrightarrow> step \<in> set steps \<Longrightarrow> x \<in> adds_order step \<Longrightarrow> P (insert x K)"
  shows "attributions_ok P (roster_run env steps r)"
proof (rule att.run_keeps[OF assms(1)], rule attribute_orders)
  fix readable fate intent_id agent_id instrument_id sd cid K
  assume "Attribute readable fate intent_id agent_id instrument_id sd cid \<in> set steps" "P K"
  then show "P (insert (intent_id, agent_id) K)" using assms(2) by (fastforce simp: adds_order_def)
qed

lemma orders_new: "attributions_ok (\<lambda>_. True) (roster_new True slots lab [] [])"
  by (simp add: attributions_ok_def roster_new_def order_keys_def)

text \<open>An attribution that returns is in the table and its agent is admitted.\<close>

lemma attribute_written:
  assumes "attributions_ok P r" "attribute readable fate intent_id agent_id instrument_id sd cid r = (Inr (), r')"
  shows "admit agent_id r'" "\<exists>owner. (intent_id, owner) \<in> set (order_keys r')
    \<and> (intent_id \<notin> fst ` set (order_keys r) \<longrightarrow> owner = agent_id)"
proof -
  obtain l where l: "roster_load readable r = (Inr (), l)" using assms(2) by (auto simp: attribute_def op_bind_def split: prod.splits sum.splits)
  have ok: "attributions_ok P l" using contractD(1)[OF load_orders assms(1) l] .
  have keys: "order_keys l = order_keys r" using l by (auto simp: roster_load_def order_keys_def split: if_splits)
  have "attribute readable fate intent_id agent_id instrument_id sd cid r = attribute readable fate intent_id agent_id instrument_id sd cid l"
    using l by (auto simp: attribute_def op_bind_def roster_load_def split: if_splits)
  moreover have "roster_load readable l = (Inr (), l)" using l by (auto simp: roster_load_def split: if_splits)
  ultimately have run: "(if \<not> admit agent_id l then (Inl (AgentEliminated agent_id), l)
       else if dget (ro_attributions l) intent_id \<noteq> None then (Inr (), l)
       else let x = \<lparr>an_intent_id = intent_id, an_agent_id = agent_id, an_instrument_id = instrument_id, an_side = sd,
                     an_client_order_id = cid, an_applied_quantity = 0, an_applied_notional = 0, an_applied_fee = 0\<rparr>
            in op_bind (insert_order fate x) (\<lambda>_. op_modify (\<lambda>r. r\<lparr>ro_attributions := dset intent_id x (ro_attributions r)\<rparr>)) l) = (Inr (), r')"
    using assms(2) by (simp add: attribute_def op_bind_simps)
  show "admit agent_id r'"
    using run by (auto simp: Let_def op_bind_def insert_order_def roster_commit_def admit_def split: if_splits store_fate.splits)
  show "\<exists>owner. (intent_id, owner) \<in> set (order_keys r') \<and> (intent_id \<notin> fst ` set (order_keys r) \<longrightarrow> owner = agent_id)"
  proof (cases "dget (ro_attributions l) intent_id")
    case (Some x)
    then have "(intent_id, an_agent_id x) \<in> set (order_keys l)" using ok unfolding attributions_ok_def by blast
    then show ?thesis using run Some keys by (force split: if_splits)
  next
    case None
    have "(intent_id, agent_id) \<in> set (order_keys r')"
      using run None ok by (auto simp: Let_def op_bind_def insert_order_def roster_commit_def attributions_ok_def order_keys_def split: if_splits store_fate.splits)
    then show ?thesis by blast
  qed
qed

section \<open>A fill is counted once\<close>

lemma dset_same: "dict_ok d \<Longrightarrow> dget d k = Some v \<Longrightarrow> dset k v d = d"
  by (induction d) auto

lemma dset_dset [simp]: "dset k v (dset k w d) = dset k v d"
  by (induction d) auto

text \<open>What the memory and the tables hold after an order that moves its book.\<close>

definition folded :: "attribution \<Rightarrow> trader_agent \<Rightarrow> roster \<Rightarrow> roster" where
  "folded x a r = (let s = update_order_row x (update_agent_row a (put_agent a r))
     in s\<lparr>ro_attributions := dset (an_intent_id x) x (ro_attributions s)\<rparr>)"

lemma save_fold_cases:
  assumes "ro_durable r" "dict_ok (ro_agents r)" "dget (ro_agents r) (ta_agent_id a) = Some a" "ta_agent_id a' = ta_agent_id a" "a'\<lparr>ta_book := ta_book a\<rparr> = a"
  shows "save_fold Saved x a a' r = (Inr (), folded x a' r)" "save_fold Not_Saved x a a' r = (Inl DatabaseError, r)"
    "save_fold Saved_Then_Lost x a a' r = (Inl DatabaseError, update_order_row x (update_agent_row a' r))"
  using assms dset_same[OF assms(2,3)]
  by (simp_all add: save_fold_def op_bind_def op_try_def roster_commit_def folded_def Let_def put_agent_def update_agent_row_def update_order_row_def)

lemma folded_again: "folded x a (update_order_row x (update_agent_row a r)) = folded x a r"
  by (simp add: folded_def Let_def put_agent_def update_agent_row_def update_order_row_def comp_def cong: if_cong)

lemma apply_order_unattributed:
  assumes "ro_loaded r" "\<And>x a. dget (ro_attributions r) (text_or env (jget order ''intent_id'') []) = Some x \<Longrightarrow>
    dget (ro_agents r) (an_agent_id x) = Some a \<Longrightarrow> \<not> moves_book env order x"
  shows "apply_order env readable fate instrument order r = (Inr False, r)"
  using assms by (auto simp: apply_order_def op_bind_def roster_load_def split: option.split)

lemma apply_order_moves:
  assumes "ro_loaded r" "dget (ro_attributions r) (text_or env (jget order ''intent_id'') []) = Some x"
    "dget (ro_agents r) (an_agent_id x) = Some a" "moves_book env order x" "fold_order env instrument order x a = (x', a')"
  shows "apply_order env readable fate instrument order r = op_bind (save_fold fate x' a a') (\<lambda>_. op_return True) r"
  using assms by (simp add: apply_order_def op_bind_def roster_load_def)

lemma apply_order_after_load:
  assumes "roster_load readable r = (Inr (), l)" "ro_loaded l"
  shows "apply_order env readable fate instrument order r = apply_order env readable fate instrument order l"
  using assms by (simp add: apply_order_def op_bind_def roster_load_def[of readable l])

text \<open>An order that moves a book does so by the three fates of its transaction.\<close>

lemma apply_order_fates:
  assumes l: "roster_ok l" "attributions_ok (\<lambda>_. True) l" "ro_loaded l" and run: "apply_order env readable Saved instrument order l = (Inr True, r1)"
  obtains x a x' a' where "dget (ro_attributions l) (text_or env (jget order ''intent_id'') []) = Some x"
    "dget (ro_agents l) (an_agent_id x) = Some a" "moves_book env order x" "fold_order env instrument order x a = (x', a')"
    "an_intent_id x' = text_or env (jget order ''intent_id'') []" "an_agent_id x' = an_agent_id x" "ta_agent_id a' = an_agent_id x" "r1 = folded x' a' l"
    "apply_order env readable Not_Saved instrument order l = (Inl DatabaseError, l)"
    "apply_order env readable Saved_Then_Lost instrument order l = (Inl DatabaseError, update_order_row x' (update_agent_row a' l))"
proof -
  let ?id = "text_or env (jget order ''intent_id'') []"
  obtain x a where x: "dget (ro_attributions l) ?id = Some x" "dget (ro_agents l) (an_agent_id x) = Some a" "moves_book env order x"
    using run apply_order_unattributed[OF l(3)] by (metis Pair_inject sum.inject(2))
  obtain x' a' where fold: "fold_order env instrument order x a = (x', a')" by fastforce
  have id: "ta_agent_id a = an_agent_id x" "agent_ok a" using roster_okD(3)[OF l(1) x(2)] roster_okD(5)[OF l(1)] by blast+
  note same = fold_order_same[OF id(2) x(3) fold]
  have ids: "ta_agent_id a' = ta_agent_id a" using same(1) by (simp add: same_agent_def)
  have "an_intent_id x = ?id" using l(2) x(1) unfolding attributions_ok_def by blast
  moreover note save = save_fold_cases[OF roster_okD(1,2)[OF l(1)] x(2)[folded id(1)] ids same(5), of x']
  ultimately show thesis
    using that[OF x fold] run same(3,4) ids id(1) unfolding apply_order_moves[OF l(3) x fold] by (simp add: op_bind_def)
qed

text \<open>
  A fill that is counted: the order of the intent has its row, and neither the row nor the memory holds less of it than
  the quantity and the fee.
\<close>

abbreviation holds_fill :: "rat \<Rightarrow> rat \<Rightarrow> attribution \<Rightarrow> bool" where
  "holds_fill q f x \<equiv> q \<le> an_applied_quantity x \<and> f \<le> an_applied_fee x"

definition counted :: "string \<Rightarrow> rat \<Rightarrow> rat \<Rightarrow> roster \<Rightarrow> bool" where
  "counted intent_id q f r \<longleftrightarrow> attributions_ok (\<lambda>K. intent_id \<in> fst ` K) r
     \<and> (\<forall>x. dget (ro_attributions r) intent_id = Some x \<or> x \<in> set (ro_order_rows r) \<and> an_intent_id x = intent_id \<longrightarrow> holds_fill q f x)"

lemma counted_attributions: "counted intent_id q f r \<Longrightarrow> attributions_ok (\<lambda>K. intent_id \<in> fst ` K) r"
  by (simp add: counted_def)

lemma counted_covers: "counted intent_id q f r \<Longrightarrow> dget (ro_attributions r) intent_id = Some x \<Longrightarrow> holds_fill q f x"
  by (simp add: counted_def)

lemma load_counted_loaded:
  "contract (counted intent_id q f) (roster_load readable) (\<lambda>_ r. counted intent_id q f r \<and> ro_loaded r) (counted intent_id q f)"
proof (rule contractI)
  fix r x r'
  assume r: "counted intent_id q f r" and run: "roster_load readable r = (Inr x, r')"
  have ok: "attributions_ok (\<lambda>K. intent_id \<in> fst ` K) r'" "ro_loaded r'"
    using contractD(1)[OF load_orders_loaded counted_attributions[OF r] run] by auto
  have "distinct (map an_intent_id (ro_order_rows r))" using counted_attributions[OF r] by (simp add: attributions_ok_def order_keys_def comp_def)
  then have "ro_order_rows r' = ro_order_rows r"
    "ro_attributions r' = ro_attributions r \<or> ro_attributions r' = map (\<lambda>x. (an_intent_id x, x)) (ro_order_rows r)"
    using run counted_attributions[OF r] by (auto simp: roster_load_def attributions_ok_def load_attributions split: if_splits)
  moreover from this(2) have "holds_fill q f x" if "dget (ro_attributions r') intent_id = Some x" for x
  proof
    assume "ro_attributions r' = ro_attributions r"
    then show ?thesis using that r by (simp add: counted_def)
  next
    assume "ro_attributions r' = map (\<lambda>x. (an_intent_id x, x)) (ro_order_rows r)"
    then show ?thesis using that r by (auto simp: counted_def dest!: map_of_SomeD)
  qed
  ultimately show "counted intent_id q f r' \<and> ro_loaded r'" using ok r by (simp add: counted_def)
qed (auto simp: roster_load_def split: if_splits)

lemma save_fold_effect:
  assumes "save_fold fate x a a' r = (out, r')"
  shows "ro_order_rows r' \<in> {ro_order_rows r, ro_order_rows (update_order_row x r)}"
    "ro_attributions r' \<in> {ro_attributions r, dset (an_intent_id x) x (ro_attributions r)}"
  using assms
  by (cases fate; auto simp: save_fold_def op_bind_def op_try_def roster_commit_def update_order_row_def split: if_splits)+

lemma apply_order_counted:
  "contract (counted intent_id q f) (apply_order env readable fate instrument order) (\<lambda>_. counted intent_id q f) (counted intent_id q f)"
  unfolding apply_order_def
proof (rule contract_bind[OF load_counted_loaded], rule contract_outcomeI, elim conjE)
  fix r out r'
  assume r: "counted intent_id q f r" "ro_loaded r" and run:
    "(case dget (ro_attributions r) (text_or env (jget order ''intent_id'') []) of None \<Rightarrow> (Inr False, r)
      | Some x \<Rightarrow> (case dget (ro_agents r) (an_agent_id x) of None \<Rightarrow> (Inr False, r)
         | Some a \<Rightarrow> if \<not> moves_book env order x then (Inr False, r)
            else (case fold_order env instrument order x a of (x', a') \<Rightarrow> op_bind (save_fold fate x' a a') (\<lambda>_. op_return True) r)))
     = (out, r')"
  from run show "counted intent_id q f r'"
  proof (cases rule: apply_order_loaded)
    case (moved x a x' a' out')
    note ok = counted_attributions[OF r(1)]
    have id: "an_intent_id x = text_or env (jget order ''intent_id'') []" using ok moved(1) unfolding attributions_ok_def by blast
    have "attributions_ok (\<lambda>K. intent_id \<in> fst ` K) r'" using save_fold_orders[OF ok r(2) _ _ moved(4)] moved id by simp
    moreover have "holds_fill q f x'" if "an_intent_id x' = intent_id"
      using counted_covers[OF r(1)] moved that id by (auto simp: fold_order_def moves_book_def Let_def)
    ultimately show ?thesis
      using save_fold_effect[OF moved(4)] r(1) by (auto simp: counted_def update_order_row_def split: if_splits)
  qed (use r in simp)
qed

interpretation counted: order_view "counted intent_id q f" for intent_id q f
proof
  show "contract (counted intent_id q f) (roster_load readable) (\<lambda>_. counted intent_id q f) (counted intent_id q f)" for readable
    by (rule contract_weaken[OF load_counted_loaded]) auto
  show "counted intent_id q f (roster_restart r)" if "counted intent_id q f r" for r
  proof -
    have "ro_attributions (roster_restart r) = []" "ro_order_rows (roster_restart r) = ro_order_rows r"
      using counted_attributions[OF that] by (simp_all add: attributions_ok_def roster_restart_def roster_new_def)
    then show ?thesis using orders_restart[OF counted_attributions[OF that]] that by (simp add: counted_def)
  qed
qed (simp add: counted_def, simp add: counted_def, rule apply_order_counted)

lemma attribute_counted:
  "contract (counted intent_id q f) (attribute readable fate i agent_id instrument_id sd cid) (\<lambda>_. counted intent_id q f) (counted intent_id q f)"
  unfolding attribute_def
proof (rule contract_bind[OF load_counted_loaded], rule contract_outcomeI, elim conjE)
  let ?x = "\<lparr>an_intent_id = i, an_agent_id = agent_id, an_instrument_id = instrument_id, an_side = sd,
     an_client_order_id = cid, an_applied_quantity = 0, an_applied_notional = 0, an_applied_fee = 0\<rparr>"
  fix r out r'
  assume r: "counted intent_id q f r" "ro_loaded r" and run: "(if \<not> admit agent_id r then (Inl (AgentEliminated agent_id), r)
       else if dget (ro_attributions r) i \<noteq> None then (Inr (), r)
       else let x = ?x in op_bind (insert_order fate x) (\<lambda>_. op_modify (\<lambda>r. r\<lparr>ro_attributions := dset i x (ro_attributions r)\<rparr>)) r) = (out, r')"
  note ok = counted_attributions[OF r(1)]
  have call: "attribute True fate i agent_id instrument_id sd cid r = (out, r')"
    using run r(2) by (simp add: attribute_def op_bind_def roster_load_def)
  have "keeps_orders (\<lambda>K. intent_id \<in> fst ` K) (attribute True fate i agent_id instrument_id sd cid)"
    by (rule attribute_orders) simp
  from contract_outcome[OF this ok call] have ok': "attributions_ok (\<lambda>K. intent_id \<in> fst ` K) r'" .
  have "ro_durable r" "\<exists>y \<in> set (ro_order_rows r). an_intent_id y = intent_id" using ok by (auto simp: attributions_ok_def order_keys_def)
  then have "r' = r \<or> i \<noteq> intent_id \<and> ro_order_rows r' = ro_order_rows r @ [?x]
      \<and> ro_attributions r' \<in> {ro_attributions r, dset i ?x (ro_attributions r)}"
    using run
    by (cases fate) (auto simp: Let_def op_bind_def insert_order_def roster_commit_def list_ex_iff split: if_splits)
  then show "counted intent_id q f r'" using ok' r(1) by (auto simp: counted_def)
qed

lemma folded_counted:
  assumes "attributions_ok (\<lambda>_. True) (folded x' a' r)" "fold_order env instrument order x a = (x', a')" "an_intent_id x' = intent_id"
  shows "counted intent_id (fs_filled (order_fills env order)) (fs_fee (order_fills env order)) (folded x' a' r)"
proof -
  have x': "dget (ro_attributions (folded x' a' r)) intent_id = Some x'" using assms(3) by (simp add: folded_def Let_def)
  have "(intent_id, an_agent_id x') \<in> set (order_keys (folded x' a' r))" using assms(1) x' unfolding attributions_ok_def by blast
  then have "attributions_ok (\<lambda>K. intent_id \<in> fst ` K) (folded x' a' r)" using assms(1) unfolding attributions_ok_def by force
  moreover have "y = x'" if "y \<in> set (ro_order_rows (folded x' a' r))" "an_intent_id y = intent_id" for y
    using that assms(3) by (auto simp: folded_def Let_def update_order_row_def split: if_splits)
  moreover have "holds_fill (fs_filled (order_fills env order)) (fs_fee (order_fills env order)) x'"
    using assms(2) by (auto simp: fold_order_def Let_def)
  ultimately show ?thesis using x' by (auto simp: counted_def)
qed

text \<open>A counted fill is not applied again: reading an order that shows no more than was counted is no more than loading the roster.\<close>

lemma counted_not_again:
  assumes "counted (text_or env (jget order ''intent_id'') []) q f r" "fs_filled (order_fills env order) \<le> q" "fs_fee (order_fills env order) \<le> f"
  shows "apply_order env readable fate instrument order r = op_bind (roster_load readable) (\<lambda>_. op_return False) r"
proof -
  obtain res l where load: "roster_load readable r = (res, l)" by fastforce
  show ?thesis
  proof (cases res)
    case (Inl e)
    then show ?thesis using load by (simp add: apply_order_def op_bind_def)
  next
    case (Inr u)
    then have l: "counted (text_or env (jget order ''intent_id'') []) q f l" "ro_loaded l"
      using contractD(1)[OF load_counted_loaded assms(1) load[unfolded Inr]] by auto
    have "apply_order env readable fate instrument order l = (Inr False, l)"
      using counted_covers[OF l(1)] assms(2,3) by (intro apply_order_unattributed[OF l(2)]) (force simp: moves_book_def Let_def)
    then show ?thesis using apply_order_after_load[OF _ l(2)] load Inr by (simp add: op_bind_def)
  qed
qed

text \<open>
  C15: A fill is counted once. When an order of any reachable roster has moved its agent's book, then after any
  further run of the roster, with failed and unacknowledged transactions, restarts and other documents of the same or of other
  orders, reading the order as it stood, or as it stood earlier, does nothing but load the roster. When the transaction
  fails, or is made but not acknowledged, the operation raises; if the very next operation is its retry, that ends in the state of
  a transaction that succeeded at once, and if it was made and the process restarts next, the tables are those of success. What
  an operation in between costs is shown by \<open>lost_acknowledgement_costs\<close>.
\<close>

theorem fills_counted_once:
  assumes "r = roster_run env steps (roster_new True slots lab [] [])"
    and "apply_order env True Saved instrument order r = (Inr True, r1)"
  shows "(\<forall>steps' readable fate instrument' order'. text_or env (jget order' ''intent_id'') [] = text_or env (jget order ''intent_id'') []
         \<and> fs_filled (order_fills env order') \<le> fs_filled (order_fills env order) \<and> fs_fee (order_fills env order') \<le> fs_fee (order_fills env order) \<longrightarrow>
         apply_order env readable fate instrument' order' (roster_run env steps' r1)
           = op_bind (roster_load readable) (\<lambda>_. op_return False) (roster_run env steps' r1))
    \<and> (\<forall>fate'. fate' \<noteq> Saved \<longrightarrow>
         (\<exists>r2. apply_order env True fate' instrument order r = (Inl DatabaseError, r2)
             \<and> apply_order env True Saved instrument order r2 = (Inr True, r1)
             \<and> (fate' = Saved_Then_Lost \<longrightarrow> roster_restart r2 = roster_restart r1)))"
proof -
  let ?id = "text_or env (jget order ''intent_id'') []" and ?f = "order_fills env order"
  have r: "roster_safe {} r" "attributions_ok (\<lambda>_. True) r" unfolding assms(1) by (rule keeps_run[OF roster_new_safe], rule orders_run[OF orders_new]) simp
  obtain l where load: "roster_load True r = (Inr (), l)" by (cases "roster_load True r") (auto simp: roster_load_def split: if_splits)
  have l: "roster_ok l" "attributions_ok (\<lambda>_. True) l" "ro_loaded l"
    using contractD(1)[OF load_keeps r(1) load] contractD(1)[OF load_orders_loaded r(2) load] by (auto dest: roster_safeD)
  note on_l = apply_order_after_load[OF load l(3)]
  obtain x a x' a' where x: "dget (ro_attributions l) ?id = Some x" "dget (ro_agents l) (an_agent_id x) = Some a" "moves_book env order x"
      "fold_order env instrument order x a = (x', a')" "an_intent_id x' = ?id" "an_agent_id x' = an_agent_id x" "ta_agent_id a' = an_agent_id x"
      "r1 = folded x' a' l" and fates: "apply_order env True Not_Saved instrument order l = (Inl DatabaseError, l)"
      "apply_order env True Saved_Then_Lost instrument order l = (Inl DatabaseError, update_order_row x' (update_agent_row a' l))"
    using apply_order_fates[OF l assms(2)[unfolded on_l]] by metis
  have "attributions_ok (\<lambda>_. True) r1" using att.outcome[OF apply_order_orders r(2), of env True Saved instrument order] assms(2) by simp
  then have "counted ?id (fs_filled ?f) (fs_fee ?f) r1" using folded_counted[OF _ x(4,5)] x(8) by simp
  then have "counted ?id (fs_filled ?f) (fs_fee ?f) (roster_run env steps' r1)" for steps'
    by (rule counted.run_keeps) (rule attribute_counted)
  then have again: "apply_order env readable fate instrument' order' (roster_run env steps' r1)
      = op_bind (roster_load readable) (\<lambda>_. op_return False) (roster_run env steps' r1)"
    if "text_or env (jget order' ''intent_id'') [] = ?id" "fs_filled (order_fills env order') \<le> fs_filled ?f" "fs_fee (order_fills env order') \<le> fs_fee ?f"
    for steps' readable fate instrument' order'
    using counted_not_again[OF _ that(2,3)] that(1) by simp
  let ?lost = "update_order_row x' (update_agent_row a' l)"
  have retry: "apply_order env True Saved instrument order ?lost = (Inr True, r1)"
  proof -
    have "save_fold Saved x' a a' ?lost = (Inr (), folded x' a' ?lost)"
      by (rule save_fold_cases(1)) (use roster_okD(1,2,3)[OF l(1)] x(2,7) fold_order_same[OF _ x(3,4)] roster_okD(5)[OF l(1)] in auto)
    then show ?thesis using apply_order_moves[of ?lost, OF _ _ _ x(3,4)] x(1,2,8) l(3) by (simp add: op_bind_def folded_again)
  qed
  have "roster_restart ?lost = roster_restart r1"
    by (simp add: x(8) folded_def Let_def roster_restart_def roster_new_def put_agent_def update_agent_row_def update_order_row_def)
  moreover have "apply_order env True Saved instrument order l = (Inr True, r1)" using assms(2) unfolding on_l .
  ultimately have "\<exists>r2. apply_order env True fate' instrument order r = (Inl DatabaseError, r2) \<and> apply_order env True Saved instrument order r2 = (Inr True, r1)
      \<and> (fate' = Saved_Then_Lost \<longrightarrow> roster_restart r2 = roster_restart r1)" if "fate' \<noteq> Saved" for fate'
    using that fates retry unfolding on_l by (cases fate') auto
  then show ?thesis using again by blast
qed

section \<open>Sizing to the agent\<close>

abbreviation dec_eps :: rat where
  "dec_eps \<equiv> 1 / (2 * 10 ^ 27)"

lemma dec_fix_relative:
  assumes "0 \<le> x"
  shows "dec_fix x \<le> x * (1 + dec_eps)" "x * (1 - dec_eps) \<le> dec_fix x"
proof -
  have "\<bar>dec_fix x - x\<bar> \<le> x * dec_eps" using dec_fix_error[of x] assms by simp
  then have "dec_fix x - x \<le> x * dec_eps" "x - dec_fix x \<le> x * dec_eps" by linarith+
  then show "dec_fix x \<le> x * (1 + dec_eps)" "x * (1 - dec_eps) \<le> dec_fix x"
    unfolding distrib_left right_diff_distrib by linarith+
qed

lemma exposure_arith:
  fixes held price budget cost headroom room q e :: rat
  assumes e: "0 \<le> e" "e \<le> 1 / 2" and "0 \<le> held" "0 < price"
    and cost: "held * price * (1 - e) \<le> cost" and headroom: "headroom \<le> (budget - cost) * (1 + e)" and room: "room \<le> headroom / price * (1 + e)"
    and "q \<le> room"
  shows "(held + q) * price \<le> budget * (1 + e) ^ 2"
proof -
  have "room * price \<le> headroom / price * (1 + e) * price" using room assms(4) by (intro mult_right_mono) auto
  also have "\<dots> = headroom * (1 + e)" using assms(4) by simp
  also have "\<dots> \<le> (budget - cost) * (1 + e) * (1 + e)" using headroom e by (intro mult_right_mono) auto
  also have "\<dots> \<le> (budget - held * price * (1 - e)) * (1 + e) * (1 + e)" using cost e by (intro mult_right_mono) auto
  finally have "q * price \<le> (budget - held * price * (1 - e)) * (1 + e) * (1 + e)"
    using mult_right_mono[OF assms(8), of price] assms(4) by linarith
  moreover have "held * price \<le> held * price * (1 - e) * (1 + e) * (1 + e)"
  proof -
    have "1 \<le> (1 - e) * (1 + e) * (1 + e)"
    proof -
      have sq: "e * e \<le> e * (1 / 2)" using e by (rule mult_left_mono[rotated])
      moreover have "e * (e * e) \<le> e * (1 / 2)" using sq e by (intro mult_left_mono) linarith+
      ultimately show ?thesis by (simp add: algebra_simps)
    qed
    then show ?thesis using mult_left_mono[of 1 "(1 - e) * (1 + e) * (1 + e)" "held * price"] assms(3,4) by (simp add: mult.assoc)
  qed
  ultimately show ?thesis by (simp add: algebra_simps power2_eq_square)
qed

lemma equity_exposure:
  assumes "0 \<le> held" "0 < price" "0 < rate" "ddiv (dmul equity AGENT_MAX_LEVERAGE) rate = Inr budget"
    and "0 < dsub budget (dmul held price)" "ddiv (dsub budget (dmul held price)) price = Inr room" "q \<le> room"
  shows "(held + q) * price * rate \<le> equity * (1 + 3 / 10 ^ 27)"
proof -
  let ?e = dec_eps and ?h = "dsub budget (dmul held price)"
  have max: "AGENT_MAX_LEVERAGE = 1" by (simp add: AGENT_MAX_LEVERAGE_def constitution)
  have budget: "budget = dec_fix (dec_fix equity / rate)" using assms(3,4) max by (simp add: ddiv_def dmul_def)
  have cost: "0 \<le> dmul held price" "held * price * (1 - ?e) \<le> dmul held price"
    using assms(1,2) dec_fix_relative(2)[of "held * price"] by (simp add: dmul_nonneg, simp add: dmul_def)
  have less: "dmul held price < budget" using assms(5) by simp
  then have "0 < budget" using cost(1) by linarith
  then have pos: "0 < equity" unfolding budget using assms(3) by (simp add: dec_signs zero_less_divide_iff)
  have "(held + q) * price \<le> budget * (1 + ?e) ^ 2"
  proof (rule exposure_arith[OF _ _ assms(1,2) cost(2) _ _ assms(7)])
    show "?h \<le> (budget - dmul held price) * (1 + ?e)" unfolding dsub_def using less by (intro dec_fix_relative(1)) simp
    show "room \<le> ?h / price * (1 + ?e)"
      using assms(2,5,6) dec_fix_relative(1)[of "?h / price"] by (simp add: ddiv_def divide_nonneg_pos less_imp_le)
  qed simp_all
  also have "budget \<le> equity / rate * (1 + ?e) ^ 2"
  proof -
    have "dec_fix equity / rate \<le> equity * (1 + ?e) / rate" using dec_fix_relative(1)[of equity] pos assms(3) by (intro divide_right_mono) auto
    moreover have "budget \<le> dec_fix equity / rate * (1 + ?e)" unfolding budget using pos assms(3) dec_signs(2)[of equity] by (intro dec_fix_relative(1)) simp
    ultimately show ?thesis using mult_right_mono[of "dec_fix equity / rate" "equity * (1 + ?e) / rate" "1 + ?e"] by (simp add: power2_eq_square)
  qed
  finally have "(held + q) * price * rate \<le> equity / rate * (1 + ?e) ^ 2 * (1 + ?e) ^ 2 * rate"
    using assms(3) by (intro mult_right_mono) simp_all
  also have "\<dots> = equity * ((1 + ?e) ^ 2 * (1 + ?e) ^ 2)" using assms(3) by simp
  also have "\<dots> \<le> equity * (1 + 3 / 10 ^ 27)" using pos by (intro mult_left_mono) (simp_all add: power2_eq_square)
  finally show ?thesis .
qed

lemma shaped_intent:
  assumes "shape_for_agent intent a i equity rate = Inr shaped" "az_intent shaped = Some out"
  obtains price q where "in_limit_price intent = Some price" "0 < rate" "agent_quantity intent a i equity rate price = Inr (Size q)"
    "order_violation i (min q (in_quantity intent)) price = Inr None" "out = intent\<lparr>in_quantity := min q (in_quantity intent)\<rparr>"
proof -
  have refused: "az_intent (refuse_size reason) = None" for reason by (simp add: refuse_size_def)
  obtain price where price: "in_limit_price intent = Some price" "0 < rate"
    using assms refused by (cases "in_limit_price intent") (auto simp: shape_for_agent_def not_le split: if_splits)
  then obtain size where size: "agent_quantity intent a i equity rate price = Inr size"
    using assms(1) by (auto simp: shape_for_agent_def res_bind_Inr_conv)
  obtain q where q: "size = Size q" using assms refused price size by (cases size) (auto simp: shape_for_agent_def)
  obtain v where v: "order_violation i (min q (in_quantity intent)) price = Inr v"
    using assms(1) price size q by (auto simp: shape_for_agent_def Let_def res_bind_Inr_conv)
  show thesis
    using that[OF price] assms refused size q v price by (cases v) (auto simp: shape_for_agent_def Let_def)
qed

text \<open>
  C17: Sizing to the agent only tightens. What \<^verbatim>\<open>shape_for_agent\<close> lets through is the reviewed proposal with a quantity that is
  positive, not larger, and on the grid of the venue. A sale is within what the agent itself holds. A buy is
  within the survival multiple of the proposal, and with what is held the exposure at the limit price stays within the
  agent's equity, up to three parts in 10^27 from the roundings of the decimal context.
\<close>

theorem agent_sizing_tightens:
  assumes "shape_for_agent intent a i equity rate = Inr shaped" "az_intent shaped = Some out"
    and "decimal_grid i" "instrument_fields i" "dec_fix (in_quantity intent) = in_quantity intent"
    and "dec_fix (ab_quantity (ta_book a)) = ab_quantity (ta_book a)" "0 \<le> ab_quantity (ta_book a)"
  shows "\<exists>price n. in_limit_price intent = Some price \<and> out = intent\<lparr>in_quantity := of_nat n * ti_lot_size i\<rparr>
    \<and> 0 < in_quantity out \<and> in_quantity out \<le> in_quantity intent \<and> order_violation i (in_quantity out) price = Inr None
    \<and> (if in_side intent = SELL then in_quantity out \<le> ab_quantity (ta_book a)
       else in_quantity out \<le> dmul (in_quantity intent) (size_multiplier equity)
         \<and> (ab_quantity (ta_book a) + in_quantity out) * price * rate \<le> equity * (1 + 3 / 10 ^ 27))"
proof -
  let ?held = "ab_quantity (ta_book a)"
  obtain price q where price: "in_limit_price intent = Some price" "0 < rate"
    and size: "agent_quantity intent a i equity rate price = Inr (Size q)"
    and grid: "order_violation i (min q (in_quantity intent)) price = Inr None" and out: "out = intent\<lparr>in_quantity := min q (in_quantity intent)\<rparr>"
    using shaped_intent[OF assms(1,2)] .
  have "0 < price" using grid by (auto simp: order_violation_def res_bind_Inr_conv split: if_splits)
  obtain n where n: "0 < n" "min q (in_quantity intent) = of_nat n * ti_lot_size i" using order_violation_grid[OF assms(4) grid] by blast
  have lot: "0 < ti_lot_size i" using assms(4) by (simp add: instrument_fields_def)
  show ?thesis
  proof (cases "in_side intent = SELL")
    case True
    then have q: "floor_to_lot (min (in_quantity intent) ?held) i = Inr q" "0 < q"
      using size by (auto simp: agent_quantity_def Let_def res_bind_Inr_conv split: if_splits)
    have "q \<le> ?held" using floor_to_lot_pos[OF assms(3) dec_fix_min(1)[OF assms(5,6)] q] by simp
    then show ?thesis using True price(1) out n lot grid by auto
  next
    case False
    then obtain budget room where b: "ddiv (dmul equity AGENT_MAX_LEVERAGE) rate = Inr budget" "0 < dsub budget (dmul ?held price)"
      "ddiv (dsub budget (dmul ?held price)) price = Inr room"
      and q: "floor_to_lot (min (dmul (in_quantity intent) (size_multiplier equity)) room) i = Inr q" "0 < q"
      using size by (auto simp: agent_quantity_def Let_def res_bind_Inr_conv not_le split: if_splits simp del: dsub_pos)
    have le: "q \<le> dmul (in_quantity intent) (size_multiplier equity)" "q \<le> room"
      using floor_to_lot_pos[OF assms(3) dec_fix_min(1)[OF _ ddiv_representable[OF b(3)]] q] by simp_all
    then have "(?held + min q (in_quantity intent)) * price * rate \<le> equity * (1 + 3 / 10 ^ 27)"
      by (intro equity_exposure[OF assms(7) \<open>0 < price\<close> price(2) b]) simp
    then show ?thesis using False price(1) out n lot grid le(1) by auto
  qed
qed

section \<open>Witnesses\<close>

definition ex_roster_env :: roster_env where
  "ex_roster_env = \<lparr>re_uuid5_hex = (\<lambda>_. []), re_decimal = (\<lambda>_. None), re_str = (\<lambda>_. []), re_floats = exact_floats\<rparr>"

definition ex_roster_steps :: "roster_step list" where
  "ex_roster_steps = [Spawn 0 True Saved (ema_slot ''BINANCE_SPOT:BTCUSDT''),
     Attribute True Saved ''i1'' ''AG-0001-ORION'' ''BINANCE_SPOT:BTCUSDT'' ''BUY'' None,
     Attribute True Saved ''i2'' ''AG-0001-ORION'' ''BINANCE_SPOT:BTCUSDT'' ''BUY'' None]"

definition ex_filled :: "string \<Rightarrow> int \<Rightarrow> json_dict" where
  "ex_filled intent_id quantity = [(''intent_id'', JStr intent_id), (''side'', JStr ''BUY''), (''filled_quantity'', JInt quantity),
     (''filled_notional'', JInt (10 * quantity)), (''fee'', JInt 1), (''fee_asset'', JStr ''USDT'')]"

abbreviation ex_empty_roster :: roster where
  "ex_empty_roster \<equiv> roster_new True INITIAL_SLOTS False [] []"

definition ex_roster :: roster where
  "ex_roster = roster_run ex_roster_env ex_roster_steps ex_empty_roster"

lemma ex_fill: "fst (apply_order ex_roster_env True Saved None (ex_filled ''i1'' 2) ex_roster) = Inr True"
  by code_simp

lemma ex_eliminate: "\<not> isl (fst (eliminate ex_roster_env 1 True Saved Saved ''AG-0001-ORION'' ''below the floor'' ex_roster))"
  by code_simp

theorem eliminated_code_is_final_witness:
  "\<exists>x r1. eliminate ex_roster_env 1 True Saved Saved ''AG-0001-ORION'' ''below the floor'' ex_roster = (Inr x, r1)
     \<and> \<not> admit ''AG-0001-ORION'' (roster_run ex_roster_env [Roster_Restart, Roster_Load True] r1)"
proof -
  obtain x r1 where "eliminate ex_roster_env 1 True Saved Saved ''AG-0001-ORION'' ''below the floor'' ex_roster = (Inr x, r1)"
    using ex_eliminate by (metis prod.collapse sum.collapse(2))
  moreover from this have "\<not> admit ''AG-0001-ORION'' (roster_run ex_roster_env [Roster_Restart, Roster_Load True] r1)"
    using eliminated_code_is_final[OF _ refl, of ex_roster_env 1 True Saved Saved "''AG-0001-ORION''" "''below the floor''" ex_roster_steps INITIAL_SLOTS False x r1]
    unfolding ex_roster_def by simp
  ultimately show ?thesis by blast
qed

theorem fills_counted_once_witness:
  "\<exists>r1. apply_order ex_roster_env True Saved None (ex_filled ''i1'' 2) ex_roster = (Inr True, r1)
     \<and> apply_order ex_roster_env True Saved None (ex_filled ''i1'' 1)
         (roster_run ex_roster_env [Apply_Order True Saved None (ex_filled ''i2'' 3), Roster_Restart] r1)
       = op_bind (roster_load True) (\<lambda>_. op_return False)
           (roster_run ex_roster_env [Apply_Order True Saved None (ex_filled ''i2'' 3), Roster_Restart] r1)"
proof -
  obtain r1 where r1: "apply_order ex_roster_env True Saved None (ex_filled ''i1'' 2) ex_roster = (Inr True, r1)"
    using ex_fill by (metis prod.collapse)
  have "text_or ex_roster_env (jget (ex_filled ''i1'' 1) ''intent_id'') [] = text_or ex_roster_env (jget (ex_filled ''i1'' 2) ''intent_id'') []"
    "fs_filled (order_fills ex_roster_env (ex_filled ''i1'' 1)) \<le> fs_filled (order_fills ex_roster_env (ex_filled ''i1'' 2))"
    "fs_fee (order_fills ex_roster_env (ex_filled ''i1'' 1)) \<le> fs_fee (order_fills ex_roster_env (ex_filled ''i1'' 2))" by code_simp+
  then show ?thesis using fills_counted_once[OF ex_roster_def r1] r1 by blast
qed

definition ex_agent :: trader_agent where
  "ex_agent = \<lparr>ta_agent_id = ''AG-0001-ORION'', ta_sequence = 1, ta_name = ''ORION'', ta_slot = ema_slot ''BINANCE_SPOT:BTCUSDT'', ta_params = [],
     ta_capital_brl = 200, ta_status = ACTIVE, ta_generation = 0, ta_created_at = 0, ta_eliminated_at = None, ta_elimination_reason = None,
     ta_book = book_new\<rparr>"

lemma ex_shaped: "shape_for_agent ex_proposal ex_agent ex_instrument 200 5
    = Inr \<lparr>az_intent = Some (ex_proposal\<lparr>in_quantity := 8 / 10000\<rparr>), az_reason = None\<rparr>"
proof -
  have p: "in_limit_price ex_proposal = Some 50000" "in_side ex_proposal = BUY" "in_quantity ex_proposal = 1 / 80"
    by (simp_all add: ex_proposal_def spot_intent_def)
  have d: "dec_fix 40 = 40" "dec_fix (1 / 1250) = 1 / 1250" "dec_fix 80 = 80" "dec_fix 1 = 1" by code_simp+
  have "size_multiplier 200 = 1" by (simp add: size_multiplier_def survival_ratio_def AGENT_STARTING_CAPITAL_def dmul_def d)
  then have "agent_quantity ex_proposal ex_agent ex_instrument 200 5 50000 = Inr (Size (1 / 1250))"
    by (simp add: agent_quantity_def p floor_to_lot_def ddiv_def dmul_def dsub_def constitution AGENT_MAX_LEVERAGE_def d
        ex_agent_def book_new_def ex_instrument_def dtrunc_def Let_def)
  moreover have "order_violation ex_instrument (1 / 1250) 50000 = Inr None" by code_simp
  ultimately show ?thesis by (simp add: shape_for_agent_def p Let_def)
qed

theorem agent_sizing_tightens_witness:
  "\<exists>shaped out. shape_for_agent ex_proposal ex_agent ex_instrument 200 5 = Inr shaped \<and> az_intent shaped = Some out
     \<and> in_quantity out * 50000 * 5 \<le> 200 * (1 + 3 / 10 ^ 27)"
proof -
  have "instrument_fields ex_instrument" by (simp add: instrument_fields_def ex_instrument_def)
  moreover have "dec_fix (in_quantity ex_proposal) = in_quantity ex_proposal" by code_simp
  ultimately show ?thesis
    using agent_sizing_tightens[OF ex_shaped _ ex_instrument_grid] ex_shaped
    by (fastforce simp: ex_agent_def book_new_def ex_proposal_def spot_intent_def)
qed

text \<open>
  What a lost acknowledgement costs. Two orders of one agent buy 2 and 3. The transaction of the first is made but not
  acknowledged, so the memory keeps the old book; the second writes the agent's row from that book; then the process restarts. The
  attribution of the first order says that its 2 were applied, the book holds 3, and reading the first order
  again never adds them. And when the insertion of a spawned agent is made but not acknowledged, the roster keeps the sequence number for
  free: no agent can be spawned, in any slot, until the process restarts.
\<close>

lemma lost_acknowledgement_costs:
  "(let r = roster_run ex_roster_env (ex_roster_steps @ [Apply_Order True Saved_Then_Lost None (ex_filled ''i1'' 2),
         Apply_Order True Saved None (ex_filled ''i2'' 3), Roster_Restart, Apply_Order True Saved None (ex_filled ''i1'' 2)]) ex_empty_roster
    in map (ab_quantity \<circ> ta_book) (dvalues (ro_agents r)) = [3] \<and> map an_applied_quantity (dvalues (ro_attributions r)) = [2, 3]
     \<and> fst (apply_order ex_roster_env True Saved None (ex_filled ''i1'' 2) r) = Inr False)
   \<and> (let r = roster_run ex_roster_env [Spawn 0 True Saved_Then_Lost (ema_slot ''BINANCE_SPOT:BTCUSDT''),
         Spawn 1 True Saved (ema_slot ''BINANCE_SPOT:ETHUSDT''), Seed 2 True (\<lambda>_. Saved)] ex_empty_roster
      in ro_agents r = [] \<and> map ta_agent_id (ro_agent_rows r) = [''AG-0001-ORION''])"
  by code_simp

end
