(* ===== verification/Agent_Surface.thy ===== *)
theory Agent_Surface
  imports Order_Surface Roster_Orders
begin

text \<open>
  The surfaces of the trader agents (\<^verbatim>\<open>apps/api/app/roster_surface.py\<close> and
  \<^verbatim>\<open>apps/api/app/agent_surface.py\<close>): the valuation of an agent, its elimination below the smallest order, the fills read
  back into its book, and the path from an accepted signal over the agent of its slot, the decision pipeline
  and the sizing to the agent to the risk engine and the order manager.

  The state joins the roster, the desk of \<^verbatim>\<open>Order_Surface\<close>, the buffered signals, the recorded decisions and the
  caches. What the world answers during one evaluation is one record of inputs. While an evaluation waits, other tasks
  run: what they do at the numbered points (after the pipeline's decision, and at the awaits of a submission) is the argument
  \<open>between\<close>; what comes before, the reading of fills and the valuation, is not interrupted. An agent object is shared with
  the roster, so it is read again after such a point. The lock of a slot, the views and the process's own resets are left out.
\<close>

section \<open>State and inputs\<close>

record agent_settings =
  ag_pipeline_enabled :: bool
  ag_roster_enabled :: bool
  ag_lab_strategies :: bool
  ag_b3_enabled :: bool
  ag_us_enabled :: bool
  ag_market_source :: string
  ag_stop_distance :: rat
  ag_stop_loss :: rat
  ag_take_profit :: rat
  ag_ema_bar_minutes :: int
  ag_ema_bar_seconds :: int

record ('v, 'l, 'p, 'c) agent_floor =
  af_roster :: roster
  af_desk :: "('v, 'l, 'p, 'c) desk"
  af_signals :: "signal list"
  af_decisions :: "agent_decision list"
  af_outcomes :: "(decision_outcome, nat) dict"
  af_record_failures :: nat
  af_views :: "(string, portfolio_view) dict"
  af_rates :: rate_cache

record ('v, 'l, 'p, 'c) agent_env =
  ge_desk :: "('v, 'l, 'p, 'c) desk_env"
  ge_roster :: roster_env
  ge_settings :: agent_settings
  ge_decimal_text :: "rat \<Rightarrow> string"
  ge_between :: "nat \<Rightarrow> ('v, 'l, 'p, 'c) agent_floor \<Rightarrow> ('v, 'l, 'p, 'c) agent_floor"

text \<open>The fates of the transactions of a fill and of an elimination it may cause.\<close>

record fold_fates =
  ff_readable :: bool
  ff_fold :: store_fate
  ff_retire :: store_fate
  ff_replace :: store_fate

record agent_inputs =
  ai_now :: instant
  ai_uuid :: string
  ai_b3_quote :: "string \<Rightarrow> quote option"
  ai_us_quote :: "string \<Rightarrow> quote option"
  ai_frames :: "string \<Rightarrow> feed_frame option"
  ai_ticker :: "(rat \<times> rat) option"
  ai_reviewer :: "trade_intent \<Rightarrow> agent_review res"
  ai_orders :: "venue_id \<Rightarrow> json_dict list client_answer"
  ai_account :: account_read
  ai_gathered :: gathered
  ai_chain :: chain_faults
  ai_answer :: "order_answer client_answer"
  ai_dispatched :: json_dict
  ai_journal_up :: bool
  ai_readable :: bool
  ai_seed_fates :: "slot \<Rightarrow> store_fate"
  ai_fold_fates :: "json_dict \<Rightarrow> fold_fates"
  ai_survive_fates :: fold_fates
  ai_attribute_fate :: store_fate

definition on_roster :: "(roster, 'a) op \<Rightarrow> (('v, 'l, 'p, 'c) agent_floor, 'a) op" where
  "on_roster m s = (case m (af_roster s) of (r, x) \<Rightarrow> (r, s\<lparr>af_roster := x\<rparr>))"

definition on_desk :: "(('v, 'l, 'p, 'c) desk, 'a) op \<Rightarrow> (('v, 'l, 'p, 'c) agent_floor, 'a) op" where
  "on_desk m s = (case m (af_desk s) of (r, x) \<Rightarrow> (r, s\<lparr>af_desk := x\<rparr>))"

abbreviation agent_catalog :: "('v, 'l, 'p, 'c) agent_env \<Rightarrow> (string, tradable_instrument) dict" where
  "agent_catalog env \<equiv> active_instruments (de_settings (ge_desk env))"

text \<open>\<^verbatim>\<open>deque(maxlen=n)\<close>\<close>

definition push_bounded :: "nat \<Rightarrow> 'a \<Rightarrow> 'a list \<Rightarrow> 'a list" where
  "push_bounded n x xs = drop (length xs + 1 - n) (xs @ [x])"

section \<open>Valuation and survival\<close>

definition roster_slots :: "agent_settings \<Rightarrow> api_settings \<Rightarrow> slot list" where
  "roster_slots ag st = INITIAL_SLOTS @ (if ap_more_pairs st then MORE_SLOTS else [])
     @ (if ag_b3_enabled ag \<and> ap_xp_enabled st then B3_SLOTS else []) @ (if ag_us_enabled ag \<and> ap_alpaca_enabled st then US_SLOTS else [])"

definition agent_quote :: "('v, 'l, 'p, 'c) agent_env \<Rightarrow> agent_inputs \<Rightarrow> string \<Rightarrow> quote option" where
  "agent_quote env inp = live_quote (ai_b3_quote inp) (ai_us_quote inp) (ai_frames inp) (ag_market_source (ge_settings env))"

text \<open>\<^verbatim>\<open>brl_per\<close>\<close>

definition agent_rate :: "('v, 'l, 'p, 'c) agent_env \<Rightarrow> agent_inputs \<Rightarrow> string \<Rightarrow> (('v, 'l, 'p, 'c) agent_floor, rat option) op" where
  "agent_rate env inp quote_asset s =
     (if quote_asset = ''BRL'' then (Inr (Some 1), s)
      else if ag_market_source (ge_settings env) \<noteq> ''BINANCE'' then (Inr None, s)
      else (case brl_per (ai_ticker inp) (ai_now inp) quote_asset (af_rates s) of (rate, cache) \<Rightarrow> (Inr rate, s\<lparr>af_rates := cache\<rparr>)))"

definition MAX_MARK_AGE :: timedelta where "MAX_MARK_AGE = seconds 30"

definition agent_mark :: "('v, 'l, 'p, 'c) agent_env \<Rightarrow> agent_inputs \<Rightarrow> string \<Rightarrow> rat option" where
  "agent_mark env inp instrument_id =
     (case agent_quote env inp instrument_id of
        None \<Rightarrow> None
      | Some q \<Rightarrow> if MAX_MARK_AGE < ai_now inp - qt_observed_at q then None else Some (dquot (dadd (qt_bid q) (qt_ask q)) 2))"

record valuation =
  vn_equity_brl :: "rat option"
  vn_brl_per_quote :: "rat option"
  vn_mark :: "rat option"

definition valuation_known :: "valuation \<Rightarrow> bool" where
  "valuation_known v \<longleftrightarrow> vn_equity_brl v \<noteq> None \<and> vn_brl_per_quote v \<noteq> None"

definition agent_value :: "('v, 'l, 'p, 'c) agent_env \<Rightarrow> agent_inputs \<Rightarrow> bool \<Rightarrow> trader_agent \<Rightarrow> (('v, 'l, 'p, 'c) agent_floor, valuation) op" where
  "agent_value env inp for_trading a =
     op_bind (case dget (agent_catalog env) (sl_instrument_id (ta_slot a)) of
                Some i \<Rightarrow> if for_trading \<or> \<not> book_empty (ta_book a) then agent_rate env inp (ti_quote_asset i) else op_return None
              | None \<Rightarrow> op_return None) (\<lambda>fx.
       let mid = agent_mark env inp (sl_instrument_id (ta_slot a))
       in op_return \<lparr>vn_equity_brl = equity_brl mid fx a, vn_brl_per_quote = fx, vn_mark = mid\<rparr>)"

text \<open>\<^verbatim>\<open>quantize(Decimal("0.01"))\<close>\<close>

definition quantize_cents :: "rat \<Rightarrow> rat res" where
  "quantize_cents x =
     (let c = round_half_even (x * 100) in if 10 ^ 28 \<le> \<bar>c\<bar> then Inl InvalidOperation else Inr (of_int c / 100))"

definition survival_reason :: "('v, 'l, 'p, 'c) agent_env \<Rightarrow> rat \<Rightarrow> rat \<Rightarrow> string res" where
  "survival_reason env equity least =
     res_bind (quantize_cents equity) (\<lambda>e. res_bind (quantize_cents least) (\<lambda>f.
       Inr (''equity R$'' @ ge_decimal_text env e @ '' below the minimum order R$'' @ ge_decimal_text env f)))"

definition survive :: "('v, 'l, 'p, 'c) agent_env \<Rightarrow> agent_inputs \<Rightarrow> fold_fates \<Rightarrow> trader_agent \<Rightarrow> valuation \<Rightarrow> tradable_instrument \<Rightarrow>
     (('v, 'l, 'p, 'c) agent_floor, bool) op" where
  "survive env inp ff a v i =
     (if \<not> agent_active a then op_return False
      else (case (vn_equity_brl v, vn_brl_per_quote v) of
              (Some equity, Some rate) \<Rightarrow>
                let least = elimination_floor (ti_min_notional i) rate
                in if least \<le> equity then op_return True
                   else op_bind (op_lift (survival_reason env equity least)) (\<lambda>reason.
                        op_bind (op_try (on_roster (eliminate (ge_roster env) (ai_now inp) (ff_readable ff) (ff_retire ff) (ff_replace ff)
                                                      (ta_agent_id a) reason))) (\<lambda>outcome.
                          case outcome of
                            Inl (AgentEliminated _) \<Rightarrow> op_return False
                          | Inl e \<Rightarrow> op_raise e
                          | Inr _ \<Rightarrow> op_return False))
            | _ \<Rightarrow> op_return True))"

section \<open>Fills\<close>

text \<open>Whether a fill was applied; then the survival of its agent is checked.\<close>

definition record_order :: "('v, 'l, 'p, 'c) agent_env \<Rightarrow> agent_inputs \<Rightarrow> json_dict \<Rightarrow> (('v, 'l, 'p, 'c) agent_floor, bool) op" where
  "record_order env inp order =
     op_bind (op_read (\<lambda>s. agent_for_intent (text_or (ge_roster env) (jget order ''intent_id'') []) (af_roster s))) (\<lambda>found.
       case found of
         None \<Rightarrow> op_return False
       | Some agent_id \<Rightarrow>
           op_bind (op_read (\<lambda>s. dget (ro_agents (af_roster s)) agent_id)) (\<lambda>agent.
           let instrument = (case agent of None \<Rightarrow> None | Some a \<Rightarrow> dget (agent_catalog env) (sl_instrument_id (ta_slot a)));
               ff = ai_fold_fates inp order
           in op_bind (on_roster (apply_order (ge_roster env) (ff_readable ff) (ff_fold ff) instrument order)) (\<lambda>applied.
              op_bind (op_read (\<lambda>s. dget (ro_agents (af_roster s)) agent_id)) (\<lambda>agent.
                case (agent, instrument) of
                  (Some a, Some i) \<Rightarrow>
                    if applied \<and> agent_active a
                    then op_bind (agent_value env inp False a) (\<lambda>v. op_bind (survive env inp ff a v i) (\<lambda>_. op_return applied))
                    else op_return applied
                | _ \<Rightarrow> op_return applied))))"

definition agent_venues :: "('v, 'l, 'p, 'c) agent_env \<Rightarrow> roster \<Rightarrow> venue_id list" where
  "agent_venues env r =
     filter (\<lambda>v. list_ex (\<lambda>a. case dget (agent_catalog env) (sl_instrument_id (ta_slot a)) of None \<Rightarrow> False | Some i \<Rightarrow> ti_venue i = v)
                   (dvalues (ro_agents r)))
       [V_BINANCE_SPOT, V_ALPACA_US, V_PAPER, V_XP_B3]"

definition SYNC_LIMIT :: int where "SYNC_LIMIT = 200"

fun side_text :: "side \<Rightarrow> string" where
  "side_text BUY = ''BUY''"
| "side_text SELL = ''SELL''"

text \<open>\<^verbatim>\<open>ManagedOrder.to_dict\<close>\<close>

definition order_document :: "(rat \<Rightarrow> string) \<Rightarrow> managed_order \<Rightarrow> json_dict" where
  "order_document txt o' =
     (let opt = (\<lambda>x. case x of None \<Rightarrow> JNull | Some t \<Rightarrow> JStr t); i = mo_intent o' in
      [(''client_order_id'', JStr (mo_client_order_id o')), (''intent_id'', JStr (in_intent_id i)), (''instrument_id'', JStr (in_instrument_id i)),
       (''side'', JStr (side_text (in_side i))), (''quantity'', JStr (txt (in_quantity i))),
       (''limit_price'', case in_limit_price i of None \<Rightarrow> JNull | Some p \<Rightarrow> if p = 0 then JNull else JStr (txt p)),
       (''status'', JStr (status_value (mo_status o'))), (''filled_quantity'', JStr (txt (mo_filled_quantity o'))),
       (''average_price'', if mo_filled_quantity o' = 0 then JNull else JStr (txt (dquot (mo_filled_notional o') (mo_filled_quantity o')))),
       (''fee'', JStr (txt (mo_fee o'))), (''fee_asset'', opt (mo_fee_asset o')),
       (''reserved'', JStr (txt (dsub (mo_reserved o') (mo_released o')))), (''venue_order_id'', opt (mo_venue_order_id o')),
       (''reason'', opt (mo_reason o')), (''history'', JList (map (JStr \<circ> status_value) (mo_history o'))), (''real_money_execution'', JBool False)])"

text \<open>All venues are read first; then each readable one is replayed, oldest order first. The result says which could be read.\<close>

definition read_orders :: "('v, 'l, 'p, 'c) agent_env \<Rightarrow> agent_inputs \<Rightarrow> venue_id \<Rightarrow> (('v, 'l, 'p, 'c) agent_floor, json_dict list client_answer) op" where
  "read_orders env inp venue = on_desk (recent_orders (ge_desk env) SYNC_LIMIT venue (ai_orders inp venue) (order_document (ge_decimal_text env)))"

definition replay_venue :: "('v, 'l, 'p, 'c) agent_env \<Rightarrow> agent_inputs \<Rightarrow> venue_id \<times> json_dict list client_answer \<Rightarrow>
     (('v, 'l, 'p, 'c) agent_floor, venue_id \<times> bool) op" where
  "replay_venue env inp read =
     (case snd read of
        Answer orders \<Rightarrow> op_bind (op_iter (record_order env inp) (rev orders)) (\<lambda>_. op_return (fst read, True))
      | _ \<Rightarrow> op_return (fst read, False))"

definition sync_venues :: "('v, 'l, 'p, 'c) agent_env \<Rightarrow> agent_inputs \<Rightarrow> venue_id list option \<Rightarrow>
     (('v, 'l, 'p, 'c) agent_floor, (venue_id, bool) dict) op" where
  "sync_venues env inp venues =
     op_bind (op_read (\<lambda>s. case venues of Some vs \<Rightarrow> vs | None \<Rightarrow> agent_venues env (af_roster s))) (\<lambda>named.
     let chosen = (if named = [] then [V_BINANCE_SPOT] else named)
     in op_bind (op_iter (read_orders env inp) chosen) (\<lambda>reads. op_iter (replay_venue env inp) (zip chosen reads)))"

definition sync_fills :: "('v, 'l, 'p, 'c) agent_env \<Rightarrow> agent_inputs \<Rightarrow> venue_id list option \<Rightarrow> (('v, 'l, 'p, 'c) agent_floor, bool) op" where
  "sync_fills env inp venues = op_bind (sync_venues env inp venues) (\<lambda>synced. op_return (list_all snd synced))"

section \<open>What the agents of a slot trade on\<close>

definition roster_agents :: "roster \<Rightarrow> trader_agent list" where
  "roster_agents r = sort_key ta_sequence (dvalues (ro_agents r))"

definition ema_agent :: "string \<Rightarrow> roster \<Rightarrow> trader_agent option" where
  "ema_agent instrument_id r =
     List.find (\<lambda>a. agent_active a \<and> sl_kind (ta_slot a) = EMA_SLOT \<and> sl_instrument_id (ta_slot a) = instrument_id
                   \<and> dget (ta_params a) ''fast'' \<noteq> None) (roster_agents r)"

text \<open>\<^verbatim>\<open>int(...)\<close> of a parameter; \<^verbatim>\<open>params_for\<close> makes integers.\<close>

definition int_param :: "json_dict \<Rightarrow> string \<Rightarrow> int res" where
  "int_param d k = (case dget d k of None \<Rightarrow> Inl (KeyError k) | Some (JInt n) \<Rightarrow> Inr n | Some _ \<Rightarrow> Inl (TypeError k))"

definition ema_params :: "string \<Rightarrow> roster \<Rightarrow> (int \<times> int) option res" where
  "ema_params instrument_id r =
     (case ema_agent instrument_id r of
        None \<Rightarrow> Inr None
      | Some a \<Rightarrow> res_bind (int_param (ta_params a) ''fast'') (\<lambda>fast. res_bind (int_param (ta_params a) ''slow'') (\<lambda>slow. Inr (Some (fast, slow)))))"

definition ema_flat :: "string \<Rightarrow> roster \<Rightarrow> bool" where
  "ema_flat instrument_id r = (case ema_agent instrument_id r of None \<Rightarrow> False | Some a \<Rightarrow> ab_quantity (ta_book a) \<le> 0)"

definition ema_bar_seconds :: "agent_settings \<Rightarrow> string \<Rightarrow> roster \<Rightarrow> int res" where
  "ema_bar_seconds ag instrument_id r =
     (let own = (case ema_agent instrument_id r of None \<Rightarrow> JNull | Some a \<Rightarrow> jget (ta_params a) ''bar_minutes'')
      in if own \<noteq> JNull then res_bind (int_param [(''bar_minutes'', own)] ''bar_minutes'') (\<lambda>m. Inr (m * 60))
         else Inr (if ag_ema_bar_seconds ag \<noteq> 0 then ag_ema_bar_seconds ag else ag_ema_bar_minutes ag * 60))"

definition stopped_out :: "float_ops \<Rightarrow> agent_settings \<Rightarrow> string \<Rightarrow> rat \<Rightarrow> roster \<Rightarrow> (trader_agent \<times> string) list" where
  "stopped_out fo ag instrument_id mid r =
     (case ema_agent instrument_id r of
        None \<Rightarrow> []
      | Some a \<Rightarrow>
          if ab_quantity (ta_book a) \<le> 0 \<or> ab_cost (ta_book a) \<le> 0 then []
          else let average = dquot (ab_cost (ta_book a)) (ab_quantity (ta_book a)); target = fl_repr fo (ag_take_profit ag)
               in if mid \<le> dmul average (dsub 1 (fl_repr fo (ag_stop_loss ag))) then [(a, ''stop'')]
                  else if 0 < target \<and> dmul average (dadd 1 target) \<le> mid then [(a, ''target'')]
                  else [])"

definition lab_params :: "string \<Rightarrow> roster \<Rightarrow> json_dict option" where
  "lab_params instrument_id r =
     map_option ta_params (List.find (\<lambda>a. agent_active a \<and> sl_kind (ta_slot a) = EMA_SLOT \<and> sl_instrument_id (ta_slot a) = instrument_id
                   \<and> dget (ta_params a) ''lab_strategy'' \<noteq> None) (roster_agents r))"

section \<open>Decisions\<close>

definition SIGNAL_CAPACITY :: nat where "SIGNAL_CAPACITY = 500"
definition DECISION_CAPACITY :: nat where "DECISION_CAPACITY = 100"

definition portfolio_of :: "('v, 'l, 'p, 'c) agent_floor \<Rightarrow> string \<Rightarrow> portfolio_view" where
  "portfolio_of s instrument_id = dget_or (af_views s) instrument_id \<lparr>pv_equity = REFERENCE_CAPITAL, pv_position_quantity = 0\<rparr>"

definition refresh_portfolio :: "('v, 'l, 'p, 'c) agent_env \<Rightarrow> agent_inputs \<Rightarrow> string \<Rightarrow> (('v, 'l, 'p, 'c) agent_floor, unit) op" where
  "refresh_portfolio env inp instrument_id =
     (case dget (agent_catalog env) instrument_id of
        None \<Rightarrow> op_return ()
      | Some i \<Rightarrow>
          op_bind (on_desk (on_book (read_account (de_checkpoints (ge_desk env)) (de_parse (ge_desk env)) (de_settings (ge_desk env))
                                       (ti_quote_asset i) (ai_account inp)))) (\<lambda>state.
          op_modify (\<lambda>s. s\<lparr>af_views := dset instrument_id
             \<lparr>pv_equity = min (ac_equity state) (ac_reference_capital state),
              pv_position_quantity = dget_or (ac_positions state) instrument_id 0\<rparr> (af_views s)\<rparr>)))"

definition record_decision :: "agent_inputs \<Rightarrow> agent_decision \<Rightarrow> (('v, 'l, 'p, 'c) agent_floor, unit) op" where
  "record_decision inp d = op_modify (\<lambda>s. s\<lparr>af_decisions := push_bounded DECISION_CAPACITY d (af_decisions s),
     af_outcomes := dset (dn_outcome d) (dget_or (af_outcomes s) (dn_outcome d) 0 + 1) (af_outcomes s),
     af_record_failures := af_record_failures s + (if ai_journal_up inp then 0 else 1)\<rparr>)"

definition agent_pipeline :: "('v, 'l, 'p, 'c) agent_env \<Rightarrow> agent_inputs \<Rightarrow> ('v, 'l, 'p, 'c) agent_floor \<Rightarrow> pipeline res" where
  "agent_pipeline env inp s =
     res_bind (sizing_policy_new (DEFAULT_SIZING_POLICY\<lparr>sz_stop_distance := fl_repr (re_floats (ge_roster env)) (ag_stop_distance (ge_settings env))\<rparr>))
       (\<lambda>sizing. pipeline_new \<lparr>pl_instruments = agent_catalog env, pl_reviewer = ai_reviewer inp, pl_quotes = agent_quote env inp,
          pl_portfolio = portfolio_of s, pl_fusion_policy = DEFAULT_FUSION_POLICY, pl_sizing_policy = sizing, pl_stage = STAGE_PAPER\<rparr>)"

text \<open>\<^verbatim>\<open>_evaluate\<close>: without a roster, the pipeline decides for the account.\<close>

definition evaluate_instrument :: "('v, 'l, 'p, 'c) agent_env \<Rightarrow> agent_inputs \<Rightarrow> string \<Rightarrow>
     (('v, 'l, 'p, 'c) agent_floor, agent_decision \<times> (risk_decision \<times> execution) option) op" where
  "evaluate_instrument env inp instrument_id =
     op_bind (refresh_portfolio env inp instrument_id) (\<lambda>_ s.
     op_bind (op_lift (res_bind (agent_pipeline env inp s) (\<lambda>p.
                pipeline_evaluate (re_floats (ge_roster env)) p (ai_uuid inp) instrument_id (ai_now inp) (af_signals s)))) (\<lambda>d.
     op_bind (record_decision inp d) (\<lambda>_.
       case dn_proposal d of
         None \<Rightarrow> op_return (d, None)
       | Some i \<Rightarrow>
           op_bind (op_modify (ge_between env 0)) (\<lambda>_.
           op_bind (on_desk (trade (ge_desk env) (ai_chain inp) (ai_gathered inp) (ai_answer inp) (ai_now inp) i)) (\<lambda>outcome.
           op_return (d, Some outcome))))) s)"

section \<open>The agent of a slot\<close>

text \<open>The document of what was executed.\<close>

definition executed_document :: "('v, 'l, 'p, 'c) agent_env \<Rightarrow> agent_inputs \<Rightarrow> execution \<Rightarrow> json_dict option" where
  "executed_document env inp x =
     (case x of Not_Executed \<Rightarrow> None | Dispatched _ \<Rightarrow> Some (ai_dispatched inp) | Managed o' \<Rightarrow> Some (order_document (ge_decimal_text env) o'))"

text \<open>The risk engine, the order and the first look at its fills.\<close>

definition trade_for_agent :: "('v, 'l, 'p, 'c) agent_env \<Rightarrow> agent_inputs \<Rightarrow> trade_intent \<Rightarrow>
     (('v, 'l, 'p, 'c) agent_floor, (risk_decision \<times> execution) option) op" where
  "trade_for_agent env inp proposal =
     op_bind (op_modify (ge_between env 3)) (\<lambda>_.
     op_bind (on_desk (trade (ge_desk env) (ai_chain inp) (ai_gathered inp) (ai_answer inp) (ai_now inp) proposal)) (\<lambda>outcome.
     op_bind (case executed_document env inp (snd outcome) of
                None \<Rightarrow> op_return ()
              | Some doc \<Rightarrow> op_bind (op_modify (ge_between env 4)) (\<lambda>_. op_bind (record_order env inp doc) (\<lambda>_. op_return ()))) (\<lambda>_.
     op_return (Some outcome))))"

definition submit_for_agent :: "('v, 'l, 'p, 'c) agent_env \<Rightarrow> agent_inputs \<Rightarrow> string \<Rightarrow> trade_intent \<Rightarrow>
     (('v, 'l, 'p, 'c) agent_floor, (risk_decision \<times> execution) option) op" where
  "submit_for_agent env inp agent_id proposal =
     op_bind (op_modify (ge_between env 1)) (\<lambda>_.
     op_bind (on_roster (roster_load (ai_readable inp))) (\<lambda>_.
     op_bind (op_read (\<lambda>s. admit agent_id (af_roster s))) (\<lambda>admitted.
       if \<not> admitted then op_return None
       else op_bind (op_modify (ge_between env 2)) (\<lambda>_.
            op_bind (op_try (on_roster (attribute (ai_readable inp) (ai_attribute_fate inp) (in_intent_id proposal) agent_id
                                          (in_instrument_id proposal) (side_text (in_side proposal)) None))) (\<lambda>attributed.
              case attributed of
                Inl (AgentEliminated _) \<Rightarrow> op_return None
              | Inl e \<Rightarrow> op_raise e
              | Inr _ \<Rightarrow> trade_for_agent env inp proposal)))))"

fun accepted_signals :: "roster_env \<Rightarrow> trader_agent \<Rightarrow> signal list \<Rightarrow> signal list res" where
  "accepted_signals env a [] = Inr []"
| "accepted_signals env a (s # ss) = res_bind (accepts env a s) (\<lambda>ok. res_bind (accepted_signals env a ss) (\<lambda>rest.
     Inr (if ok then s # rest else rest)))"

definition agent_policy :: "float_ops \<Rightarrow> rat \<Rightarrow> fusion_policy res" where
  "agent_policy fo equity =
     fusion_policy_new (DEFAULT_FUSION_POLICY\<lparr>fp_min_score := entry_min_score fo (fp_min_score DEFAULT_FUSION_POLICY) equity\<rparr>)"

text \<open>What the pipeline decides for the agent: its own signals, and an entry bar that rises as its equity falls.\<close>

definition agent_decides :: "('v, 'l, 'p, 'c) agent_env \<Rightarrow> agent_inputs \<Rightarrow> trader_agent \<Rightarrow> rat \<Rightarrow> ('v, 'l, 'p, 'c) agent_floor \<Rightarrow> agent_decision res" where
  "agent_decides env inp a equity s =
     (let fo = re_floats (ge_roster env) in
      res_bind (agent_policy fo equity) (\<lambda>policy.
      res_bind (accepted_signals (ge_roster env) a (af_signals s)) (\<lambda>signals.
      res_bind (agent_pipeline env inp s) (\<lambda>p.
      res_bind (derive (Some policy) p) (\<lambda>p'.
      pipeline_evaluate fo p' (ai_uuid inp) (sl_instrument_id (ta_slot a)) (ai_now inp) signals)))))"

text \<open>The decision with its proposal sized to the agent.\<close>

definition shaped_decision :: "agent_decision \<Rightarrow> trader_agent \<Rightarrow> tradable_instrument \<Rightarrow> rat \<Rightarrow> rat \<Rightarrow> agent_decision res" where
  "shaped_decision d a i equity rate =
     (case dn_proposal d of
        None \<Rightarrow> Inr d
      | Some proposal \<Rightarrow> res_bind (shape_for_agent proposal a i equity rate) (\<lambda>shaped.
          Inr (case az_intent shaped of
                 None \<Rightarrow> d\<lparr>dn_outcome := ABSTAINED, dn_abstain_reason := az_reason shaped, dn_proposal := None\<rparr>
               | Some intent \<Rightarrow> d\<lparr>dn_proposal := Some intent\<rparr>)))"

type_synonym agent_result = "agent_decision option \<times> (risk_decision \<times> execution) option"

definition decide_and_submit :: "('v, 'l, 'p, 'c) agent_env \<Rightarrow> agent_inputs \<Rightarrow> trader_agent \<Rightarrow> tradable_instrument \<Rightarrow> rat \<Rightarrow> rat \<Rightarrow>
     (('v, 'l, 'p, 'c) agent_floor, agent_result) op" where
  "decide_and_submit env inp a i equity rate s =
     op_bind (op_lift (agent_decides env inp a equity s)) (\<lambda>d.
     op_bind (op_modify (ge_between env 0)) (\<lambda>_.
     op_bind (op_read (\<lambda>s. dget_or (ro_agents (af_roster s)) (ta_agent_id a) a)) (\<lambda>now_a.
     op_bind (op_lift (shaped_decision d now_a i equity rate)) (\<lambda>decision.
     op_bind (record_decision inp decision) (\<lambda>_.
       case dn_proposal decision of
         None \<Rightarrow> op_return (Some decision, None)
       | Some proposal \<Rightarrow> op_bind (submit_for_agent env inp (ta_agent_id a) proposal) (\<lambda>outcome. op_return (Some decision, outcome))))))) s"

definition evaluate_agent :: "('v, 'l, 'p, 'c) agent_env \<Rightarrow> agent_inputs \<Rightarrow> slot \<Rightarrow> (('v, 'l, 'p, 'c) agent_floor, agent_result) op" where
  "evaluate_agent env inp slot' =
     op_bind (on_roster (seed (ge_roster env) (ai_now inp) (ai_readable inp) (ai_seed_fates inp))) (\<lambda>_.
     let instrument = dget (agent_catalog env) (sl_instrument_id slot') in
     op_bind (sync_fills env inp (map_option (\<lambda>i. [ti_venue i]) instrument)) (\<lambda>_.
     op_bind (op_read (\<lambda>s. active_for slot' (af_roster s))) (\<lambda>agent.
       case (agent, instrument) of
         (Some a, Some i) \<Rightarrow>
           op_bind (agent_value env inp True a) (\<lambda>v.
             case (vn_equity_brl v, vn_brl_per_quote v) of
               (Some equity, Some rate) \<Rightarrow>
                 op_bind (survive env inp (ai_survive_fates inp) a v i) (\<lambda>alive.
                   if \<not> alive then op_return (None, None)
                   else op_bind (refresh_portfolio env inp (sl_instrument_id slot')) (\<lambda>_.
                        decide_and_submit env inp a i equity rate))
             | _ \<Rightarrow> op_return (None, None))
       | _ \<Rightarrow> op_return (None, None))))"

section \<open>Signals\<close>

definition buffer_signal :: "signal \<Rightarrow> ('v, 'l, 'p, 'c) agent_floor \<Rightarrow> ('v, 'l, 'p, 'c) agent_floor" where
  "buffer_signal sg s = s\<lparr>af_signals := push_bounded SIGNAL_CAPACITY sg (af_signals s)\<rparr>"

definition forget_signal :: "signal \<Rightarrow> ('v, 'l, 'p, 'c) agent_floor \<Rightarrow> ('v, 'l, 'p, 'c) agent_floor" where
  "forget_signal sg s = s\<lparr>af_signals := filter (\<lambda>h. sg_signal_id h \<noteq> sg_signal_id sg) (af_signals s)\<rparr>"

datatype agent_task = Evaluate_Slot slot | Evaluate_Instrument string

definition on_signal_accepted :: "agent_settings \<Rightarrow> signal \<Rightarrow> ('v, 'l, 'p, 'c) agent_floor \<Rightarrow> agent_task option \<times> ('v, 'l, 'p, 'c) agent_floor" where
  "on_signal_accepted ag sg s =
     (let s' = buffer_signal sg s in
      if \<not> ag_pipeline_enabled ag then (None, s')
      else if ag_roster_enabled ag then (map_option Evaluate_Slot (slot_of sg), s')
      else (Some (Evaluate_Instrument (sg_instrument_id sg)), s'))"

text \<open>The background task: whatever it raises is logged.\<close>

definition run_task :: "('v, 'l, 'p, 'c) agent_env \<Rightarrow> agent_inputs \<Rightarrow> agent_task \<Rightarrow> ('v, 'l, 'p, 'c) agent_floor \<Rightarrow> ('v, 'l, 'p, 'c) agent_floor" where
  "run_task env inp t s =
     (case t of Evaluate_Slot sl \<Rightarrow> snd (evaluate_agent env inp sl s) | Evaluate_Instrument i \<Rightarrow> snd (evaluate_instrument env inp i s))"

text \<open>The operator's route: every slot of the instrument in turn, each with its own inputs.\<close>

definition evaluate_now :: "('v, 'l, 'p, 'c) agent_env \<Rightarrow> (slot \<Rightarrow> agent_inputs) \<Rightarrow> agent_inputs \<Rightarrow> string \<Rightarrow>
     (('v, 'l, 'p, 'c) agent_floor, agent_result list) op" where
  "evaluate_now env inps inp instrument_id =
     (if dget (agent_catalog env) instrument_id = None then op_raise (HTTPException 422 ''instrument is not supported'')
      else if ag_roster_enabled (ge_settings env)
      then op_bind (on_roster (seed (ge_roster env) (ai_now inp) (ai_readable inp) (ai_seed_fates inp))) (\<lambda>_.
           op_bind (op_read (\<lambda>s. filter (\<lambda>sl. sl_instrument_id sl = instrument_id) (ro_slots (af_roster s)))) (\<lambda>slots.
           op_iter (\<lambda>sl. evaluate_agent env (inps sl) sl) slots))
      else op_bind (evaluate_instrument env inp instrument_id) (\<lambda>r. op_return [(Some (fst r), snd r)]))"

section \<open>Frames\<close>

text \<open>What other tasks do to the roster while an evaluation waits, they do by its operations.\<close>

definition tasks_use_roster :: "('v, 'l, 'p, 'c) agent_env \<Rightarrow> (roster_step \<Rightarrow> bool) \<Rightarrow> bool" where
  "tasks_use_roster env allowed \<longleftrightarrow>
     (\<forall>n t. \<exists>steps. list_all allowed steps \<and> af_roster (ge_between env n t) = roster_run (ge_roster env) steps (af_roster t))"

lemma on_roster_outcome:
  "on_roster m s = (r, s') \<Longrightarrow> m (af_roster s) = (r, af_roster s') \<and> s' = s\<lparr>af_roster := af_roster s'\<rparr>"
  by (auto simp: on_roster_def split: prod.splits)

lemma on_desk_outcome:
  "on_desk m s = (r, s') \<Longrightarrow> m (af_desk s) = (r, af_desk s') \<and> s' = s\<lparr>af_desk := af_desk s'\<rparr>"
  by (auto simp: on_desk_def split: prod.splits)

lemma between_safe:
  assumes "tasks_use_roster env allowed" "roster_safe codes (af_roster s)"
  shows "roster_safe codes (af_roster (ge_between env n s))"
proof -
  obtain steps where "af_roster (ge_between env n s) = roster_run (ge_roster env) steps (af_roster s)"
    using assms(1) unfolding tasks_use_roster_def by blast
  then show ?thesis using keeps_run[OF assms(2)] by simp
qed

lemma between_orders:
  assumes "tasks_use_roster env allowed" "attributions_ok P (af_roster s)"
    and "\<And>K x step. P K \<Longrightarrow> allowed step \<Longrightarrow> x \<in> adds_order step \<Longrightarrow> P (insert x K)"
  shows "attributions_ok P (af_roster (ge_between env n s))"
proof -
  obtain steps where steps: "list_all allowed steps" "af_roster (ge_between env n s) = roster_run (ge_roster env) steps (af_roster s)"
    using assms(1) unfolding tasks_use_roster_def by blast
  show ?thesis unfolding steps(2) by (rule orders_run[OF assms(2)]) (use steps(1) assms(3) in \<open>auto simp: list_all_iff\<close>)
qed

lemma agent_value_roster: "af_roster (snd (agent_value env inp for_trading a s)) = af_roster s"
  by (auto simp: agent_value_def op_bind_def agent_rate_def Let_def split: option.splits prod.splits)

lemma refresh_roster: "af_roster (snd (refresh_portfolio env inp instrument_id s)) = af_roster s"
  by (auto simp: refresh_portfolio_def op_bind_def on_desk_def split: option.splits prod.splits sum.splits)

section \<open>What an evaluation keeps of the roster\<close>

text \<open>A property of the roster that its operations keep is kept by what the surface does around them.\<close>

locale kept_roster =
  fixes kept :: "roster \<Rightarrow> bool"
  assumes eliminate_kept: "contract kept (eliminate env now readable fate fate' agent_id reason) (\<lambda>_. kept) kept"
    and apply_order_kept: "contract kept (apply_order env readable fate instrument order) (\<lambda>_. kept) kept"
    and seed_kept: "contract kept (seed env now readable fates) (\<lambda>_. kept) kept"
begin

abbreviation keeps_floor :: "(('v, 'l, 'p, 'c) agent_floor, 'a) op \<Rightarrow> bool" where
  "keeps_floor m \<equiv> contract (\<lambda>s. kept (af_roster s)) m (\<lambda>_ s. kept (af_roster s)) (\<lambda>s. kept (af_roster s))"

lemma on_roster_kept: "contract kept m (\<lambda>_. kept) kept \<Longrightarrow> keeps_floor (on_roster m)"
  by (auto simp: contract_def on_roster_def split: prod.splits sum.splits)

lemma same_roster_kept: "(\<And>s. af_roster (snd (m s)) = af_roster s) \<Longrightarrow> keeps_floor m"
  by (auto simp: contract_def split: prod.splits sum.splits) (metis snd_conv)+

lemma survive_kept: "keeps_floor (survive env inp ff a v i)"
proof -
  have "keeps_floor (op_bind (op_lift reason) (\<lambda>reason.
      op_bind (op_try (on_roster (eliminate (ge_roster env) (ai_now inp) (ff_readable ff) (ff_retire ff) (ff_replace ff) (ta_agent_id a) reason)))
       (\<lambda>outcome. case outcome of Inl (AgentEliminated _) \<Rightarrow> op_return False | Inl e \<Rightarrow> op_raise e | Inr _ \<Rightarrow> op_return False)))" for reason
    by (rule contract_bind[OF contract_lift[where Q = "\<lambda>_ s. kept (af_roster s)"]], assumption, assumption)
      (rule contract_bind[OF contract_try[OF on_roster_kept[OF eliminate_kept]]],
       auto intro!: contract_return contract_raise split: sum.split exn.split)
  then show ?thesis by (auto simp: survive_def Let_def intro!: contract_return split: option.split)
qed

lemma record_order_kept: "keeps_floor (record_order env inp order)"
proof -
  have tail: "keeps_floor (op_bind (agent_value env inp False a) (\<lambda>v. op_bind (survive env inp ff a v i) (\<lambda>_. op_return applied)))" for ff a i applied
    by (intro contract_bind[OF same_roster_kept[OF agent_value_roster]] contract_bind[OF survive_kept] contract_return)
  show ?thesis
    unfolding record_order_def Let_def
    by (rule contract_bind[OF contract_read[where Q = "\<lambda>_ s. kept (af_roster s)"]], assumption)
      (auto intro!: contract_return contract_bind[OF contract_read[where Q = "\<lambda>_ s. kept (af_roster s)"]]
         contract_bind[OF on_roster_kept[OF apply_order_kept]] tail split: option.split)
qed

lemma sync_kept: "keeps_floor (sync_fills env inp venues)"
proof -
  have "keeps_floor (replay_venue env inp read)" for read
    unfolding replay_venue_def
    by (auto intro!: contract_return contract_bind[OF contract_iter[OF record_order_kept]] split: client_answer.split)
  moreover have "keeps_floor (read_orders env inp venue)" for venue
    unfolding read_orders_def by (rule same_roster_kept) (simp add: on_desk_def split: prod.splits)
  ultimately have "keeps_floor (sync_venues env inp venues)"
    unfolding sync_venues_def Let_def
    by (intro contract_bind[OF contract_read[where Q = "\<lambda>_ s. kept (af_roster s)"]] contract_bind[OF contract_iter] contract_iter)
  then show ?thesis unfolding sync_fills_def by (intro contract_bind contract_return)
qed

lemma kept_outcome: "keeps_floor m \<Longrightarrow> kept (af_roster s) \<Longrightarrow> m s = (r, s') \<Longrightarrow> kept (af_roster s')"
  by (auto simp: contract_def split: sum.splits)

end

interpretation safe: kept_roster "roster_safe codes" for codes
proof
  show "contract (roster_safe codes) (eliminate env now readable fate fate' agent_id reason) (\<lambda>_. roster_safe codes) (roster_safe codes)"
    for env now readable fate fate' agent_id reason by (rule contract_weaken[OF eliminate_keeps]) (auto simp: roster_safe_def)
  show "contract (roster_safe codes) (apply_order env readable fate instrument order) (\<lambda>_. roster_safe codes) (roster_safe codes)"
    for env readable fate instrument order by (rule contract_weaken[OF apply_order_keeps]) auto
  show "contract (roster_safe codes) (seed env now readable fates) (\<lambda>_. roster_safe codes) (roster_safe codes)"
    for env now readable fates by (rule contract_weaken[OF seed_keeps]) auto
qed

interpretation orders: kept_roster "attributions_ok P" for P
  by unfold_locales (rule att.eliminate_holds apply_order_orders att.seed_holds)+

section \<open>What an evaluation submits\<close>

text \<open>The order of a submission that reached the risk engine: loaded, admitted, attributed, asked.\<close>

lemma submitted:
  assumes "submit_for_agent env inp code proposal s = (Inr (Some outcome), s')"
  obtains t1 r2 t d where "roster_load (ai_readable inp) (af_roster (ge_between env 1 s)) = (Inr (), af_roster t1)"
    "attribute (ai_readable inp) (ai_attribute_fate inp) (in_intent_id proposal) code (in_instrument_id proposal) (side_text (in_side proposal)) None
       (af_roster (ge_between env 2 t1)) = (Inr (), r2)"
    "t = ge_between env 3 ((ge_between env 2 t1)\<lparr>af_roster := r2\<rparr>)"
    "trade (ge_desk env) (ai_chain inp) (ai_gathered inp) (ai_answer inp) (ai_now inp) proposal (af_desk t) = (Inr outcome, d)"
proof -
  let ?att = "attribute (ai_readable inp) (ai_attribute_fate inp) (in_intent_id proposal) code (in_instrument_id proposal) (side_text (in_side proposal)) None"
  obtain t1 where load: "on_roster (roster_load (ai_readable inp)) (ge_between env 1 s) = (Inr (), t1)"
    using assms unfolding submit_for_agent_def by (auto elim!: op_bind_cases)
  obtain out t2 where att: "on_roster ?att (ge_between env 2 t1) = (out, t2)" by fastforce
  have "(case out of Inl (AgentEliminated _) \<Rightarrow> op_return None | Inl e \<Rightarrow> op_raise e | Inr _ \<Rightarrow> trade_for_agent env inp proposal) t2 = (Inr (Some outcome), s')"
    using assms load att by (simp add: submit_for_agent_def op_bind_def op_try_def split: if_splits)
  then have out: "out = Inr ()" and rest: "trade_for_agent env inp proposal t2 = (Inr (Some outcome), s')"
    by (cases out; auto split: exn.splits)+
  obtain t4 where trade: "on_desk (trade (ge_desk env) (ai_chain inp) (ai_gathered inp) (ai_answer inp) (ai_now inp) proposal) (ge_between env 3 t2) = (Inr outcome, t4)"
    using rest unfolding trade_for_agent_def by (auto elim!: op_bind_cases)
  show thesis
    by (rule that[of t1 "af_roster t2" "ge_between env 3 t2" "af_desk t4"])
      (use on_roster_outcome[OF load] on_roster_outcome[OF att] out on_desk_outcome[OF trade] in auto)
qed

lemma shaped_proposal:
  assumes "shaped_decision d a i equity rate = Inr decision" "dn_proposal decision = Some proposal"
  obtains base shaped where "dn_proposal d = Some base" "in_intent_id proposal = in_intent_id base"
    "shape_for_agent base a i equity rate = Inr shaped" "az_intent shaped = Some proposal"
proof -
  obtain base where base: "dn_proposal d = Some base" using assms by (cases "dn_proposal d") (auto simp: shaped_decision_def)
  then obtain shaped where shaped: "shape_for_agent base a i equity rate = Inr shaped" "az_intent shaped = Some proposal"
    using assms by (auto simp: shaped_decision_def res_bind_Inr_conv split: option.splits)
  obtain price q where "proposal = base\<lparr>in_quantity := min q (in_quantity base)\<rparr>" using shaped_intent[OF shaped] by blast
  then show thesis using that[OF base _ shaped] by simp
qed

lemma decided_id:
  assumes "agent_decides env inp a equity s = Inr d" "dn_proposal d = Some base"
  shows "in_intent_id base = ai_uuid inp"
proof -
  obtain p signals where "pipeline_evaluate (re_floats (ge_roster env)) p (ai_uuid inp) (sl_instrument_id (ta_slot a)) (ai_now inp) signals = Inr d"
    using assms(1) by (auto simp: agent_decides_def Let_def res_bind_Inr_conv)
  from this assms(2) show ?thesis
  proof (cases rule: pipeline_proposal_cases)
    case (1 i c intent review)
    from 1(3,4) have "in_intent_id intent = ai_uuid inp" by (cases rule: build_candidate_cases) (simp add: spot_intent_def)
    then show ?thesis using arg_cong[OF apply_review_shrinks(1)[OF 1(6)], of in_intent_id] by simp
  qed
qed

lemma decided_and_submitted:
  assumes "decide_and_submit env inp a i equity rate s = (Inr (decision, Some outcome), s')"
  obtains d now_a dec proposal t where "agent_decides env inp a equity s = Inr d"
    "now_a = dget_or (ro_agents (af_roster (ge_between env 0 s))) (ta_agent_id a) a" "shaped_decision d now_a i equity rate = Inr dec"
    "decision = Some dec" "dn_proposal dec = Some proposal" "af_roster t = af_roster (ge_between env 0 s)"
    "submit_for_agent env inp (ta_agent_id a) proposal t = (Inr (Some outcome), s')"
proof -
  let ?u = "ge_between env 0 s"
  let ?now = "dget_or (ro_agents (af_roster ?u)) (ta_agent_id a) a"
  obtain d dec where d: "agent_decides env inp a equity s = Inr d" "shaped_decision d ?now i equity rate = Inr dec"
    using assms by (auto simp: decide_and_submit_def elim!: op_bind_cases)
  obtain t where t: "record_decision inp dec ?u = (Inr (), t)" "af_roster t = af_roster ?u" by (simp add: record_decision_def)
  have rest: "(case dn_proposal dec of None \<Rightarrow> op_return (Some dec, None)
      | Some proposal \<Rightarrow> op_bind (submit_for_agent env inp (ta_agent_id a) proposal) (\<lambda>outcome. op_return (Some dec, outcome))) t
    = (Inr (decision, Some outcome), s')"
    using assms d t(1) by (simp add: decide_and_submit_def op_bind_def)
  then obtain proposal where p: "dn_proposal dec = Some proposal" by (cases "dn_proposal dec") auto
  from rest p have "op_bind (submit_for_agent env inp (ta_agent_id a) proposal) (\<lambda>outcome. op_return (Some dec, outcome)) t = (Inr (decision, Some outcome), s')"
    by simp
  then show thesis by (cases rule: op_bind_cases) (use that[OF d(1) refl d(2) _ p t(2)] in auto)
qed

lemma survived:
  assumes "survive env inp ff a v i s = (Inr True, s')" "vn_equity_brl v = Some equity" "vn_brl_per_quote v = Some rate"
  shows "agent_active a" "elimination_floor (ti_min_notional i) rate \<le> equity" "s' = s"
  using assms by (auto simp: survive_def Let_def op_bind_def split: if_splits sum.splits prod.splits exn.splits)

lemma evaluated:
  assumes "evaluate_agent env inp sl s = (Inr (decision, Some outcome), s')"
  obtains x t0 b t1 a i equity rate t4 where
    "on_roster (seed (ge_roster env) (ai_now inp) (ai_readable inp) (ai_seed_fates inp)) s = (Inr x, t0)"
    "sync_fills env inp (Some [ti_venue i]) t0 = (Inr b, t1)" "active_for sl (af_roster t1) = Some a"
    "dget (agent_catalog env) (sl_instrument_id sl) = Some i" "agent_active a" "elimination_floor (ti_min_notional i) rate \<le> equity"
    "equity_brl (agent_mark env inp (sl_instrument_id (ta_slot a))) (Some rate) a = Some equity" "af_roster t4 = af_roster t1"
    "decide_and_submit env inp a i equity rate t4 = (Inr (decision, Some outcome), s')"
proof -
  let ?i = "dget (agent_catalog env) (sl_instrument_id sl)"
  obtain x t0 b t1 where front: "on_roster (seed (ge_roster env) (ai_now inp) (ai_readable inp) (ai_seed_fates inp)) s = (Inr x, t0)"
      "sync_fills env inp (map_option (\<lambda>i. [ti_venue i]) ?i) t0 = (Inr b, t1)"
    using assms unfolding evaluate_agent_def Let_def by (auto elim!: op_bind_cases)
  have rest: "(case (active_for sl (af_roster t1), ?i) of
         (Some a, Some i) \<Rightarrow>
           op_bind (agent_value env inp True a) (\<lambda>v.
             case (vn_equity_brl v, vn_brl_per_quote v) of
               (Some equity, Some rate) \<Rightarrow>
                 op_bind (survive env inp (ai_survive_fates inp) a v i) (\<lambda>alive.
                   if \<not> alive then op_return (None, None)
                   else op_bind (refresh_portfolio env inp (sl_instrument_id sl)) (\<lambda>_. decide_and_submit env inp a i equity rate))
             | _ \<Rightarrow> op_return (None, None))
       | _ \<Rightarrow> op_return (None, None)) t1 = (Inr (decision, Some outcome), s')"
    using assms front by (simp add: evaluate_agent_def Let_def op_bind_def)
  then obtain a i where ai: "active_for sl (af_roster t1) = Some a" "?i = Some i" by (auto split: option.splits)
  obtain v t2 where v: "agent_value env inp True a t1 = (Inr v, t2)" using rest ai by (auto elim!: op_bind_cases)
  obtain equity rate where known: "vn_equity_brl v = Some equity" "vn_brl_per_quote v = Some rate"
    using rest ai v by (auto split: option.splits)
  have step: "op_bind (survive env inp (ai_survive_fates inp) a v i) (\<lambda>alive.
      if \<not> alive then op_return (None, None)
      else op_bind (refresh_portfolio env inp (sl_instrument_id sl)) (\<lambda>_. decide_and_submit env inp a i equity rate)) t2 = (Inr (decision, Some outcome), s')"
    using rest ai v known by simp
  then obtain t3 t4 where t: "survive env inp (ai_survive_fates inp) a v i t2 = (Inr True, t3)"
      "refresh_portfolio env inp (sl_instrument_id sl) t3 = (Inr (), t4)" "decide_and_submit env inp a i equity rate t4 = (Inr (decision, Some outcome), s')"
    by (auto elim!: op_bind_cases split: if_splits)
  have "equity_brl (agent_mark env inp (sl_instrument_id (ta_slot a))) (vn_brl_per_quote v) a = vn_equity_brl v"
    using v by (auto simp: agent_value_def op_bind_def Let_def split: option.splits prod.splits sum.splits if_splits)
  moreover have "af_roster t4 = af_roster t1"
    using refresh_roster[of env inp "sl_instrument_id sl" t3] t(2) survived(3)[OF t(1) known] agent_value_roster[of env inp True a t1] v by simp
  ultimately show thesis
    using that[OF front(1) _ ai survived(1,2)[OF t(1) known]] front(2) ai(2) known t(3) by simp
qed

text \<open>A submission under a fresh identifier reaches the risk engine only after the attribution of its order is in the table.\<close>

lemma submission_attributed:
  fixes env :: "('v, 'l, 'p, 'c) agent_env"
  assumes "tasks_use_roster env (\<lambda>st. fresh \<notin> fst ` adds_order st)" "attributions_ok (\<lambda>K. fresh \<notin> fst ` K) (af_roster s)"
    and "submit_for_agent env inp code proposal s = (Inr (Some outcome), s')" "in_intent_id proposal = fresh"
  shows "\<exists>(t :: ('v, 'l, 'p, 'c) agent_floor) d. (fresh, code) \<in> set (order_keys (af_roster t))
    \<and> trade (ge_desk env) (ai_chain inp) (ai_gathered inp) (ai_answer inp) (ai_now inp) proposal (af_desk t) = (Inr outcome, d)"
proof -
  let ?P = "\<lambda>K. fresh \<notin> fst ` K" and ?Q = "\<lambda>K. (fresh, code) \<in> K"
  note between = between_orders[OF assms(1)]
  from assms(3) obtain t1 r2 t d where t1: "roster_load (ai_readable inp) (af_roster (ge_between env 1 s)) = (Inr (), af_roster t1)"
    and attr: "attribute (ai_readable inp) (ai_attribute_fate inp) (in_intent_id proposal) code (in_instrument_id proposal) (side_text (in_side proposal)) None
       (af_roster (ge_between env 2 t1)) = (Inr (), r2)"
    and t: "t = ge_between env 3 ((ge_between env 2 t1)\<lparr>af_roster := r2\<rparr>)"
    and trade: "trade (ge_desk env) (ai_chain inp) (ai_gathered inp) (ai_answer inp) (ai_now inp) proposal (af_desk t) = (Inr outcome, d)"
    by (rule submitted)
  have "attributions_ok ?P (af_roster (ge_between env 1 s))" by (rule between[OF assms(2)]) auto
  from contractD(1)[OF load_orders this t1] have "attributions_ok ?P (af_roster (ge_between env 2 t1))" by (rule between) auto
  note ok = this
  from attribute_written(2)[OF ok attr] ok assms(4) have key: "(fresh, code) \<in> set (order_keys r2)" by (auto simp: attributions_ok_def)
  have "attributions_ok (\<lambda>_. True) (af_roster (ge_between env 2 t1))" using ok by (simp add: attributions_ok_def)
  from contractD(1)[OF attribute_orders this attr] have "attributions_ok (\<lambda>_. True) r2" by simp
  with key have "attributions_ok ?Q (af_roster ((ge_between env 2 t1)\<lparr>af_roster := r2\<rparr>))" by (simp add: attributions_ok_def)
  then have "attributions_ok ?Q (af_roster t)" unfolding t by (rule between) auto
  then show ?thesis using trade by (auto simp: attributions_ok_def)
qed

text \<open>
  The path of an agent's order. When the evaluation of a slot ends with an answer of the risk engine, an active agent of the roster
  stood for the slot, its equity was known and not below the elimination floor, the proposal was sized to it,
  and the order was attributed to it in the table before the risk engine was asked.
\<close>

lemma agent_orders_attributed_first:
  fixes env :: "('v, 'l, 'p, 'c) agent_env"
  assumes "af_roster s = roster_run (ge_roster env) steps (roster_new True slots lab [] [])"
    and "\<forall>st \<in> set steps. ai_uuid inp \<notin> fst ` adds_order st" and "tasks_use_roster env (\<lambda>st. ai_uuid inp \<notin> fst ` adds_order st)"
    and "evaluate_agent env inp sl s = (Inr (decision, Some outcome), s')"
  shows "\<exists>a now_a i equity rate base shaped proposal (t :: ('v, 'l, 'p, 'c) agent_floor) d. dget (agent_catalog env) (sl_instrument_id sl) = Some i
    \<and> agent_active a \<and> equity_brl (agent_mark env inp (sl_instrument_id (ta_slot a))) (Some rate) a = Some equity
    \<and> elimination_floor (ti_min_notional i) rate \<le> equity
    \<and> shape_for_agent base now_a i equity rate = Inr shaped \<and> az_intent shaped = Some proposal \<and> in_intent_id proposal = ai_uuid inp
    \<and> (ai_uuid inp, ta_agent_id a) \<in> set (order_keys (af_roster t))
    \<and> trade (ge_desk env) (ai_chain inp) (ai_gathered inp) (ai_answer inp) (ai_now inp) proposal (af_desk t) = (Inr outcome, d)"
proof -
  let ?P = "\<lambda>K. ai_uuid inp \<notin> fst ` K"
  have "attributions_ok ?P (roster_new True slots lab [] [])" by (simp add: attributions_ok_def roster_new_def order_keys_def)
  then have start: "attributions_ok ?P (af_roster s)" unfolding assms(1) by (rule orders_run) (use assms(2) in auto)
  from assms(4) obtain x t0 b t1 a i equity rate t4 where
    t0: "on_roster (seed (ge_roster env) (ai_now inp) (ai_readable inp) (ai_seed_fates inp)) s = (Inr x, t0)"
    and t1: "sync_fills env inp (Some [ti_venue i]) t0 = (Inr b, t1)"
    and a: "dget (agent_catalog env) (sl_instrument_id sl) = Some i" "agent_active a" "elimination_floor (ti_min_notional i) rate \<le> equity"
      "equity_brl (agent_mark env inp (sl_instrument_id (ta_slot a))) (Some rate) a = Some equity"
    and t4: "af_roster t4 = af_roster t1" and rest: "decide_and_submit env inp a i equity rate t4 = (Inr (decision, Some outcome), s')"
    by (rule evaluated)
  have "attributions_ok ?P (af_roster t0)" by (rule orders.kept_outcome[OF orders.on_roster_kept[OF orders.seed_kept] start t0])
  from orders.kept_outcome[OF orders.sync_kept this t1] have ok: "attributions_ok ?P (af_roster t4)" unfolding t4 .
  from rest obtain d now_a dec proposal t where d: "agent_decides env inp a equity t4 = Inr d"
    and shaped: "shaped_decision d now_a i equity rate = Inr dec" "dn_proposal dec = Some proposal"
    and t: "af_roster t = af_roster (ge_between env 0 t4)" and submit: "submit_for_agent env inp (ta_agent_id a) proposal t = (Inr (Some outcome), s')"
    by (rule decided_and_submitted)
  from shaped obtain base sh where sh: "dn_proposal d = Some base" "in_intent_id proposal = in_intent_id base"
      "shape_for_agent base now_a i equity rate = Inr sh" "az_intent sh = Some proposal"
    by (rule shaped_proposal)
  have id: "in_intent_id proposal = ai_uuid inp" using sh(2) decided_id[OF d sh(1)] by simp
  have "attributions_ok ?P (af_roster t)" unfolding t by (rule between_orders[OF assms(3) ok]) auto
  from submission_attributed[OF assms(3) this submit id] show ?thesis using a sh(3,4) id by blast
qed

section \<open>Property\<close>

text \<open>
  C16: An eliminated agent reaches nothing. Once the elimination of a code has returned, a proposal of that code is dropped before the
  risk engine sees it, whatever the roster went through since, restarts and failed transactions included,
  and whatever other tasks do to the roster meanwhile: the submission returns no risk decision and no
  order (it raises only if the roster cannot be read), and leaves the accounts, the controls, the ledger and the venue as it found them.
\<close>

theorem eliminated_agents_never_trade:
  assumes "eliminate (ge_roster env) now readable fate fate' code reason (roster_run (ge_roster env) steps (roster_new True slots lab [] [])) = (Inr x, r1)"
    and "af_roster s = roster_run (ge_roster env) steps' r1" and "tasks_use_roster env (\<lambda>_. True)"
    and "submit_for_agent env inp code proposal s = (r, s')"
  shows "af_desk s' = af_desk (ge_between env 1 s) \<and> (r = Inr None \<or> r = Inl DatabaseError \<and> \<not> ai_readable inp)"
proof -
  have "roster_safe {code} r1"
    using contractD(1)[OF eliminate_keeps keeps_run[OF roster_new_safe] assms(1)] by simp
  then have "roster_safe {code} (af_roster s)" unfolding assms(2) by (rule keeps_run)
  then have safe: "roster_safe {code} (af_roster (ge_between env 1 s))" by (rule between_safe[OF assms(3)])
  obtain out l where load: "roster_load (ai_readable inp) (af_roster (ge_between env 1 s)) = (out, l)" by fastforce
  have "\<not> admit code l"
    using keeps_outcome[OF load_keeps subset_refl safe, of "ai_readable inp"] load roster_okD(3)[of l code]
    by (auto simp: admit_def gone_def roster_safe_def split: option.splits)
  moreover have "out = Inr () \<or> out = Inl DatabaseError \<and> \<not> ai_readable inp" using load by (auto simp: roster_load_def split: if_splits)
  ultimately show ?thesis
    using assms(4) load by (auto simp: submit_for_agent_def op_bind_def on_roster_def)
qed


section \<open>Witness\<close>

definition ex_agent_env :: "(nat, memory_ledger, spent, checkpoint_row list) agent_env" where
  "ex_agent_env = \<lparr>ge_desk = ex_desk_env, ge_roster = ex_roster_env,
     ge_settings = \<lparr>ag_pipeline_enabled = True, ag_roster_enabled = True, ag_lab_strategies = False, ag_b3_enabled = False, ag_us_enabled = False,
       ag_market_source = ''BINANCE'', ag_stop_distance = 2 / 100, ag_stop_loss = 1 / 100, ag_take_profit = 0, ag_ema_bar_minutes = 1,
       ag_ema_bar_seconds = 0\<rparr>,
     ge_decimal_text = (\<lambda>_. []), ge_between = (\<lambda>_ s. s)\<rparr>"

definition ex_fates :: fold_fates where
  "ex_fates = \<lparr>ff_readable = True, ff_fold = Saved, ff_retire = Saved, ff_replace = Saved\<rparr>"

definition ex_inputs :: agent_inputs where
  "ex_inputs = \<lparr>ai_now = 1, ai_uuid = ''u'', ai_b3_quote = (\<lambda>_. None), ai_us_quote = (\<lambda>_. None), ai_frames = (\<lambda>_. None), ai_ticker = None,
     ai_reviewer = (\<lambda>_. Inl DatabaseError), ai_orders = (\<lambda>_. Answer []), ai_account = ga_read ex_gathered, ai_gathered = ex_gathered, ai_chain = ex_chain,
     ai_answer = Unavailable '''', ai_dispatched = [], ai_journal_up = True, ai_readable = True, ai_seed_fates = (\<lambda>_. Saved),
     ai_fold_fates = (\<lambda>_. ex_fates), ai_survive_fates = ex_fates, ai_attribute_fate = Saved\<rparr>"

definition ex_floor :: "roster \<Rightarrow> (nat, memory_ledger, spent, checkpoint_row list) agent_floor" where
  "ex_floor r = \<lparr>af_roster = r, af_desk = ex_desk, af_signals = [], af_decisions = [], af_outcomes = [], af_record_failures = 0, af_views = [],
     af_rates = []\<rparr>"

text \<open>After its elimination and a restart the agent's buy, which the desk alone would execute, leaves the desk alone.\<close>

theorem eliminated_agents_never_trade_witness:
  "\<exists>x r1 s'. eliminate ex_roster_env 1 True Saved Saved ''AG-0001-ORION'' ''below the floor'' ex_roster = (Inr x, r1)
     \<and> submit_for_agent ex_agent_env ex_inputs ''AG-0001-ORION'' ex_buy (ex_floor (roster_run ex_roster_env [Roster_Restart] r1)) = (Inr None, s')
     \<and> af_desk s' = ex_desk"
proof -
  obtain x r1 where gone: "eliminate ex_roster_env 1 True Saved Saved ''AG-0001-ORION'' ''below the floor'' ex_roster = (Inr x, r1)"
    using ex_eliminate by (metis prod.collapse sum.collapse(2))
  let ?s = "ex_floor (roster_run ex_roster_env [Roster_Restart] r1)"
  obtain r s' where submit: "submit_for_agent ex_agent_env ex_inputs ''AG-0001-ORION'' ex_buy ?s = (r, s')" by fastforce
  have env: "ge_roster ex_agent_env = ex_roster_env" "ge_between ex_agent_env = (\<lambda>_ s. s)" by (simp_all add: ex_agent_env_def)
  have "tasks_use_roster ex_agent_env (\<lambda>_. True)"
    unfolding tasks_use_roster_def env by (intro allI exI[of _ "[]"]) (simp add: roster_run_def)
  moreover have "af_roster ?s = roster_run (ge_roster ex_agent_env) [Roster_Restart] r1" by (simp add: ex_floor_def env)
  ultimately have "af_desk s' = af_desk ?s \<and> (r = Inr None \<or> r = Inl DatabaseError \<and> \<not> ai_readable ex_inputs)"
    using eliminated_agents_never_trade[of ex_agent_env 1 True Saved Saved "''AG-0001-ORION''" "''below the floor''" ex_roster_steps INITIAL_SLOTS False x r1
        ?s "[Roster_Restart]" ex_inputs ex_buy r s'] gone submit unfolding env ex_roster_def by simp
  moreover have "ai_readable ex_inputs" by (simp add: ex_inputs_def)
  ultimately show ?thesis using gone submit by (auto simp: ex_floor_def)
qed

end
