(* ===== verification/Spec2Isabelle.thy ===== *)
theory Spec2Isabelle
  imports Catalog Governor OMS_Findings Executor Promotion Operational_Journal Watchdog Supervisor Missions OAuth Agent_Surface
begin

text \<open>
  \<^bold>\<open>The program.\<close> PROTO is a trading platform in which agents propose orders and a chain of
  deterministic components decides whether an order may reach a venue. A proposal enters the order
  surface of the API; the surface builds the account view, gathers quotes and the promotion stage and
  asks the risk governor. The risk engine checks the constitutional limits and, on approval, signs a
  permit that is good for one order and a few seconds. The order manager spends the permit, reserves
  cash in the ledger, sends the order to the venue and follows its life; reconciliation compares the
  ledger with what the venue reports and a divergence kills the venue. A separate executor process
  holds the same order manager behind a halt latch; a watchdog process looks at everything from
  outside and can only halt. Kill switches, lockdowns, promotions, jobs and the journal live in
  tables that outlast a process; the job queue runs periodic work behind the risk gate, and a
  read-only MCP endpoint is guarded by its own OAuth server.

  \<^bold>\<open>Theories and sources\<close> (paths under \<^verbatim>\<open>src/\<close>), each importing what it calls:

  \<^item> \<^verbatim>\<open>Prelude\<close>: exceptions as values of \<^verbatim>\<open>exn\<close>, results as \<^verbatim>\<open>exn + 'a\<close>, stateful operations that may raise
    (\<^verbatim>\<open>op_bind\<close>, \<^verbatim>\<open>op_try\<close>), their contracts, the fates of a commit, insertion-ordered dictionaries, instants in microseconds.
  \<^item> \<^verbatim>\<open>Decimal\<close>: Python's \<^verbatim>\<open>decimal\<close> at its default precision of 28 digits: every sum, product and
    quotient is the exact rational rounded half to even. Locale \<^verbatim>\<open>decimal_rounding\<close> has what the clients use of it
    (monotone, odd, idempotent).
  \<^item> \<^verbatim>\<open>Contracts\<close>, \<^verbatim>\<open>Catalog\<close>, \<^verbatim>\<open>Paper_Venue\<close>: \<^verbatim>\<open>services/execution/contracts.py\<close>, \<^verbatim>\<open>constitution.py\<close>,
    \<^verbatim>\<open>catalog.py\<close>, \<^verbatim>\<open>venue.py\<close>: the data with the validators of their constructors, the order life cycle, the
    limits no setting can loosen, and the in-memory venue.
  \<^item> \<^verbatim>\<open>Permits\<close>, \<^verbatim>\<open>Risk_Engine\<close>, \<^verbatim>\<open>Governor\<close>: \<^verbatim>\<open>services/risk/permits.py\<close>, \<^verbatim>\<open>engine.py\<close>, \<^verbatim>\<open>governor.py\<close>,
    \<^verbatim>\<open>control_store.py\<close>. Both signature schemes satisfy the locale \<^verbatim>\<open>permit_verifier\<close>, from which single use follows;
    the governor uses the engine only through the locale \<^verbatim>\<open>risk_gate\<close>.
  \<^item> \<^verbatim>\<open>Ledger\<close>, \<^verbatim>\<open>OMS\<close>, \<^verbatim>\<open>OMS_Findings\<close>: \<^verbatim>\<open>services/oms/ledger.py\<close>, \<^verbatim>\<open>reconciliation.py\<close>, \<^verbatim>\<open>manager.py\<close>,
    \<^verbatim>\<open>store.py\<close>. The in-memory and the SQL ledger interpret the locale \<^verbatim>\<open>ledger_store\<close>; the second refines the first.
  \<^item> \<^verbatim>\<open>Executor\<close>: \<^verbatim>\<open>apps/executor/runtime.py\<close>. Every read of the balances is an input that may fail or differ from the last.
  \<^item> \<^verbatim>\<open>Promotion\<close>: \<^verbatim>\<open>services/promotion/gates.py\<close>, \<^verbatim>\<open>registry.py\<close>.
  \<^item> \<^verbatim>\<open>Json\<close>, \<^verbatim>\<open>Journal\<close>, \<^verbatim>\<open>Operational_Journal\<close>: \<^verbatim>\<open>services/events/journal.py\<close>, \<^verbatim>\<open>journal_store.py\<close> and
    \<^verbatim>\<open>apps/api/app/event_state.py\<close>: the hash chain, its table and the durable-first journal over both.
  \<^item> \<^verbatim>\<open>Watchdog\<close>: \<^verbatim>\<open>services/watchdog/checks.py\<close>, \<^verbatim>\<open>runner.py\<close>.
  \<^item> \<^verbatim>\<open>Orchestration\<close>, \<^verbatim>\<open>Supervisor\<close>, \<^verbatim>\<open>Missions\<close>: \<^verbatim>\<open>services/orchestration/\<close> (\<^verbatim>\<open>runtime.py\<close>, \<^verbatim>\<open>store.py\<close>,
    \<^verbatim>\<open>supervisor.py\<close>, \<^verbatim>\<open>event_triggers.py\<close>, \<^verbatim>\<open>missions.py\<close>, \<^verbatim>\<open>registry.py\<close>) and the in-memory bus of
    \<^verbatim>\<open>services/events/bus.py\<close>.
  \<^item> \<^verbatim>\<open>Account\<close>: the account view of \<^verbatim>\<open>apps/api/app/oms_surface.py\<close> with its equity checkpoints (both stores
    interpret the locale \<^verbatim>\<open>checkpoint_store\<close>; \<^verbatim>\<open>two_stores\<close> shows that clients cannot tell them apart) and the rates of
    \<^verbatim>\<open>fx_rates.py\<close>.
  \<^item> \<^verbatim>\<open>Control_Plane\<close>: \<^verbatim>\<open>apps/api/app/control_state.py\<close> and \<^verbatim>\<open>risk_surface.py\<close>: the governor, its saved document and
    the store's health as one state, with restarts and failures as steps.
  \<^item> \<^verbatim>\<open>Order_Surface\<close>: the rest of \<^verbatim>\<open>oms_surface.py\<close> with \<^verbatim>\<open>executor_client.py\<close>, \<^verbatim>\<open>market_quotes.py\<close>,
    \<^verbatim>\<open>instrument_registry.py\<close> and the execution chain of \<^verbatim>\<open>agent_surface.py\<close>: account view, control plane, risk engine,
    order manager, ledger and venue composed as the code composes them.
  \<^item> \<^verbatim>\<open>Rate_Limiter\<close>, \<^verbatim>\<open>OAuth\<close>: \<^verbatim>\<open>apps/api/app/security.py\<close>, \<^verbatim>\<open>mcp_oauth.py\<close>.
  \<^item> \<^verbatim>\<open>Fusion\<close>: \<^verbatim>\<open>services/agents/fusion.py\<close>, \<^verbatim>\<open>review.py\<close>, \<^verbatim>\<open>pipeline.py\<close>: from the signals in the window to
    a candidate, its review and the proposal. The review by a language model is an argument.
  \<^item> \<^verbatim>\<open>Roster\<close>, \<^verbatim>\<open>Roster_Orders\<close>: \<^verbatim>\<open>services/agents/roster.py\<close>: slots, the virtual books of the trader agents, sizing to
    an agent, and the durable roster with spawning, elimination and attribution of fills. What a view of the orders
    needs in order to be kept by every step is the locale \<^verbatim>\<open>order_view\<close>, interpreted for the attributions and for a counted fill.
  \<^item> \<^verbatim>\<open>Agent_Surface\<close>: \<^verbatim>\<open>apps/api/app/roster_surface.py\<close> and \<^verbatim>\<open>agent_surface.py\<close>: from an accepted signal over the agent
    of its slot, its valuation and survival, the pipeline and the sizing to the desk of \<^verbatim>\<open>Order_Surface\<close>. Locale \<^verbatim>\<open>kept_roster\<close>
    carries an invariant of the roster through an evaluation.
  \<^item> This theory: what the watchdog and the risk engine say of the same account.

  \<^bold>\<open>State and operations.\<close> A class is a \<^verbatim>\<open>record\<close>, a method a function from the state to the state and a result;
  every \<^verbatim>\<open>raise\<close> is an \<^verbatim>\<open>Inl\<close> and keeps the changes made before it. Tables are lists of rows. In
  \<^verbatim>\<open>Control_Plane\<close>, \<^verbatim>\<open>Operational_Journal\<close>, \<^verbatim>\<open>OAuth\<close>, \<^verbatim>\<open>Roster\<close> and \<^verbatim>\<open>Agent_Surface\<close> a commit has one of three fates
  (made, failed, made with the acknowledgement lost), and the fates are inputs; in \<^verbatim>\<open>Executor\<close> this holds for
  the halt row, in \<^verbatim>\<open>Promotion\<close> a write succeeds or fails, and in \<^verbatim>\<open>OMS\<close>, \<^verbatim>\<open>Ledger\<close>, \<^verbatim>\<open>Account\<close> and
  \<^verbatim>\<open>Orchestration\<close> a write succeeds unless it violates a key. What other sessions or requests do while an operation waits is an argument (\<^verbatim>\<open>between\<close>) in
  \<^verbatim>\<open>Control_Plane\<close>, \<^verbatim>\<open>Orchestration\<close> and \<^verbatim>\<open>Agent_Surface\<close>, and in \<^verbatim>\<open>Account\<close> between the read and the write of a
  checkpoint; in the other theories an operation is one step, as it is where the code holds a lock. Each theory says
  at its head which of these it has, and a theorem that needs an undisturbed operation has that as a premise. Runs are inductive relations
  or folds over lists of steps, with restarts among the steps; invariants are proved by rule
  induction over them.

  \<^bold>\<open>What is shown.\<close>

  \<^item> Trading: when a proposal changes the paper venue the order was cleared by permit and ledger, nothing
    in force forbade it and a buy was within the limits; an approval implies every check; an unknown
    account admits no buy; baselines only ratchet under requests that do not overlap on them; a permit is spent once; the submit call of the venue is used
    only for the first submission of an intent; after recovery nothing is in flight; every order
    follows the life cycle.
  \<^item> Agents: a proposal is its candidate or a smaller one, on a fresh quote and within risk budget, room and
    leverage; exits only close; a reviewer that fails stops the trade; sizing to an agent only tightens; the roster stays
    within the reference capital, an eliminated code is final and its proposals reach nothing, a counted fill is never counted
    again, and the order of an agent is attributed to it before the risk engine is asked.
  \<^item> Controls: kill switches, lockdowns and the halt latch stay in force until an operator releases them, across
    failures and restarts; a divergence halts the executor and, with the automatic kill on, stops the venue; the watchdog halts
    every target concerned and on accounts with positive baselines is not looser than the risk engine.
  \<^item> Records: the ledger holds exactly the accepted batches; the journal verifies in every
    reachable state, and equal heads mean equal histories or a collision between two of their events; stages rise only through
    their gates and the registry survives restarts.
  \<^item> Jobs: the gate precedes the handler, rows keep their contract under serialised transactions, the drain loop stops, due jobs are attempted, missions
    enter once.
  \<^item> Access: tokens go back to an approval by the operator, codes work once, restarts
    restore grants, the limiter is a sliding window.
  \<^item> Where the code departs from its documentation the departure is a lemma: a completing fill refused for rounding, a fill
    counted twice after a crash, an unreadable account that never trips the watchdog, a late failure that reopens a
    finished job, an event lost when its enqueue raises, releases undone or hidden by a failed save, a
    revocation undone by a restart, one token too many, leverage measured at the ask, a fill of an agent dropped and
    spawning blocked after an acknowledgement is lost, a peak forgotten by overlapping reads, a halt lifted by a release that
    ended with an error, baselines the watchdog does not look at.

  \<^bold>\<open>Parameters and bounds.\<close> SHA-256, HMAC, Ed25519, fingerprints, the \<^verbatim>\<open>isoformat\<close> and decimal texts, ISO parsing, local
  clocks, \<^verbatim>\<open>urlsplit\<close>, \<^verbatim>\<open>parse_qsl\<close>, random tokens, job handlers, language models, quote feeds and the answers of
  the network are arguments of the definitions; where a theorem needs a fact about one of them (a
  signature is bound to its text, fresh tokens are fresh) it is a named premise with a witness. A decimal is the
  rational it stands for: the exponent limits of \<^verbatim>\<open>decimal\<close> are not modelled, and the text of a decimal in a ledger
  mark is taken by value. Floats (delays, rates, seconds) are exact rationals; the scores of the fusion go through
  the rounding of doubles, which is an argument (\<^verbatim>\<open>float_ops\<close>). One operation reads the clock
  once. JSON text that is only stored and read back is kept as its document. No definition has fuel: the
  one loop that may not end, the drain loop \<^verbatim>\<open>run_due\<close>, is a \<^verbatim>\<open>partial_function\<close> that is proved to return.

  \<^bold>\<open>Not modelled.\<close> Rendering, web pages, settings and read-only views (no state); network clients of Binance,
  XP, Alpaca and Redis (their answers are inputs); the research, quant and validation packages and the
  strategies that emit signals (floating-point statistics without an exact specification: whatever they
  propose passes through the modelled path); asyncio scheduling itself (of its interleavings only
  the \<^verbatim>\<open>between\<close> arguments); schema creation, logs and operational drills.
\<close>

section \<open>The watchdog and the risk engine\<close>

lemma loss_beyond_fraction:
  assumes "0 < baseline"
  shows "loss_beyond equity baseline cap limit \<longleftrightarrow> limit \<le> loss_fraction cap baseline equity"
proof -
  have "dsub equity baseline = - dsub baseline equity" using dec_fix_minus[of "baseline - equity"] by (simp add: dsub_def)
  then have "dec_fix (dsub equity baseline / min baseline cap) = - dec_fix (dsub baseline equity / min baseline cap)"
    by (simp add: dec_fix_minus)
  then show ?thesis using assms by (simp add: loss_beyond_def loss_fraction_def)
qed

lemma limit_values:
  assumes "limits_new lm = Inr lm'"
  shows "max_daily_loss lm \<le> MAX_DAILY_LOSS" "max_drawdown lm \<le> MAX_DRAWDOWN"
    "lm_daily_loss_fraction lm = 1 \<Longrightarrow> max_daily_loss lm = MAX_DAILY_LOSS"
    "lm_drawdown_fraction lm = 1 \<Longrightarrow> max_drawdown lm = MAX_DRAWDOWN"
proof -
  have grid: "dec_fix MAX_DAILY_LOSS = MAX_DAILY_LOSS" "dec_fix MAX_DRAWDOWN = MAX_DRAWDOWN"
    by code_simp+
  have le: "dec_fix (x * f) \<le> dec_fix x" if "0 < x" "f \<le> 1" for x f :: rat
    by (rule dec_fix_mono) (use that in \<open>simp add: mult_left_le\<close>)
  have "lm_daily_loss_fraction lm \<le> 1" "lm_drawdown_fraction lm \<le> 1" using assms by (auto simp: limits_new_def split: if_splits)
  then show "max_daily_loss lm \<le> MAX_DAILY_LOSS" "max_drawdown lm \<le> MAX_DRAWDOWN"
    using le[of MAX_DAILY_LOSS] le[of MAX_DRAWDOWN] grid
    by (simp_all add: max_daily_loss_def max_drawdown_def dmul_def constitution)
  show "lm_daily_loss_fraction lm = 1 \<Longrightarrow> max_daily_loss lm = MAX_DAILY_LOSS"
    "lm_drawdown_fraction lm = 1 \<Longrightarrow> max_drawdown lm = MAX_DRAWDOWN"
    using grid by (simp_all add: max_daily_loss_def max_drawdown_def dmul_def)
qed

text \<open>The watchdog reads from the API's answer the account that the risk engine has.\<close>

definition reads_account :: "watchdog_env \<Rightarrow> json_dict \<Rightarrow> account_state \<Rightarrow> bool" where
  "reads_account env d a \<longleftrightarrow> dec_of env (jget d ''equity'') = Some (ac_equity a)
     \<and> dec_of env (jget d ''start_of_day_equity'') = Some (ac_start_of_day_equity a)
     \<and> dec_of env (jget d ''peak_equity'') = Some (ac_peak_equity a)
     \<and> dec_of env (jget d ''reference_capital'') = Some (ac_reference_capital a)"

lemma run_check_once:
  "cs_trips (run_check name failing 1 reason s) = cs_trips s @ (if failing then [reason] else [])"
  by (simp add: run_check_def sustained_def Let_def)

lemma check_account_reads:
  assumes "reads_account env d a" "0 < ac_start_of_day_equity a" "0 < ac_peak_equity a"
  shows "cs_trips (check_account env lm (asset, JObj d) s) = cs_trips s
    @ (if max_daily_loss lm \<le> loss_fraction (breach_cap a) (ac_start_of_day_equity a) (ac_equity a) then [''daily_loss:'' @ asset] else [])
    @ (if max_drawdown lm \<le> loss_fraction (breach_cap a) (ac_peak_equity a) (ac_equity a) then [''drawdown:'' @ asset] else [])"
proof -
  have "account_cap (Some (ac_reference_capital a)) = breach_cap a" by (simp add: account_cap_def breach_cap_def min_def)
  then show ?thesis using assms
    by (simp add: check_account_def check_equities_def reads_account_def Let_def run_check_once loss_beyond_fraction)
qed

text \<open>
  An account whose start of day or peak is not positive is in breach for the risk engine, while the
  watchdog leaves the corresponding check out.
\<close>

lemma nonpositive_baselines_unwatched:
  assumes "reads_account env d a" "ac_start_of_day_equity a \<le> 0" "ac_peak_equity a \<le> 0"
  shows "evaluate_breach a = Some DAILY_LOSS \<and> cs_trips (check_account env lm (asset, JObj d) s) = cs_trips s"
  using assms
  by (simp add: check_account_def check_equities_def reads_account_def Let_def evaluate_breach_def account_breach_def
      loss_fraction_def constitution)

text \<open>
  Both measure a loss against the smaller of the baseline and the capital, not against the baseline: an
  account of 20,000 that lost 150, three quarters of a percent of it, is in breach for both.
\<close>

definition large_account :: account_state where
  "large_account = ex_account\<lparr>ac_equity := 19850, ac_start_of_day_equity := 20000, ac_peak_equity := 20000\<rparr>"

definition large_json :: json_dict where
  "large_json = [(''equity'', JInt 19850), (''start_of_day_equity'', JInt 20000), (''peak_equity'', JInt 20000),
     (''reference_capital'', JInt 10000)]"

lemma loss_measured_against_capital:
  "(19850 :: rat) / 20000 - 1 > - MAX_DAILY_LOSS \<and> evaluate_breach large_account = Some DAILY_LOSS
   \<and> cs_trips (check_account ex_wd default_limits (''BRL'', JObj large_json) \<lparr>cs_misses = [], cs_trips = [], cs_status = []\<rparr>)
       = [''daily_loss:BRL'']"
  by code_simp

text \<open>
  C30: On accounts with positive baselines the watchdog is not looser than the risk engine. When both the
  start of day and the peak are positive and the watchdog reads the account as the risk engine has it, the
  watchdog's account check trips whenever the risk engine finds a constitutional breach, for every valid
  choice of tighter limits; with the limits as they are by default it trips exactly then. On an account
  whose baselines are not positive it is looser (\<open>nonpositive_baselines_unwatched\<close>).
\<close>

theorem watchdog_no_looser_than_risk_engine:
  assumes "limits_new lm = Inr lm" "reads_account env d a" "0 < ac_start_of_day_equity a" "0 < ac_peak_equity a"
  shows "(evaluate_breach a \<noteq> None \<longrightarrow>
      {''daily_loss:'' @ asset, ''drawdown:'' @ asset} \<inter> set (cs_trips (check_account env lm (asset, JObj d) s)) \<noteq> {})
    \<and> (lm_daily_loss_fraction lm = 1 \<and> lm_drawdown_fraction lm = 1 \<longrightarrow>
        (evaluate_breach a \<noteq> None \<longleftrightarrow> cs_trips (check_account env lm (asset, JObj d) s) \<noteq> cs_trips s))"
  using limit_values[OF assms(1)] unfolding check_account_reads[OF assms(2-4)]
  by (auto simp: evaluate_breach_def account_breach_def Let_def)

definition lost_account :: account_state where
  "lost_account = ex_account\<lparr>ac_equity := 9900\<rparr>"

definition lost_json :: json_dict where
  "lost_json = [(''equity'', JInt 9900), (''start_of_day_equity'', JInt 10000), (''peak_equity'', JInt 10200),
     (''reference_capital'', JInt 10000)]"

theorem watchdog_no_looser_than_risk_engine_witness:
  "evaluate_breach lost_account \<noteq> None
   \<and> {''daily_loss:BRL'', ''drawdown:BRL''} \<inter> set (cs_trips (check_account ex_wd default_limits (''BRL'', JObj lost_json)
       \<lparr>cs_misses = [], cs_trips = [], cs_status = []\<rparr>)) \<noteq> {}"
proof -
  have breach: "evaluate_breach lost_account \<noteq> None" by code_simp
  have "limits_new default_limits = Inr default_limits" by (simp add: limits_new_def default_limits_def)
  moreover have "reads_account ex_wd lost_json lost_account"
    by (simp add: reads_account_def lost_json_def lost_account_def ex_account_def dec_of_def jget_def)
  moreover have "0 < ac_start_of_day_equity lost_account" "0 < ac_peak_equity lost_account"
    by (simp_all add: lost_account_def ex_account_def)
  ultimately show ?thesis
    using watchdog_no_looser_than_risk_engine[of default_limits ex_wd lost_json lost_account "''BRL''"] breach by simp
qed

end
